(* ===== verification/Xelis_Prelude.thy ===== *)
theory Xelis_Prelude
  imports Main "HOL-Library.Word"
begin

text \<open>
  Shared vocabulary of the development: the machine integers of the Rust sources, results
  (\<open>Result\<close> as a sum with the error on the left), loops that stop at the first error,
  insertion-ordered sets (\<open>IndexSet\<close>), big-endian byte strings, UTF-8 validity, and the
  256-bit integers behind \<open>VarUint\<close>, whose arithmetic panics on overflow.

  Conventions. A \<open>u64\<close> is a \<open>64 word\<close>: its arithmetic wraps, as it does in the
  release profiles of the workspace (overflow checks are off). A \<open>usize\<close> that counts the
  elements of an in-memory buffer is a \<open>nat\<close>. A panic is \<open>None\<close>.
\<close>

section \<open>Machine integers and automation\<close>

type_synonym u8 = "8 word"
type_synonym u16 = "16 word"
type_synonym u32 = "32 word"
type_synonym u64 = "64 word"
type_synonym u128 = "128 word"
type_synonym u256 = "256 word"

named_theorems result_simps \<open>inversion of results that are values\<close>

lemma unat_u8_less: "unat (w :: u8) < 2 ^ 8"
  using unsigned_less [of w, where ?'a = nat] by simp

lemma unat_u16_less: "unat (w :: u16) < 2 ^ 16"
  using unsigned_less [of w, where ?'a = nat] by simp

lemma unat_u64_less: "unat (w :: u64) < 2 ^ 64"
  using unsigned_less [of w, where ?'a = nat] by simp

lemma unat_u64: "m < 2 ^ 64 \<Longrightarrow> unat (of_nat m :: u64) = m"
  by (simp add: unat_of_nat)

lemma unat_drop_bit: "unat (drop_bit n w) = unat w div 2 ^ n"
  by (simp only: unat_drop_bit_eq) (simp only: drop_bit_eq_div)

section \<open>Results\<close>

text \<open>The \<open>?\<close> operator on a \<open>Result\<close>.\<close>

definition result_bind :: "'e + 'a \<Rightarrow> ('a \<Rightarrow> 'e + 'b) \<Rightarrow> 'e + 'b" where
  "result_bind m f = (case m of Inl e \<Rightarrow> Inl e | Inr x \<Rightarrow> f x)"

definition map_err :: "('e \<Rightarrow> 'f) \<Rightarrow> 'e + 'a \<Rightarrow> 'f + 'a" where
  "map_err f m = (case m of Inl e \<Rightarrow> Inl (f e) | Inr x \<Rightarrow> Inr x)"

lemma map_err_simps [simp]: "map_err f (Inl e) = Inl (f e)" "map_err f (Inr x) = Inr x"
  by (simp_all add: map_err_def)

lemma map_err_eq_Inr [result_simps]: "map_err f m = Inr x \<longleftrightarrow> m = Inr x"
  by (cases m) simp_all

lemma result_bind_Inl [simp]: "result_bind (Inl e) f = Inl e"
  by (simp add: result_bind_def)

lemma result_bind_Inr [simp]: "result_bind (Inr x) f = f x"
  by (simp add: result_bind_def)

lemma result_bind_eq_Inr [result_simps]:
  "result_bind m f = Inr y \<longleftrightarrow> (\<exists>x. m = Inr x \<and> f x = Inr y)"
  by (cases m) auto

lemma result_bind_eq_Inl [result_simps]:
  "result_bind m f = Inl e \<longleftrightarrow> m = Inl e \<or> (\<exists>x. m = Inr x \<and> f x = Inl e)"
  by (cases m) auto

text \<open>A lookup that is turned into an error when nothing is found (\<open>ok_or\<close>).\<close>

definition ok_or :: "'a option \<Rightarrow> 'e \<Rightarrow> 'e + 'a" where
  "ok_or m e = (case m of None \<Rightarrow> Inl e | Some x \<Rightarrow> Inr x)"

lemma ok_or_simps [simp]: "ok_or None e = Inl e" "ok_or (Some x) e = Inr x"
  by (simp_all add: ok_or_def)

lemma ok_or_eq_Inr [result_simps]: "ok_or m e = Inr x \<longleftrightarrow> m = Some x"
  by (cases m) auto

text \<open>A \<open>for\<close> loop whose body may fail, and the loop that collects what the body returns.\<close>

fun fold_result :: "('a \<Rightarrow> 's \<Rightarrow> 'e + 's) \<Rightarrow> 'a list \<Rightarrow> 's \<Rightarrow> 'e + 's" where
  "fold_result f [] s = Inr s"
| "fold_result f (x # xs) s = result_bind (f x s) (fold_result f xs)"

fun map_result :: "('a \<Rightarrow> 'e + 'b) \<Rightarrow> 'a list \<Rightarrow> 'e + 'b list" where
  "map_result f [] = Inr []"
| "map_result f (x # xs) = result_bind (f x) (\<lambda>y. result_bind (map_result f xs) (\<lambda>ys. Inr (y # ys)))"

lemma fold_result_append:
  "fold_result f (xs @ ys) s = result_bind (fold_result f xs s) (fold_result f ys)"
  by (induction xs arbitrary: s) (auto simp: result_bind_def split: sum.splits)

lemma fold_result_invariant:
  assumes "fold_result f xs s = Inr s'" and "P s"
    and "\<And>x s s'. x \<in> set xs \<Longrightarrow> P s \<Longrightarrow> f x s = Inr s' \<Longrightarrow> P s'"
  shows "P s'"
  using assms
proof (induction xs arbitrary: s)
  case Nil
  then show ?case by simp
next
  case (Cons x xs)
  then obtain t where "f x s = Inr t" "fold_result f xs t = Inr s'"
    by (auto simp: result_bind_eq_Inr)
  with Cons.IH [of t] Cons.prems show ?case by (meson list.set_intros)
qed

lemma map_result_eq_Inr [result_simps]:
  "map_result f xs = Inr ys \<longleftrightarrow> list_all2 (\<lambda>x y. f x = Inr y) xs ys"
  by (induction xs arbitrary: ys)
     (auto simp: result_bind_eq_Inr list_all2_Cons1)

lemma map_result_Inr_map:
  "(\<And>x. x \<in> set xs \<Longrightarrow> f x = Inr (g x)) \<Longrightarrow> map_result f xs = Inr (map g xs)"
  by (induction xs) auto

section \<open>Insertion-ordered sets and maps\<close>

text \<open>
  \<open>IndexSet::insert\<close> appends an absent element and returns whether it did; the set is the
  list of its elements in insertion order. \<open>IndexMap::insert\<close> replaces the value of a key
  that is present, in place, and appends an absent one.
\<close>

definition index_set_insert :: "'a \<Rightarrow> 'a list \<Rightarrow> bool \<times> 'a list" where
  "index_set_insert x xs = (if x \<in> set xs then (False, xs) else (True, xs @ [x]))"

definition index_set_extend :: "'a list \<Rightarrow> 'a list \<Rightarrow> 'a list" where
  "index_set_extend xs ys = foldl (\<lambda>s y. snd (index_set_insert y s)) xs ys"

fun index_map_insert :: "'k \<Rightarrow> 'v \<Rightarrow> ('k \<times> 'v) list \<Rightarrow> ('k \<times> 'v) list" where
  "index_map_insert k v [] = [(k, v)]"
| "index_map_insert k v ((k', v') # m) =
     (if k = k' then (k, v) # m else (k', v') # index_map_insert k v m)"

lemma distinct_index_set_insert:
  "distinct xs \<Longrightarrow> distinct (snd (index_set_insert x xs))"
  by (simp add: index_set_insert_def)

lemma set_index_set_insert [simp]: "set (snd (index_set_insert x xs)) = insert x (set xs)"
  by (auto simp: index_set_insert_def)

lemma index_set_extend_simps [simp]:
  "index_set_extend xs [] = xs"
  "index_set_extend xs (y # ys) = index_set_extend (snd (index_set_insert y xs)) ys"
  by (simp_all add: index_set_extend_def)

lemma set_index_set_extend [simp]: "set (index_set_extend xs ys) = set xs \<union> set ys"
  by (induction ys arbitrary: xs) auto

lemma distinct_index_set_extend: "distinct xs \<Longrightarrow> distinct (index_set_extend xs ys)"
  by (induction ys arbitrary: xs) (auto simp: distinct_index_set_insert)

lemma index_set_extend_distinct:
  "distinct (xs @ ys) \<Longrightarrow> index_set_extend xs ys = xs @ ys"
  by (induction ys arbitrary: xs) (auto simp: index_set_insert_def)

lemma map_of_index_map_insert: "map_of (index_map_insert k v m) = (map_of m)(k \<mapsto> v)"
  by (induction m) (auto simp: fun_eq_iff)

lemma keys_index_map_insert:
  "map fst (index_map_insert k v m) =
     (if k \<in> fst ` set m then map fst m else map fst m @ [k])"
  by (induction m) (auto simp: rev_image_eqI)

lemma index_map_insert_new: "k \<notin> fst ` set m \<Longrightarrow> index_map_insert k v m = m @ [(k, v)]"
  by (induction m) auto

lemma distinct_index_map_insert:
  "distinct (map fst m) \<Longrightarrow> distinct (map fst (index_map_insert k v m))"
  by (auto simp: keys_index_map_insert)

section \<open>Big-endian bytes\<close>

fun nat_to_be :: "nat \<Rightarrow> nat \<Rightarrow> u8 list" where
  "nat_to_be 0 v = []"
| "nat_to_be (Suc n) v = nat_to_be n (v div 256) @ [of_nat v]"

definition nat_from_be :: "u8 list \<Rightarrow> nat" where
  "nat_from_be bs = foldl (\<lambda>a b. a * 256 + unat b) 0 bs"

text \<open>\<open>to_be_bytes\<close> and \<open>from_be_bytes\<close> of an integer of \<open>LENGTH('a)\<close> bits.\<close>

definition to_be_bytes :: "'a::len word \<Rightarrow> u8 list" where
  "to_be_bytes w = nat_to_be (LENGTH('a) div 8) (unat w)"

definition from_be_bytes :: "u8 list \<Rightarrow> 'a::len word" where
  "from_be_bytes bs = of_nat (nat_from_be bs)"

lemma nat_from_be_simps [simp]:
  "nat_from_be [] = 0" "nat_from_be (bs @ [b]) = nat_from_be bs * 256 + unat b"
  by (simp_all add: nat_from_be_def)

lemma nat_from_be_zeros: "nat_from_be (replicate n 0 @ bs) = nat_from_be bs"
  by (induction n) (simp_all add: nat_from_be_def)

lemma length_nat_to_be [simp]: "length (nat_to_be n v) = n"
  by (induction n arbitrary: v) auto

lemma unat_of_nat_u8: "unat (of_nat v :: u8) = v mod 256"
  by (simp add: unat_of_nat)

lemma nat_from_to_be: "nat_from_be (nat_to_be n v) = v mod 256 ^ n"
proof (induction n arbitrary: v)
  case 0
  then show ?case by simp
next
  case (Suc n)
  have "v mod 256 ^ Suc n = 256 * (v div 256 mod 256 ^ n) + v mod 256"
    by (simp add: mod_mult2_eq)
  with Suc show ?case by (simp add: unat_of_nat_u8)
qed

lemma nat_from_be_less: "nat_from_be bs < 256 ^ length bs"
proof (induction bs rule: rev_induct)
  case Nil
  then show ?case by simp
next
  case (snoc b bs)
  have "unat b < 256" using unsigned_less [of b] by simp
  with snoc show ?case by simp
qed

lemma nat_to_from_be: "nat_to_be (length bs) (nat_from_be bs) = bs"
proof (induction bs rule: rev_induct)
  case Nil
  then show ?case by simp
next
  case (snoc b bs)
  have b: "unat b < 256" using unsigned_less [of b] by simp
  have "(nat_from_be bs * 256 + unat b) div 256 = nat_from_be bs"
    using b by simp
  moreover have "(of_nat (nat_from_be bs * 256 + unat b) :: u8) = b"
    using b by (intro word_unat_eq_iff [THEN iffD2]) (simp only: unat_of_nat_u8, simp)
  ultimately show ?case using snoc by simp
qed

lemma length_to_be_bytes [simp]: "length (to_be_bytes (w :: 'a::len word)) = LENGTH('a) div 8"
  by (simp add: to_be_bytes_def)

lemma from_to_be_bytes:
  fixes w :: "'a::len word"
  assumes "LENGTH('a) = 8 * n"
  shows "from_be_bytes (to_be_bytes w) = w"
proof -
  have "(256::nat) ^ n = 2 ^ LENGTH('a)"
    by (simp add: assms power_mult)
  moreover have "unat w < 2 ^ LENGTH('a)"
    by (rule unsigned_less)
  ultimately show ?thesis
    by (simp add: from_be_bytes_def to_be_bytes_def nat_from_to_be assms)
qed

lemma to_from_be_bytes:
  assumes "length bs = n" and "LENGTH('a::len) = 8 * n"
  shows "to_be_bytes (from_be_bytes bs :: 'a word) = bs"
proof -
  have "(2::nat) ^ LENGTH('a) = 256 ^ n"
    by (simp add: assms(2) power_mult)
  then have "unat (of_nat (nat_from_be bs) :: 'a word) = nat_from_be bs"
    using nat_from_be_less [of bs] assms(1) by (simp add: unat_of_nat)
  then show ?thesis
    using nat_to_from_be [of bs] assms by (simp add: to_be_bytes_def from_be_bytes_def)
qed

end
