(* ===== verification/Serializer.thy ===== *)
theory Serializer
  imports Xelis_Prelude
begin

text \<open>
  The hand-written binary format of \<open>xelis_common/src/serializer\<close>: the \<open>Reader\<close> and
  \<open>Writer\<close> with their primitive operations, and the \<open>Serializer\<close> implementations for
  integers, options, vectors, ordered sets and maps, tuples, strings and socket addresses.

  A \<open>write\<close> method only appends to the writer's buffer, so it is modelled by the bytes it
  appends; the writer record ties this to the buffer. A \<open>read\<close> method is a function from the
  reader to an error or a value and the advanced reader. The locale \<open>codec\<close> is the contract
  between the two that every \<open>Serializer\<close> implementation promises: reading what was written
  gives the value back and consumes exactly its bytes, and \<open>size\<close> announces how many there
  are. The locale \<open>canonical_codec\<close> adds that no other byte string is accepted for the value.
\<close>

section \<open>Reader errors, context, reader and writer\<close>

datatype reader_error =
  InvalidSize | InvalidValue | InvalidHex | ErrorTryInto | TryFromSliceError | AnyError

text \<open>\<open>TxVersion\<close> is the only type that is stored in a reader's context.\<close>

datatype tx_version = TxV0 | TxV1 | TxV2

instantiation tx_version :: linorder
begin

fun tx_version_ord :: "tx_version \<Rightarrow> nat" where
  "tx_version_ord TxV0 = 0" | "tx_version_ord TxV1 = 1" | "tx_version_ord TxV2 = 2"

definition less_eq_tx_version :: "tx_version \<Rightarrow> tx_version \<Rightarrow> bool" where
  "less_eq_tx_version a b = (tx_version_ord a \<le> tx_version_ord b)"

definition less_tx_version :: "tx_version \<Rightarrow> tx_version \<Rightarrow> bool" where
  "less_tx_version a b = (tx_version_ord a < tx_version_ord b)"

instance
proof
  fix x y :: tx_version
  show "x \<le> y \<Longrightarrow> y \<le> x \<Longrightarrow> x = y"
    by (cases x; cases y) (simp_all add: less_eq_tx_version_def)
qed (auto simp: less_eq_tx_version_def less_tx_version_def)

end

text \<open>
  \<open>Context\<close> maps a type to one stored value of it; the reader's context has one slot, the
  transaction version. \<open>store\<close> overwrites the slot, \<open>get_copy\<close> fails on an empty one.
\<close>

record read_context =
  ctx_tx_version :: "tx_version option"

definition context_default :: read_context where
  "context_default = \<lparr>ctx_tx_version = None\<rparr>"

definition context_store :: "tx_version \<Rightarrow> read_context \<Rightarrow> read_context" where
  "context_store v c = c\<lparr>ctx_tx_version := Some v\<rparr>"

definition context_get_copy :: "read_context \<Rightarrow> reader_error + tx_version" where
  "context_get_copy c = ok_or (ctx_tx_version c) AnyError"

record reader =
  rbytes :: "u8 list"
  rtotal :: nat
  rcontext :: read_context

type_synonym 'a parser = "reader \<Rightarrow> reader_error + 'a \<times> reader"

definition reader_with_context :: "u8 list \<Rightarrow> read_context \<Rightarrow> reader" where
  "reader_with_context bs c = \<lparr>rbytes = bs, rtotal = 0, rcontext = c\<rparr>"

definition reader_new :: "u8 list \<Rightarrow> reader" where
  "reader_new bs = reader_with_context bs context_default"

definition reader_total_size :: "reader \<Rightarrow> nat" where
  "reader_total_size r = length (rbytes r)"

definition reader_size :: "reader \<Rightarrow> nat" where
  "reader_size r = length (rbytes r) - rtotal r"

definition reader_total_read :: "reader \<Rightarrow> nat" where
  "reader_total_read r = rtotal r"

text \<open>\<open>rbytes - total\<close> must not underflow: the invariant of the reader.\<close>

definition reader_ok :: "reader \<Rightarrow> bool" where
  "reader_ok r \<longleftrightarrow> rtotal r \<le> length (rbytes r)"

text \<open>The \<open>?\<close> operator for readers, and \<open>Ok\<close> and \<open>Err\<close>.\<close>

definition rbind :: "'a parser \<Rightarrow> ('a \<Rightarrow> 'b parser) \<Rightarrow> 'b parser" where
  "rbind m k r = result_bind (m r) (\<lambda>(x, r'). k x r')"

definition rreturn :: "'a \<Rightarrow> 'a parser" where
  "rreturn x r = Inr (x, r)"

definition rfail :: "reader_error \<Rightarrow> 'a parser" where
  "rfail e r = Inl e"

definition reader_skip :: "nat \<Rightarrow> unit parser" where
  "reader_skip n r =
     (if n > reader_size r then Inl InvalidSize else Inr ((), r\<lparr>rtotal := rtotal r + n\<rparr>))"

definition read_u8 :: "u8 parser" where
  "read_u8 r =
     (if reader_size r = 0 then Inl InvalidSize
      else Inr (rbytes r ! rtotal r, r\<lparr>rtotal := rtotal r + 1\<rparr>))"

text \<open>
  \<open>read_bytes\<close> at a type whose conversion from a slice of \<open>n\<close> bytes succeeds (an array of
  \<open>n\<close> bytes or a vector), which is how the sources call it; \<open>read_bytes_ref\<close> is the same.
\<close>

definition read_bytes :: "nat \<Rightarrow> u8 list parser" where
  "read_bytes n r =
     (if n > reader_size r then Inl InvalidSize
      else Inr (take n (drop (rtotal r) (rbytes r)), r\<lparr>rtotal := rtotal r + n\<rparr>))"

definition read_bool :: "bool parser" where
  "read_bool = rbind read_u8 (\<lambda>b.
     if b = 0 then rreturn False else if b = 1 then rreturn True else rfail InvalidValue)"

definition read_u16 :: "u16 parser" where
  "read_u16 = rbind (read_bytes 2) (\<lambda>bs. rreturn (from_be_bytes bs))"

definition read_u32 :: "u32 parser" where
  "read_u32 = rbind (read_bytes 4) (\<lambda>bs. rreturn (from_be_bytes bs))"

definition read_u64 :: "u64 parser" where
  "read_u64 = rbind (read_bytes 8) (\<lambda>bs. rreturn (from_be_bytes bs))"

definition read_u128 :: "u128 parser" where
  "read_u128 = rbind (read_bytes 16) (\<lambda>bs. rreturn (from_be_bytes bs))"

text \<open>A Rust \<open>String\<close> is its UTF-8 bytes; \<open>String::from_utf8\<close> checks that they are well-formed.\<close>

definition utf8_cont :: "u8 \<Rightarrow> bool" where
  "utf8_cont b \<longleftrightarrow> 0x80 \<le> b \<and> b \<le> 0xBF"

fun valid_utf8 :: "u8 list \<Rightarrow> bool" where
  "valid_utf8 [] = True"
| "valid_utf8 (a # bs) =
    (if a < 0x80 then valid_utf8 bs
     else if 0xC2 \<le> a \<and> a \<le> 0xDF then
       (case bs of b # bs' \<Rightarrow> utf8_cont b \<and> valid_utf8 bs' | _ \<Rightarrow> False)
     else if 0xE0 \<le> a \<and> a \<le> 0xEF then
       (case bs of b # c # bs' \<Rightarrow>
          (if a = 0xE0 then 0xA0 \<le> b \<and> b \<le> 0xBF
           else if a = 0xED then 0x80 \<le> b \<and> b \<le> 0x9F else utf8_cont b) \<and>
          utf8_cont c \<and> valid_utf8 bs'
        | _ \<Rightarrow> False)
     else if 0xF0 \<le> a \<and> a \<le> 0xF4 then
       (case bs of b # c # d # bs' \<Rightarrow>
          (if a = 0xF0 then 0x90 \<le> b \<and> b \<le> 0xBF
           else if a = 0xF4 then 0x80 \<le> b \<and> b \<le> 0x8F else utf8_cont b) \<and>
          utf8_cont c \<and> utf8_cont d \<and> valid_utf8 bs'
        | _ \<Rightarrow> False)
     else False)"

type_synonym rust_string = "u8 list"

definition read_string_with_size :: "nat \<Rightarrow> rust_string parser" where
  "read_string_with_size n = rbind (read_bytes n) (\<lambda>bs.
     if valid_utf8 bs then rreturn bs else rfail InvalidValue)"

definition read_string :: "rust_string parser" where
  "read_string = rbind read_u8 (\<lambda>n. read_string_with_size (unat n))"

definition read_optional_string :: "rust_string option parser" where
  "read_optional_string = rbind read_u8 (\<lambda>n.
     if n = 0 then rreturn None
     else rbind (read_string_with_size (unat n)) (\<lambda>s. rreturn (Some s)))"

definition read_optional_non_zero_u8 :: "u8 option parser" where
  "read_optional_non_zero_u8 = rbind read_u8 (\<lambda>b.
     if b = 0 then rreturn None else rreturn (Some b))"

definition read_optional_non_zero_u16 :: "u16 option parser" where
  "read_optional_non_zero_u16 = rbind read_u16 (\<lambda>b.
     if b = 0 then rreturn None else rreturn (Some b))"

definition read_optional_non_zero_u64 :: "u64 option parser" where
  "read_optional_non_zero_u64 = rbind read_u64 (\<lambda>b.
     if b = 0 then rreturn None else rreturn (Some b))"

text \<open>A \<open>Hash\<close> is 32 bytes, compared lexicographically (the derived order of the array).\<close>

type_synonym hash = "u8 list"

definition HASH_SIZE :: nat where
  "HASH_SIZE = 32"

definition hash_ok :: "hash \<Rightarrow> bool" where
  "hash_ok h \<longleftrightarrow> length h = HASH_SIZE"

definition hash_zero :: hash where
  "hash_zero = replicate HASH_SIZE 0"

definition hash_max :: hash where
  "hash_max = replicate HASH_SIZE 255"

definition read_hash :: "hash parser" where
  "read_hash = read_bytes 32"

subsection \<open>The writer\<close>

record writer =
  wbytes :: "u8 list"
  wlen :: nat

definition writer_new :: "u8 list \<Rightarrow> writer" where
  "writer_new bs = \<lparr>wbytes = bs, wlen = length bs\<rparr>"

definition write_bytes :: "u8 list \<Rightarrow> writer \<Rightarrow> writer" where
  "write_bytes bs w = w\<lparr>wbytes := wbytes w @ bs\<rparr>"

definition total_write :: "writer \<Rightarrow> nat" where
  "total_write w = length (wbytes w) - wlen w"

definition write_u8 :: "u8 \<Rightarrow> u8 list" where
  "write_u8 b = [b]"

definition write_bool :: "bool \<Rightarrow> u8 list" where
  "write_bool b = [if b then 1 else 0]"

definition write_u16 :: "u16 \<Rightarrow> u8 list" where
  "write_u16 v = to_be_bytes v"

definition write_u32 :: "u32 \<Rightarrow> u8 list" where
  "write_u32 v = to_be_bytes v"

definition write_u64 :: "u64 \<Rightarrow> u8 list" where
  "write_u64 v = to_be_bytes v"

definition write_u128 :: "u128 \<Rightarrow> u8 list" where
  "write_u128 v = to_be_bytes v"

definition write_hash :: "hash \<Rightarrow> u8 list" where
  "write_hash h = h"

text \<open>The length byte is the length modulo 256, and at most 255 bytes of the string follow.\<close>

definition write_string :: "rust_string \<Rightarrow> u8 list" where
  "write_string s = [of_nat (length s)] @ take 255 s"

definition write_optional_string :: "rust_string option \<Rightarrow> u8 list" where
  "write_optional_string m = (case m of Some s \<Rightarrow> write_string s | None \<Rightarrow> [0])"

definition write_optional_non_zero_u8 :: "u8 option \<Rightarrow> u8 list" where
  "write_optional_non_zero_u8 m = [case m of Some v \<Rightarrow> v | None \<Rightarrow> 0]"

definition write_optional_non_zero_u16 :: "u16 option \<Rightarrow> u8 list" where
  "write_optional_non_zero_u16 m = write_u16 (case m of Some v \<Rightarrow> v | None \<Rightarrow> 0)"

definition write_optional_non_zero_u64 :: "u64 option \<Rightarrow> u8 list" where
  "write_optional_non_zero_u64 m = write_u64 (case m of Some v \<Rightarrow> v | None \<Rightarrow> 0)"

text \<open>
  The provided methods of the trait: \<open>to_bytes\<close>, the default \<open>size\<close> and \<open>from_bytes\<close>,
  which ignores bytes left over after the value.
\<close>

definition to_bytes :: "('a \<Rightarrow> u8 list) \<Rightarrow> 'a \<Rightarrow> u8 list" where
  "to_bytes wr x = wbytes (write_bytes (wr x) (writer_new []))"

definition default_size :: "('a \<Rightarrow> u8 list) \<Rightarrow> 'a \<Rightarrow> nat" where
  "default_size wr x = length (to_bytes wr x)"

definition from_bytes :: "'a parser \<Rightarrow> u8 list \<Rightarrow> reader_error + 'a" where
  "from_bytes rd bs = result_bind (rd (reader_new bs)) (\<lambda>(x, r). Inr x)"

section \<open>Reading at a position\<close>

text \<open>
  \<open>at pre rest c\<close> is the reader that has consumed \<open>pre\<close> and has \<open>rest\<close> ahead of it; the
  readers of this form are exactly those that satisfy the invariant. The facts about the
  primitives in this form are simplification rules, so that the laws of a composed format are
  proved by unfolding its definition.
\<close>

definition at :: "u8 list \<Rightarrow> u8 list \<Rightarrow> read_context \<Rightarrow> reader" where
  "at pre rest c = \<lparr>rbytes = pre @ rest, rtotal = length pre, rcontext = c\<rparr>"

lemma reader_ok_at [simp]: "reader_ok (at pre rest c)"
  by (simp add: reader_ok_def at_def)

lemma reader_ok_iff_at: "reader_ok r \<longleftrightarrow> (\<exists>pre rest c. r = at pre rest c)"
proof
  assume "reader_ok r"
  then have "r = at (take (rtotal r) (rbytes r)) (drop (rtotal r) (rbytes r)) (rcontext r)"
    by (simp add: at_def reader_ok_def)
  then show "\<exists>pre rest c. r = at pre rest c" by blast
qed auto

lemma reader_new_at: "reader_new bs = at [] bs context_default"
  by (simp add: reader_new_def reader_with_context_def at_def)

lemma reader_size_at [simp]: "reader_size (at pre rest c) = length rest"
  by (simp add: reader_size_def at_def)

lemma reader_total_size_at [simp]:
  "reader_total_size (at pre rest c) = length pre + length rest"
  by (simp add: reader_total_size_def at_def)

lemma reader_total_read_at [simp]: "reader_total_read (at pre rest c) = length pre"
  by (simp add: reader_total_read_def at_def)

lemma rcontext_at [simp]: "rcontext (at pre rest c) = c"
  by (simp add: at_def)

lemma rcontext_update_at [simp]: "(at pre rest c)\<lparr>rcontext := d\<rparr> = at pre rest d"
  by (simp add: at_def)

lemma rbind_Inr [simp]: "m r = Inr (x, r') \<Longrightarrow> rbind m k r = k x r'"
  by (simp add: rbind_def)

lemma rbind_eq_Inr [result_simps]:
  "rbind m k r = Inr (y, r'') \<longleftrightarrow> (\<exists>x r'. m r = Inr (x, r') \<and> k x r' = Inr (y, r''))"
  by (auto simp: rbind_def result_bind_eq_Inr split: prod.splits)

lemma rreturn_eq_Inr [simp, result_simps]: "rreturn x r = Inr (y, r') \<longleftrightarrow> y = x \<and> r' = r"
  by (auto simp: rreturn_def)

lemma rreturn_apply [simp]: "rreturn x r = Inr (x, r)"
  by (simp add: rreturn_def)

lemma rfail_apply [simp]: "rfail e r = Inl e"
  by (simp add: rfail_def)

lemma reader_skip_at:
  "reader_skip n (at pre rest c) =
     (if length rest < n then Inl InvalidSize
      else Inr ((), at (pre @ take n rest) (drop n rest) c))"
  by (auto simp: reader_skip_def at_def reader_size_def)

lemma read_u8_at:
  "read_u8 (at pre rest c) =
     (case rest of [] \<Rightarrow> Inl InvalidSize | b # rest' \<Rightarrow> Inr (b, at (pre @ [b]) rest' c))"
  by (auto simp: read_u8_def at_def reader_size_def split: list.splits)

lemma read_bytes_at:
  "read_bytes n (at pre rest c) =
     (if length rest < n then Inl InvalidSize
      else Inr (take n rest, at (pre @ take n rest) (drop n rest) c))"
  by (auto simp: read_bytes_def at_def reader_size_def)

lemma read_u8_write [simp]:
  "read_u8 (at pre (write_u8 b @ post) c) = Inr (b, at (pre @ write_u8 b) post c)"
  by (simp add: read_u8_at write_u8_def)

lemma read_bytes_write [simp]:
  "length bs = n \<Longrightarrow> read_bytes n (at pre (bs @ post) c) = Inr (bs, at (pre @ bs) post c)"
  by (simp add: read_bytes_at)

text \<open>What a successful read says about the bytes that were ahead.\<close>

lemma read_u8_at_Inr [result_simps]:
  "read_u8 (at pre rest c) = Inr (b, r') \<longleftrightarrow>
     (\<exists>post. rest = write_u8 b @ post \<and> r' = at (pre @ write_u8 b) post c)"
  by (cases rest) (auto simp: read_u8_at write_u8_def)

lemma read_bytes_at_Inr [result_simps]:
  "read_bytes n (at pre rest c) = Inr (bs, r') \<longleftrightarrow>
     length bs = n \<and> (\<exists>post. rest = bs @ post \<and> r' = at (pre @ bs) post c)"
proof
  assume "read_bytes n (at pre rest c) = Inr (bs, r')"
  then have "length bs = n \<and> rest = bs @ drop n rest \<and> r' = at (pre @ bs) (drop n rest) c"
    by (auto simp: read_bytes_at split: if_splits)
  then show "length bs = n \<and> (\<exists>post. rest = bs @ post \<and> r' = at (pre @ bs) post c)" by blast
qed (auto simp: read_bytes_at)

section \<open>The contract of a serializer\<close>

locale codec =
  fixes wr :: "'a \<Rightarrow> u8 list" and rd :: "'a parser" and size_of :: "'a \<Rightarrow> nat"
    and valid :: "'a \<Rightarrow> bool"
  assumes read_write: "valid x \<Longrightarrow> rd (at pre (wr x @ post) c) = Inr (x, at (pre @ wr x) post c)"
    and size_write: "valid x \<Longrightarrow> size_of x = length (wr x)"
begin

lemma from_bytes_to_bytes: "valid x \<Longrightarrow> from_bytes rd (to_bytes wr x) = Inr x"
  using read_write [of x "[]" "[]" context_default]
  by (simp add: from_bytes_def to_bytes_def write_bytes_def writer_new_def reader_new_at)

lemma size_default: "valid x \<Longrightarrow> size_of x = default_size wr x"
  by (simp add: size_write default_size_def to_bytes_def write_bytes_def writer_new_def)

lemma write_prefix_free:
  assumes "valid x" "valid y" "wr x @ s = wr y @ t"
  shows "x = y" "s = t"
proof -
  have *: "x = y \<and> at (wr x) s context_default = at (wr y) t context_default"
    using read_write [OF assms(1), of "[]" s context_default]
      read_write [OF assms(2), of "[]" t context_default] assms(3) by simp
  then show "x = y" by simp
  with * show "s = t" by (simp add: at_def)
qed

lemma write_inj: "valid x \<Longrightarrow> valid y \<Longrightarrow> wr x = wr y \<Longrightarrow> x = y"
  using write_prefix_free(1) [of x y "[]" "[]"] by simp

end

locale canonical_codec = codec +
  assumes read_canonical:
    "rd (at pre rest c) = Inr (x, r') \<Longrightarrow>
       valid x \<and> (\<exists>post. rest = wr x @ post \<and> r' = at (pre @ wr x) post c)"
begin

lemma read_at_iff:
  "rd (at pre rest c) = Inr (x, r') \<longleftrightarrow>
     valid x \<and> (\<exists>post. rest = wr x @ post \<and> r' = at (pre @ wr x) post c)"
  using read_canonical read_write by auto

lemma read_reader_ok:
  assumes "reader_ok r" "rd r = Inr (x, r')"
  shows "reader_ok r'" "rbytes r' = rbytes r" "rtotal r' = rtotal r + length (wr x)"
proof -
  obtain pre rest c where r: "r = at pre rest c" using assms(1) by (auto simp: reader_ok_iff_at)
  with assms(2) obtain post where "rest = wr x @ post" "r' = at (pre @ wr x) post c"
    using read_canonical by blast
  with r show "reader_ok r'" "rbytes r' = rbytes r" "rtotal r' = rtotal r + length (wr x)"
    by (simp_all add: at_def reader_ok_def)
qed

end

end
