(* ===== verification/Serializer_Defaults.thy ===== *)
theory Serializer_Defaults
  imports Serializer
begin

text \<open>
  The \<open>Serializer\<close> implementations of \<open>xelis_common/src/serializer/defaults.rs\<close>: integers,
  booleans, strings, options, vectors, ordered sets and maps, tuples, byte arrays, IP and socket
  addresses and the set of tips, each as an interpretation of the contract \<open>codec\<close> (of
  \<open>canonical_codec\<close> where the encoding is unique), the generic ones as lemmas of that locale.
\<close>

section \<open>Integers, booleans, hashes and byte arrays\<close>

definition size_u8 :: "u8 \<Rightarrow> nat" where "size_u8 v = 1"

definition size_u16 :: "u16 \<Rightarrow> nat" where "size_u16 v = 2"

definition size_u32 :: "u32 \<Rightarrow> nat" where "size_u32 v = 4"

definition size_u64 :: "u64 \<Rightarrow> nat" where "size_u64 v = 8"

definition size_u128 :: "u128 \<Rightarrow> nat" where "size_u128 v = 16"

definition size_bool :: "bool \<Rightarrow> nat" where "size_bool v = 1"

definition size_hash :: "hash \<Rightarrow> nat" where "size_hash h = HASH_SIZE"

definition size_array :: "nat \<Rightarrow> u8 list \<Rightarrow> nat" where "size_array n a = n"

definition write_array :: "u8 list \<Rightarrow> u8 list" where "write_array a = a"

definition read_array :: "nat \<Rightarrow> u8 list parser" where "read_array n = read_bytes n"

lemma from_to_be_u16 [simp]: "from_be_bytes (to_be_bytes w) = (w :: u16)"
  by (rule from_to_be_bytes [where n = 2]) simp

lemma from_to_be_u32 [simp]: "from_be_bytes (to_be_bytes w) = (w :: u32)"
  by (rule from_to_be_bytes [where n = 4]) simp

lemma from_to_be_u64 [simp]: "from_be_bytes (to_be_bytes w) = (w :: u64)"
  by (rule from_to_be_bytes [where n = 8]) simp

lemma from_to_be_u128 [simp]: "from_be_bytes (to_be_bytes w) = (w :: u128)"
  by (rule from_to_be_bytes [where n = 16]) simp

lemma from_to_be_u256 [simp]: "from_be_bytes (to_be_bytes w) = (w :: u256)"
  by (rule from_to_be_bytes [where n = 32]) simp

lemma to_from_be_u16 [simp]: "length bs = 2 \<Longrightarrow> to_be_bytes (from_be_bytes bs :: u16) = bs"
  by (rule to_from_be_bytes [where n = 2]) simp_all

lemma to_from_be_u32 [simp]: "length bs = 4 \<Longrightarrow> to_be_bytes (from_be_bytes bs :: u32) = bs"
  by (rule to_from_be_bytes [where n = 4]) simp_all

lemma to_from_be_u64 [simp]: "length bs = 8 \<Longrightarrow> to_be_bytes (from_be_bytes bs :: u64) = bs"
  by (rule to_from_be_bytes [where n = 8]) simp_all

lemma to_from_be_u128 [simp]: "length bs = 16 \<Longrightarrow> to_be_bytes (from_be_bytes bs :: u128) = bs"
  by (rule to_from_be_bytes [where n = 16]) simp_all

lemma to_from_be_u256 [simp]: "length bs = 32 \<Longrightarrow> to_be_bytes (from_be_bytes bs :: u256) = bs"
  by (rule to_from_be_bytes [where n = 32]) simp_all

interpretation u8_codec: canonical_codec write_u8 read_u8 size_u8 "\<lambda>_. True"
  by unfold_locales (auto simp: size_u8_def write_u8_def read_u8_at split: list.splits)

interpretation u16_codec: canonical_codec write_u16 read_u16 size_u16 "\<lambda>_. True"
  by unfold_locales (auto simp: read_u16_def write_u16_def size_u16_def result_simps)

interpretation u32_codec: canonical_codec write_u32 read_u32 size_u32 "\<lambda>_. True"
  by unfold_locales (auto simp: read_u32_def write_u32_def size_u32_def result_simps)

interpretation u64_codec: canonical_codec write_u64 read_u64 size_u64 "\<lambda>_. True"
  by unfold_locales (auto simp: read_u64_def write_u64_def size_u64_def result_simps)

interpretation u128_codec: canonical_codec write_u128 read_u128 size_u128 "\<lambda>_. True"
  by unfold_locales (auto simp: read_u128_def write_u128_def size_u128_def result_simps)

interpretation bool_codec: canonical_codec write_bool read_bool size_bool "\<lambda>_. True"
  by unfold_locales
     (auto simp: read_bool_def write_bool_def write_u8_def size_bool_def read_u8_at result_simps
           split: if_splits list.splits)

interpretation hash_codec: canonical_codec write_hash read_hash size_hash hash_ok
  by unfold_locales
     (auto simp: read_hash_def write_hash_def size_hash_def hash_ok_def HASH_SIZE_def result_simps)

interpretation array_codec: canonical_codec write_array "read_array n" "size_array n" "\<lambda>a. length a = n"
  for n
  by unfold_locales (auto simp: read_array_def write_array_def size_array_def result_simps)

lemmas primitive_read_write [simp] =
  u16_codec.read_write [OF TrueI] u32_codec.read_write [OF TrueI] u64_codec.read_write [OF TrueI]
  u128_codec.read_write [OF TrueI] bool_codec.read_write [OF TrueI] hash_codec.read_write
  array_codec.read_write

lemmas primitive_read_iff [result_simps] =
  u16_codec.read_at_iff u32_codec.read_at_iff u64_codec.read_at_iff u128_codec.read_at_iff
  bool_codec.read_at_iff hash_codec.read_at_iff array_codec.read_at_iff

lemma length_write_primitives [simp]:
  "length (write_u8 a) = 1" "length (write_u16 b) = 2" "length (write_u32 d) = 4"
  "length (write_u64 e) = 8" "length (write_u128 f) = 16" "length (write_bool g) = 1"
  by (simp_all add: write_u8_def write_u16_def write_u32_def write_u64_def write_u128_def
      write_bool_def)

lemma length_write_hash [simp]: "hash_ok h \<Longrightarrow> length (write_hash h) = 32"
  by (simp add: write_hash_def hash_ok_def HASH_SIZE_def)

section \<open>Loops of reads\<close>

text \<open>
  The three loops of the readers: \<open>n\<close> elements pushed to a vector, \<open>n\<close> elements inserted in an
  ordered set with an error on a duplicate, \<open>n\<close> pairs inserted in a map.
\<close>

fun read_n :: "nat \<Rightarrow> 'a parser \<Rightarrow> 'a list parser" where
  "read_n 0 rd = rreturn []"
| "read_n (Suc n) rd = rbind rd (\<lambda>x. rbind (read_n n rd) (\<lambda>xs. rreturn (x # xs)))"

fun read_distinct :: "reader_error \<Rightarrow> nat \<Rightarrow> 'a parser \<Rightarrow> 'a list \<Rightarrow> 'a list parser" where
  "read_distinct e 0 rd acc = rreturn acc"
| "read_distinct e (Suc n) rd acc = rbind rd (\<lambda>x.
     (case index_set_insert x acc of (fresh, acc') \<Rightarrow>
        if fresh then read_distinct e n rd acc' else rfail e))"

fun read_entries :: "nat \<Rightarrow> 'k parser \<Rightarrow> 'v parser \<Rightarrow> ('k \<times> 'v) list \<Rightarrow> ('k \<times> 'v) list parser" where
  "read_entries 0 rk rv acc = rreturn acc"
| "read_entries (Suc n) rk rv acc = rbind rk (\<lambda>k. rbind rv (\<lambda>v.
     read_entries n rk rv (index_map_insert k v acc)))"

definition write_all :: "('a \<Rightarrow> u8 list) \<Rightarrow> 'a list \<Rightarrow> u8 list" where
  "write_all wr xs = concat (map wr xs)"

lemma write_all_simps [simp]:
  "write_all wr [] = []" "write_all wr (x # xs) = wr x @ write_all wr xs"
  "write_all wr (xs @ ys) = write_all wr xs @ write_all wr ys"
  by (simp_all add: write_all_def)

lemma length_write_all: "length (write_all wr xs) = sum_list (map (\<lambda>x. length (wr x)) xs)"
  by (induction xs) auto

lemma length_write_all_const:
  "(\<And>x. x \<in> set xs \<Longrightarrow> length (wr x) = n) \<Longrightarrow> length (write_all wr xs) = length xs * n"
  by (induction xs) auto

lemma read_n_length:
  "read_n n rd r = Inr (xs, r') \<Longrightarrow> length xs = n"
  by (induction n arbitrary: r xs r') (auto simp: result_simps)

context codec
begin

lemma read_n_write:
  "list_all valid xs \<Longrightarrow> n = length xs \<Longrightarrow>
     read_n n rd (at pre (write_all wr xs @ post) c) = Inr (xs, at (pre @ write_all wr xs) post c)"
  by (induction xs arbitrary: pre n) (auto simp: read_write)

lemma read_distinct_write:
  "list_all valid xs \<Longrightarrow> distinct (acc @ xs) \<Longrightarrow> n = length xs \<Longrightarrow>
     read_distinct e n rd acc (at pre (write_all wr xs @ post) c) =
       Inr (acc @ xs, at (pre @ write_all wr xs) post c)"
  by (induction xs arbitrary: pre acc n) (auto simp: read_write index_set_insert_def)

lemma sum_size_write:
  "list_all valid xs \<Longrightarrow> sum_list (map size_of xs) = length (write_all wr xs)"
  by (induction xs) (auto simp: size_write)

end

context canonical_codec
begin

lemma read_n_at_iff:
  "read_n n rd (at pre rest c) = Inr (xs, r') \<longleftrightarrow>
     length xs = n \<and> list_all valid xs \<and>
     (\<exists>post. rest = write_all wr xs @ post \<and> r' = at (pre @ write_all wr xs) post c)"
proof (induction n arbitrary: pre rest xs)
  case 0
  then show ?case by auto
next
  case (Suc n)
  then show ?case by (cases xs) (auto simp: result_simps read_at_iff)
qed

lemma read_distinct_at:
  "read_distinct e n rd acc (at pre rest c) = Inr (ys, r') \<Longrightarrow> distinct acc \<Longrightarrow>
     (\<exists>xs post. ys = acc @ xs \<and> length xs = n \<and> list_all valid xs \<and> distinct (acc @ xs) \<and>
        rest = write_all wr xs @ post \<and> r' = at (pre @ write_all wr xs) post c)"
proof (induction n arbitrary: pre rest acc)
  case 0
  then show ?case by simp
next
  case (Suc n)
  then obtain x post where x: "valid x" "rest = wr x @ post" "x \<notin> set acc"
    and r: "read_distinct e n rd (acc @ [x]) (at (pre @ wr x) post c) = Inr (ys, r')"
    by (auto simp: result_simps read_at_iff index_set_insert_def split: if_splits)
  from Suc.IH [OF r] x Suc.prems(2) obtain xs post' where
    "ys = acc @ x # xs" "length xs = n" "list_all valid xs" "distinct (acc @ x # xs)"
    "post = write_all wr xs @ post'" "r' = at (pre @ wr x @ write_all wr xs) post' c"
    by auto
  with x show ?case by (intro exI [of _ "x # xs"] exI [of _ post']) simp
qed

end

section \<open>Options and vectors\<close>

definition write_option :: "('a \<Rightarrow> u8 list) \<Rightarrow> 'a option \<Rightarrow> u8 list" where
  "write_option wr m = write_bool (m \<noteq> None) @ (case m of Some v \<Rightarrow> wr v | None \<Rightarrow> [])"

definition read_option :: "'a parser \<Rightarrow> 'a option parser" where
  "read_option rd = rbind read_bool (\<lambda>b.
     if b then rbind rd (\<lambda>x. rreturn (Some x)) else rreturn None)"

definition size_option :: "('a \<Rightarrow> nat) \<Rightarrow> 'a option \<Rightarrow> nat" where
  "size_option sz m = (case m of Some v \<Rightarrow> 1 + sz v | None \<Rightarrow> 1)"

definition DEFAULT_MAX_ITEMS :: nat where
  "DEFAULT_MAX_ITEMS = 1024"

definition write_vec :: "('a \<Rightarrow> u8 list) \<Rightarrow> 'a list \<Rightarrow> u8 list" where
  "write_vec wr xs = write_u16 (of_nat (length xs)) @ write_all wr xs"

definition read_vec :: "'a parser \<Rightarrow> 'a list parser" where
  "read_vec rd = rbind read_u16 (\<lambda>n.
     if n > of_nat DEFAULT_MAX_ITEMS then rfail InvalidSize else read_n (unat n) rd)"

definition size_vec :: "('a \<Rightarrow> nat) \<Rightarrow> 'a list \<Rightarrow> nat" where
  "size_vec sz xs = 2 + sum_list (map sz xs)"

definition vec_ok :: "('a \<Rightarrow> bool) \<Rightarrow> 'a list \<Rightarrow> bool" where
  "vec_ok P xs \<longleftrightarrow> length xs \<le> DEFAULT_MAX_ITEMS \<and> list_all P xs"

lemma u16_of_nat [simp]: "n < 65536 \<Longrightarrow> unat (of_nat n :: u16) = n"
  by (simp add: unat_of_nat)

lemma u8_of_nat [simp]: "n < 256 \<Longrightarrow> unat (of_nat n :: u8) = n"
  by (simp add: unat_of_nat)

lemma max_items_less: "(1024 :: u16) < n \<longleftrightarrow> 1024 < unat n"
  by (simp add: word_less_nat_alt)

lemma of_nat_unat_u16 [simp]: "of_nat (unat (n :: u16)) = (n :: u16)"
  by simp

context codec
begin

lemma option_codec: "codec (write_option wr) (read_option rd) (size_option size_of) (pred_option valid)"
  by unfold_locales
     (auto simp: read_option_def write_option_def size_option_def read_write size_write
           split: option.splits)

lemma vec_codec: "codec (write_vec wr) (read_vec rd) (size_vec size_of) (vec_ok valid)"
  by unfold_locales
     (auto simp: read_vec_def write_vec_def size_vec_def read_n_write sum_size_write vec_ok_def
         max_items_less DEFAULT_MAX_ITEMS_def)

end

context canonical_codec
begin

lemma option_canonical:
  "canonical_codec (write_option wr) (read_option rd) (size_option size_of) (pred_option valid)"
  by (intro canonical_codec.intro option_codec canonical_codec_axioms.intro)
     (auto simp: read_option_def write_option_def result_simps read_at_iff split: if_splits)

lemma vec_canonical:
  "canonical_codec (write_vec wr) (read_vec rd) (size_vec size_of) (vec_ok valid)"
  by (intro canonical_codec.intro vec_codec canonical_codec_axioms.intro)
     (auto simp: read_vec_def write_vec_def result_simps read_n_at_iff vec_ok_def max_items_less
         DEFAULT_MAX_ITEMS_def split: if_splits)

end

section \<open>Ordered sets\<close>

text \<open>
  \<open>IndexSet\<close> (insertion order) and \<open>BTreeSet\<close> (ascending order). Their \<open>size\<close> multiplies the
  size of the first element, so it is the written size when the elements have one size.
\<close>

definition read_index_set :: "'a parser \<Rightarrow> 'a list parser" where
  "read_index_set rd = rbind read_u16 (\<lambda>n.
     if n > of_nat DEFAULT_MAX_ITEMS then rfail InvalidSize
     else read_distinct InvalidSize (unat n) rd [])"

definition write_index_set :: "('a \<Rightarrow> u8 list) \<Rightarrow> 'a list \<Rightarrow> u8 list" where
  "write_index_set wr xs = write_u16 (of_nat (length xs)) @ write_all wr xs"

definition size_index_set :: "('a \<Rightarrow> nat) \<Rightarrow> 'a list \<Rightarrow> nat" where
  "size_index_set sz xs = (case xs of x # _ \<Rightarrow> 2 + length xs * sz x | [] \<Rightarrow> 2)"

fun read_btree :: "nat \<Rightarrow> ('a::linorder) parser \<Rightarrow> 'a list \<Rightarrow> 'a list parser" where
  "read_btree 0 rd acc = rreturn acc"
| "read_btree (Suc n) rd acc = rbind rd (\<lambda>x.
     if x \<in> set acc then rfail InvalidSize else read_btree n rd (insort x acc))"

definition read_btree_set :: "('a::linorder) parser \<Rightarrow> 'a list parser" where
  "read_btree_set rd = rbind read_u16 (\<lambda>n.
     if n > of_nat DEFAULT_MAX_ITEMS then rfail InvalidSize else read_btree (unat n) rd [])"

definition set_ok :: "('a \<Rightarrow> bool) \<Rightarrow> ('a \<Rightarrow> nat) \<Rightarrow> 'a list \<Rightarrow> bool" where
  "set_ok P sz xs \<longleftrightarrow> length xs \<le> DEFAULT_MAX_ITEMS \<and> distinct xs \<and> list_all P xs \<and>
     (\<forall>x \<in> set xs. sz x = sz (hd xs))"

lemma insort_greatest: "\<forall>y \<in> set xs. y < x \<Longrightarrow> insort x xs = xs @ [x]"
  by (induction xs) auto

context codec
begin

lemma size_index_set_write:
  assumes "list_all valid xs" "\<forall>x \<in> set xs. size_of x = size_of (hd xs)"
  shows "size_index_set size_of xs = 2 + length (write_all wr xs)"
proof (cases xs)
  case Nil
  then show ?thesis by (simp add: size_index_set_def)
next
  case (Cons x ys)
  have "length (write_all wr xs) = length xs * size_of x"
    using assms Cons by (intro length_write_all_const) (auto simp: size_write list_all_iff)
  with Cons show ?thesis by (simp add: size_index_set_def)
qed

lemma index_set_codec:
  "codec (write_index_set wr) (read_index_set rd) (size_index_set size_of) (set_ok valid size_of)"
  by unfold_locales
     (auto simp: read_index_set_def write_index_set_def set_ok_def read_distinct_write
         size_index_set_write max_items_less DEFAULT_MAX_ITEMS_def)

end

text \<open>Reading an ascending sequence back into a \<open>BTreeSet\<close>.\<close>

lemma read_btree_write:
  fixes wr :: "'a::linorder \<Rightarrow> u8 list"
  assumes "codec wr rd sz valid"
  shows "list_all valid xs \<Longrightarrow> sorted_wrt (<) (acc @ xs) \<Longrightarrow> n = length xs \<Longrightarrow>
     read_btree n rd acc (at pre (write_all wr xs @ post) c) =
       Inr (acc @ xs, at (pre @ write_all wr xs) post c)"
proof (induction xs arbitrary: pre acc n)
  case Nil
  then show ?case by simp
next
  case (Cons x xs)
  then have "insort x acc = acc @ [x]" "x \<notin> set acc"
    by (auto intro!: insort_greatest simp: sorted_wrt_append)
  with Cons show ?case by (auto simp: codec.read_write [OF assms])
qed

section \<open>Pairs, triples and maps\<close>

text \<open>\<open>HashMap\<close> and \<open>IndexMap\<close> are written in the same way, in iteration order.\<close>

definition write_pair :: "('a \<Rightarrow> u8 list) \<Rightarrow> ('b \<Rightarrow> u8 list) \<Rightarrow> 'a \<times> 'b \<Rightarrow> u8 list" where
  "write_pair wa wb p = wa (fst p) @ wb (snd p)"

definition read_pair :: "'a parser \<Rightarrow> 'b parser \<Rightarrow> ('a \<times> 'b) parser" where
  "read_pair ra rb = rbind ra (\<lambda>a. rbind rb (\<lambda>b. rreturn (a, b)))"

definition size_pair :: "('a \<Rightarrow> nat) \<Rightarrow> ('b \<Rightarrow> nat) \<Rightarrow> 'a \<times> 'b \<Rightarrow> nat" where
  "size_pair sa sb p = sa (fst p) + sb (snd p)"

definition write_triple ::
  "('a \<Rightarrow> u8 list) \<Rightarrow> ('b \<Rightarrow> u8 list) \<Rightarrow> ('c \<Rightarrow> u8 list) \<Rightarrow> 'a \<times> 'b \<times> 'c \<Rightarrow> u8 list" where
  "write_triple wa wb wc p = wa (fst p) @ wb (fst (snd p)) @ wc (snd (snd p))"

definition read_triple :: "'a parser \<Rightarrow> 'b parser \<Rightarrow> 'c parser \<Rightarrow> ('a \<times> 'b \<times> 'c) parser" where
  "read_triple ra rb rc = rbind ra (\<lambda>a. rbind rb (\<lambda>b. rbind rc (\<lambda>c. rreturn (a, b, c))))"

definition size_triple ::
  "('a \<Rightarrow> nat) \<Rightarrow> ('b \<Rightarrow> nat) \<Rightarrow> ('c \<Rightarrow> nat) \<Rightarrow> 'a \<times> 'b \<times> 'c \<Rightarrow> nat" where
  "size_triple sa sb sc p = sa (fst p) + sb (fst (snd p)) + sc (snd (snd p))"

definition write_map :: "('k \<Rightarrow> u8 list) \<Rightarrow> ('v \<Rightarrow> u8 list) \<Rightarrow> ('k \<times> 'v) list \<Rightarrow> u8 list" where
  "write_map wk wv m = write_u16 (of_nat (length m)) @ write_all (write_pair wk wv) m"

definition read_map :: "'k parser \<Rightarrow> 'v parser \<Rightarrow> ('k \<times> 'v) list parser" where
  "read_map rk rv = rbind read_u16 (\<lambda>n. read_entries (unat n) rk rv [])"

definition size_map :: "('k \<Rightarrow> nat) \<Rightarrow> ('v \<Rightarrow> nat) \<Rightarrow> ('k \<times> 'v) list \<Rightarrow> nat" where
  "size_map sk sv m = 2 + sum_list (map (size_pair sk sv) m)"

definition pair_ok :: "('a \<Rightarrow> bool) \<Rightarrow> ('b \<Rightarrow> bool) \<Rightarrow> 'a \<times> 'b \<Rightarrow> bool" where
  "pair_ok P Q p \<longleftrightarrow> P (fst p) \<and> Q (snd p)"

definition map_ok :: "('k \<Rightarrow> bool) \<Rightarrow> ('v \<Rightarrow> bool) \<Rightarrow> ('k \<times> 'v) list \<Rightarrow> bool" where
  "map_ok P Q m \<longleftrightarrow> length m < 65536 \<and> distinct (map fst m) \<and> list_all (pair_ok P Q) m"

text \<open>Two serializers together give those of their pairs and of the maps between them.\<close>

locale codec_pair =
  a: codec wa ra sa va + b: codec wb rb sb vb
  for wa :: "'a \<Rightarrow> u8 list" and ra sa va and wb :: "'b \<Rightarrow> u8 list" and rb sb vb
begin

lemma read_entries_write:
  "list_all (pair_ok va vb) m \<Longrightarrow> distinct (map fst (acc @ m)) \<Longrightarrow> n = length m \<Longrightarrow>
     read_entries n ra rb acc (at pre (write_all (write_pair wa wb) m @ post) c) =
       Inr (acc @ m, at (pre @ write_all (write_pair wa wb) m) post c)"
proof (induction m arbitrary: pre acc n)
  case Nil
  then show ?case by simp
next
  case (Cons p m)
  obtain k v where p: "p = (k, v)" by (cases p)
  have "index_map_insert k v acc = acc @ [(k, v)]"
    using Cons.prems(2) p by (intro index_map_insert_new) auto
  with Cons p show ?case
    by (auto simp: write_pair_def pair_ok_def a.read_write b.read_write)
qed

end

sublocale codec_pair \<subseteq> pair: codec "write_pair wa wb" "read_pair ra rb" "size_pair sa sb" "pair_ok va vb"
  by unfold_locales
     (auto simp: write_pair_def read_pair_def size_pair_def pair_ok_def a.read_write b.read_write
         a.size_write b.size_write)

sublocale codec_pair \<subseteq> entries: codec "write_map wa wb" "read_map ra rb" "size_map sa sb" "map_ok va vb"
  by unfold_locales
     (auto simp: write_map_def read_map_def size_map_def map_ok_def read_entries_write
         pair.sum_size_write)

text \<open>The map from a hash to an amount: the deposits of a contract call have this form.\<close>

interpretation hash_u64: codec_pair write_hash read_hash size_hash hash_ok
  write_u64 read_u64 size_u64 "\<lambda>_. True"
  by unfold_locales

section \<open>Strings and addresses\<close>

definition size_string :: "rust_string \<Rightarrow> nat" where
  "size_string s = 1 + min (length s) 255"

definition string_ok :: "rust_string \<Rightarrow> bool" where
  "string_ok s \<longleftrightarrow> valid_utf8 s \<and> length s \<le> 255"

datatype ip_addr = IpV4 u8 u8 u8 u8 | IpV6 u16 u16 u16 u16 u16 u16 u16 u16

record socket_addr =
  ip :: ip_addr
  port :: u16

fun write_ip :: "ip_addr \<Rightarrow> u8 list" where
  "write_ip (IpV4 a b c d) = write_u8 0 @ [a, b, c, d]"
| "write_ip (IpV6 a b c d e f g h) =
     write_u8 1 @ concat (map to_be_bytes [a, b, c, d, e, f, g, h])"

definition read_ip :: "ip_addr parser" where
  "read_ip = rbind read_u8 (\<lambda>t.
     if t = 0 then
       rbind read_u8 (\<lambda>a. rbind read_u8 (\<lambda>b. rbind read_u8 (\<lambda>c. rbind read_u8 (\<lambda>d.
         rreturn (IpV4 a b c d)))))
     else if t = 1 then
       rbind read_u16 (\<lambda>a. rbind read_u16 (\<lambda>b. rbind read_u16 (\<lambda>c. rbind read_u16 (\<lambda>d.
       rbind read_u16 (\<lambda>e. rbind read_u16 (\<lambda>f. rbind read_u16 (\<lambda>g. rbind read_u16 (\<lambda>h.
         rreturn (IpV6 a b c d e f g h)))))))))
     else rfail InvalidValue)"

fun size_ip :: "ip_addr \<Rightarrow> nat" where
  "size_ip (IpV4 _ _ _ _) = 1 + 4"
| "size_ip (IpV6 _ _ _ _ _ _ _ _) = 1 + 16"

definition write_socket_addr :: "socket_addr \<Rightarrow> u8 list" where
  "write_socket_addr s = write_ip (ip s) @ write_u16 (port s)"

definition read_socket_addr :: "socket_addr parser" where
  "read_socket_addr = rbind read_ip (\<lambda>i. rbind read_u16 (\<lambda>p. rreturn \<lparr>ip = i, port = p\<rparr>))"

definition size_socket_addr :: "socket_addr \<Rightarrow> nat" where
  "size_socket_addr s = (case ip s of IpV4 _ _ _ _ \<Rightarrow> 1 + 4 + 2 | IpV6 _ _ _ _ _ _ _ _ \<Rightarrow> 1 + 16 + 2)"

interpretation string_codec: canonical_codec write_string read_string size_string string_ok
proof unfold_locales
  fix x pre post c
  assume x: "string_ok x"
  then show "read_string (at pre (write_string x @ post) c) = Inr (x, at (pre @ write_string x) post c)"
    using read_u8_write [of pre "of_nat (length x)" "x @ post" c]
    by (simp add: read_string_def write_string_def read_string_with_size_def string_ok_def write_u8_def)
  show "size_string x = length (write_string x)"
    using x by (simp add: size_string_def write_string_def string_ok_def)
next
  fix pre rest c x r'
  assume "read_string (at pre rest c) = Inr (x, r')"
  then obtain n post where n: "rest = write_u8 n @ x @ post" "length x = unat n" "valid_utf8 x"
    "r' = at (pre @ write_u8 n @ x) post c"
    by (auto simp: read_string_def read_string_with_size_def result_simps split: if_splits)
  moreover have "unat n < 2 ^ LENGTH(8)" by (rule unsigned_less)
  moreover have "of_nat (length x) = n" using n(2) by simp
  ultimately show "string_ok x \<and>
      (\<exists>post. rest = write_string x @ post \<and> r' = at (pre @ write_string x) post c)"
    by (auto simp: string_ok_def write_string_def write_u8_def)
qed

lemma ip_v6_bytes:
  "concat (map to_be_bytes [a, b, c, d, e, f, g, h :: u16]) =
     write_u16 a @ write_u16 b @ write_u16 c @ write_u16 d @
     write_u16 e @ write_u16 f @ write_u16 g @ write_u16 h"
  by (simp add: write_u16_def)

lemma ip_v4_bytes: "[a, b, c, d] = write_u8 a @ write_u8 b @ write_u8 c @ write_u8 d"
  by (simp add: write_u8_def)

interpretation ip_codec: canonical_codec write_ip read_ip size_ip "\<lambda>_. True"
proof unfold_locales
  fix x pre post c
  show "read_ip (at pre (write_ip x @ post) c) = Inr (x, at (pre @ write_ip x) post c)"
    by (cases x) (simp_all only: write_ip.simps ip_v6_bytes ip_v4_bytes, simp_all add: read_ip_def)
  show "size_ip x = length (write_ip x)"
    by (cases x) simp_all
next
  fix pre rest c x r'
  assume "read_ip (at pre rest c) = Inr (x, r')"
  then show "True \<and> (\<exists>post. rest = write_ip x @ post \<and> r' = at (pre @ write_ip x) post c)"
    by (auto simp: read_ip_def result_simps ip_v6_bytes ip_v4_bytes simp del: concat.simps list.map
        split: if_splits)
qed

interpretation socket_addr_codec:
  canonical_codec write_socket_addr read_socket_addr size_socket_addr "\<lambda>_. True"
  by unfold_locales
     (auto simp: read_socket_addr_def write_socket_addr_def size_socket_addr_def
         ip_codec.read_write ip_codec.read_at_iff result_simps
         simp flip: ip_codec.size_write split: ip_addr.splits)

section \<open>The stored set of tips\<close>

text \<open>
  \<open>HashSet<Hash>\<close>: no length prefix, the count comes from the size of the whole buffer; the
  elements come in the unspecified iteration order of the hash set, here the order of the list.
\<close>

definition write_tips :: "hash list \<Rightarrow> u8 list" where
  "write_tips hs = write_all write_hash hs"

definition hash_set_insert :: "'a \<Rightarrow> 'a list \<Rightarrow> 'a list" where
  "hash_set_insert x xs = snd (index_set_insert x xs)"

definition read_tips :: "hash list parser" where
  "read_tips r = (let total_size = reader_total_size r in
     if total_size mod HASH_SIZE \<noteq> 0 then Inl InvalidSize
     else let count = total_size div HASH_SIZE in
       rbind (read_n count read_hash) (\<lambda>hs.
         let tips = foldl (\<lambda>s h. hash_set_insert h s) [] hs in
         if length tips \<noteq> count then rfail InvalidSize else rreturn tips) r)"

definition size_tips :: "hash list \<Rightarrow> nat" where
  "size_tips hs = length hs * HASH_SIZE"

lemma foldl_hash_set_insert: "foldl (\<lambda>s h. hash_set_insert h s) xs hs = index_set_extend xs hs"
  by (simp add: index_set_extend_def hash_set_insert_def)

lemma length_write_hashes:
  "list_all hash_ok hs \<Longrightarrow> length (write_all write_hash hs) = length hs * 32"
  by (intro length_write_all_const) (simp add: list_all_iff)

lemma read_tips_write:
  assumes "distinct hs" "list_all hash_ok hs"
  shows "from_bytes read_tips (to_bytes write_tips hs) = Inr hs"
proof -
  have len: "length (write_all write_hash hs) = length hs * 32"
    using assms(2) by (rule length_write_hashes)
  have "read_n (length hs) read_hash (at [] (write_all write_hash hs) context_default) =
      Inr (hs, at (write_all write_hash hs) [] context_default)"
    using hash_codec.read_n_write [OF assms(2) refl, of "[]" "[]" context_default] by simp
  then show ?thesis
    using assms(1) by (simp add: from_bytes_def to_bytes_def write_bytes_def writer_new_def
        reader_new_at read_tips_def write_tips_def HASH_SIZE_def len foldl_hash_set_insert
        index_set_extend_distinct)
qed

end
