(* ===== verification/Versions.thy ===== *)
theory Versions
  imports Serializer_Defaults
begin

text \<open>
  Transaction and block versions (\<open>transaction/version.rs\<close>, \<open>block/version.rs\<close>), networks
  (\<open>network.rs\<close>) and the hard-fork schedule of the daemon (\<open>config.rs\<close>, \<open>core/hard_fork.rs\<close>).
  The semver library that compares node versions is a parameter.
\<close>

section \<open>Transaction versions, block versions, networks\<close>

definition tx_version_try_from :: "u8 \<Rightarrow> unit + tx_version" where
  "tx_version_try_from v =
     (if v = 0 then Inr TxV0 else if v = 1 then Inr TxV1 else if v = 2 then Inr TxV2 else Inl ())"

fun tx_version_into_u8 :: "tx_version \<Rightarrow> u8" where
  "tx_version_into_u8 TxV0 = 0" | "tx_version_into_u8 TxV1 = 1" | "tx_version_into_u8 TxV2 = 2"

fun write_tx_version :: "tx_version \<Rightarrow> u8 list" where
  "write_tx_version TxV0 = write_u8 0"
| "write_tx_version TxV1 = write_u8 1"
| "write_tx_version TxV2 = write_u8 2"

definition read_tx_version :: "tx_version parser" where
  "read_tx_version = rbind read_u8 (\<lambda>v.
     case tx_version_try_from v of Inr t \<Rightarrow> rreturn t | Inl _ \<Rightarrow> rfail InvalidValue)"

definition size_tx_version :: "tx_version \<Rightarrow> nat" where
  "size_tx_version v = 1"

datatype block_version = BlockV0 | BlockV1 | BlockV2 | BlockV3

instantiation block_version :: linorder
begin

fun block_version_ord :: "block_version \<Rightarrow> nat" where
  "block_version_ord BlockV0 = 0" | "block_version_ord BlockV1 = 1"
| "block_version_ord BlockV2 = 2" | "block_version_ord BlockV3 = 3"

definition less_eq_block_version :: "block_version \<Rightarrow> block_version \<Rightarrow> bool" where
  "less_eq_block_version a b = (block_version_ord a \<le> block_version_ord b)"

definition less_block_version :: "block_version \<Rightarrow> block_version \<Rightarrow> bool" where
  "less_block_version a b = (block_version_ord a < block_version_ord b)"

instance
proof
  fix x y :: block_version
  show "x \<le> y \<Longrightarrow> y \<le> x \<Longrightarrow> x = y"
    by (cases x; cases y) (simp_all add: less_eq_block_version_def)
qed (auto simp: less_eq_block_version_def less_block_version_def)

end

fun is_tx_version_allowed :: "block_version \<Rightarrow> tx_version \<Rightarrow> bool" where
  "is_tx_version_allowed BlockV0 t = (t = TxV0)"
| "is_tx_version_allowed BlockV1 t = (t = TxV0)"
| "is_tx_version_allowed BlockV2 t = (t = TxV1)"
| "is_tx_version_allowed BlockV3 t = (t = TxV2)"

fun get_tx_version :: "block_version \<Rightarrow> tx_version" where
  "get_tx_version BlockV0 = TxV0"
| "get_tx_version BlockV1 = TxV0"
| "get_tx_version BlockV2 = TxV1"
| "get_tx_version BlockV3 = TxV2"

definition block_version_try_from :: "u8 \<Rightarrow> unit + block_version" where
  "block_version_try_from v =
     (if v = 0 then Inr BlockV0 else if v = 1 then Inr BlockV1
      else if v = 2 then Inr BlockV2 else if v = 3 then Inr BlockV3 else Inl ())"

fun write_block_version :: "block_version \<Rightarrow> u8 list" where
  "write_block_version BlockV0 = write_u8 0"
| "write_block_version BlockV1 = write_u8 1"
| "write_block_version BlockV2 = write_u8 2"
| "write_block_version BlockV3 = write_u8 3"

definition read_block_version :: "block_version parser" where
  "read_block_version = rbind read_u8 (\<lambda>v.
     case block_version_try_from v of Inr t \<Rightarrow> rreturn t | Inl _ \<Rightarrow> rfail InvalidValue)"

definition size_block_version :: "block_version \<Rightarrow> nat" where
  "size_block_version v = 1"

datatype network = Mainnet | Testnet | Dev

definition is_mainnet :: "network \<Rightarrow> bool" where
  "is_mainnet n = (case n of Mainnet \<Rightarrow> True | _ \<Rightarrow> False)"

fun write_network :: "network \<Rightarrow> u8 list" where
  "write_network Mainnet = write_u8 0"
| "write_network Testnet = write_u8 1"
| "write_network Dev = write_u8 2"

definition read_network :: "network parser" where
  "read_network = rbind read_u8 (\<lambda>v.
     if v = 0 then rreturn Mainnet else if v = 1 then rreturn Testnet
     else if v = 2 then rreturn Dev else rfail InvalidValue)"

definition size_network :: "network \<Rightarrow> nat" where
  "size_network n = 1"

interpretation tx_version_codec:
  canonical_codec write_tx_version read_tx_version size_tx_version "\<lambda>_. True"
proof unfold_locales
  fix x pre post c
  show "read_tx_version (at pre (write_tx_version x @ post) c) =
      Inr (x, at (pre @ write_tx_version x) post c)"
    by (cases x) (simp_all add: read_tx_version_def tx_version_try_from_def)
  show "size_tx_version x = length (write_tx_version x)"
    by (cases x) (simp_all add: size_tx_version_def)
qed (auto simp: read_tx_version_def tx_version_try_from_def result_simps split: if_splits)

interpretation block_version_codec:
  canonical_codec write_block_version read_block_version size_block_version "\<lambda>_. True"
proof unfold_locales
  fix x pre post c
  show "read_block_version (at pre (write_block_version x @ post) c) =
      Inr (x, at (pre @ write_block_version x) post c)"
    by (cases x) (simp_all add: read_block_version_def block_version_try_from_def)
  show "size_block_version x = length (write_block_version x)"
    by (cases x) (simp_all add: size_block_version_def)
qed (auto simp: read_block_version_def block_version_try_from_def result_simps split: if_splits)

interpretation network_codec: canonical_codec write_network read_network size_network "\<lambda>_. True"
proof unfold_locales
  fix x pre post c
  show "read_network (at pre (write_network x @ post) c) =
      Inr (x, at (pre @ write_network x) post c)"
    by (cases x) (simp_all add: read_network_def)
  show "size_network x = length (write_network x)"
    by (cases x) (simp_all add: size_network_def)
qed (auto simp: read_network_def result_simps split: if_splits)

lemmas version_read_write [simp] =
  tx_version_codec.read_write [OF TrueI] block_version_codec.read_write [OF TrueI]
  network_codec.read_write [OF TrueI]

lemmas version_read_iff [result_simps] =
  tx_version_codec.read_at_iff block_version_codec.read_at_iff network_codec.read_at_iff

lemma length_write_versions [simp]:
  "length (write_tx_version v) = 1" "length (write_block_version w) = 1"
  by (cases v; simp) (cases w; simp)

section \<open>The hard-fork schedule\<close>

record hard_fork =
  hf_height :: u64
  hf_version :: block_version
  hf_changelog :: string
  hf_version_requirement :: "string option"

definition HARD_FORKS :: "hard_fork list" where
  "HARD_FORKS =
    [\<lparr>hf_height = 0, hf_version = BlockV0, hf_changelog = ''Initial version'',
      hf_version_requirement = None\<rparr>,
     \<lparr>hf_height = 434100, hf_version = BlockV1, hf_changelog = ''xelis-hash v2'',
      hf_version_requirement = Some ''>=1.13.0''\<rparr>,
     \<lparr>hf_height = 1376000, hf_version = BlockV2, hf_changelog = ''MultiSig, P2P'',
      hf_version_requirement = Some ''>=1.16.0''\<rparr>]"

definition TESTNET_HARD_FORKS :: "hard_fork list" where
  "TESTNET_HARD_FORKS =
    [\<lparr>hf_height = 0, hf_version = BlockV0, hf_changelog = ''Initial version'',
      hf_version_requirement = None\<rparr>,
     \<lparr>hf_height = 5, hf_version = BlockV1, hf_changelog = ''xelis-hash v2'',
      hf_version_requirement = Some ''>=1.13.0''\<rparr>,
     \<lparr>hf_height = 10, hf_version = BlockV2, hf_changelog = ''MultiSig, P2P'',
      hf_version_requirement = Some ''>=1.16.0''\<rparr>,
     \<lparr>hf_height = 15, hf_version = BlockV3, hf_changelog = ''Smart Contracts'',
      hf_version_requirement = Some ''>=1.16.0''\<rparr>]"

definition get_hard_forks :: "network \<Rightarrow> hard_fork list" where
  "get_hard_forks n = (case n of Mainnet \<Rightarrow> HARD_FORKS | _ \<Rightarrow> TESTNET_HARD_FORKS)"

text \<open>The loop over the schedule: the last fork reached so far, stopping at the first one ahead.\<close>

fun hard_fork_loop :: "u64 \<Rightarrow> hard_fork list \<Rightarrow> hard_fork option \<Rightarrow> hard_fork option" where
  "hard_fork_loop height [] hf = hf"
| "hard_fork_loop height (conf # confs) hf =
     (if height \<ge> hf_height conf then hard_fork_loop height confs (Some conf) else hf)"

definition get_hard_fork_at_height :: "network \<Rightarrow> u64 \<Rightarrow> hard_fork option" where
  "get_hard_fork_at_height network height = hard_fork_loop height (get_hard_forks network) None"

definition has_hard_fork_at_height :: "network \<Rightarrow> u64 \<Rightarrow> bool \<times> block_version" where
  "has_hard_fork_at_height network height =
     (case get_hard_fork_at_height network height of
        Some hf \<Rightarrow> (hf_height hf = height, hf_version hf)
      | None \<Rightarrow> (False, BlockV0))"

definition get_version_at_height :: "network \<Rightarrow> u64 \<Rightarrow> block_version" where
  "get_version_at_height network height = snd (has_hard_fork_at_height network height)"

datatype algorithm = AlgorithmV1 | AlgorithmV2

definition get_pow_algorithm_for_version :: "block_version \<Rightarrow> algorithm" where
  "get_pow_algorithm_for_version v = (case v of BlockV0 \<Rightarrow> AlgorithmV1 | _ \<Rightarrow> AlgorithmV2)"

text \<open>
  The three functions of the semver crate are parameters: parsing a requirement, parsing a
  version, and matching one against the other.
\<close>

definition is_version_matching_requirement ::
  "(string \<Rightarrow> 'e + 'req) \<Rightarrow> (string \<Rightarrow> 'e + 'ver) \<Rightarrow> ('req \<Rightarrow> 'ver \<Rightarrow> bool) \<Rightarrow>
   string \<Rightarrow> string \<Rightarrow> 'e + bool" where
  "is_version_matching_requirement req_parse version_parse matches version req =
     result_bind (req_parse req) (\<lambda>r.
     result_bind (version_parse (takeWhile (\<lambda>ch. ch \<noteq> CHR ''-'') version)) (\<lambda>v.
     Inr (matches r v)))"

fun version_allowed_loop :: "(string \<Rightarrow> 'e + bool) \<Rightarrow> u64 \<Rightarrow> hard_fork list \<Rightarrow> 'e + bool" where
  "version_allowed_loop matching height [] = Inr True"
| "version_allowed_loop matching height (hf # hfs) =
     (case Option.bind (hf_version_requirement hf)
             (\<lambda>req. if hf_height hf \<le> height then Some req else None) of
        Some req \<Rightarrow> result_bind (matching req) (\<lambda>ok.
          if \<not> ok then Inr False else version_allowed_loop matching height hfs)
      | None \<Rightarrow> version_allowed_loop matching height hfs)"

definition is_version_allowed_at_height ::
  "(string \<Rightarrow> 'e + 'req) \<Rightarrow> (string \<Rightarrow> 'e + 'ver) \<Rightarrow> ('req \<Rightarrow> 'ver \<Rightarrow> bool) \<Rightarrow>
   network \<Rightarrow> u64 \<Rightarrow> string \<Rightarrow> 'e + bool" where
  "is_version_allowed_at_height req_parse version_parse matches network height version =
     version_allowed_loop (is_version_matching_requirement req_parse version_parse matches version)
       height (get_hard_forks network)"

fun version_enabled_loop :: "u64 \<Rightarrow> block_version \<Rightarrow> hard_fork list \<Rightarrow> bool" where
  "version_enabled_loop height version [] = False"
| "version_enabled_loop height version (hf # hfs) =
     (if hf_height hf \<le> height \<and> hf_version hf = version then True
      else version_enabled_loop height version hfs)"

definition is_version_enabled_at_height :: "network \<Rightarrow> u64 \<Rightarrow> block_version \<Rightarrow> bool" where
  "is_version_enabled_at_height network height version =
     version_enabled_loop height version (get_hard_forks network)"

definition is_tx_version_allowed_in_block_version :: "tx_version \<Rightarrow> block_version \<Rightarrow> bool" where
  "is_tx_version_allowed_in_block_version t b = is_tx_version_allowed b t"

subsection \<open>The schedule as a function of the height\<close>

lemma hard_fork_loop_filter:
  "sorted (map hf_height confs) \<Longrightarrow>
     hard_fork_loop height confs hf =
       (case filter (\<lambda>conf. hf_height conf \<le> height) confs of [] \<Rightarrow> hf | xs \<Rightarrow> Some (last xs))"
proof (induction confs arbitrary: hf)
  case Nil
  then show ?case by simp
next
  case (Cons conf confs)
  show ?case
  proof (cases "hf_height conf \<le> height")
    case True
    with Cons show ?thesis by (auto split: list.splits)
  next
    case False
    then have "filter (\<lambda>conf. hf_height conf \<le> height) confs = []"
      using Cons.prems by (auto simp: filter_empty_conv)
    with False show ?thesis by simp
  qed
qed

lemma version_allowed_loop_true:
  "version_allowed_loop m height hfs = Inr True \<longleftrightarrow>
     (\<forall>hf req. hf \<in> set hfs \<longrightarrow> hf_height hf \<le> height \<longrightarrow> hf_version_requirement hf = Some req \<longrightarrow>
        m req = Inr True)"
proof (induction hfs)
  case Nil
  then show ?case by simp
next
  case (Cons hf hfs)
  then show ?case
    by (cases "hf_version_requirement hf") (auto simp: result_bind_eq_Inr)
qed

lemma version_enabled_loop_iff:
  "version_enabled_loop height v hfs \<longleftrightarrow> (\<exists>hf \<in> set hfs. hf_height hf \<le> height \<and> hf_version hf = v)"
  by (induction hfs) auto

lemmas schedule_defs = get_hard_forks_def HARD_FORKS_def TESTNET_HARD_FORKS_def

lemma schedule_sorted: "sorted (map hf_height (get_hard_forks n))"
  by (cases n) (simp_all add: schedule_defs)

lemma version_at_height:
  "get_version_at_height n h =
     (case n of
        Mainnet \<Rightarrow> if h < 434100 then BlockV0 else if h < 1376000 then BlockV1 else BlockV2
      | _ \<Rightarrow> if h < 5 then BlockV0 else if h < 10 then BlockV1 else if h < 15 then BlockV2
            else BlockV3)"
  by (cases n)
     (auto simp: get_version_at_height_def has_hard_fork_at_height_def get_hard_fork_at_height_def
        schedule_defs)

lemma version_at_height_mono:
  "h \<le> h' \<Longrightarrow> get_version_at_height n h \<le> get_version_at_height n h'"
  by (cases n) (auto simp: version_at_height less_eq_block_version_def)

section \<open>Properties\<close>

text \<open>
  The two ways in which the daemon asks for the protocol version at a height agree: a version is
  enabled exactly when it is not newer than the version in force. So the version in force never
  decreases with the height, and a version that is enabled stays enabled.
\<close>

theorem version_enabled_iff:
  "(is_version_enabled_at_height n h v \<longleftrightarrow> v \<le> get_version_at_height n h) \<and>
   get_version_at_height n (min h h') \<le> get_version_at_height n (max h h')"
proof -
  have "is_version_enabled_at_height n h v \<longleftrightarrow> v \<le> get_version_at_height n h"
    unfolding is_version_enabled_at_height_def version_enabled_loop_iff version_at_height
    by (cases n; cases v)
       (auto simp: schedule_defs less_eq_block_version_def word_less_nat_alt word_le_nat_alt)
  moreover have "min h h' \<le> max h h'" by (auto simp: min_def max_def)
  ultimately show ?thesis using version_at_height_mono by blast
qed

end
