(* ===== verification/ElGamal.thy ===== *)
theory ElGamal
  imports Serializer_Defaults
begin

text \<open>
  Twisted ElGamal (\<open>crypto/elgamal\<close>): compressed points and their serializers, Pedersen
  commitments, ciphertexts with their homomorphic operations, key pairs and signatures.

  The curve library is a parameter: the record \<open>curve\<close> collects the functions of it that the
  sources call, \<open>curve_laws\<close> and \<open>codec_laws\<close> what is documented of them (the points are a
  commutative group that the scalars, a field, act on; compression is inverted by decompression
  and takes 32 bytes).
\<close>

section \<open>The curve library\<close>

record ('p, 's) curve =
  p_add :: "'p \<Rightarrow> 'p \<Rightarrow> 'p"
  p_sub :: "'p \<Rightarrow> 'p \<Rightarrow> 'p"
  p_identity :: 'p
  p_mul :: "'s \<Rightarrow> 'p \<Rightarrow> 'p"
  p_compress :: "'p \<Rightarrow> u8 list"
  p_decompress :: "u8 list \<Rightarrow> 'p option"
  s_zero :: 's
  s_one :: 's
  s_add :: "'s \<Rightarrow> 's \<Rightarrow> 's"
  s_sub :: "'s \<Rightarrow> 's \<Rightarrow> 's"
  s_mul :: "'s \<Rightarrow> 's \<Rightarrow> 's"
  s_invert :: "'s \<Rightarrow> 's"
  s_from :: "u64 \<Rightarrow> 's"
  s_bytes :: "'s \<Rightarrow> u8 list"
  s_from_canonical_bytes :: "u8 list \<Rightarrow> 's option"
  s_hash :: "u8 list \<Rightarrow> 's"
  gen_B :: 'p
  gen_B_blinding :: 'p
  gens_commit :: "'s \<Rightarrow> 's \<Rightarrow> 'p"

text \<open>The group and field laws, and the commitment of \<open>PedersenGens\<close>.\<close>

definition curve_laws :: "('p, 's) curve \<Rightarrow> bool" where
  "curve_laws cv \<longleftrightarrow>
     (\<forall>a b c. p_add cv (p_add cv a b) c = p_add cv a (p_add cv b c)) \<and>
     (\<forall>a b. p_add cv a b = p_add cv b a) \<and>
     (\<forall>a. p_add cv a (p_identity cv) = a) \<and>
     (\<forall>a b. p_add cv (p_sub cv a b) b = a) \<and>
     (\<forall>x a b. p_mul cv x (p_add cv a b) = p_add cv (p_mul cv x a) (p_mul cv x b)) \<and>
     (\<forall>x y a. p_mul cv (s_add cv x y) a = p_add cv (p_mul cv x a) (p_mul cv y a)) \<and>
     (\<forall>x y a. p_mul cv (s_sub cv x y) a = p_sub cv (p_mul cv x a) (p_mul cv y a)) \<and>
     (\<forall>x y a. p_mul cv (s_mul cv x y) a = p_mul cv x (p_mul cv y a)) \<and>
     (\<forall>a. p_mul cv (s_one cv) a = a) \<and>
     (\<forall>x y. s_mul cv x y = s_mul cv y x) \<and>
     (\<forall>x. x \<noteq> s_zero cv \<longrightarrow> s_mul cv x (s_invert cv x) = s_one cv) \<and>
     (\<forall>x r. gens_commit cv x r = p_add cv (p_mul cv x (gen_B cv)) (p_mul cv r (gen_B_blinding cv)))"

definition codec_laws :: "('p, 's) curve \<Rightarrow> bool" where
  "codec_laws cv \<longleftrightarrow>
     (\<forall>a. length (p_compress cv a) = 32 \<and> p_decompress cv (p_compress cv a) = Some a) \<and>
     (\<forall>x. length (s_bytes cv x) = 32 \<and> s_from_canonical_bytes cv (s_bytes cv x) = Some x) \<and>
     (\<forall>bs x. s_from_canonical_bytes cv bs = Some x \<longrightarrow> s_bytes cv x = bs)"

section \<open>Compressed points and scalars\<close>

definition RISTRETTO_COMPRESSED_SIZE :: nat where "RISTRETTO_COMPRESSED_SIZE = 32"

definition SCALAR_SIZE :: nat where "SCALAR_SIZE = 32"

datatype decompression_error = DecompressionError

text \<open>
  A \<open>CompressedRistretto\<close> is its 32 bytes, and so are the three newtypes around it:
  \<open>CompressedCommitment\<close>, \<open>CompressedHandle\<close> and \<open>CompressedPublicKey\<close>.
\<close>

type_synonym compressed_point = "u8 list"
type_synonym compressed_public_key = compressed_point

record compressed_ciphertext =
  cc_commitment :: compressed_point
  cc_handle :: compressed_point

definition point_ok :: "compressed_point \<Rightarrow> bool" where
  "point_ok p \<longleftrightarrow> length p = RISTRETTO_COMPRESSED_SIZE"

definition compressed_ciphertext_ok :: "compressed_ciphertext \<Rightarrow> bool" where
  "compressed_ciphertext_ok c \<longleftrightarrow> point_ok (cc_commitment c) \<and> point_ok (cc_handle c)"

definition write_point :: "compressed_point \<Rightarrow> u8 list" where "write_point p = p"

definition read_point :: "compressed_point parser" where
  "read_point = read_bytes RISTRETTO_COMPRESSED_SIZE"

definition size_point :: "compressed_point \<Rightarrow> nat" where "size_point p = RISTRETTO_COMPRESSED_SIZE"

definition write_compressed_ciphertext :: "compressed_ciphertext \<Rightarrow> u8 list" where
  "write_compressed_ciphertext c = cc_commitment c @ cc_handle c"

definition read_compressed_ciphertext :: "compressed_ciphertext parser" where
  "read_compressed_ciphertext = rbind read_point (\<lambda>c. rbind read_point (\<lambda>h.
     rreturn \<lparr>cc_commitment = c, cc_handle = h\<rparr>))"

definition size_compressed_ciphertext :: "compressed_ciphertext \<Rightarrow> nat" where
  "size_compressed_ciphertext c = size_point (cc_commitment c) + size_point (cc_handle c)"

definition point_decompress :: "('p, 's) curve \<Rightarrow> compressed_point \<Rightarrow> decompression_error + 'p" where
  "point_decompress cv p = ok_or (p_decompress cv p) DecompressionError"

definition write_scalar :: "('p, 's) curve \<Rightarrow> 's \<Rightarrow> u8 list" where
  "write_scalar cv x = s_bytes cv x"

definition read_scalar :: "('p, 's) curve \<Rightarrow> 's parser" where
  "read_scalar cv = rbind (read_bytes SCALAR_SIZE) (\<lambda>bs r.
     result_bind (ok_or (s_from_canonical_bytes cv bs) InvalidValue) (\<lambda>x. Inr (x, r)))"

definition size_scalar :: "'s \<Rightarrow> nat" where "size_scalar x = SCALAR_SIZE"

interpretation point_codec: canonical_codec write_point read_point size_point point_ok
  by unfold_locales (auto simp: write_point_def read_point_def size_point_def point_ok_def
      result_simps)

interpretation compressed_ciphertext_codec: canonical_codec write_compressed_ciphertext
  read_compressed_ciphertext size_compressed_ciphertext compressed_ciphertext_ok
proof unfold_locales
  fix x pre post c
  assume "compressed_ciphertext_ok x"
  then show "read_compressed_ciphertext (at pre (write_compressed_ciphertext x @ post) c) =
      Inr (x, at (pre @ write_compressed_ciphertext x) post c)"
    and "size_compressed_ciphertext x = length (write_compressed_ciphertext x)"
    by (auto simp: read_compressed_ciphertext_def write_compressed_ciphertext_def
        compressed_ciphertext_ok_def point_ok_def read_point_def size_compressed_ciphertext_def
        size_point_def)
next
  fix pre rest c x r'
  assume "read_compressed_ciphertext (at pre rest c) = Inr (x, r')"
  then show "compressed_ciphertext_ok x \<and> (\<exists>post. rest = write_compressed_ciphertext x @ post \<and>
      r' = at (pre @ write_compressed_ciphertext x) post c)"
    by (auto simp: read_compressed_ciphertext_def write_compressed_ciphertext_def
        compressed_ciphertext_ok_def point_codec.read_at_iff write_point_def result_simps)
qed

lemma scalar_codec:
  assumes "codec_laws cv"
  shows "canonical_codec (write_scalar cv) (read_scalar cv) size_scalar (\<lambda>_. True)"
  using assms
  by unfold_locales
     (auto simp: codec_laws_def write_scalar_def read_scalar_def size_scalar_def SCALAR_SIZE_def
       result_simps)

section \<open>Commitments and ciphertexts\<close>

text \<open>\<open>PedersenCommitment\<close>, \<open>DecryptHandle\<close> and \<open>PublicKey\<close> are points, \<open>PedersenOpening\<close> and
  \<open>PrivateKey\<close> scalars.\<close>

record 'p ciphertext =
  commitment :: 'p
  handle :: 'p

definition commitment_new_with_opening :: "('p, 's) curve \<Rightarrow> 's \<Rightarrow> 's \<Rightarrow> 'p" where
  "commitment_new_with_opening cv x r = gens_commit cv x r"

definition decrypt_handle :: "('p, 's) curve \<Rightarrow> 'p \<Rightarrow> 's \<Rightarrow> 'p" where
  "decrypt_handle cv public opening = p_mul cv opening public"

definition commitment_add_scalar :: "('p, 's) curve \<Rightarrow> 'p \<Rightarrow> 's \<Rightarrow> 'p" where
  "commitment_add_scalar cv c x = p_add cv c (p_mul cv x (gen_B cv))"

definition commitment_sub_scalar :: "('p, 's) curve \<Rightarrow> 'p \<Rightarrow> 's \<Rightarrow> 'p" where
  "commitment_sub_scalar cv c x = p_sub cv c (p_mul cv x (gen_B cv))"

definition ciphertext_zero :: "('p, 's) curve \<Rightarrow> 'p ciphertext" where
  "ciphertext_zero cv = \<lparr>commitment = p_identity cv, handle = p_identity cv\<rparr>"

definition ciphertext_compress :: "('p, 's) curve \<Rightarrow> 'p ciphertext \<Rightarrow> compressed_ciphertext" where
  "ciphertext_compress cv ct =
     \<lparr>cc_commitment = p_compress cv (commitment ct), cc_handle = p_compress cv (handle ct)\<rparr>"

definition ciphertext_decompress ::
  "('p, 's) curve \<Rightarrow> compressed_ciphertext \<Rightarrow> decompression_error + 'p ciphertext" where
  "ciphertext_decompress cv c =
     result_bind (point_decompress cv (cc_commitment c)) (\<lambda>com.
     result_bind (point_decompress cv (cc_handle c)) (\<lambda>h.
     Inr \<lparr>commitment = com, handle = h\<rparr>))"

definition ciphertext_add :: "('p, 's) curve \<Rightarrow> 'p ciphertext \<Rightarrow> 'p ciphertext \<Rightarrow> 'p ciphertext" where
  "ciphertext_add cv a b =
     \<lparr>commitment = p_add cv (commitment a) (commitment b), handle = p_add cv (handle a) (handle b)\<rparr>"

definition ciphertext_add_scalar :: "('p, 's) curve \<Rightarrow> 'p ciphertext \<Rightarrow> 's \<Rightarrow> 'p ciphertext" where
  "ciphertext_add_scalar cv a x = a\<lparr>commitment := commitment_add_scalar cv (commitment a) x\<rparr>"

definition ciphertext_add_u64 :: "('p, 's) curve \<Rightarrow> 'p ciphertext \<Rightarrow> u64 \<Rightarrow> 'p ciphertext" where
  "ciphertext_add_u64 cv a n = ciphertext_add_scalar cv a (s_from cv n)"

definition ciphertext_sub :: "('p, 's) curve \<Rightarrow> 'p ciphertext \<Rightarrow> 'p ciphertext \<Rightarrow> 'p ciphertext" where
  "ciphertext_sub cv a b =
     \<lparr>commitment = p_sub cv (commitment a) (commitment b), handle = p_sub cv (handle a) (handle b)\<rparr>"

definition ciphertext_sub_scalar :: "('p, 's) curve \<Rightarrow> 'p ciphertext \<Rightarrow> 's \<Rightarrow> 'p ciphertext" where
  "ciphertext_sub_scalar cv a x = a\<lparr>commitment := commitment_sub_scalar cv (commitment a) x\<rparr>"

definition ciphertext_sub_u64 :: "('p, 's) curve \<Rightarrow> 'p ciphertext \<Rightarrow> u64 \<Rightarrow> 'p ciphertext" where
  "ciphertext_sub_u64 cv a n = ciphertext_sub_scalar cv a (s_from cv n)"

definition ciphertext_mul :: "('p, 's) curve \<Rightarrow> 'p ciphertext \<Rightarrow> 's \<Rightarrow> 'p ciphertext" where
  "ciphertext_mul cv a x =
     \<lparr>commitment = p_mul cv x (commitment a), handle = p_mul cv x (handle a)\<rparr>"

section \<open>Keys and signatures\<close>

text \<open>The assertion that the secret is not zero is the panic of \<open>PublicKey::new\<close>.\<close>

definition public_key_new :: "('p, 's) curve \<Rightarrow> 's \<Rightarrow> 'p option" where
  "public_key_new cv s =
     (if s = s_zero cv then None else Some (p_mul cv (s_invert cv s) (gen_B_blinding cv)))"

definition encrypt_with_opening :: "('p, 's) curve \<Rightarrow> 'p \<Rightarrow> 's \<Rightarrow> 's \<Rightarrow> 'p ciphertext" where
  "encrypt_with_opening cv key amount opening =
     \<lparr>commitment = commitment_new_with_opening cv amount opening,
      handle = decrypt_handle cv key opening\<rparr>"

definition decrypt_to_point :: "('p, 's) curve \<Rightarrow> 's \<Rightarrow> 'p ciphertext \<Rightarrow> 'p" where
  "decrypt_to_point cv s ct = p_sub cv (commitment ct) (p_mul cv s (handle ct))"

record 's signature =
  sig_s :: 's
  sig_e :: 's

definition hash_and_point_to_scalar ::
  "('p, 's) curve \<Rightarrow> compressed_public_key \<Rightarrow> u8 list \<Rightarrow> 'p \<Rightarrow> 's" where
  "hash_and_point_to_scalar cv key message point = s_hash cv (key @ message @ p_compress cv point)"

text \<open>\<open>sign\<close> draws \<open>k\<close> from the random number generator; here it is an argument.\<close>

definition keypair_sign :: "('p, 's) curve \<Rightarrow> 'p \<Rightarrow> 's \<Rightarrow> 's \<Rightarrow> u8 list \<Rightarrow> 's signature" where
  "keypair_sign cv public_key private_key k message =
     (let r = p_mul cv k (gen_B_blinding cv);
          e = hash_and_point_to_scalar cv (p_compress cv public_key) message r;
          s = s_add cv (s_mul cv (s_invert cv private_key) e) k in
      \<lparr>sig_s = s, sig_e = e\<rparr>)"

definition signature_verify :: "('p, 's) curve \<Rightarrow> 's signature \<Rightarrow> u8 list \<Rightarrow> 'p \<Rightarrow> bool" where
  "signature_verify cv sig message key =
     (let r = p_sub cv (p_mul cv (sig_s sig) (gen_B_blinding cv)) (p_mul cv (sig_e sig) key);
          calculated = hash_and_point_to_scalar cv (p_compress cv key) message r in
      sig_e sig = calculated)"

definition SIGNATURE_SIZE :: nat where "SIGNATURE_SIZE = SCALAR_SIZE * 2"

definition write_signature :: "('p, 's) curve \<Rightarrow> 's signature \<Rightarrow> u8 list" where
  "write_signature cv sig = write_scalar cv (sig_s sig) @ write_scalar cv (sig_e sig)"

definition read_signature :: "('p, 's) curve \<Rightarrow> 's signature parser" where
  "read_signature cv = rbind (read_scalar cv) (\<lambda>s. rbind (read_scalar cv) (\<lambda>e.
     rreturn \<lparr>sig_s = s, sig_e = e\<rparr>))"

definition size_signature :: "'s signature \<Rightarrow> nat" where "size_signature sig = SIGNATURE_SIZE"

text \<open>\<open>PrivateKey::read\<close> asserts that the scalar is not zero: a panic, here the outer \<open>None\<close>.\<close>

definition private_key_from_scalar :: "('p, 's) curve \<Rightarrow> 's \<Rightarrow> 's option" where
  "private_key_from_scalar cv x = (if x = s_zero cv then None else Some x)"

definition private_key_read :: "('p, 's) curve \<Rightarrow> reader \<Rightarrow> (reader_error + 's \<times> reader) option" where
  "private_key_read cv r =
     (case read_scalar cv r of
        Inl e \<Rightarrow> Some (Inl e)
      | Inr (x, r') \<Rightarrow> map_option (\<lambda>s. Inr (s, r')) (private_key_from_scalar cv x))"

section \<open>The group of points\<close>

lemma curve_rules:
  assumes "curve_laws cv"
  shows "p_add cv (p_add cv a b) c = p_add cv a (p_add cv b c)"
    and "p_add cv a b = p_add cv b a"
    and "p_add cv a (p_identity cv) = a"
    and "p_add cv (p_sub cv a b) b = a"
    and "p_mul cv x (p_add cv a b) = p_add cv (p_mul cv x a) (p_mul cv x b)"
    and "p_mul cv (s_add cv x y) a = p_add cv (p_mul cv x a) (p_mul cv y a)"
    and "p_mul cv (s_sub cv x y) a = p_sub cv (p_mul cv x a) (p_mul cv y a)"
    and "p_mul cv (s_mul cv x y) a = p_mul cv x (p_mul cv y a)"
    and "p_mul cv (s_one cv) a = a"
    and "s_mul cv x y = s_mul cv y x"
    and "x \<noteq> s_zero cv \<Longrightarrow> s_mul cv x (s_invert cv x) = s_one cv"
    and "gens_commit cv x y = p_add cv (p_mul cv x (gen_B cv)) (p_mul cv y (gen_B_blinding cv))"
  using assms unfolding curve_laws_def by fast+

lemma p_add_left_commute:
  assumes "curve_laws cv"
  shows "p_add cv a (p_add cv b c) = p_add cv b (p_add cv a c)"
  using curve_rules(1) [OF assms, of a b c] curve_rules(1) [OF assms, of b a c]
    curve_rules(2) [OF assms, of a b] by metis

lemmas p_ac = curve_rules(1,2) p_add_left_commute

lemma p_add_cancel:
  assumes cv: "curve_laws cv" and eq: "p_add cv a b = p_add cv c b"
  shows "a = c"
proof -
  have inv: "p_add cv b (p_sub cv (p_identity cv) b) = p_identity cv"
    using curve_rules(2) [OF cv, of b "p_sub cv (p_identity cv) b"] curve_rules(4) [OF cv] by simp
  have "p_add cv (p_add cv x b) (p_sub cv (p_identity cv) b) = x" for x
    by (simp only: curve_rules(1) [OF cv] inv curve_rules(3) [OF cv])
  from this [of a] this [of c] eq show ?thesis by metis
qed

lemma p_sub_eq_iff:
  assumes "curve_laws cv"
  shows "p_sub cv a b = c \<longleftrightarrow> a = p_add cv c b"
  using p_add_cancel [OF assms, of "p_sub cv a b" b c] curve_rules(4) [OF assms, of a b] by auto

lemma p_mul_sub:
  assumes "curve_laws cv"
  shows "p_mul cv x (p_sub cv a b) = p_sub cv (p_mul cv x a) (p_mul cv x b)"
  using curve_rules(5) [OF assms, of x "p_sub cv a b" b] curve_rules(4) [OF assms, of a b]
    p_sub_eq_iff [OF assms, of "p_mul cv x a" "p_mul cv x b"] by metis

lemma p_mul_invert:
  assumes "curve_laws cv" "s \<noteq> s_zero cv"
  shows "p_mul cv s (p_mul cv r (p_mul cv (s_invert cv s) a)) = p_mul cv r a"
proof -
  note mul = curve_rules(8) [OF assms(1), symmetric]
  have "p_mul cv s (p_mul cv r (p_mul cv (s_invert cv s) a)) =
      p_mul cv (s_mul cv r s) (p_mul cv (s_invert cv s) a)"
    using mul [of s r] curve_rules(10) [OF assms(1), of s r] by metis
  also have "\<dots> = p_mul cv r (p_mul cv (s_mul cv s (s_invert cv s)) a)"
    by (simp only: curve_rules(8) [OF assms(1)])
  finally show ?thesis by (simp only: curve_rules(9,11) [OF assms(1)] assms(2) not_False_eq_True)
qed

text \<open>
  Adding two differences adds their terms, and a sum of differences regroups: the two facts behind
  the homomorphism.
\<close>

lemma p_sub_add_distrib:
  assumes "curve_laws cv"
  shows "p_sub cv (p_add cv a b) (p_add cv c d) = p_add cv (p_sub cv a c) (p_sub cv b d)"
proof -
  have "p_add cv (p_add cv (p_sub cv a c) (p_sub cv b d)) (p_add cv c d) =
      p_add cv (p_add cv (p_sub cv a c) c) (p_add cv (p_sub cv b d) d)"
    using assms by (simp only: p_ac)
  then show ?thesis using assms by (simp add: p_sub_eq_iff curve_rules(4))
qed

lemma p_sub_sub_distrib:
  assumes "curve_laws cv"
  shows "p_sub cv (p_sub cv a b) (p_sub cv c d) = p_sub cv (p_sub cv a c) (p_sub cv b d)"
proof -
  have "p_add cv (p_sub cv (p_sub cv a c) (p_sub cv b d)) (p_sub cv b d) = p_sub cv a c"
    by (rule curve_rules(4) [OF assms])
  then show ?thesis
    using assms p_sub_add_distrib [OF assms] by (metis p_sub_eq_iff curve_rules(4))
qed

lemma p_sub_identity:
  assumes "curve_laws cv"
  shows "p_sub cv d (p_identity cv) = d"
  using assms by (simp add: p_sub_eq_iff curve_rules(3))

lemma p_sub_swap:
  assumes cv: "curve_laws cv"
  shows "p_sub cv (p_add cv c d) h = p_add cv (p_sub cv c h) d"
    and "p_sub cv (p_sub cv c d) h = p_sub cv (p_sub cv c h) d"
  using p_sub_add_distrib [OF cv, of c d h "p_identity cv"]
    p_sub_sub_distrib [OF cv, of c d h "p_identity cv"]
  by (simp_all only: p_sub_identity [OF cv] curve_rules(3) [OF cv])

lemma decrypt_add_u64:
  "curve_laws cv \<Longrightarrow> decrypt_to_point cv s (ciphertext_add_u64 cv a n) =
     p_add cv (decrypt_to_point cv s a) (p_mul cv (s_from cv n) (gen_B cv))"
  by (simp add: decrypt_to_point_def ciphertext_add_u64_def ciphertext_add_scalar_def
      commitment_add_scalar_def p_sub_swap)

text \<open>A curve that satisfies the laws: the field with two elements acting on itself.\<close>

definition two_curve :: "(bool, bool) curve" where
  "two_curve = \<lparr>
     p_add = (\<noteq>), p_sub = (\<noteq>), p_identity = False, p_mul = (\<and>),
     p_compress = (\<lambda>b. replicate 32 (if b then 1 else 0)),
     p_decompress = (\<lambda>bs. if bs = replicate 32 0 then Some False
       else if bs = replicate 32 1 then Some True else None),
     s_zero = False, s_one = True, s_add = (\<noteq>), s_sub = (\<noteq>), s_mul = (\<and>), s_invert = (\<lambda>b. b),
     s_from = odd, s_bytes = (\<lambda>b. replicate 32 (if b then 1 else 0)),
     s_from_canonical_bytes = (\<lambda>bs. if bs = replicate 32 0 then Some False
       else if bs = replicate 32 1 then Some True else None),
     s_hash = (\<lambda>bs. length bs < 70), gen_B = True, gen_B_blinding = True,
     gens_commit = (\<noteq>)\<rparr>"

lemma two_curve_laws: "curve_laws two_curve"
  by (auto simp: curve_laws_def two_curve_def)

lemma replicate_32_neq: "replicate 32 (1 :: u8) \<noteq> replicate 32 0"
  by (simp add: replicate_eq_replicate)

lemma two_curve_codec_laws: "codec_laws two_curve"
  using replicate_32_neq by (auto simp: codec_laws_def two_curve_def)

lemma two_curve_key: "public_key_new two_curve True = Some True"
  by (simp add: public_key_new_def two_curve_def)

section \<open>Properties\<close>

text \<open>
  C30: decryption undoes encryption: what was encrypted for the public key of a secret, with any
  opening, decrypts under this secret to the amount times the generator.
\<close>

theorem decrypt_encrypt:
  assumes "curve_laws cv" "public_key_new cv s = Some key"
  shows "decrypt_to_point cv s (encrypt_with_opening cv key amount opening) =
    p_mul cv amount (gen_B cv)"
  using assms
  by (auto simp: public_key_new_def decrypt_to_point_def encrypt_with_opening_def decrypt_handle_def
      commitment_new_with_opening_def p_mul_invert curve_rules(12) p_sub_eq_iff split: if_splits)

theorem decrypt_encrypt_witness:
  "decrypt_to_point two_curve True (encrypt_with_opening two_curve True True False) = True"
  using decrypt_encrypt [OF two_curve_laws two_curve_key, of True False] by (simp add: two_curve_def)

text \<open>
  C29: decryption is a homomorphism for every operation on ciphertexts: sums, differences, the
  addition and subtraction of a plain amount, and the multiplication by a scalar; the zero
  ciphertext decrypts to the identity.
\<close>

theorem decrypt_homomorphic:
  assumes "curve_laws cv"
  shows "decrypt_to_point cv s (ciphertext_add cv a b) =
      p_add cv (decrypt_to_point cv s a) (decrypt_to_point cv s b) \<and>
    decrypt_to_point cv s (ciphertext_sub cv a b) =
      p_sub cv (decrypt_to_point cv s a) (decrypt_to_point cv s b) \<and>
    decrypt_to_point cv s (ciphertext_add_u64 cv a n) =
      p_add cv (decrypt_to_point cv s a) (p_mul cv (s_from cv n) (gen_B cv)) \<and>
    decrypt_to_point cv s (ciphertext_sub_u64 cv a n) =
      p_sub cv (decrypt_to_point cv s a) (p_mul cv (s_from cv n) (gen_B cv)) \<and>
    decrypt_to_point cv s (ciphertext_mul cv a x) = p_mul cv x (decrypt_to_point cv s a) \<and>
    decrypt_to_point cv s (ciphertext_zero cv) = p_identity cv"
proof -
  note cv = assms
  have id: "p_mul cv s (p_identity cv) = p_identity cv"
    using curve_rules(3,5) [OF cv] p_add_cancel [OF cv] curve_rules(2) [OF cv] by metis
  note sub_id = p_sub_identity [OF cv] and scalar = p_sub_swap [OF cv]
  have swap: "p_mul cv s (p_mul cv x h) = p_mul cv x (p_mul cv s h)" for h
    using curve_rules(8) [OF cv] curve_rules(10) [OF cv, of s x] by metis
  note defs = decrypt_to_point_def ciphertext_add_def ciphertext_sub_def ciphertext_mul_def
    ciphertext_add_u64_def ciphertext_sub_u64_def ciphertext_add_scalar_def
    ciphertext_sub_scalar_def commitment_add_scalar_def commitment_sub_scalar_def ciphertext_zero_def
  show ?thesis
  proof (intro conjI)
    show "decrypt_to_point cv s (ciphertext_add cv a b) =
        p_add cv (decrypt_to_point cv s a) (decrypt_to_point cv s b)"
      by (simp add: defs curve_rules(5) [OF cv] p_sub_add_distrib [OF cv])
    show "decrypt_to_point cv s (ciphertext_sub cv a b) =
        p_sub cv (decrypt_to_point cv s a) (decrypt_to_point cv s b)"
      by (simp add: defs p_mul_sub [OF cv] p_sub_sub_distrib [OF cv])
  qed (simp_all add: defs scalar id sub_id swap p_mul_sub [OF cv])
qed

theorem decrypt_homomorphic_witness:
  "decrypt_to_point two_curve True (ciphertext_add two_curve
     (encrypt_with_opening two_curve True True False) (ciphertext_zero two_curve)) =
   p_add two_curve (decrypt_to_point two_curve True (encrypt_with_opening two_curve True True False))
     (decrypt_to_point two_curve True (ciphertext_zero two_curve))"
  using decrypt_homomorphic [OF two_curve_laws] by blast

text \<open>
  A signature made with the private key of a key pair is accepted by the verification under its
  public key, for every message and every nonce.
\<close>

theorem signature_verifies:
  assumes "curve_laws cv" "public_key_new cv s = Some key"
  shows "signature_verify cv (keypair_sign cv key s k message) message key"
proof -
  have key: "key = p_mul cv (s_invert cv s) (gen_B_blinding cv)"
    using assms(2) by (auto simp: public_key_new_def split: if_splits)
  have "p_sub cv (p_mul cv (s_add cv (s_mul cv (s_invert cv s) e) k) (gen_B_blinding cv))
      (p_mul cv e key) = p_mul cv k (gen_B_blinding cv)" for e
    unfolding key p_sub_eq_iff [OF assms(1)]
    by (metis curve_rules(2,6,8,10) [OF assms(1)])
  then show ?thesis by (simp add: signature_verify_def keypair_sign_def Let_def)
qed

theorem signature_verifies_witness:
  "signature_verify two_curve (keypair_sign two_curve True True False [1, 2, 3]) [1, 2, 3] True"
  by (rule signature_verifies [OF two_curve_laws two_curve_key])

end
