(* ===== verification/Codec_Context.thy ===== *)
theory Codec_Context
  imports Versions ElGamal
begin

text \<open>
  Serializers that depend on the context of the reader. The proofs inside a transaction are read
  according to the transaction version, which \<open>Transaction::read\<close> stores in the reader's context,
  so their contract holds in the contexts with that version only. The locale \<open>codec_in\<close> states it:
  in such a context, reading what was written gives it back, and whatever is read is well-formed
  and was taken from the bytes ahead. It is weaker than \<open>canonical_codec\<close>: some readers accept
  several byte strings for one value.

  \<open>yields c p Q\<close> says that every value the reader \<open>p\<close> accepts in the context \<open>c\<close> satisfies \<open>Q\<close>; its
  rules follow the structure of a reader.
\<close>

lemma length_index_map_insert: "length (index_map_insert k v m) \<le> Suc (length m)"
  by (induction m) auto

lemma list_all_index_map_insert:
  "list_all P m \<Longrightarrow> P (k, v) \<Longrightarrow> list_all P (index_map_insert k v m)"
  by (induction m) auto

section \<open>What a reader yields\<close>

definition yields :: "read_context \<Rightarrow> 'a parser \<Rightarrow> ('a \<Rightarrow> bool) \<Rightarrow> bool" where
  "yields c p Q \<longleftrightarrow> (\<forall>pre rest x r'. p (at pre rest c) = Inr (x, r') \<longrightarrow>
     Q x \<and> (\<exists>a b. rest = a @ b \<and> r' = at (pre @ a) b c))"

lemma yieldsD:
  assumes "yields c p Q" "p (at pre rest c) = Inr (x, r')"
  obtains a b where "Q x" "rest = a @ b" "r' = at (pre @ a) b c"
  using assms unfolding yields_def by blast

lemma yieldsI:
  "(\<And>pre rest x r'. p (at pre rest c) = Inr (x, r') \<Longrightarrow>
      Q x \<and> (\<exists>a b. rest = a @ b \<and> r' = at (pre @ a) b c)) \<Longrightarrow> yields c p Q"
  by (simp add: yields_def)

lemma yields_mono: "yields c p P \<Longrightarrow> (\<And>x. P x \<Longrightarrow> Q x) \<Longrightarrow> yields c p Q"
  by (fastforce simp: yields_def)

lemma yields_return: "Q x \<Longrightarrow> yields c (rreturn x) Q"
  by (rule yieldsI) (simp, metis append_Nil append_Nil2)

lemma yields_Inr: "Q x \<Longrightarrow> yields c (\<lambda>r. Inr (x, r)) Q"
  using yields_return [of Q x c] by (simp add: rreturn_def [abs_def])

lemma yields_fail: "yields c (rfail e) Q"
  by (simp add: yields_def)

lemma yields_bind:
  assumes p: "yields c p P" and k: "\<And>x. P x \<Longrightarrow> yields c (k x) Q"
  shows "yields c (rbind p k) Q"
proof (rule yieldsI)
  fix pre rest y r'
  assume "rbind p k (at pre rest c) = Inr (y, r')"
  then obtain x r1 where r1: "p (at pre rest c) = Inr (x, r1)" and y: "k x r1 = Inr (y, r')"
    by (auto simp: rbind_eq_Inr)
  from p r1 obtain a b where x: "P x" "rest = a @ b" "r1 = at (pre @ a) b c" by (rule yieldsD)
  from k [OF x(1)] y [unfolded x(3)] obtain a' b'
    where "Q y" "b = a' @ b'" "r' = at ((pre @ a) @ a') b' c" by (rule yieldsD)
  with x show "Q y \<and> (\<exists>a b. rest = a @ b \<and> r' = at (pre @ a) b c)"
    by (metis append.assoc)
qed

lemma yields_if:
  "(b \<Longrightarrow> yields c p Q) \<Longrightarrow> (\<not> b \<Longrightarrow> yields c q Q) \<Longrightarrow> yields c (if b then p else q) Q"
  by simp

lemma yields_option_case:
  "(m = None \<Longrightarrow> yields c p Q) \<Longrightarrow> (\<And>y. m = Some y \<Longrightarrow> yields c (q y) Q) \<Longrightarrow>
     yields c (case m of None \<Rightarrow> p | Some y \<Rightarrow> q y) Q"
  by (cases m) auto

lemma yields_bytes: "yields c (read_bytes n) (\<lambda>bs. length bs = n)"
  by (rule yieldsI) (auto simp: read_bytes_at_Inr)

lemma yields_u8: "yields c read_u8 (\<lambda>_. True)"
  by (rule yieldsI) (auto simp: read_u8_at_Inr)

lemma yields_read_n:
  "yields c p P \<Longrightarrow> yields c (read_n n p) (\<lambda>xs. length xs = n \<and> list_all P xs)"
  by (induction n) (auto intro!: yields_return yields_Inr yields_bind [of c p P] elim!: yields_bind)

lemma yields_read_entries:
  assumes "yields c p P" "yields c q Q"
  shows "distinct (map fst m) \<Longrightarrow> list_all (pair_ok P Q) m \<Longrightarrow>
    yields c (read_entries n p q m)
      (\<lambda>m'. length m' \<le> length m + n \<and> distinct (map fst m') \<and> list_all (pair_ok P Q) m')"
proof (induction n arbitrary: m)
  case 0
  then show ?case by (simp only: read_entries.simps) (rule yields_return, simp)
next
  case (Suc n)
  have "yields c (read_entries n p q (index_map_insert k v m)) (\<lambda>m'. length m' \<le> length m + Suc n \<and>
      distinct (map fst m') \<and> list_all (pair_ok P Q) m')" if "P k" "Q v" for k v
  proof -
    have "list_all (pair_ok P Q) (index_map_insert k v m)"
      using Suc.prems that by (intro list_all_index_map_insert) (simp_all, simp add: pair_ok_def)
    from Suc.IH [OF distinct_index_map_insert [OF Suc.prems(1)] this] show ?thesis
      using length_index_map_insert [of k v m] by (elim yields_mono) auto
  qed
  then show ?case by (auto intro!: yields_bind [OF assms(1)] yields_bind [OF assms(2)])
qed

lemmas yields_intros = yields_return yields_fail yields_if yields_option_case

lemma rbind_read_bool:
  "rbind read_bool k (at pre (write_bool b @ post) c) = k b (at (pre @ write_bool b) post c)"
  using bool_codec.read_write [OF TrueI, of pre b post c] by (simp add: rbind_def)

section \<open>The contract\<close>

locale codec_in =
  fixes wr :: "'a \<Rightarrow> u8 list" and rd :: "'a parser" and valid :: "'a \<Rightarrow> bool"
    and ok :: "read_context \<Rightarrow> bool"
  assumes read_write_in:
      "ok c \<Longrightarrow> valid x \<Longrightarrow> rd (at pre (wr x @ post) c) = Inr (x, at (pre @ wr x) post c)"
    and yields_in: "ok c \<Longrightarrow> yields c rd valid"
begin

lemma read_n_write_in:
  "ok c \<Longrightarrow> list_all valid xs \<Longrightarrow> n = length xs \<Longrightarrow>
     read_n n rd (at pre (write_all wr xs @ post) c) = Inr (xs, at (pre @ write_all wr xs) post c)"
  by (induction xs arbitrary: pre n) (auto simp: read_write_in)

lemma read_n_yields_in:
  "ok c \<Longrightarrow> yields c (read_n n rd) (\<lambda>xs. length xs = n \<and> list_all valid xs)"
  by (intro yields_read_n yields_in)

lemma read_distinct_write_in:
  "ok c \<Longrightarrow> list_all valid xs \<Longrightarrow> distinct (acc @ xs) \<Longrightarrow> n = length xs \<Longrightarrow>
     read_distinct e n rd acc (at pre (write_all wr xs @ post) c) =
       Inr (acc @ xs, at (pre @ write_all wr xs) post c)"
  by (induction xs arbitrary: pre acc n) (auto simp: read_write_in index_set_insert_def)

lemma read_distinct_yields_in:
  "ok c \<Longrightarrow> distinct acc \<Longrightarrow> list_all valid acc \<Longrightarrow>
     yields c (read_distinct e n rd acc)
       (\<lambda>xs. length xs = length acc + n \<and> distinct xs \<and> list_all valid xs)"
proof (induction n arbitrary: acc)
  case 0
  then show ?case by (simp only: read_distinct.simps) (rule yields_return, simp)
next
  case (Suc n)
  have "yields c (read_distinct e n rd (acc @ [x]))
      (\<lambda>xs. length xs = length acc + Suc n \<and> distinct xs \<and> list_all valid xs)"
    if "valid x" "x \<notin> set acc" for x
    using Suc.IH [of "acc @ [x]"] Suc.prems that by simp
  then show ?case
    by (auto intro!: yields_bind [OF yields_in] yields_fail simp: Suc.prems(1) index_set_insert_def)
qed

lemma option_in: "codec_in (write_option wr) (read_option rd) (pred_option valid) ok"
proof
  fix c x pre post
  assume "ok c" "pred_option valid x"
  then show "read_option rd (at pre (write_option wr x @ post) c) =
      Inr (x, at (pre @ write_option wr x) post c)"
    by (cases x) (simp_all add: read_option_def write_option_def read_write_in rbind_read_bool)
next
  fix c
  assume "ok c"
  have "yields c read_bool (\<lambda>_. True)"
    by (rule yieldsI) (auto simp: bool_codec.read_at_iff)
  then show "yields c (read_option rd) (pred_option valid)"
    unfolding read_option_def
    by (rule yields_bind) (auto intro!: yields_intros yields_bind [OF yields_in [OF \<open>ok c\<close>]])
qed

lemma weaken_in: "(\<And>c. ok' c \<Longrightarrow> ok c) \<Longrightarrow> codec_in wr rd valid ok'"
  by unfold_locales (auto simp: read_write_in yields_in)

end

text \<open>Two serializers together give the loops over the entries of a map.\<close>

locale codec_in_pair =
  a: codec_in wa ra va ok + b: codec_in wb rb vb ok
  for wa :: "'a \<Rightarrow> u8 list" and ra va and wb :: "'b \<Rightarrow> u8 list" and rb vb and ok
begin

lemma read_entries_write_in:
  "ok c \<Longrightarrow> list_all (pair_ok va vb) m \<Longrightarrow> distinct (map fst (acc @ m)) \<Longrightarrow> n = length m \<Longrightarrow>
     read_entries n ra rb acc (at pre (write_all (write_pair wa wb) m @ post) c) =
       Inr (acc @ m, at (pre @ write_all (write_pair wa wb) m) post c)"
proof (induction m arbitrary: pre acc n)
  case (Cons p m)
  obtain k v where p: "p = (k, v)" by (cases p)
  have "index_map_insert k v acc = acc @ [(k, v)]"
    using Cons.prems p by (intro index_map_insert_new) auto
  with Cons p show ?case
    by (auto simp: write_pair_def pair_ok_def a.read_write_in b.read_write_in)
qed simp

lemma read_entries_yields_in:
  "ok c \<Longrightarrow> yields c (read_entries n ra rb [])
     (\<lambda>m. length m \<le> n \<and> distinct (map fst m) \<and> list_all (pair_ok va vb) m)"
  by (rule yields_mono [OF yields_read_entries [OF a.yields_in b.yields_in, where m = "[]"]]) auto

lemma map_in: "codec_in (write_map wa wb) (read_map ra rb) (map_ok va vb) ok"
proof
  fix c m pre post
  assume "ok c" "map_ok va vb m"
  then show "read_map ra rb (at pre (write_map wa wb m @ post) c) =
      Inr (m, at (pre @ write_map wa wb m) post c)"
    using read_entries_write_in [of c m "[]"] by (simp add: read_map_def write_map_def map_ok_def)
next
  fix c
  assume "ok c"
  have "yields c read_u16 (\<lambda>_. True)"
    by (rule yieldsI) (auto simp: u16_codec.read_at_iff)
  then show "yields c (read_map ra rb) (map_ok va vb)"
    unfolding read_map_def
  proof (rule yields_bind)
    fix n :: u16
    show "yields c (read_entries (unat n) ra rb []) (map_ok va vb)"
      using unat_u16_less [of n]
      by (intro yields_mono [OF read_entries_yields_in [OF \<open>ok c\<close>]]) (auto simp: map_ok_def)
  qed
qed

end

text \<open>A canonical serializer satisfies the contract in every context.\<close>

sublocale canonical_codec \<subseteq> in_context: codec_in wr rd valid "\<lambda>_. True"
proof
  fix c
  show "yields c rd valid"
    using read_canonical unfolding yields_def by blast
qed (rule read_write)

end
