(* ===== verification/Contract_Values.thy ===== *)
theory Contract_Values
  imports Codec_Context
begin

text \<open>
  The values that transactions and modules carry for the contract virtual machine, and their
  serializers (\<open>transaction/payload/contract/mod.rs\<close>). The virtual machine is outside the
  repository: the constructors are those that the serializers match on, and the record \<open>vm\<close> holds
  what they call (whether a primitive is a number, its type, and the serializer of the opaque
  values, which \<open>contract/opaque\<close> assembles from the types it registers with the machine).

  \<open>ValueCell::read\<close> calls itself with no bound on the nesting. Its model takes the nesting depth it
  may still use; \<open>read_value_cell\<close> starts it with more than the bytes ahead, and
  \<open>read_fuel_enough\<close> shows that the depth then never runs out: each level takes a byte. The stack
  that the calls of the program use is not modelled; the depth is what it grows with, and the property
  of the reader says how deep an input can make it.
\<close>

section \<open>Values\<close>

datatype 'o primitive =
  PNull | PU8 u8 | PU16 u16 | PU32 u32 | PU64 u64 | PU128 u128 | PU256 u256 | PBoolean bool
| PString rust_string | PRange "'o primitive" "'o primitive" | POpaque 'o

datatype 'o value_cell =
  CDefault "'o primitive" | CBytes "u8 list" | CArray "'o value_cell list"
| CMap "('o value_cell \<times> 'o value_cell) list"

record ('o, 't) vm =
  vm_is_number :: "'o primitive \<Rightarrow> bool"
  vm_get_type :: "'o primitive \<Rightarrow> 't option"
  opaque_write :: "'o \<Rightarrow> u8 list"
  opaque_read :: "'o parser"
  opaque_size :: "'o \<Rightarrow> nat"
  opaque_ok :: "'o \<Rightarrow> bool"

text \<open>What is relied on: the opaque values have a serializer in the contexts of a version.\<close>

definition vm_laws :: "('o, 't) vm \<Rightarrow> read_context \<Rightarrow> bool" where
  "vm_laws vm c \<longleftrightarrow> yields c (opaque_read vm) (opaque_ok vm) \<and>
     (\<forall>x. opaque_ok vm x \<longrightarrow> opaque_size vm x = length (opaque_write vm x) \<and>
        (\<forall>pre post. opaque_read vm (at pre (opaque_write vm x @ post) c) =
           Inr (x, at (pre @ opaque_write vm x) post c)))"

subsection \<open>Writing\<close>

definition write_u256 :: "u256 \<Rightarrow> u8 list" where "write_u256 v = to_be_bytes v"

definition read_u256 :: "u256 parser" where
  "read_u256 = rbind (read_bytes 32) (\<lambda>bs. rreturn (from_be_bytes bs))"

definition size_u256 :: "u256 \<Rightarrow> nat" where "size_u256 v = 32"

fun write_primitive :: "('o, 't) vm \<Rightarrow> 'o primitive \<Rightarrow> u8 list" where
  "write_primitive vm PNull = write_u8 0"
| "write_primitive vm (PU8 v) = write_u8 1 @ write_u8 v"
| "write_primitive vm (PU16 v) = write_u8 2 @ write_u16 v"
| "write_primitive vm (PU32 v) = write_u8 3 @ write_u32 v"
| "write_primitive vm (PU64 v) = write_u8 4 @ write_u64 v"
| "write_primitive vm (PU128 v) = write_u8 5 @ write_u128 v"
| "write_primitive vm (PU256 v) = write_u8 6 @ write_u256 v"
| "write_primitive vm (PBoolean v) = write_u8 7 @ write_bool v"
| "write_primitive vm (PString s) = write_u8 8 @ write_u16 (of_nat (length s)) @ s"
| "write_primitive vm (PRange a b) = write_u8 9 @ write_primitive vm a @ write_primitive vm b"
| "write_primitive vm (POpaque x) = write_u8 10 @ opaque_write vm x"

fun primitive_size :: "('o, 't) vm \<Rightarrow> 'o primitive \<Rightarrow> nat" where
  "primitive_size vm PNull = 1 + 0"
| "primitive_size vm (PU8 _) = 1 + 1"
| "primitive_size vm (PU16 _) = 1 + 2"
| "primitive_size vm (PU32 _) = 1 + 4"
| "primitive_size vm (PU64 _) = 1 + 8"
| "primitive_size vm (PU128 _) = 1 + 16"
| "primitive_size vm (PU256 v) = 1 + size_u256 v"
| "primitive_size vm (PBoolean _) = 1 + 1"
| "primitive_size vm (PString s) = 1 + (2 + length s)"
| "primitive_size vm (PRange a b) = 1 + (primitive_size vm a + primitive_size vm b)"
| "primitive_size vm (POpaque x) = 1 + opaque_size vm x"

function write_value_cell :: "('o, 't) vm \<Rightarrow> 'o value_cell \<Rightarrow> u8 list"
  and write_cells :: "('o, 't) vm \<Rightarrow> 'o value_cell list \<Rightarrow> u8 list"
  and write_cell_entries :: "('o, 't) vm \<Rightarrow> ('o value_cell \<times> 'o value_cell) list \<Rightarrow> u8 list" where
  "write_value_cell vm (CDefault p) = write_u8 0 @ write_primitive vm p"
| "write_value_cell vm (CBytes bs) = write_u8 1 @ write_u32 (of_nat (length bs)) @ bs"
| "write_value_cell vm (CArray xs) = write_u8 2 @ write_u32 (of_nat (length xs)) @ write_cells vm xs"
| "write_value_cell vm (CMap m) =
     write_u8 3 @ write_u32 (of_nat (length m)) @ write_cell_entries vm m"
| "write_cells vm [] = []"
| "write_cells vm (x # xs) = write_value_cell vm x @ write_cells vm xs"
| "write_cell_entries vm [] = []"
| "write_cell_entries vm ((k, v) # m) =
     write_value_cell vm k @ write_value_cell vm v @ write_cell_entries vm m"
  by pat_completeness auto
termination
  by (relation "measure (case_sum (\<lambda>(vm, x). size x)
        (case_sum (\<lambda>(vm, xs). size_list size xs) (\<lambda>(vm, m). size_list (size_prod size size) m)))") auto

subsection \<open>Reading\<close>

text \<open>One call of \<open>Primitive::read\<close>, given the recursive calls, and the calls nested up to a depth.\<close>

definition read_primitive_step ::
  "('o, 't) vm \<Rightarrow> 'o primitive parser \<Rightarrow> 'o primitive parser" where
  "read_primitive_step vm rec = rbind read_u8 (\<lambda>t.
     if t = 0 then rreturn PNull
     else if t = 1 then rbind read_u8 (\<lambda>v. rreturn (PU8 v))
     else if t = 2 then rbind read_u16 (\<lambda>v. rreturn (PU16 v))
     else if t = 3 then rbind read_u32 (\<lambda>v. rreturn (PU32 v))
     else if t = 4 then rbind read_u64 (\<lambda>v. rreturn (PU64 v))
     else if t = 5 then rbind read_u128 (\<lambda>v. rreturn (PU128 v))
     else if t = 6 then rbind read_u256 (\<lambda>v. rreturn (PU256 v))
     else if t = 7 then rbind read_bool (\<lambda>v. rreturn (PBoolean v))
     else if t = 8 then rbind read_u16 (\<lambda>l. rbind (read_string_with_size (unat l)) (\<lambda>s.
       rreturn (PString s)))
     else if t = 9 then
       rbind rec (\<lambda>a.
         if \<not> vm_is_number vm a then rfail InvalidValue
         else rbind rec (\<lambda>b.
           if \<not> vm_is_number vm b then rfail InvalidValue
           else (case vm_get_type vm a of None \<Rightarrow> rfail AnyError | Some ta \<Rightarrow>
             (case vm_get_type vm b of None \<Rightarrow> rfail AnyError | Some tb \<Rightarrow>
               if ta \<noteq> tb then rfail InvalidValue else rreturn (PRange a b)))))
     else if t = 10 then rbind (opaque_read vm) (\<lambda>x. rreturn (POpaque x))
     else rfail InvalidValue)"

fun read_primitive_fuel :: "('o, 't) vm \<Rightarrow> nat \<Rightarrow> 'o primitive parser" where
  "read_primitive_fuel vm 0 = rfail InvalidSize"
| "read_primitive_fuel vm (Suc n) = read_primitive_step vm (read_primitive_fuel vm n)"

definition read_primitive :: "('o, 't) vm \<Rightarrow> 'o primitive parser" where
  "read_primitive vm r = read_primitive_fuel vm (Suc (reader_size r)) r"

definition read_cell_step ::
  "('o, 't) vm \<Rightarrow> 'o value_cell parser \<Rightarrow> 'o value_cell parser" where
  "read_cell_step vm rec = rbind read_u8 (\<lambda>t.
     if t = 0 then rbind (read_primitive vm) (\<lambda>p. rreturn (CDefault p))
     else if t = 1 then rbind read_u32 (\<lambda>l. rbind (read_bytes (unat l)) (\<lambda>bs. rreturn (CBytes bs)))
     else if t = 2 then rbind read_u32 (\<lambda>l. rbind (read_n (unat l) rec) (\<lambda>xs.
       rreturn (CArray xs)))
     else if t = 3 then rbind read_u32 (\<lambda>l.
       rbind (read_entries (unat l) rec rec []) (\<lambda>m.
         rreturn (CMap m)))
     else rfail InvalidValue)"

fun read_cell_fuel :: "('o, 't) vm \<Rightarrow> nat \<Rightarrow> 'o value_cell parser" where
  "read_cell_fuel vm 0 = rfail InvalidSize"
| "read_cell_fuel vm (Suc n) = read_cell_step vm (read_cell_fuel vm n)"

definition read_value_cell :: "('o, 't) vm \<Rightarrow> 'o value_cell parser" where
  "read_value_cell vm r = read_cell_fuel vm (Suc (reader_size r)) r"

declare read_primitive_fuel.simps [simp del] read_cell_fuel.simps [simp del]

subsection \<open>The announced size\<close>

text \<open>\<open>ValueCell::size\<close> is iterative: a stack of the cells still to count.\<close>

function cell_nodes :: "'o value_cell \<Rightarrow> nat"
  and cells_nodes :: "'o value_cell list \<Rightarrow> nat"
  and entries_nodes :: "('o value_cell \<times> 'o value_cell) list \<Rightarrow> nat" where
  "cell_nodes (CArray xs) = Suc (cells_nodes xs)"
| "cell_nodes (CMap m) = Suc (entries_nodes m)"
| "cell_nodes (CDefault p) = 1"
| "cell_nodes (CBytes bs) = 1"
| "cells_nodes [] = 0"
| "cells_nodes (x # xs) = cell_nodes x + cells_nodes xs"
| "entries_nodes [] = 0"
| "entries_nodes ((k, v) # m) = cell_nodes k + cell_nodes v + entries_nodes m"
  by pat_completeness auto
termination
  by (relation "measure (case_sum size
        (case_sum (size_list size) (size_list (size_prod size size))))") auto

definition push_cells :: "'o value_cell list \<Rightarrow> 'o value_cell list \<Rightarrow> 'o value_cell list" where
  "push_cells xs stack = foldl (\<lambda>st x. x # st) stack xs"

definition push_entries ::
  "('o value_cell \<times> 'o value_cell) list \<Rightarrow> 'o value_cell list \<Rightarrow> 'o value_cell list" where
  "push_entries m stack = foldl (\<lambda>st (k, v). k # v # st) stack m"

lemma cells_nodes_push [simp]: "cells_nodes (push_cells xs st) = cells_nodes xs + cells_nodes st"
  by (induction xs arbitrary: st) (auto simp: push_cells_def)

lemma cells_nodes_push_entries [simp]:
  "cells_nodes (push_entries m st) = entries_nodes m + cells_nodes st"
  by (induction m arbitrary: st) (auto simp: push_entries_def)

lemma cell_nodes_pos [simp]: "0 < cell_nodes x"
  by (cases x) auto

function cell_size_loop :: "('o, 't) vm \<Rightarrow> nat \<Rightarrow> 'o value_cell list \<Rightarrow> nat" where
  "cell_size_loop vm n [] = n"
| "cell_size_loop vm n (CDefault p # st) = cell_size_loop vm (n + 1 + primitive_size vm p) st"
| "cell_size_loop vm n (CBytes bs # st) = cell_size_loop vm (n + 1 + 4 + length bs) st"
| "cell_size_loop vm n (CArray xs # st) = cell_size_loop vm (n + 1 + 4) (push_cells xs st)"
| "cell_size_loop vm n (CMap m # st) = cell_size_loop vm (n + 1 + 4) (push_entries m st)"
  by pat_completeness auto
termination
  by (relation "measure (\<lambda>(vm, n, st). cells_nodes st)") auto

definition cell_size :: "('o, 't) vm \<Rightarrow> 'o value_cell \<Rightarrow> nat" where
  "cell_size vm x = cell_size_loop vm 0 [x]"

section \<open>Well-formed values\<close>

text \<open>
  What the readers accept: strings and collections within the width of their length field, ranges
  between numbers of one type, maps without a repeated key.
\<close>

fun primitive_ok :: "('o, 't) vm \<Rightarrow> 'o primitive \<Rightarrow> bool" where
  "primitive_ok vm (PString s) \<longleftrightarrow> valid_utf8 s \<and> length s < 2 ^ 16"
| "primitive_ok vm (PRange a b) \<longleftrightarrow> primitive_ok vm a \<and> primitive_ok vm b \<and>
     vm_is_number vm a \<and> vm_is_number vm b \<and>
     vm_get_type vm a \<noteq> None \<and> vm_get_type vm b = vm_get_type vm a"
| "primitive_ok vm (POpaque x) \<longleftrightarrow> opaque_ok vm x"
| "primitive_ok vm _ \<longleftrightarrow> True"

function cell_ok :: "('o, 't) vm \<Rightarrow> 'o value_cell \<Rightarrow> bool"
  and cells_ok :: "('o, 't) vm \<Rightarrow> 'o value_cell list \<Rightarrow> bool"
  and entries_ok :: "('o, 't) vm \<Rightarrow> ('o value_cell \<times> 'o value_cell) list \<Rightarrow> bool" where
  "cell_ok vm (CDefault p) \<longleftrightarrow> primitive_ok vm p"
| "cell_ok vm (CBytes bs) \<longleftrightarrow> length bs < 2 ^ 32"
| "cell_ok vm (CArray xs) \<longleftrightarrow> length xs < 2 ^ 32 \<and> cells_ok vm xs"
| "cell_ok vm (CMap m) \<longleftrightarrow> length m < 2 ^ 32 \<and> distinct (map fst m) \<and> entries_ok vm m"
| "cells_ok vm [] \<longleftrightarrow> True"
| "cells_ok vm (x # xs) \<longleftrightarrow> cell_ok vm x \<and> cells_ok vm xs"
| "entries_ok vm [] \<longleftrightarrow> True"
| "entries_ok vm ((k, v) # m) \<longleftrightarrow> cell_ok vm k \<and> cell_ok vm v \<and> entries_ok vm m"
  by pat_completeness auto
termination
  by (relation "measure (case_sum (\<lambda>(vm, x). size x)
        (case_sum (\<lambda>(vm, xs). size_list size xs) (\<lambda>(vm, m). size_list (size_prod size size) m)))") auto

lemma cells_ok_iff: "cells_ok vm xs \<longleftrightarrow> list_all (cell_ok vm) xs"
  by (induction xs) auto

lemma entries_ok_iff: "entries_ok vm m \<longleftrightarrow> list_all (pair_ok (cell_ok vm) (cell_ok vm)) m"
  by (induction m) (auto simp: pair_ok_def)

lemma write_cells_all: "write_cells vm xs = write_all (write_value_cell vm) xs"
  by (induction xs) auto

lemma write_entries_all:
  "write_cell_entries vm m = write_all (write_pair (write_value_cell vm) (write_value_cell vm)) m"
  by (induction m) (auto simp: write_pair_def)

subsection \<open>Sizes\<close>

lemma length_write_u256 [simp]: "length (write_u256 v) = 32"
  by (simp add: write_u256_def)

lemma primitive_size_write:
  "vm_laws vm c \<Longrightarrow> primitive_ok vm p \<Longrightarrow> primitive_size vm p = length (write_primitive vm p)"
  by (induction p) (auto simp: size_u256_def vm_laws_def)

lemma cells_push [simp]:
  "cells_ok vm (push_cells xs st) \<longleftrightarrow> cells_ok vm xs \<and> cells_ok vm st"
  "length (write_cells vm (push_cells xs st)) = length (write_cells vm xs) + length (write_cells vm st)"
  by (induction xs arbitrary: st) (auto simp: push_cells_def)

lemma entries_push [simp]:
  "cells_ok vm (push_entries m st) \<longleftrightarrow> entries_ok vm m \<and> cells_ok vm st"
  "length (write_cells vm (push_entries m st)) =
     length (write_cell_entries vm m) + length (write_cells vm st)"
  by (induction m arbitrary: st) (auto simp: push_entries_def)

lemma cell_size_loop_write:
  "vm_laws vm c \<Longrightarrow> cells_ok vm st \<Longrightarrow> cell_size_loop vm n st = n + length (write_cells vm st)"
  by (induction vm n st rule: cell_size_loop.induct) (auto simp: primitive_size_write)

lemma cell_size_write:
  "vm_laws vm c \<Longrightarrow> cell_ok vm x \<Longrightarrow> cell_size vm x = length (write_value_cell vm x)"
  by (simp add: cell_size_def cell_size_loop_write [where c = c])

section \<open>The nesting depth is enough\<close>

definition agree_upto :: "nat \<Rightarrow> read_context \<Rightarrow> 'a parser \<Rightarrow> 'a parser \<Rightarrow> bool" where
  "agree_upto k c p q \<longleftrightarrow> (\<forall>pre rest. length rest \<le> k \<longrightarrow> p (at pre rest c) = q (at pre rest c))"

lemma agree_refl [intro!]: "agree_upto k c p p"
  by (simp add: agree_upto_def)

lemma agree_bind:
  assumes "agree_upto k c p q" "yields c p P" "\<And>x. P x \<Longrightarrow> agree_upto k c (f x) (g x)"
  shows "agree_upto k c (rbind p f) (rbind q g)"
  unfolding agree_upto_def
proof (intro allI impI)
  fix pre rest :: "u8 list"
  assume len: "length rest \<le> k"
  then have pq: "q (at pre rest c) = p (at pre rest c)" using assms(1) by (simp add: agree_upto_def)
  show "rbind p f (at pre rest c) = rbind q g (at pre rest c)"
  proof (cases "p (at pre rest c)")
    case (Inl e)
    then show ?thesis using pq by (simp add: rbind_def)
  next
    case (Inr y)
    then obtain x r where y: "p (at pre rest c) = Inr (x, r)" by (cases y) auto
    with assms(2) obtain a b where "P x" "rest = a @ b" "r = at (pre @ a) b c" by (rule yieldsD)
    then show ?thesis using y pq len assms(3) [of x] by (simp add: agree_upto_def)
  qed
qed

lemma agree_bind_u8:
  assumes "\<And>x. 0 < k \<Longrightarrow> agree_upto (k - 1) c (f x) (g x)"
  shows "agree_upto k c (rbind read_u8 f) (rbind read_u8 g)"
  unfolding agree_upto_def
proof (intro allI impI)
  fix pre rest :: "u8 list"
  assume "length rest \<le> k"
  then show "rbind read_u8 f (at pre rest c) = rbind read_u8 g (at pre rest c)"
    using assms by (cases rest) (auto simp: rbind_def read_u8_at agree_upto_def)
qed

lemma agree_if:
  "agree_upto k c p p' \<Longrightarrow> agree_upto k c q q' \<Longrightarrow>
     agree_upto k c (if b then p else q) (if b then p' else q')"
  by simp

lemma agree_read_n:
  assumes "agree_upto k c p q" "yields c p P"
  shows "agree_upto k c (read_n n p) (read_n n q)"
proof (induction n)
  case (Suc n)
  show ?case
    by (auto intro!: agree_bind [OF assms] agree_bind [OF Suc yields_read_n [OF assms(2)]])
qed auto

lemma agree_read_entries:
  assumes "agree_upto k c p q" "yields c p P"
  shows "agree_upto k c (read_entries n p p m) (read_entries n q q m)"
proof (induction n arbitrary: m)
  case (Suc n)
  then show ?case by (auto intro!: agree_bind [OF assms])
qed auto

subsection \<open>What the readers yield\<close>

lemma unat_u32_less: "unat (l :: u32) < 4294967296"
  using unsigned_less [of l] by simp

lemma yields_u256: "yields c read_u256 (\<lambda>_. True)"
  unfolding read_u256_def by (intro yields_bind [OF yields_bytes] yields_return) simp

lemma yields_string_with_size:
  "yields c (read_string_with_size n) (\<lambda>s. valid_utf8 s \<and> length s = n)"
  unfolding read_string_with_size_def by (intro yields_bind [OF yields_bytes] yields_intros) auto

lemmas yields_primitives =
  yields_bind [OF u8_codec.in_context.yields_in [OF TrueI]]
  yields_bind [OF u16_codec.in_context.yields_in [OF TrueI]]
  yields_bind [OF u32_codec.in_context.yields_in [OF TrueI]]
  yields_bind [OF u64_codec.in_context.yields_in [OF TrueI]]
  yields_bind [OF u128_codec.in_context.yields_in [OF TrueI]]
  yields_bind [OF bool_codec.in_context.yields_in [OF TrueI]]
  yields_bind [OF hash_codec.in_context.yields_in [OF TrueI]]
  yields_bind [OF point_codec.in_context.yields_in [OF TrueI]]
  yields_bind [OF yields_u256] yields_bind [OF yields_string_with_size]
  yields_bind [OF yields_bytes]

lemma yields_primitive_step:
  assumes "vm_laws vm c" "yields c rec (primitive_ok vm)"
  shows "yields c (read_primitive_step vm rec) (primitive_ok vm)"
proof -
  have op: "yields c (opaque_read vm) (opaque_ok vm)"
    using assms by (simp add: vm_laws_def)
  show ?thesis
    unfolding read_primitive_step_def
    by (intro yields_primitives yields_bind [OF op] yields_bind [OF assms(2)] yields_intros)
       (use unat_u16_less in auto)
qed

lemma yields_primitive_fuel:
  "vm_laws vm c \<Longrightarrow> yields c (read_primitive_fuel vm n) (primitive_ok vm)"
  by (induction n) (simp_all add: read_primitive_fuel.simps yields_fail yields_primitive_step)

lemma yields_primitive: "vm_laws vm c \<Longrightarrow> yields c (read_primitive vm) (primitive_ok vm)"
  using yields_primitive_fuel [of vm c] unfolding yields_def read_primitive_def by blast

lemma yields_cell_step:
  assumes "vm_laws vm c" "yields c rec (cell_ok vm)"
  shows "yields c (read_cell_step vm rec) (cell_ok vm)"
  unfolding read_cell_step_def
  by (intro yields_primitives yields_bind [OF yields_primitive [OF assms(1)]]
      yields_bind [OF yields_read_n [OF assms(2)]]
      yields_bind [OF yields_read_entries [OF assms(2) assms(2)]] yields_intros)
     (auto simp: cells_ok_iff entries_ok_iff unat_u32_less intro: le_less_trans [OF _ unat_u32_less])

lemma yields_cell_fuel: "vm_laws vm c \<Longrightarrow> yields c (read_cell_fuel vm n) (cell_ok vm)"
  by (induction n) (simp_all add: read_cell_fuel.simps yields_fail yields_cell_step)

lemma yields_cell: "vm_laws vm c \<Longrightarrow> yields c (read_value_cell vm) (cell_ok vm)"
  using yields_cell_fuel [of vm c] unfolding yields_def read_value_cell_def by blast

subsection \<open>More depth does not change the result\<close>

lemma agree_primitive_step:
  assumes "0 < k \<Longrightarrow> agree_upto (k - 1) c p q" "yields c p (primitive_ok vm)"
  shows "agree_upto k c (read_primitive_step vm p) (read_primitive_step vm q)"
  unfolding read_primitive_step_def
  by (intro agree_bind_u8 agree_if agree_refl agree_bind [OF assms])

lemma agree_cell_step:
  assumes "0 < k \<Longrightarrow> agree_upto (k - 1) c p q" "yields c p (cell_ok vm)"
  shows "agree_upto k c (read_cell_step vm p) (read_cell_step vm q)"
  unfolding read_cell_step_def
  by (intro agree_bind_u8 agree_if agree_refl
      agree_bind [OF agree_refl u32_codec.in_context.yields_in [OF TrueI]]
      agree_bind [OF agree_read_n [OF assms] yields_read_n [OF assms(2)]]
      agree_bind [OF agree_read_entries [OF assms] yields_read_entries [OF assms(2) assms(2)]]) auto

lemma agree_fuel:
  assumes "vm_laws vm c"
  shows "k < n \<Longrightarrow> k < m \<Longrightarrow>
    agree_upto k c (read_primitive_fuel vm n) (read_primitive_fuel vm m) \<and>
    agree_upto k c (read_cell_fuel vm n) (read_cell_fuel vm m)"
proof (induction k arbitrary: n m rule: less_induct)
  case (less k)
  from less.prems obtain n' m' where nm: "n = Suc n'" "m = Suc m'"
    by (metis less_imp_Suc_add)
  have "agree_upto (k - 1) c (read_primitive_fuel vm n') (read_primitive_fuel vm m') \<and>
      agree_upto (k - 1) c (read_cell_fuel vm n') (read_cell_fuel vm m')" if "0 < k"
    using less that nm by simp
  then show ?case
    by (simp add: nm read_primitive_fuel.simps read_cell_fuel.simps agree_primitive_step
        agree_cell_step yields_primitive_fuel [OF assms] yields_cell_fuel [OF assms])
qed

lemma read_fuel_enough:
  assumes "vm_laws vm c" "length rest < n"
  shows "read_primitive_fuel vm n (at pre rest c) = read_primitive vm (at pre rest c)"
    "read_cell_fuel vm n (at pre rest c) = read_value_cell vm (at pre rest c)"
  using agree_fuel [OF assms(1), of "length rest" n "Suc (length rest)"] assms(2)
  by (simp_all add: agree_upto_def read_value_cell_def read_primitive_def)

text \<open>So the readers satisfy the recursive equations of the source.\<close>

lemma read_primitive_rec:
  assumes "vm_laws vm c"
  shows "read_primitive vm (at pre rest c) =
    read_primitive_step vm (read_primitive vm) (at pre rest c)"
proof -
  have "agree_upto (length rest - 1) c (read_primitive_fuel vm (length rest)) (read_primitive vm)"
    if "0 < length rest"
    using that by (cases rest) (auto simp: agree_upto_def intro!: read_fuel_enough [OF assms])
  from agree_primitive_step [OF this yields_primitive_fuel [OF assms]] show ?thesis
    by (simp add: agree_upto_def read_primitive_def [of vm "at pre rest c"] read_primitive_fuel.simps)
qed

lemma read_value_cell_rec:
  assumes "vm_laws vm c"
  shows "read_value_cell vm (at pre rest c) = read_cell_step vm (read_value_cell vm) (at pre rest c)"
proof -
  have "agree_upto (length rest - 1) c (read_cell_fuel vm (length rest)) (read_value_cell vm)"
    if "0 < length rest"
    using that by (cases rest) (auto simp: agree_upto_def intro!: read_fuel_enough [OF assms])
  from agree_cell_step [OF this yields_cell_fuel [OF assms]] show ?thesis
    by (simp add: agree_upto_def read_value_cell_def [of vm "at pre rest c"] read_cell_fuel.simps)
qed

section \<open>The serializers of the values\<close>

lemma read_primitive_write:
  assumes "vm_laws vm c"
  shows "primitive_ok vm p \<Longrightarrow> read_primitive vm (at pre (write_primitive vm p @ post) c) =
    Inr (p, at (pre @ write_primitive vm p) post c)"
proof (induction p arbitrary: pre post)
  case (PBoolean b)
  then show ?case
    by (simp add: read_primitive_rec [OF assms] read_primitive_step_def rbind_read_bool)
next
  case (POpaque x)
  then show ?case
    using assms by (simp add: read_primitive_rec [OF assms] read_primitive_step_def vm_laws_def)
qed (auto simp: read_primitive_rec [OF assms] read_primitive_step_def read_string_with_size_def
      read_u256_def write_u256_def unat_of_nat)

lemma read_value_cell_write:
  shows "vm_laws vm c \<Longrightarrow> cell_ok vm x \<Longrightarrow> read_value_cell vm (at pre (write_value_cell vm x @ post) c) =
      Inr (x, at (pre @ write_value_cell vm x) post c)"
    and "vm_laws vm c \<Longrightarrow> cells_ok vm xs \<Longrightarrow>
      read_n (length xs) (read_value_cell vm) (at pre' (write_cells vm xs @ post) c) =
        Inr (xs, at (pre' @ write_cells vm xs) post c)"
    and "vm_laws vm c \<Longrightarrow> entries_ok vm m \<Longrightarrow> distinct (map fst (acc @ m)) \<Longrightarrow>
      read_entries (length m) (read_value_cell vm) (read_value_cell vm) acc
        (at pre'' (write_cell_entries vm m @ post) c) =
        Inr (acc @ m, at (pre'' @ write_cell_entries vm m) post c)"
proof (induction vm x and vm xs and vm m arbitrary: pre post and pre' post and pre'' post acc
    rule: cell_ok_cells_ok_entries_ok.induct)
  case (8 vm k v m)
  then have "index_map_insert k v acc = acc @ [(k, v)]" by (intro index_map_insert_new) auto
  with 8 show ?case by simp
qed (simp_all add: read_value_cell_rec read_cell_step_def read_primitive_write unat_of_nat)

interpretation primitive_codec: codec_in "write_primitive vm" "read_primitive vm" "primitive_ok vm"
  "vm_laws vm" for vm :: "('o, 't) vm"
  by unfold_locales (simp_all add: read_primitive_write yields_primitive)

interpretation cell_codec: codec_in "write_value_cell vm" "read_value_cell vm" "cell_ok vm"
  "vm_laws vm" for vm :: "('o, 't) vm"
  by unfold_locales (simp_all add: read_value_cell_write yields_cell)

section \<open>Modules\<close>

text \<open>
  A module: its constants (an ordered set), the instructions of its chunks, the chunks that can be
  entered and the chunk of each hook. \<open>Module::size\<close> is the default of the trait.
\<close>

record 'o contract_module =
  constants :: "'o value_cell list"
  chunks :: "u8 list list"
  chunks_entry_ids :: "nat list"
  hook_chunk_ids :: "(u8 \<times> nat) list"

definition write_chunk :: "u8 list \<Rightarrow> u8 list" where
  "write_chunk instructions = write_u32 (of_nat (length instructions)) @ instructions"

definition write_entry_id :: "nat \<Rightarrow> u8 list" where
  "write_entry_id i = write_u16 (of_nat i)"

definition write_hook :: "u8 \<times> nat \<Rightarrow> u8 list" where
  "write_hook h = write_u8 (fst h) @ write_u16 (of_nat (snd h))"

definition write_module :: "('o, 't) vm \<Rightarrow> 'o contract_module \<Rightarrow> u8 list" where
  "write_module vm m =
     write_u16 (of_nat (length (constants m))) @ write_cells vm (constants m) @
     write_u16 (of_nat (length (chunks m))) @ write_all write_chunk (chunks m) @
     write_u16 (of_nat (length (chunks_entry_ids m))) @ write_all write_entry_id (chunks_entry_ids m) @
     write_u8 (of_nat (length (hook_chunk_ids m))) @ write_all write_hook (hook_chunk_ids m)"

definition read_chunk :: "u8 list parser" where
  "read_chunk = rbind read_u32 (\<lambda>l. read_bytes (unat l))"

fun read_entry_ids :: "u16 \<Rightarrow> nat \<Rightarrow> nat list \<Rightarrow> nat list parser" where
  "read_entry_ids chunks_len 0 ids = rreturn ids"
| "read_entry_ids chunks_len (Suc n) ids = rbind read_u16 (\<lambda>i.
     if i > chunks_len then rfail InvalidValue
     else (case index_set_insert (unat i) ids of (fresh, ids') \<Rightarrow>
       if \<not> fresh then rfail InvalidValue else read_entry_ids chunks_len n ids'))"

fun read_hooks :: "nat \<Rightarrow> (u8 \<times> nat) list \<Rightarrow> (u8 \<times> nat) list parser" where
  "read_hooks 0 hooks = rreturn hooks"
| "read_hooks (Suc n) hooks = rbind read_u8 (\<lambda>h. rbind read_u16 (\<lambda>i.
     if map_of hooks h \<noteq> None then rfail InvalidValue
     else read_hooks n (index_map_insert h (unat i) hooks)))"

definition read_module :: "('o, 't) vm \<Rightarrow> 'o contract_module parser" where
  "read_module vm = rbind read_u16 (\<lambda>constants_len.
     rbind (read_distinct InvalidValue (unat constants_len) (read_value_cell vm) []) (\<lambda>cs.
     rbind read_u16 (\<lambda>chunks_len.
     rbind (read_n (unat chunks_len) read_chunk) (\<lambda>ch.
     rbind read_u16 (\<lambda>entry_ids_len.
     if entry_ids_len > chunks_len then rfail InvalidValue
     else rbind (read_entry_ids chunks_len (unat entry_ids_len) []) (\<lambda>ids.
     rbind read_u8 (\<lambda>hooks_len.
     rbind (read_hooks (unat hooks_len) []) (\<lambda>hooks.
     rreturn \<lparr>constants = cs, chunks = ch, chunks_entry_ids = ids, hook_chunk_ids = hooks\<rparr>))))))))"

definition size_module :: "('o, 't) vm \<Rightarrow> 'o contract_module \<Rightarrow> nat" where
  "size_module vm m = default_size (write_module vm) m"

text \<open>
  What the reader accepts. An entry id may be equal to the number of chunks, which is not the
  index of a chunk: the test is \<open>id > chunks_len\<close>. The chunks of the hooks are not tested at all.
\<close>

definition module_ok :: "('o, 't) vm \<Rightarrow> 'o contract_module \<Rightarrow> bool" where
  "module_ok vm m \<longleftrightarrow>
     length (constants m) < 2 ^ 16 \<and> distinct (constants m) \<and> list_all (cell_ok vm) (constants m) \<and>
     length (chunks m) < 2 ^ 16 \<and> list_all (\<lambda>bs. length bs < 2 ^ 32) (chunks m) \<and>
     length (chunks_entry_ids m) \<le> length (chunks m) \<and> distinct (chunks_entry_ids m) \<and>
     list_all (\<lambda>i. i \<le> length (chunks m)) (chunks_entry_ids m) \<and>
     length (hook_chunk_ids m) < 2 ^ 8 \<and> distinct (map fst (hook_chunk_ids m)) \<and>
     list_all (\<lambda>h. snd h < 2 ^ 16) (hook_chunk_ids m)"

interpretation chunk_codec: codec_in write_chunk read_chunk "\<lambda>bs. length bs < 2 ^ 32" "\<lambda>_. True"
proof
  fix c show "yields c read_chunk (\<lambda>bs. length bs < 2 ^ 32)"
    unfolding read_chunk_def
    by (intro yields_primitives yields_mono [OF yields_bytes]) (use unat_u32_less in auto)
qed (simp add: read_chunk_def write_chunk_def unat_of_nat)

lemma u16_le_iff: "n < 2 ^ 16 \<Longrightarrow> m < 2 ^ 16 \<Longrightarrow> (of_nat n :: u16) \<le> of_nat m \<longleftrightarrow> n \<le> m"
  by (simp add: word_le_nat_alt unat_of_nat)

lemma read_entry_ids_write:
  "list_all (\<lambda>i. i \<le> unat l) ids \<Longrightarrow> distinct (acc @ ids) \<Longrightarrow> n = length ids \<Longrightarrow>
     read_entry_ids l n acc (at pre (write_all write_entry_id ids @ post) c) =
       Inr (acc @ ids, at (pre @ write_all write_entry_id ids) post c)"
proof (induction ids arbitrary: acc pre n)
  case (Cons i ids)
  then have "unat (of_nat i :: u16) = i" "\<not> l < of_nat i"
    using unat_u16_less [of l] by (auto simp: unat_of_nat word_less_nat_alt not_less)
  with Cons show ?case by (simp add: write_entry_id_def index_set_insert_def)
qed simp

lemma read_hooks_write:
  "list_all (\<lambda>h. snd h < 2 ^ 16) hs \<Longrightarrow> distinct (map fst (acc @ hs)) \<Longrightarrow> n = length hs \<Longrightarrow>
     read_hooks n acc (at pre (write_all write_hook hs @ post) c) =
       Inr (acc @ hs, at (pre @ write_all write_hook hs) post c)"
proof (induction hs arbitrary: acc pre n)
  case (Cons h hs)
  obtain k i where h: "h = (k, i)" by (cases h)
  with Cons.prems have "k \<notin> fst ` set acc" by auto
  then have "map_of acc k = None" "index_map_insert k i acc = acc @ [(k, i)]" "\<forall>j. (k, j) \<notin> set acc"
    by (simp_all add: map_of_eq_None_iff index_map_insert_new) force
  with Cons h show ?case by (simp add: write_hook_def unat_of_nat)
qed simp

lemma yields_entry_ids:
  "distinct acc \<Longrightarrow> list_all (\<lambda>i. i \<le> unat l) acc \<Longrightarrow> yields c (read_entry_ids l n acc)
     (\<lambda>ids. length ids = length acc + n \<and> distinct ids \<and> list_all (\<lambda>i. i \<le> unat l) ids)"
proof (induction n arbitrary: acc)
  case (Suc n)
  have "yields c (read_entry_ids l n (acc @ [unat i]))
      (\<lambda>ids. length ids = length acc + Suc n \<and> distinct ids \<and> list_all (\<lambda>i. i \<le> unat l) ids)"
    if "\<not> l < i" "unat i \<notin> set acc" for i
    using Suc.IH [of "acc @ [unat i]"] Suc.prems that by (simp add: not_less word_le_nat_alt)
  then show ?case
    by (auto intro!: yields_primitives yields_fail simp: index_set_insert_def)
qed (simp add: yields_return yields_Inr)

lemma yields_hooks:
  "distinct (map fst acc) \<Longrightarrow> list_all (\<lambda>h. snd h < 2 ^ 16) acc \<Longrightarrow> yields c (read_hooks n acc)
     (\<lambda>hs. length hs = length acc + n \<and> distinct (map fst hs) \<and> list_all (\<lambda>h. snd h < 2 ^ 16) hs)"
proof (induction n arbitrary: acc)
  case (Suc n)
  have "yields c (read_hooks n (index_map_insert h (unat i) acc)) (\<lambda>hs. length hs = length acc + Suc n \<and>
      distinct (map fst hs) \<and> list_all (\<lambda>h. snd h < 2 ^ 16) hs)"
    if "map_of acc h = None" for h and i :: u16
  proof -
    have "h \<notin> fst ` set acc" using that by (simp add: map_of_eq_None_iff)
    then show ?thesis
      using Suc.IH [of "acc @ [(h, unat i)]"] Suc.prems unat_u16_less [of i]
      by (simp add: index_map_insert_new)
  qed
  then show ?case by (auto intro!: yields_primitives yields_fail)
qed (simp add: yields_return yields_Inr)

interpretation module_codec: codec_in "write_module vm" "read_module vm" "module_ok vm" "vm_laws vm"
  for vm :: "('o, 't) vm"
proof
  fix c x pre post
  assume vm: "vm_laws vm c" and x: "module_ok vm x"
  from cell_codec.read_distinct_write_in [OF vm, where acc = "[]"]
  show "read_module vm (at pre (write_module vm x @ post) c) = Inr (x, at (pre @ write_module vm x) post c)"
    using x by (simp add: read_module_def write_module_def write_cells_all module_ok_def
        chunk_codec.read_n_write_in read_entry_ids_write read_hooks_write unat_of_nat
        u16_le_iff not_less)
next
  fix c
  assume vm: "vm_laws vm c"
  show "yields c (read_module vm) (module_ok vm)"
    unfolding read_module_def
    by (intro yields_primitives yields_intros
        yields_bind [OF cell_codec.read_distinct_yields_in [OF vm]]
        yields_bind [OF chunk_codec.read_n_yields_in [OF TrueI]]
        yields_bind [OF yields_entry_ids] yields_bind [OF yields_hooks])
       (use unat_u16_less unat_u8_less in \<open>auto simp: module_ok_def not_less word_le_nat_alt\<close>)
qed

section \<open>The reader of cells\<close>

definition hash_vm :: "(hash, nat) vm" where
  "hash_vm = \<lparr>vm_is_number = (\<lambda>p. case p of PU64 _ \<Rightarrow> True | _ \<Rightarrow> False),
     vm_get_type = (\<lambda>p. case p of PU64 _ \<Rightarrow> Some 4 | _ \<Rightarrow> None),
     opaque_write = write_hash, opaque_read = read_hash, opaque_size = size_hash, opaque_ok = hash_ok\<rparr>"

lemma hash_vm_laws: "vm_laws hash_vm c"
  using hash_codec.in_context.yields_in [OF TrueI, of c]
  by (simp add: vm_laws_def hash_vm_def hash_codec.size_write)

text \<open>
  Arrays in arrays: five bytes for each level. A reader that may nest \<open>d\<close> calls only gives up on \<open>d\<close>
  levels.
\<close>

primrec nested_cell :: "nat \<Rightarrow> 'o value_cell" where
  "nested_cell 0 = CDefault PNull"
| "nested_cell (Suc d) = CArray [nested_cell d]"

lemma nested_cell_ok: "cell_ok vm (nested_cell d)"
  by (induction d) simp_all

lemma nested_cell_length: "length (write_value_cell vm (nested_cell d)) = 5 * d + 2"
  by (induction d) simp_all

lemma nested_cell_depth:
  "read_cell_fuel vm d (at pre (write_value_cell vm (nested_cell d) @ post) c) = Inl InvalidSize"
proof (induction d arbitrary: pre)
  case (Suc d)
  then show ?case by (simp add: read_cell_fuel.simps read_cell_step_def unat_of_nat) (simp add: rbind_def)
qed (simp add: read_cell_fuel.simps)

text \<open>
  C38: the reader of contract values is the recursive function of the source, and its recursion is at
  most as deep as the input is long (the depth that bounds the model is never reached). It gives back
  every well-formed value that was written, leaves the bytes after it, and accepts well-formed values
  only (no repeated key in a map, ranges between numbers of one type); the iterative count of
  \<open>ValueCell::size\<close> is the number of bytes written. Nothing else limits the depth: for every \<open>d\<close> there is
  an accepted input of \<open>5 d + 2\<close> bytes that is not read with \<open>d\<close> nested calls.
\<close>

theorem value_cell_reader:
  assumes "vm_laws vm c"
  shows "read_value_cell vm (at pre rest c) = read_cell_step vm (read_value_cell vm) (at pre rest c) \<and>
    (length rest < k \<longrightarrow> read_cell_fuel vm k (at pre rest c) = read_value_cell vm (at pre rest c)) \<and>
    (cell_ok vm x \<longrightarrow>
       read_value_cell vm (at pre (write_value_cell vm x @ post) c) =
         Inr (x, at (pre @ write_value_cell vm x) post c) \<and>
       cell_size vm x = length (write_value_cell vm x)) \<and>
    (\<forall>y r'. read_value_cell vm (at pre rest c) = Inr (y, r') \<longrightarrow> cell_ok vm y) \<and>
    (\<exists>bytes y. length bytes = 5 * d + 2 \<and> read_value_cell vm (at pre bytes c) = Inr (y, at (pre @ bytes) [] c) \<and>
       read_cell_fuel vm d (at pre bytes c) = Inl InvalidSize)"
proof (intro conjI impI allI)
  fix y r'
  assume "read_value_cell vm (at pre rest c) = Inr (y, r')"
  with yields_cell [OF assms] show "cell_ok vm y" by (rule yieldsD)
next
  show "\<exists>bytes y. length bytes = 5 * d + 2 \<and> read_value_cell vm (at pre bytes c) = Inr (y, at (pre @ bytes) [] c) \<and>
      read_cell_fuel vm d (at pre bytes c) = Inl InvalidSize"
    using nested_cell_length [of vm d] read_value_cell_write(1) [OF assms nested_cell_ok, of pre d "[]"]
      nested_cell_depth [of vm d pre "[]" c]
    by (intro exI [of _ "write_value_cell vm (nested_cell d)"] exI [of _ "nested_cell d"]) simp
qed (simp_all add: read_value_cell_rec [OF assms, symmetric] read_value_cell_write [OF assms]
    cell_size_write [OF assms] read_fuel_enough [OF assms])

theorem value_cell_reader_witness:
  "cell_size hash_vm
     (CMap [(CDefault (PU64 1), CArray [CBytes [7], CDefault (PRange (PU64 2) (PU64 3))])]) = 46"
proof -
  let ?x = "CMap [(CDefault (PU64 1), CArray [CBytes [7], CDefault (PRange (PU64 2) (PU64 3))])]"
  have "cell_ok hash_vm ?x" by (simp add: hash_vm_def)
  then have "cell_size hash_vm ?x = length (write_value_cell hash_vm ?x)"
    using value_cell_reader [OF hash_vm_laws [of context_default], of "[]" "[]" 0 ?x "[]" 0] by blast
  then show ?thesis by simp
qed

end
