(* ===== verification/Account.thy ===== *)
theory Account
  imports ElGamal
begin

text \<open>
  Accounts (\<open>xelis_common/src/account\<close>, \<open>versioned_type.rs\<close>): the lazily compressed ciphertext
  \<open>CiphertextCache\<close> with its dirty flag, versioned balances and nonces linked by the topoheight of
  the previous version, and the generic versioned data.
\<close>

type_synonym topoheight = u64

section \<open>The ciphertext cache\<close>

datatype 'p ciphertext_cache =
    CacheCompressed compressed_ciphertext
  | CacheDecompressed "'p ciphertext"
  | CacheBoth compressed_ciphertext "'p ciphertext" bool

text \<open>
  The methods that return a reference into the cache also replace the cache: they return the value
  referred to and the new cache. \<open>computable\<close> returns a mutable reference: the new cache is a
  function of the value that is left behind the reference.
\<close>

fun cache_computable ::
  "('p, 's) curve \<Rightarrow> 'p ciphertext_cache \<Rightarrow>
   decompression_error + 'p ciphertext \<times> ('p ciphertext \<Rightarrow> 'p ciphertext_cache)" where
  "cache_computable cv (CacheCompressed c) =
     result_bind (ciphertext_decompress cv c) (\<lambda>e. Inr (e, CacheDecompressed))"
| "cache_computable cv (CacheDecompressed e) = Inr (e, CacheDecompressed)"
| "cache_computable cv (CacheBoth c e dirty) = Inr (e, \<lambda>e'. CacheBoth c e' True)"

fun cache_compress :: "('p, 's) curve \<Rightarrow> 'p ciphertext_cache \<Rightarrow> compressed_ciphertext" where
  "cache_compress cv (CacheCompressed c) = c"
| "cache_compress cv (CacheDecompressed e) = ciphertext_compress cv e"
| "cache_compress cv (CacheBoth c e dirty) = (if dirty then ciphertext_compress cv e else c)"

fun cache_compressed ::
  "('p, 's) curve \<Rightarrow> 'p ciphertext_cache \<Rightarrow> compressed_ciphertext \<times> 'p ciphertext_cache" where
  "cache_compressed cv (CacheCompressed c) = (c, CacheCompressed c)"
| "cache_compressed cv (CacheDecompressed e) =
     (ciphertext_compress cv e, CacheBoth (ciphertext_compress cv e) e False)"
| "cache_compressed cv (CacheBoth c d dirty) =
     (let c' = (if dirty then ciphertext_compress cv d else c) in (c', CacheBoth c' d dirty))"

fun cache_decompressed ::
  "('p, 's) curve \<Rightarrow> 'p ciphertext_cache \<Rightarrow>
   decompression_error + 'p ciphertext \<times> 'p ciphertext_cache" where
  "cache_decompressed cv (CacheCompressed c) =
     result_bind (ciphertext_decompress cv c) (\<lambda>e. Inr (e, CacheBoth c e False))"
| "cache_decompressed cv (CacheDecompressed e) = Inr (e, CacheDecompressed e)"
| "cache_decompressed cv (CacheBoth c e dirty) = Inr (e, CacheBoth c e dirty)"

fun cache_both ::
  "('p, 's) curve \<Rightarrow> 'p ciphertext_cache \<Rightarrow>
   decompression_error + (compressed_ciphertext \<times> 'p ciphertext) \<times> 'p ciphertext_cache" where
  "cache_both cv (CacheBoth c e dirty) =
     (let c' = (if dirty then ciphertext_compress cv e else c) in
      Inr ((c', e), CacheBoth c' e dirty))"
| "cache_both cv (CacheCompressed c) =
     result_bind (ciphertext_decompress cv c) (\<lambda>e. Inr ((c, e), CacheBoth c e False))"
| "cache_both cv (CacheDecompressed e) =
     (let c = ciphertext_compress cv e in Inr ((c, e), CacheBoth c e False))"

fun cache_take_ciphertext ::
  "('p, 's) curve \<Rightarrow> 'p ciphertext_cache \<Rightarrow> decompression_error + 'p ciphertext" where
  "cache_take_ciphertext cv (CacheCompressed c) = ciphertext_decompress cv c"
| "cache_take_ciphertext cv (CacheDecompressed e) = Inr e"
| "cache_take_ciphertext cv (CacheBoth c e dirty) = Inr e"

definition cache_eq :: "('p, 's) curve \<Rightarrow> 'p ciphertext_cache \<Rightarrow> 'p ciphertext_cache \<Rightarrow> bool" where
  "cache_eq cv a b \<longleftrightarrow> cache_compress cv a = cache_compress cv b"

definition write_cache :: "('p, 's) curve \<Rightarrow> 'p ciphertext_cache \<Rightarrow> u8 list" where
  "write_cache cv c = write_compressed_ciphertext (cache_compress cv c)"

definition read_cache :: "'p ciphertext_cache parser" where
  "read_cache = rbind read_compressed_ciphertext (\<lambda>c. rreturn (CacheCompressed c))"

definition size_cache :: "'p ciphertext_cache \<Rightarrow> nat" where
  "size_cache c = RISTRETTO_COMPRESSED_SIZE + RISTRETTO_COMPRESSED_SIZE"

subsection \<open>The cache is coherent\<close>

text \<open>
  The abstraction of a cache is the ciphertext it stands for. The invariant: a compressed form is
  the image of some ciphertext, and the two forms of a clean pair agree.
\<close>

fun cache_ok :: "('p, 's) curve \<Rightarrow> 'p ciphertext_cache \<Rightarrow> bool" where
  "cache_ok cv (CacheCompressed c) = (\<exists>e. c = ciphertext_compress cv e)"
| "cache_ok cv (CacheDecompressed e) = True"
| "cache_ok cv (CacheBoth c e dirty) = (\<not> dirty \<longrightarrow> c = ciphertext_compress cv e)"

definition cache_abs :: "('p, 's) curve \<Rightarrow> 'p ciphertext_cache \<Rightarrow> 'p ciphertext \<Rightarrow> bool" where
  "cache_abs cv c e \<longleftrightarrow> cache_ok cv c \<and> cache_take_ciphertext cv c = Inr e"

lemma ciphertext_decompress_compress [simp]:
  "codec_laws cv \<Longrightarrow> ciphertext_decompress cv (ciphertext_compress cv e) = Inr e"
  by (simp add: ciphertext_decompress_def ciphertext_compress_def point_decompress_def
      codec_laws_def)

lemma compressed_ciphertext_ok_compress:
  "codec_laws cv \<Longrightarrow> compressed_ciphertext_ok (ciphertext_compress cv e)"
  by (simp add: compressed_ciphertext_ok_def ciphertext_compress_def point_ok_def codec_laws_def
      RISTRETTO_COMPRESSED_SIZE_def)

lemma cache_abs_compress:
  "codec_laws cv \<Longrightarrow> cache_abs cv c e \<Longrightarrow> cache_compress cv c = ciphertext_compress cv e"
  by (cases c) (auto simp: cache_abs_def)

lemma cache_abs_total: "codec_laws cv \<Longrightarrow> cache_ok cv c \<Longrightarrow> \<exists>e. cache_abs cv c e"
  by (cases c) (auto simp: cache_abs_def)

lemma cache_computable_abs:
  "codec_laws cv \<Longrightarrow> cache_abs cv c e \<Longrightarrow>
     \<exists>put. cache_computable cv c = Inr (e, put) \<and> (\<forall>e'. cache_abs cv (put e') e')"
  by (cases c) (auto simp: cache_abs_def)

lemma cache_accessors_abs:
  assumes "codec_laws cv" "cache_abs cv c e"
  shows "fst (cache_compressed cv c) = ciphertext_compress cv e"
    and "cache_abs cv (snd (cache_compressed cv c)) e"
    and "\<exists>c'. cache_decompressed cv c = Inr (e, c') \<and> cache_abs cv c' e"
    and "\<exists>c'. cache_both cv c = Inr ((ciphertext_compress cv e, e), c') \<and> cache_abs cv c' e"
  using assms by (cases c; auto simp: cache_abs_def Let_def)+

section \<open>Versioned balances\<close>

datatype balance_type = BalanceInput | BalanceOutput | BalanceBoth

definition balance_type_contains_output :: "balance_type \<Rightarrow> bool" where
  "balance_type_contains_output t = (t = BalanceOutput \<or> t = BalanceBoth)"

fun write_balance_type :: "balance_type \<Rightarrow> u8 list" where
  "write_balance_type BalanceInput = write_u8 0"
| "write_balance_type BalanceOutput = write_u8 1"
| "write_balance_type BalanceBoth = write_u8 2"

definition read_balance_type :: "balance_type parser" where
  "read_balance_type = rbind read_u8 (\<lambda>b.
     if b = 0 then rreturn BalanceInput else if b = 1 then rreturn BalanceOutput
     else if b = 2 then rreturn BalanceBoth else rfail InvalidValue)"

definition size_balance_type :: "balance_type \<Rightarrow> nat" where
  "size_balance_type t = 1"

interpretation balance_type_codec:
  canonical_codec write_balance_type read_balance_type size_balance_type "\<lambda>_. True"
proof unfold_locales
  fix x pre post c
  show "read_balance_type (at pre (write_balance_type x @ post) c) =
      Inr (x, at (pre @ write_balance_type x) post c)"
    by (cases x) (simp_all add: read_balance_type_def)
  show "size_balance_type x = length (write_balance_type x)"
    by (cases x) (simp_all add: size_balance_type_def)
qed (auto simp: read_balance_type_def result_simps split: if_splits)

record 'p versioned_balance =
  previous_topoheight :: "topoheight option"
  output_balance :: "'p ciphertext_cache option"
  final_balance :: "'p ciphertext_cache"
  balance_type :: balance_type

definition versioned_balance_new ::
  "'p ciphertext_cache \<Rightarrow> topoheight option \<Rightarrow> 'p versioned_balance" where
  "versioned_balance_new final previous =
     \<lparr>previous_topoheight = previous, output_balance = None, final_balance = final,
      balance_type = BalanceInput\<rparr>"

definition versioned_balance_zero :: "('p, 's) curve \<Rightarrow> 'p versioned_balance" where
  "versioned_balance_zero cv = versioned_balance_new (CacheDecompressed (ciphertext_zero cv)) None"

definition prepare_new :: "topoheight option \<Rightarrow> 'p versioned_balance \<Rightarrow> 'p versioned_balance" where
  "prepare_new previous b =
     b\<lparr>previous_topoheight := previous, output_balance := None, balance_type := BalanceInput\<rparr>"

definition has_output_balance :: "'p versioned_balance \<Rightarrow> bool" where
  "has_output_balance b \<longleftrightarrow> output_balance b \<noteq> None"

definition take_balance_with :: "bool \<Rightarrow> 'p versioned_balance \<Rightarrow> 'p ciphertext_cache" where
  "take_balance_with output b =
     (case output_balance b of Some balance \<Rightarrow> if output then balance else final_balance b
      | None \<Rightarrow> final_balance b)"

text \<open>\<open>select_balance\<close> borrows one of the two balances; the flag says whether it is the output one.\<close>

definition select_balance :: "bool \<Rightarrow> 'p versioned_balance \<Rightarrow> 'p ciphertext_cache \<times> bool" where
  "select_balance output b =
     (case output_balance b of
        Some balance \<Rightarrow> if output then (balance, True) else (final_balance b, False)
      | None \<Rightarrow> (final_balance b, False))"

definition set_selected ::
  "bool \<Rightarrow> 'p ciphertext_cache \<Rightarrow> 'p versioned_balance \<Rightarrow> 'p versioned_balance" where
  "set_selected is_output c b =
     (if is_output then b\<lparr>output_balance := Some c\<rparr> else b\<lparr>final_balance := c\<rparr>)"

definition set_compressed_balance ::
  "compressed_ciphertext \<Rightarrow> 'p versioned_balance \<Rightarrow> 'p versioned_balance" where
  "set_compressed_balance c b = b\<lparr>final_balance := CacheCompressed c\<rparr>"

definition add_plaintext_to_balance ::
  "('p, 's) curve \<Rightarrow> u64 \<Rightarrow> 'p versioned_balance \<Rightarrow> decompression_error + 'p versioned_balance" where
  "add_plaintext_to_balance cv value b =
     result_bind (cache_computable cv (final_balance b)) (\<lambda>(e, put).
       Inr (b\<lparr>final_balance := put (ciphertext_add_u64 cv e value)\<rparr>))"

definition contains_input :: "'p versioned_balance \<Rightarrow> bool" where
  "contains_input b \<longleftrightarrow> balance_type b \<noteq> BalanceOutput"

definition contains_output :: "'p versioned_balance \<Rightarrow> bool" where
  "contains_output b = balance_type_contains_output (balance_type b)"

record 'p balance =
  bal_topoheight :: topoheight
  bal_output_balance :: "'p ciphertext_cache option"
  bal_final_balance :: "'p ciphertext_cache"
  bal_balance_type :: balance_type

definition as_balance :: "topoheight \<Rightarrow> 'p versioned_balance \<Rightarrow> 'p balance" where
  "as_balance topo b =
     \<lparr>bal_topoheight = topo, bal_output_balance = output_balance b,
      bal_final_balance = final_balance b, bal_balance_type = balance_type b\<rparr>"

definition as_version :: "'p balance \<Rightarrow> topoheight \<times> 'p versioned_balance" where
  "as_version b =
     (bal_topoheight b,
      \<lparr>previous_topoheight = None, output_balance = bal_output_balance b,
       final_balance = bal_final_balance b, balance_type = bal_balance_type b\<rparr>)"

definition write_balance :: "('p, 's) curve \<Rightarrow> 'p balance \<Rightarrow> u8 list" where
  "write_balance cv b =
     write_u64 (bal_topoheight b) @ write_option (write_cache cv) (bal_output_balance b) @
     write_cache cv (bal_final_balance b) @ write_balance_type (bal_balance_type b)"

definition read_balance :: "'p balance parser" where
  "read_balance = rbind read_u64 (\<lambda>t. rbind (read_option read_cache) (\<lambda>out.
     rbind read_cache (\<lambda>fin. rbind read_balance_type (\<lambda>bt.
     rreturn \<lparr>bal_topoheight = t, bal_output_balance = out, bal_final_balance = fin,
       bal_balance_type = bt\<rparr>))))"

definition size_balance :: "'p balance \<Rightarrow> nat" where
  "size_balance b =
     size_u64 (bal_topoheight b) + size_option size_cache (bal_output_balance b)
     + size_cache (bal_final_balance b) + size_balance_type (bal_balance_type b)"

record account_summary =
  output_topoheight :: "topoheight option"
  stable_topoheight :: topoheight

definition write_account_summary :: "account_summary \<Rightarrow> u8 list" where
  "write_account_summary a =
     write_option write_u64 (output_topoheight a) @ write_u64 (stable_topoheight a)"

definition read_account_summary :: "account_summary parser" where
  "read_account_summary = rbind (read_option read_u64) (\<lambda>out. rbind read_u64 (\<lambda>s.
     rreturn \<lparr>output_topoheight = out, stable_topoheight = s\<rparr>))"

definition size_account_summary :: "account_summary \<Rightarrow> nat" where
  "size_account_summary a = size_option size_u64 (output_topoheight a) + size_u64 (stable_topoheight a)"

definition write_versioned_balance :: "('p, 's) curve \<Rightarrow> 'p versioned_balance \<Rightarrow> u8 list" where
  "write_versioned_balance cv b =
     write_option write_u64 (previous_topoheight b) @ write_balance_type (balance_type b) @
     write_cache cv (final_balance b) @ write_option (write_cache cv) (output_balance b)"

definition read_versioned_balance :: "'p versioned_balance parser" where
  "read_versioned_balance = rbind (read_option read_u64) (\<lambda>prev. rbind read_balance_type (\<lambda>bt.
     rbind read_cache (\<lambda>fin. rbind (read_option read_cache) (\<lambda>out.
     rreturn \<lparr>previous_topoheight = prev, output_balance = out, final_balance = fin,
       balance_type = bt\<rparr>))))"

definition size_versioned_balance :: "'p versioned_balance \<Rightarrow> nat" where
  "size_versioned_balance b =
     size_cache (final_balance b) + size_balance_type (balance_type b)
     + size_option size_u64 (previous_topoheight b) + size_option size_cache (output_balance b)"

section \<open>Versioned nonces and versioned data\<close>

type_synonym nonce = u64

record versioned_nonce =
  vn_nonce :: nonce
  vn_previous_topoheight :: "topoheight option"

definition write_versioned_nonce :: "versioned_nonce \<Rightarrow> u8 list" where
  "write_versioned_nonce n =
     write_option write_u64 (vn_previous_topoheight n) @ write_u64 (vn_nonce n)"

definition read_versioned_nonce :: "versioned_nonce parser" where
  "read_versioned_nonce = rbind (read_option read_u64) (\<lambda>prev. rbind read_u64 (\<lambda>n.
     rreturn \<lparr>vn_nonce = n, vn_previous_topoheight = prev\<rparr>))"

definition size_versioned_nonce :: "versioned_nonce \<Rightarrow> nat" where
  "size_versioned_nonce n = size_u64 (vn_nonce n) + size_option size_u64 (vn_previous_topoheight n)"

datatype versioned_state = VsNew | VsFetchedAt topoheight | VsUpdated topoheight

definition vs_is_new :: "versioned_state \<Rightarrow> bool" where
  "vs_is_new s = (case s of VsNew \<Rightarrow> True | _ \<Rightarrow> False)"

definition vs_is_fetched_at :: "versioned_state \<Rightarrow> bool" where
  "vs_is_fetched_at s = (case s of VsFetchedAt _ \<Rightarrow> True | _ \<Rightarrow> False)"

definition vs_is_updated :: "versioned_state \<Rightarrow> bool" where
  "vs_is_updated s = (case s of VsUpdated _ \<Rightarrow> True | _ \<Rightarrow> False)"

definition vs_should_be_stored :: "versioned_state \<Rightarrow> bool" where
  "vs_should_be_stored s \<longleftrightarrow> \<not> vs_is_fetched_at s"

fun vs_get_topoheight :: "versioned_state \<Rightarrow> topoheight option" where
  "vs_get_topoheight (VsFetchedAt t) = Some t"
| "vs_get_topoheight (VsUpdated t) = Some t"
| "vs_get_topoheight VsNew = None"

fun vs_mark_updated :: "versioned_state \<Rightarrow> versioned_state" where
  "vs_mark_updated (VsFetchedAt t) = VsUpdated t"
| "vs_mark_updated (VsUpdated t) = VsUpdated t"
| "vs_mark_updated VsNew = VsNew"

datatype 'a step_state = StateClean | StateSome 'a | StateNone | StateDeleted

fun write_state :: "('a \<Rightarrow> u8 list) \<Rightarrow> 'a step_state \<Rightarrow> u8 list" where
  "write_state wr StateClean = write_u8 0"
| "write_state wr (StateSome d) = write_u8 1 @ wr d"
| "write_state wr StateNone = write_u8 2"
| "write_state wr StateDeleted = write_u8 3"

definition read_state :: "'a parser \<Rightarrow> 'a step_state parser" where
  "read_state rd = rbind read_u8 (\<lambda>b.
     if b = 0 then rreturn StateClean
     else if b = 1 then rbind rd (\<lambda>d. rreturn (StateSome d))
     else if b = 2 then rreturn StateNone
     else if b = 3 then rreturn StateDeleted
     else rfail InvalidValue)"

fun size_state :: "('a \<Rightarrow> nat) \<Rightarrow> 'a step_state \<Rightarrow> nat" where
  "size_state sz StateClean = 1"
| "size_state sz (StateSome d) = 1 + sz d"
| "size_state sz StateNone = 1"
| "size_state sz StateDeleted = 1"

record 'a versioned =
  v_previous_topoheight :: "topoheight option"
  v_data :: 'a

definition write_versioned :: "('a \<Rightarrow> u8 list) \<Rightarrow> 'a versioned \<Rightarrow> u8 list" where
  "write_versioned wr v = write_option write_u64 (v_previous_topoheight v) @ wr (v_data v)"

definition read_versioned :: "'a parser \<Rightarrow> 'a versioned parser" where
  "read_versioned rd = rbind (read_option read_u64) (\<lambda>prev. rbind rd (\<lambda>d.
     rreturn \<lparr>v_previous_topoheight = prev, v_data = d\<rparr>))"

definition size_versioned :: "('a \<Rightarrow> nat) \<Rightarrow> 'a versioned \<Rightarrow> nat" where
  "size_versioned sz v = size_option size_u64 (v_previous_topoheight v) + sz (v_data v)"

section \<open>The serializers meet their contract\<close>

interpretation u64_option: canonical_codec "write_option write_u64" "read_option read_u64"
  "size_option size_u64" "pred_option (\<lambda>_. True)"
  by (rule u64_codec.option_canonical)

lemma pred_option_True [simp]: "pred_option (\<lambda>_. True) m"
  by (cases m) simp_all

lemmas option_read_write [simp] = u64_option.read_write [OF pred_option_True]
lemmas option_read_iff [result_simps] = u64_option.read_at_iff
lemmas option_size_write [simp] = u64_option.size_write [OF pred_option_True]

lemma size_u64_simp [simp]: "size_u64 v = 8"
  by (simp add: size_u64_def)

interpretation account_summary_codec:
  canonical_codec write_account_summary read_account_summary size_account_summary "\<lambda>_. True"
  by unfold_locales
     (auto simp: read_account_summary_def write_account_summary_def size_account_summary_def
        result_simps)

interpretation versioned_nonce_codec:
  canonical_codec write_versioned_nonce read_versioned_nonce size_versioned_nonce "\<lambda>_. True"
  by unfold_locales
     (auto simp: read_versioned_nonce_def write_versioned_nonce_def size_versioned_nonce_def
        result_simps)

definition state_ok :: "('a \<Rightarrow> bool) \<Rightarrow> 'a step_state \<Rightarrow> bool" where
  "state_ok P s = (case s of StateSome d \<Rightarrow> P d | _ \<Rightarrow> True)"

context canonical_codec
begin

lemma versioned_canonical:
  "canonical_codec (write_versioned wr) (read_versioned rd) (size_versioned size_of)
     (\<lambda>v. valid (v_data v))"
  by unfold_locales
     (auto simp: read_versioned_def write_versioned_def size_versioned_def read_write size_write
        read_at_iff result_simps)

lemma state_canonical:
  "canonical_codec (write_state wr) (read_state rd) (size_state size_of) (state_ok valid)"
proof unfold_locales
  fix x pre post c
  assume "state_ok valid x"
  then show "read_state rd (at pre (write_state wr x @ post) c) =
      Inr (x, at (pre @ write_state wr x) post c)" and "size_state size_of x = length (write_state wr x)"
    by (cases x; simp add: read_state_def read_write size_write state_ok_def)+
qed (auto simp: read_state_def read_at_iff state_ok_def result_simps split: if_splits)

end

text \<open>What is read from disk is compressed; the caches that come from disk are the stored ones.\<close>

definition cache_stored :: "'p ciphertext_cache \<Rightarrow> bool" where
  "cache_stored c = (case c of CacheCompressed cc \<Rightarrow> compressed_ciphertext_ok cc | _ \<Rightarrow> False)"

interpretation cache_codec: canonical_codec "write_cache cv" read_cache size_cache cache_stored for cv
proof unfold_locales
  fix x :: "'a ciphertext_cache" and pre post c
  assume "cache_stored x"
  then obtain cc where x: "x = CacheCompressed cc" "compressed_ciphertext_ok cc"
    by (auto simp: cache_stored_def split: ciphertext_cache.splits)
  then show "read_cache (at pre (write_cache cv x @ post) c) = Inr (x, at (pre @ write_cache cv x) post c)"
    by (simp add: read_cache_def write_cache_def compressed_ciphertext_codec.read_write)
  show "size_cache x = length (write_cache cv x)"
    using x compressed_ciphertext_codec.size_write [of cc]
    by (simp add: size_cache_def write_cache_def size_compressed_ciphertext_def size_point_def)
qed (auto simp: read_cache_def write_cache_def cache_stored_def
      compressed_ciphertext_codec.read_at_iff result_simps)

interpretation cache_option: canonical_codec "write_option (write_cache cv)" "read_option read_cache"
  "size_option size_cache" "pred_option cache_stored" for cv
  by (rule cache_codec.option_canonical)

definition versioned_balance_stored :: "'p versioned_balance \<Rightarrow> bool" where
  "versioned_balance_stored b \<longleftrightarrow>
     cache_stored (final_balance b) \<and> pred_option cache_stored (output_balance b)"

interpretation versioned_balance_codec: canonical_codec "write_versioned_balance cv"
  read_versioned_balance size_versioned_balance versioned_balance_stored for cv
  by unfold_locales
     (auto simp: read_versioned_balance_def write_versioned_balance_def size_versioned_balance_def
        versioned_balance_stored_def balance_type_codec.read_write balance_type_codec.read_at_iff
        balance_type_codec.size_write cache_codec.read_write cache_codec.read_at_iff [where cv = cv]
        cache_option.read_write cache_option.read_at_iff [where cv = cv] cache_codec.size_write [where cv = cv]
        cache_option.size_write [where cv = cv] result_simps)

definition balance_stored :: "'p balance \<Rightarrow> bool" where
  "balance_stored b \<longleftrightarrow>
     cache_stored (bal_final_balance b) \<and> pred_option cache_stored (bal_output_balance b)"

interpretation balance_codec: canonical_codec "write_balance cv" read_balance size_balance
  balance_stored for cv
  by unfold_locales
     (auto simp: read_balance_def write_balance_def size_balance_def
        balance_stored_def balance_type_codec.read_write balance_type_codec.read_at_iff
        balance_type_codec.size_write cache_codec.read_write cache_codec.read_at_iff [where cv = cv]
        cache_option.read_write cache_option.read_at_iff [where cv = cv] cache_codec.size_write [where cv = cv]
        cache_option.size_write [where cv = cv] result_simps)

text \<open>Compressing the caches of a balance changes neither what is written nor the announced size.\<close>

definition cache_compact :: "('p, 's) curve \<Rightarrow> 'p ciphertext_cache \<Rightarrow> 'p ciphertext_cache" where
  "cache_compact cv c = CacheCompressed (cache_compress cv c)"

definition versioned_balance_compact ::
  "('p, 's) curve \<Rightarrow> 'p versioned_balance \<Rightarrow> 'p versioned_balance" where
  "versioned_balance_compact cv b =
     b\<lparr>final_balance := cache_compact cv (final_balance b),
       output_balance := map_option (cache_compact cv) (output_balance b)\<rparr>"

definition versioned_balance_ok :: "('p, 's) curve \<Rightarrow> 'p versioned_balance \<Rightarrow> bool" where
  "versioned_balance_ok cv b \<longleftrightarrow>
     cache_ok cv (final_balance b) \<and> pred_option (cache_ok cv) (output_balance b)"

lemma cache_stored_compact: "codec_laws cv \<Longrightarrow> cache_ok cv c \<Longrightarrow> cache_stored (cache_compact cv c)"
  using cache_abs_total [of cv c] compressed_ciphertext_ok_compress [of cv]
  by (auto simp: cache_stored_def cache_compact_def cache_abs_compress)

lemma write_cache_compact [simp]: "write_cache cv (cache_compact cv c) = write_cache cv c"
  by (simp add: write_cache_def cache_compact_def)

lemma write_option_compact [simp]:
  "write_option (write_cache cv) (map_option (cache_compact cv) m) = write_option (write_cache cv) m"
  by (cases m) (simp_all add: write_option_def)

lemma write_versioned_balance_compact:
  "write_versioned_balance cv (versioned_balance_compact cv b) = write_versioned_balance cv b"
  by (simp add: write_versioned_balance_def versioned_balance_compact_def)

lemma size_versioned_balance_compact:
  "size_versioned_balance (versioned_balance_compact cv b) = size_versioned_balance b"
  by (cases "output_balance b")
     (simp_all add: size_versioned_balance_def versioned_balance_compact_def size_cache_def
       size_option_def)

lemma versioned_balance_stored_compact:
  "codec_laws cv \<Longrightarrow> versioned_balance_ok cv b \<Longrightarrow>
     versioned_balance_stored (versioned_balance_compact cv b)"
  by (cases "output_balance b")
     (simp_all add: versioned_balance_ok_def versioned_balance_stored_def
       versioned_balance_compact_def cache_stored_compact)

section \<open>Properties\<close>

text \<open>
  C7: the ciphertext cache refines the ciphertext it stands for. In every state of the cache
  (compressed, decompressed, both, clean or dirty) all accessors return the ciphertext and its
  compressed form, none of them changes the ciphertext, and a value that is stored through the
  mutable reference of \<open>computable\<close> is the one that is read, compressed and written to disk
  afterwards.
\<close>

theorem ciphertext_cache_refines:
  assumes "codec_laws cv" "cache_abs cv c e"
  shows "cache_compress cv c = ciphertext_compress cv e \<and>
    fst (cache_compressed cv c) = ciphertext_compress cv e \<and>
    cache_abs cv (snd (cache_compressed cv c)) e \<and>
    (\<exists>c'. cache_decompressed cv c = Inr (e, c') \<and> cache_abs cv c' e) \<and>
    (\<exists>c'. cache_both cv c = Inr ((ciphertext_compress cv e, e), c') \<and> cache_abs cv c' e) \<and>
    (\<exists>put. cache_computable cv c = Inr (e, put) \<and>
       (\<forall>e'. cache_abs cv (put e') e' \<and> cache_compress cv (put e') = ciphertext_compress cv e' \<and>
          write_cache cv (put e') = write_compressed_ciphertext (ciphertext_compress cv e')))"
proof -
  obtain put where put: "cache_computable cv c = Inr (e, put)" "\<forall>e'. cache_abs cv (put e') e'"
    using cache_computable_abs [OF assms] by blast
  then have "\<forall>e'. cache_compress cv (put e') = ciphertext_compress cv e'"
    using cache_abs_compress [OF assms(1)] by blast
  with put cache_abs_compress [OF assms] cache_accessors_abs [OF assms] show ?thesis
    by (simp add: write_cache_def)
qed

theorem ciphertext_cache_refines_witness:
  "\<exists>put. cache_computable two_curve (CacheBoth (ciphertext_compress two_curve
       \<lparr>commitment = True, handle = False\<rparr>) \<lparr>commitment = True, handle = True\<rparr> True) =
       Inr (\<lparr>commitment = True, handle = True\<rparr>, put) \<and>
     (\<forall>e'. cache_compress two_curve (put e') = ciphertext_compress two_curve e')"
  using ciphertext_cache_refines [OF two_curve_codec_laws, of
      "CacheBoth (ciphertext_compress two_curve \<lparr>commitment = True, handle = False\<rparr>)
         \<lparr>commitment = True, handle = True\<rparr> True" "\<lparr>commitment = True, handle = True\<rparr>"]
  by (simp add: cache_abs_def)

text \<open>
  A versioned balance survives the disk: reading what was written gives the same links, type
  and ciphertexts, with the ciphertexts in compressed form (equal under the equality of caches),
  and the announced size is the number of bytes written.
\<close>

theorem versioned_balance_round_trip:
  assumes "codec_laws cv" "versioned_balance_ok cv b"
  shows "from_bytes read_versioned_balance (to_bytes (write_versioned_balance cv) b) =
      Inr (versioned_balance_compact cv b) \<and>
    cache_eq cv (final_balance (versioned_balance_compact cv b)) (final_balance b) \<and>
    rel_option (cache_eq cv) (output_balance (versioned_balance_compact cv b)) (output_balance b) \<and>
    size_versioned_balance b = length (to_bytes (write_versioned_balance cv) b)"
proof -
  note stored = versioned_balance_stored_compact [OF assms]
  have bytes: "to_bytes (write_versioned_balance cv) (versioned_balance_compact cv b) =
      to_bytes (write_versioned_balance cv) b"
    by (simp only: to_bytes_def write_versioned_balance_compact)
  have "cache_eq cv (final_balance (versioned_balance_compact cv b)) (final_balance b)"
    "rel_option (cache_eq cv) (output_balance (versioned_balance_compact cv b)) (output_balance b)"
    by (cases "output_balance b"; simp add: versioned_balance_compact_def cache_eq_def
        cache_compact_def)+
  moreover note versioned_balance_codec.from_bytes_to_bytes [OF stored, of cv, unfolded bytes]
    versioned_balance_codec.size_default [OF stored, of cv, unfolded default_size_def bytes
      size_versioned_balance_compact]
  ultimately show ?thesis by blast
qed

theorem versioned_balance_round_trip_witness:
  "from_bytes read_versioned_balance
     (to_bytes (write_versioned_balance two_curve) (versioned_balance_zero two_curve)) =
   Inr (versioned_balance_compact two_curve (versioned_balance_zero two_curve))"
  using versioned_balance_round_trip [OF two_curve_codec_laws, of "versioned_balance_zero two_curve"]
  by (simp add: versioned_balance_ok_def versioned_balance_zero_def versioned_balance_new_def)

text \<open>
  C33: adding a plain amount to a balance succeeds on every coherent balance, adds exactly this
  amount to the final ciphertext under every secret key, and leaves the output balance, the type
  and the link to the previous version alone.
\<close>

theorem add_plaintext_to_balance_decrypts:
  assumes "codec_laws cv" "curve_laws cv" "cache_abs cv (final_balance b) e"
  shows "\<exists>b' e'. add_plaintext_to_balance cv n b = Inr b' \<and> cache_abs cv (final_balance b') e' \<and>
    decrypt_to_point cv s e' = p_add cv (decrypt_to_point cv s e) (p_mul cv (s_from cv n) (gen_B cv)) \<and>
    output_balance b' = output_balance b \<and> balance_type b' = balance_type b \<and>
    previous_topoheight b' = previous_topoheight b"
proof -
  obtain put where put: "cache_computable cv (final_balance b) = Inr (e, put)"
    "\<forall>e'. cache_abs cv (put e') e'"
    using cache_computable_abs [OF assms(1,3)] by blast
  let ?b = "b\<lparr>final_balance := put (ciphertext_add_u64 cv e n)\<rparr>"
  have "add_plaintext_to_balance cv n b = Inr ?b"
    by (simp add: add_plaintext_to_balance_def put)
  with put(2) decrypt_add_u64 [OF assms(2)] show ?thesis
    by (intro exI [of _ ?b] exI [of _ "ciphertext_add_u64 cv e n"]) simp
qed

theorem add_plaintext_to_balance_decrypts_witness:
  "\<exists>b'. add_plaintext_to_balance two_curve 5 (versioned_balance_zero two_curve) = Inr b' \<and>
     output_balance b' = None"
  using add_plaintext_to_balance_decrypts [OF two_curve_codec_laws two_curve_laws,
      of "versioned_balance_zero two_curve" "ciphertext_zero two_curve" 5 True]
  by (auto simp: versioned_balance_zero_def versioned_balance_new_def cache_abs_def)

end
