(* ===== verification/Transaction.thy ===== *)
theory Transaction
  imports Contract_Values Account
begin

text \<open>
  Transactions and their serialized form (\<open>transaction/mod.rs\<close>, \<open>transaction/payload\<close>,
  \<open>transaction/multisig.rs\<close>, \<open>transaction/reference.rs\<close>, \<open>transaction/source_commitment.rs\<close>, and the
  serializers of the proofs in \<open>crypto/proofs\<close>). The curve, the range proofs and the virtual machine
  are the parameter \<open>libs\<close>; \<open>tx_env\<close> collects their laws together with the transaction version that
  the context of the reader has.
\<close>

section \<open>Libraries\<close>

record ('p, 's, 'r, 'o, 't) libs =
  lib_curve :: "('p, 's) curve"
  lib_vm :: "('o, 't) vm"
  rp_to_bytes :: "'r \<Rightarrow> u8 list"
  rp_from_bytes :: "u8 list \<Rightarrow> 'r option"

definition libs_laws :: "('p, 's, 'r, 'o, 't) libs \<Rightarrow> tx_version \<Rightarrow> bool" where
  "libs_laws L v \<longleftrightarrow> codec_laws (lib_curve L) \<and>
     (\<forall>bs p. rp_from_bytes L bs = Some p \<longrightarrow> rp_to_bytes L p = bs) \<and>
     (\<forall>c. ctx_tx_version c = Some v \<longrightarrow> vm_laws (lib_vm L) c)"

definition tx_env :: "('p, 's, 'r, 'o, 't) libs \<Rightarrow> tx_version \<Rightarrow> read_context \<Rightarrow> bool" where
  "tx_env L v c \<longleftrightarrow> libs_laws L v \<and> ctx_tx_version c = Some v"

section \<open>Proofs\<close>

definition EXTRA_DATA_LIMIT_SIZE :: nat where "EXTRA_DATA_LIMIT_SIZE = 1024"

definition EXTRA_DATA_LIMIT_SUM_SIZE :: nat where
  "EXTRA_DATA_LIMIT_SUM_SIZE = EXTRA_DATA_LIMIT_SIZE * 32"

definition MAX_TRANSFER_COUNT :: nat where "MAX_TRANSFER_COUNT = 255"

definition MAX_DEPOSIT_PER_INVOKE_CALL :: nat where "MAX_DEPOSIT_PER_INVOKE_CALL = 255"

definition MAX_MULTISIG_PARTICIPANTS :: nat where "MAX_MULTISIG_PARTICIPANTS = 255"

record 's commitment_eq_proof =
  eq_Y_0 :: compressed_point
  eq_Y_1 :: compressed_point
  eq_Y_2 :: compressed_point
  eq_z_s :: 's
  eq_z_x :: 's
  eq_z_r :: 's

definition write_commitment_eq_proof :: "('p, 's) curve \<Rightarrow> 's commitment_eq_proof \<Rightarrow> u8 list" where
  "write_commitment_eq_proof cv p =
     write_point (eq_Y_0 p) @ write_point (eq_Y_1 p) @ write_point (eq_Y_2 p) @
     write_scalar cv (eq_z_s p) @ write_scalar cv (eq_z_x p) @ write_scalar cv (eq_z_r p)"

definition read_commitment_eq_proof :: "('p, 's) curve \<Rightarrow> 's commitment_eq_proof parser" where
  "read_commitment_eq_proof cv =
     rbind read_point (\<lambda>Y_0. rbind read_point (\<lambda>Y_1. rbind read_point (\<lambda>Y_2.
     rbind (read_scalar cv) (\<lambda>z_s. rbind (read_scalar cv) (\<lambda>z_x. rbind (read_scalar cv) (\<lambda>z_r.
     rreturn \<lparr>eq_Y_0 = Y_0, eq_Y_1 = Y_1, eq_Y_2 = Y_2, eq_z_s = z_s, eq_z_x = z_x, eq_z_r = z_r\<rparr>))))))"

definition size_commitment_eq_proof :: "'s commitment_eq_proof \<Rightarrow> nat" where
  "size_commitment_eq_proof p = RISTRETTO_COMPRESSED_SIZE * 3 + SCALAR_SIZE * 3"

text \<open>The point \<open>Y_2\<close> is read from version 1 on; it is written when it is there.\<close>

record 's ciphertext_validity_proof =
  vp_Y_0 :: compressed_point
  vp_Y_1 :: compressed_point
  vp_Y_2 :: "compressed_point option"
  vp_z_r :: 's
  vp_z_x :: 's

definition write_ciphertext_validity_proof ::
  "('p, 's) curve \<Rightarrow> 's ciphertext_validity_proof \<Rightarrow> u8 list" where
  "write_ciphertext_validity_proof cv p =
     write_point (vp_Y_0 p) @ write_point (vp_Y_1 p) @
     (case vp_Y_2 p of Some Y_2 \<Rightarrow> write_point Y_2 | None \<Rightarrow> []) @
     write_scalar cv (vp_z_r p) @ write_scalar cv (vp_z_x p)"

definition read_ciphertext_validity_proof ::
  "('p, 's) curve \<Rightarrow> 's ciphertext_validity_proof parser" where
  "read_ciphertext_validity_proof cv r =
     result_bind (context_get_copy (rcontext r)) (\<lambda>version.
     rbind read_point (\<lambda>Y_0. rbind read_point (\<lambda>Y_1.
     rbind (if version \<ge> TxV1 then rbind read_point (\<lambda>Y. rreturn (Some Y)) else rreturn None) (\<lambda>Y_2.
     rbind (read_scalar cv) (\<lambda>z_r. rbind (read_scalar cv) (\<lambda>z_x.
     rreturn \<lparr>vp_Y_0 = Y_0, vp_Y_1 = Y_1, vp_Y_2 = Y_2, vp_z_r = z_r, vp_z_x = z_x\<rparr>))))) r)"

definition size_ciphertext_validity_proof :: "'s ciphertext_validity_proof \<Rightarrow> nat" where
  "size_ciphertext_validity_proof p = RISTRETTO_COMPRESSED_SIZE * 2 + SCALAR_SIZE * 2 +
     (case vp_Y_2 p of None \<Rightarrow> 0 | Some _ \<Rightarrow> RISTRETTO_COMPRESSED_SIZE)"

text \<open>
  The length field is tested before any byte of the proof is taken; \<open>next_power_of_two\<close> of
  \<open>MAX_TRANSFER_COUNT * 2 = 510\<close> is 512.
\<close>

definition range_proof_min_size :: nat where
  "range_proof_min_size = 4 * RISTRETTO_COMPRESSED_SIZE + 5 * SCALAR_SIZE"

fun next_power_of_two_from :: "nat \<Rightarrow> nat \<Rightarrow> nat \<Rightarrow> nat" where
  "next_power_of_two_from 0 p n = p"
| "next_power_of_two_from (Suc fuel) p n =
     (if n \<le> p then p else next_power_of_two_from fuel (2 * p) n)"

definition next_power_of_two :: "nat \<Rightarrow> nat" where
  "next_power_of_two n = next_power_of_two_from n 1 n"

definition range_proof_max_size :: nat where
  "range_proof_max_size =
     range_proof_min_size + next_power_of_two (MAX_TRANSFER_COUNT * 2) * RISTRETTO_COMPRESSED_SIZE"

definition write_range_proof :: "('p, 's, 'r, 'o, 't) libs \<Rightarrow> 'r \<Rightarrow> u8 list" where
  "write_range_proof L p = (let bs = rp_to_bytes L p in write_u16 (of_nat (length bs)) @ bs)"

definition read_range_proof :: "('p, 's, 'r, 'o, 't) libs \<Rightarrow> 'r parser" where
  "read_range_proof L = rbind read_u16 (\<lambda>l. let len = unat l in
     if len mod 32 \<noteq> 0 \<or> len < range_proof_min_size then rfail InvalidSize
     else if (len - range_proof_min_size) mod 32 \<noteq> 0 then rfail InvalidSize
     else if len > range_proof_max_size then rfail InvalidSize
     else rbind (read_bytes len) (\<lambda>bs.
       case rp_from_bytes L bs of None \<Rightarrow> rfail InvalidValue | Some p \<Rightarrow> rreturn p))"

definition size_range_proof :: "('p, 's, 'r, 'o, 't) libs \<Rightarrow> 'r \<Rightarrow> nat" where
  "size_range_proof L p = length (rp_to_bytes L p) + 2"

section \<open>Payloads\<close>

record reference =
  ref_hash :: hash
  ref_topoheight :: topoheight

definition write_reference :: "reference \<Rightarrow> u8 list" where
  "write_reference x = write_hash (ref_hash x) @ write_u64 (ref_topoheight x)"

definition read_reference :: "reference parser" where
  "read_reference = rbind read_hash (\<lambda>h. rbind read_u64 (\<lambda>t.
     rreturn \<lparr>ref_hash = h, ref_topoheight = t\<rparr>))"

definition size_reference :: "reference \<Rightarrow> nat" where
  "size_reference x = size_hash (ref_hash x) + size_u64 (ref_topoheight x)"

record burn_payload =
  burn_asset :: hash
  burn_amount :: u64

definition write_burn_payload :: "burn_payload \<Rightarrow> u8 list" where
  "write_burn_payload x = write_hash (burn_asset x) @ write_u64 (burn_amount x)"

definition read_burn_payload :: "burn_payload parser" where
  "read_burn_payload = rbind read_hash (\<lambda>a. rbind read_u64 (\<lambda>n.
     rreturn \<lparr>burn_asset = a, burn_amount = n\<rparr>))"

definition size_burn_payload :: "burn_payload \<Rightarrow> nat" where
  "size_burn_payload x = size_hash (burn_asset x) + size_u64 (burn_amount x)"

record multisig_payload =
  threshold :: u8
  participants :: "compressed_public_key list"

definition is_delete :: "multisig_payload \<Rightarrow> bool" where
  "is_delete x \<longleftrightarrow> threshold x = 0 \<and> participants x = []"

definition write_multisig_payload :: "multisig_payload \<Rightarrow> u8 list" where
  "write_multisig_payload x = write_u8 (threshold x) @
     (if threshold x \<noteq> 0
      then write_u8 (of_nat (length (participants x))) @ write_all write_point (participants x)
      else [])"

definition read_multisig_payload :: "multisig_payload parser" where
  "read_multisig_payload = rbind read_u8 (\<lambda>t.
     if t = 0 then rreturn \<lparr>threshold = t, participants = []\<rparr>
     else rbind read_u8 (\<lambda>n.
       if n = 0 \<or> n > of_nat MAX_MULTISIG_PARTICIPANTS then rfail InvalidSize
       else rbind (read_distinct InvalidValue (unat n) read_point []) (\<lambda>ps.
         rreturn \<lparr>threshold = t, participants = ps\<rparr>)))"

definition size_multisig_payload :: "multisig_payload \<Rightarrow> nat" where
  "size_multisig_payload x = 1 + 1 + sum_list (map size_point (participants x))"

datatype role = Sender | Receiver

record 's transfer_payload =
  tr_asset :: hash
  tr_destination :: compressed_public_key
  tr_extra_data :: "u8 list option"
  tr_commitment :: compressed_point
  tr_sender_handle :: compressed_point
  tr_receiver_handle :: compressed_point
  tr_ct_validity_proof :: "'s ciphertext_validity_proof"

definition tr_get_ciphertext :: "'s transfer_payload \<Rightarrow> role \<Rightarrow> compressed_ciphertext" where
  "tr_get_ciphertext x role =
     \<lparr>cc_commitment = tr_commitment x,
      cc_handle = (case role of Receiver \<Rightarrow> tr_receiver_handle x | Sender \<Rightarrow> tr_sender_handle x)\<rparr>"

definition write_extra_data :: "u8 list \<Rightarrow> u8 list" where
  "write_extra_data = write_vec write_u8"

definition read_extra_data :: "u8 list parser" where
  "read_extra_data = read_vec read_u8"

definition size_extra_data :: "u8 list \<Rightarrow> nat" where
  "size_extra_data = size_vec size_u8"

definition write_transfer_payload :: "('p, 's) curve \<Rightarrow> 's transfer_payload \<Rightarrow> u8 list" where
  "write_transfer_payload cv x =
     write_hash (tr_asset x) @ write_point (tr_destination x) @
     write_option write_extra_data (tr_extra_data x) @
     write_point (tr_commitment x) @ write_point (tr_sender_handle x) @
     write_point (tr_receiver_handle x) @
     write_ciphertext_validity_proof cv (tr_ct_validity_proof x)"

definition read_transfer_payload :: "('p, 's) curve \<Rightarrow> 's transfer_payload parser" where
  "read_transfer_payload cv =
     rbind read_hash (\<lambda>a. rbind read_point (\<lambda>d. rbind (read_option read_extra_data) (\<lambda>e.
     rbind read_point (\<lambda>c. rbind read_point (\<lambda>s. rbind read_point (\<lambda>r.
     rbind (read_ciphertext_validity_proof cv) (\<lambda>p.
     rreturn \<lparr>tr_asset = a, tr_destination = d, tr_extra_data = e, tr_commitment = c,
       tr_sender_handle = s, tr_receiver_handle = r, tr_ct_validity_proof = p\<rparr>)))))))"

definition size_transfer_payload :: "'s transfer_payload \<Rightarrow> nat" where
  "size_transfer_payload x =
     size_hash (tr_asset x) + size_point (tr_destination x) +
     size_option size_extra_data (tr_extra_data x) +
     size_point (tr_commitment x) + size_point (tr_sender_handle x) +
     size_point (tr_receiver_handle x) +
     size_ciphertext_validity_proof (tr_ct_validity_proof x)"

subsection \<open>Contracts\<close>

datatype 's contract_deposit =
  DepositPublic u64
| DepositPrivate compressed_point compressed_point compressed_point "'s ciphertext_validity_proof"

fun write_deposit :: "('p, 's) curve \<Rightarrow> 's contract_deposit \<Rightarrow> u8 list" where
  "write_deposit cv (DepositPublic n) = write_u8 0 @ write_u64 n"
| "write_deposit cv (DepositPrivate c s r p) =
     write_u8 1 @ write_point c @ write_point s @ write_point r @ write_ciphertext_validity_proof cv p"

definition read_deposit :: "('p, 's) curve \<Rightarrow> 's contract_deposit parser" where
  "read_deposit cv = rbind read_u8 (\<lambda>t.
     if t = 0 then rbind read_u64 (\<lambda>n. rreturn (DepositPublic n))
     else if t = 1 then
       rbind read_point (\<lambda>c. rbind read_point (\<lambda>s. rbind read_point (\<lambda>r.
       rbind (read_ciphertext_validity_proof cv) (\<lambda>p. rreturn (DepositPrivate c s r p)))))
     else rfail InvalidValue)"

fun size_deposit :: "'s contract_deposit \<Rightarrow> nat" where
  "size_deposit (DepositPublic n) = 1 + size_u64 n"
| "size_deposit (DepositPrivate c s r p) =
     1 + (size_point c + size_point s + size_point r + size_ciphertext_validity_proof p)"

type_synonym 's deposits = "(hash \<times> 's contract_deposit) list"

record ('s, 'o) invoke_contract_payload =
  inv_contract :: hash
  inv_deposits :: "'s deposits"
  inv_chunk_id :: u16
  inv_max_gas :: u64
  inv_parameters :: "'o value_cell list"

definition write_invoke_contract ::
  "('p, 's, 'r, 'o, 't) libs \<Rightarrow> ('s, 'o) invoke_contract_payload \<Rightarrow> u8 list" where
  "write_invoke_contract L x =
     write_hash (inv_contract x) @
     write_u8 (of_nat (length (inv_deposits x))) @
     write_all (write_pair write_hash (write_deposit (lib_curve L))) (inv_deposits x) @
     write_u16 (inv_chunk_id x) @ write_u64 (inv_max_gas x) @
     write_u8 (of_nat (length (inv_parameters x))) @
     write_all (write_value_cell (lib_vm L)) (inv_parameters x)"

definition read_invoke_contract ::
  "('p, 's, 'r, 'o, 't) libs \<Rightarrow> ('s, 'o) invoke_contract_payload parser" where
  "read_invoke_contract L =
     rbind read_hash (\<lambda>h. rbind read_u8 (\<lambda>n.
     rbind (read_entries (unat n) read_hash (read_deposit (lib_curve L)) []) (\<lambda>ds.
     rbind read_u16 (\<lambda>i. rbind read_u64 (\<lambda>g. rbind read_u8 (\<lambda>k.
     rbind (read_n (unat k) (read_value_cell (lib_vm L))) (\<lambda>ps.
     rreturn \<lparr>inv_contract = h, inv_deposits = ds, inv_chunk_id = i, inv_max_gas = g,
       inv_parameters = ps\<rparr>)))))))"

definition size_invoke_contract ::
  "('p, 's, 'r, 'o, 't) libs \<Rightarrow> ('s, 'o) invoke_contract_payload \<Rightarrow> nat" where
  "size_invoke_contract L x =
     size_hash (inv_contract x) + size_u16 (inv_chunk_id x) + size_u64 (inv_max_gas x) + 1 +
     sum_list (map (\<lambda>(a, d). size_hash a + size_deposit d) (inv_deposits x)) + 1 +
     sum_list (map (cell_size (lib_vm L)) (inv_parameters x))"

record 's invoke_constructor_payload =
  ic_max_gas :: u64
  ic_deposits :: "'s deposits"

definition write_invoke_constructor :: "('p, 's) curve \<Rightarrow> 's invoke_constructor_payload \<Rightarrow> u8 list" where
  "write_invoke_constructor cv x =
     write_u64 (ic_max_gas x) @ write_map write_hash (write_deposit cv) (ic_deposits x)"

definition read_invoke_constructor :: "('p, 's) curve \<Rightarrow> 's invoke_constructor_payload parser" where
  "read_invoke_constructor cv = rbind read_u64 (\<lambda>g.
     rbind (read_map read_hash (read_deposit cv)) (\<lambda>ds.
     rreturn \<lparr>ic_max_gas = g, ic_deposits = ds\<rparr>))"

definition size_invoke_constructor :: "'s invoke_constructor_payload \<Rightarrow> nat" where
  "size_invoke_constructor x = size_u64 (ic_max_gas x) + size_map size_hash size_deposit (ic_deposits x)"

record ('s, 'o) deploy_contract_payload =
  dep_module :: "'o contract_module"
  dep_invoke :: "'s invoke_constructor_payload option"

definition write_deploy_contract ::
  "('p, 's, 'r, 'o, 't) libs \<Rightarrow> ('s, 'o) deploy_contract_payload \<Rightarrow> u8 list" where
  "write_deploy_contract L x = write_module (lib_vm L) (dep_module x) @
     write_option (write_invoke_constructor (lib_curve L)) (dep_invoke x)"

definition read_deploy_contract ::
  "('p, 's, 'r, 'o, 't) libs \<Rightarrow> ('s, 'o) deploy_contract_payload parser" where
  "read_deploy_contract L = rbind (read_module (lib_vm L)) (\<lambda>m.
     rbind (read_option (read_invoke_constructor (lib_curve L))) (\<lambda>i.
     rreturn \<lparr>dep_module = m, dep_invoke = i\<rparr>))"

definition size_deploy_contract ::
  "('p, 's, 'r, 'o, 't) libs \<Rightarrow> ('s, 'o) deploy_contract_payload \<Rightarrow> nat" where
  "size_deploy_contract L x =
     size_module (lib_vm L) (dep_module x) + size_option size_invoke_constructor (dep_invoke x)"

section \<open>Transactions\<close>

datatype ('s, 'o) transaction_type =
  Transfers "'s transfer_payload list"
| Burn burn_payload
| MultiSig multisig_payload
| InvokeContract "('s, 'o) invoke_contract_payload"
| DeployContract "('s, 'o) deploy_contract_payload"

fun write_transaction_type ::
  "('p, 's, 'r, 'o, 't) libs \<Rightarrow> ('s, 'o) transaction_type \<Rightarrow> u8 list" where
  "write_transaction_type L (Burn x) = write_u8 0 @ write_burn_payload x"
| "write_transaction_type L (Transfers ts) =
     write_u8 1 @ write_u8 (of_nat (length ts)) @ write_all (write_transfer_payload (lib_curve L)) ts"
| "write_transaction_type L (MultiSig x) = write_u8 2 @ write_multisig_payload x"
| "write_transaction_type L (InvokeContract x) = write_u8 3 @ write_invoke_contract L x"
| "write_transaction_type L (DeployContract x) = write_u8 4 @ write_deploy_contract L x"

definition read_transaction_type ::
  "('p, 's, 'r, 'o, 't) libs \<Rightarrow> ('s, 'o) transaction_type parser" where
  "read_transaction_type L = rbind read_u8 (\<lambda>t.
     if t = 0 then rbind read_burn_payload (\<lambda>x. rreturn (Burn x))
     else if t = 1 then rbind read_u8 (\<lambda>n.
       if n = 0 \<or> n > of_nat MAX_TRANSFER_COUNT then rfail InvalidSize
       else rbind (read_n (unat n) (read_transfer_payload (lib_curve L))) (\<lambda>ts.
         rreturn (Transfers ts)))
     else if t = 2 then rbind read_multisig_payload (\<lambda>x. rreturn (MultiSig x))
     else if t = 3 then rbind (read_invoke_contract L) (\<lambda>x. rreturn (InvokeContract x))
     else if t = 4 then rbind (read_deploy_contract L) (\<lambda>x. rreturn (DeployContract x))
     else rfail InvalidValue)"

fun size_transaction_type :: "('p, 's, 'r, 'o, 't) libs \<Rightarrow> ('s, 'o) transaction_type \<Rightarrow> nat" where
  "size_transaction_type L (Burn x) = 1 + size_burn_payload x"
| "size_transaction_type L (Transfers ts) = 1 + (1 + sum_list (map size_transfer_payload ts))"
| "size_transaction_type L (MultiSig x) = 1 + (1 + 1 + sum_list (map size_point (participants x)))"
| "size_transaction_type L (InvokeContract x) = 1 + size_invoke_contract L x"
| "size_transaction_type L (DeployContract x) = 1 + size_deploy_contract L x"

record 's signature_id =
  sid_id :: u8
  sid_signature :: "'s signature"

text \<open>\<open>SignatureId\<close> is compared and hashed by its id alone, so a signer signs once.\<close>

type_synonym 's multisig = "'s signature_id list"

definition add_signature :: "'s signature_id \<Rightarrow> 's multisig \<Rightarrow> bool \<times> 's multisig" where
  "add_signature s ms = (if sid_id s \<in> sid_id ` set ms then (False, ms) else (True, ms @ [s]))"

definition write_signature_id :: "('p, 's) curve \<Rightarrow> 's signature_id \<Rightarrow> u8 list" where
  "write_signature_id cv s = write_u8 (sid_id s) @ write_signature cv (sid_signature s)"

definition read_signature_id :: "('p, 's) curve \<Rightarrow> 's signature_id parser" where
  "read_signature_id cv = rbind read_u8 (\<lambda>i. rbind (read_signature cv) (\<lambda>s.
     rreturn \<lparr>sid_id = i, sid_signature = s\<rparr>))"

definition size_signature_id :: "'s signature_id \<Rightarrow> nat" where
  "size_signature_id s = 1 + size_signature (sid_signature s)"

definition write_multisig :: "('p, 's) curve \<Rightarrow> 's multisig \<Rightarrow> u8 list" where
  "write_multisig cv ms = write_u8 (of_nat (length ms)) @ write_all (write_signature_id cv) ms"

fun read_signatures :: "('p, 's) curve \<Rightarrow> nat \<Rightarrow> 's multisig \<Rightarrow> 's multisig parser" where
  "read_signatures cv 0 ms = rreturn ms"
| "read_signatures cv (Suc n) ms = rbind (read_signature_id cv) (\<lambda>s.
     case add_signature s ms of (fresh, ms') \<Rightarrow>
       if \<not> fresh then rfail InvalidValue else read_signatures cv n ms')"

definition read_multisig :: "('p, 's) curve \<Rightarrow> 's multisig parser" where
  "read_multisig cv = rbind read_u8 (\<lambda>n. read_signatures cv (unat n) [])"

definition size_multisig :: "'s multisig \<Rightarrow> nat" where
  "size_multisig ms = 1 + sum_list (map (\<lambda>s. 1 + size_signature (sid_signature s)) ms)"

record 's source_commitment =
  sc_commitment :: compressed_point
  sc_proof :: "'s commitment_eq_proof"
  sc_asset :: hash

definition write_source_commitment :: "('p, 's) curve \<Rightarrow> 's source_commitment \<Rightarrow> u8 list" where
  "write_source_commitment cv x = write_point (sc_commitment x) @
     write_commitment_eq_proof cv (sc_proof x) @ write_hash (sc_asset x)"

definition read_source_commitment :: "('p, 's) curve \<Rightarrow> 's source_commitment parser" where
  "read_source_commitment cv = rbind read_point (\<lambda>c. rbind (read_commitment_eq_proof cv) (\<lambda>p.
     rbind read_hash (\<lambda>a. rreturn \<lparr>sc_commitment = c, sc_proof = p, sc_asset = a\<rparr>)))"

definition size_source_commitment :: "'s source_commitment \<Rightarrow> nat" where
  "size_source_commitment x =
     size_point (sc_commitment x) + size_commitment_eq_proof (sc_proof x) + size_hash (sc_asset x)"

record ('s, 'r, 'o) transaction =
  tx_version :: tx_version
  tx_source :: compressed_public_key
  tx_data :: "('s, 'o) transaction_type"
  tx_fee :: u64
  tx_nonce :: nonce
  tx_source_commitments :: "'s source_commitment list"
  tx_range_proof :: 'r
  tx_reference :: reference
  tx_multisig :: "'s multisig option"
  tx_signature :: "'s signature"

definition get_assets :: "('s, 'r, 'o) transaction \<Rightarrow> hash list" where
  "get_assets tx = map sc_asset (tx_source_commitments tx)"

definition get_multisig_count :: "('s, 'r, 'o) transaction \<Rightarrow> nat" where
  "get_multisig_count tx = (case tx_multisig tx of Some m \<Rightarrow> length m | None \<Rightarrow> 0)"

definition get_burned_amount :: "('s, 'r, 'o) transaction \<Rightarrow> hash \<Rightarrow> u64 option" where
  "get_burned_amount tx asset = (case tx_data tx of
     Burn p \<Rightarrow> if burn_asset p = asset then Some (burn_amount p) else None | _ \<Rightarrow> None)"

definition get_outputs_count :: "('s, 'r, 'o) transaction \<Rightarrow> nat" where
  "get_outputs_count tx = (case tx_data tx of
     Transfers ts \<Rightarrow> length ts
   | InvokeContract p \<Rightarrow> max (length (inv_deposits p)) 1
   | _ \<Rightarrow> 1)"

definition write_transaction ::
  "('p, 's, 'r, 'o, 't) libs \<Rightarrow> ('s, 'r, 'o) transaction \<Rightarrow> u8 list" where
  "write_transaction L tx = (let cv = lib_curve L in
     write_tx_version (tx_version tx) @ write_point (tx_source tx) @
     write_transaction_type L (tx_data tx) @
     write_u64 (tx_fee tx) @ write_u64 (tx_nonce tx) @
     write_u8 (of_nat (length (tx_source_commitments tx))) @
     write_all (write_source_commitment cv) (tx_source_commitments tx) @
     write_range_proof L (tx_range_proof tx) @ write_reference (tx_reference tx) @
     (if tx_version tx \<noteq> TxV0 then write_option (write_multisig cv) (tx_multisig tx) else []) @
     write_signature cv (tx_signature tx))"

definition store_version :: "tx_version \<Rightarrow> unit parser" where
  "store_version v r = Inr ((), r\<lparr>rcontext := context_store v (rcontext r)\<rparr>)"

text \<open>\<open>Transaction::read\<close> after the version has been stored in the context, and the whole of it.\<close>

definition read_transaction_fields ::
  "('p, 's, 'r, 'o, 't) libs \<Rightarrow> tx_version \<Rightarrow> ('s, 'r, 'o) transaction parser" where
  "read_transaction_fields L v = (let cv = lib_curve L in
     rbind read_point (\<lambda>source.
     rbind (read_transaction_type L) (\<lambda>data.
     rbind read_u64 (\<lambda>fee.
     rbind read_u64 (\<lambda>nonce.
     rbind read_u8 (\<lambda>n.
     if n = 0 \<or> n > of_nat MAX_TRANSFER_COUNT then rfail InvalidSize
     else rbind (read_n (unat n) (read_source_commitment cv)) (\<lambda>cs.
     rbind (read_range_proof L) (\<lambda>rp.
     rbind read_reference (\<lambda>ref.
     rbind (if v = TxV0 then rreturn None else read_option (read_multisig cv)) (\<lambda>ms.
     rbind (read_signature cv) (\<lambda>sig.
     rreturn \<lparr>tx_version = v, tx_source = source, tx_data = data, tx_fee = fee, tx_nonce = nonce,
       tx_source_commitments = cs, tx_range_proof = rp, tx_reference = ref, tx_multisig = ms,
       tx_signature = sig\<rparr>)))))))))))"

definition read_transaction ::
  "('p, 's, 'r, 'o, 't) libs \<Rightarrow> ('s, 'r, 'o) transaction parser" where
  "read_transaction L = rbind read_tx_version (\<lambda>v. rbind (store_version v) (\<lambda>_.
     read_transaction_fields L v))"

definition size_transaction :: "('p, 's, 'r, 'o, 't) libs \<Rightarrow> ('s, 'r, 'o) transaction \<Rightarrow> nat" where
  "size_transaction L tx =
     1 + size_point (tx_source tx) + size_transaction_type L (tx_data tx) + size_u64 (tx_fee tx) +
     size_u64 (tx_nonce tx) + 1 +
     sum_list (map size_source_commitment (tx_source_commitments tx)) +
     size_range_proof L (tx_range_proof tx) + size_reference (tx_reference tx) +
     size_signature (tx_signature tx) +
     (if tx_version tx \<noteq> TxV0 then size_option size_multisig (tx_multisig tx) else 0)"

section \<open>The serializers of the parts\<close>

text \<open>
  What is well-formed in a transaction of version \<open>v\<close>; it is also what the readers accept. Every
  part is an interpretation of \<open>codec_in\<close> in the contexts \<open>tx_env L v\<close>.
\<close>

definition eq_proof_ok :: "'s commitment_eq_proof \<Rightarrow> bool" where
  "eq_proof_ok p \<longleftrightarrow> point_ok (eq_Y_0 p) \<and> point_ok (eq_Y_1 p) \<and> point_ok (eq_Y_2 p)"

definition validity_proof_ok :: "tx_version \<Rightarrow> 's ciphertext_validity_proof \<Rightarrow> bool" where
  "validity_proof_ok v p \<longleftrightarrow> point_ok (vp_Y_0 p) \<and> point_ok (vp_Y_1 p) \<and>
     (vp_Y_2 p \<noteq> None \<longleftrightarrow> v \<ge> TxV1) \<and> pred_option point_ok (vp_Y_2 p)"

definition range_proof_ok :: "('p, 's, 'r, 'o, 't) libs \<Rightarrow> 'r \<Rightarrow> bool" where
  "range_proof_ok L p \<longleftrightarrow> (let bs = rp_to_bytes L p in
     rp_from_bytes L bs = Some p \<and> length bs mod 32 = 0 \<and>
     range_proof_min_size \<le> length bs \<and> length bs \<le> range_proof_max_size)"

definition multisig_payload_ok :: "multisig_payload \<Rightarrow> bool" where
  "multisig_payload_ok x \<longleftrightarrow> (if threshold x = 0 then participants x = []
     else participants x \<noteq> [] \<and> length (participants x) \<le> MAX_MULTISIG_PARTICIPANTS \<and>
       distinct (participants x) \<and> list_all point_ok (participants x))"

definition transfer_payload_ok :: "tx_version \<Rightarrow> 's transfer_payload \<Rightarrow> bool" where
  "transfer_payload_ok v x \<longleftrightarrow> hash_ok (tr_asset x) \<and> point_ok (tr_destination x) \<and>
     pred_option (vec_ok (\<lambda>_. True)) (tr_extra_data x) \<and> point_ok (tr_commitment x) \<and>
     point_ok (tr_sender_handle x) \<and> point_ok (tr_receiver_handle x) \<and>
     validity_proof_ok v (tr_ct_validity_proof x)"

fun deposit_ok :: "tx_version \<Rightarrow> 's contract_deposit \<Rightarrow> bool" where
  "deposit_ok v (DepositPublic n) \<longleftrightarrow> True"
| "deposit_ok v (DepositPrivate c s r p) \<longleftrightarrow>
     point_ok c \<and> point_ok s \<and> point_ok r \<and> validity_proof_ok v p"

definition invoke_contract_ok ::
  "('p, 's, 'r, 'o, 't) libs \<Rightarrow> tx_version \<Rightarrow> ('s, 'o) invoke_contract_payload \<Rightarrow> bool" where
  "invoke_contract_ok L v x \<longleftrightarrow> hash_ok (inv_contract x) \<and>
     length (inv_deposits x) \<le> 255 \<and> distinct (map fst (inv_deposits x)) \<and>
     list_all (pair_ok hash_ok (deposit_ok v)) (inv_deposits x) \<and>
     length (inv_parameters x) \<le> 255 \<and> list_all (cell_ok (lib_vm L)) (inv_parameters x)"

definition invoke_constructor_ok :: "tx_version \<Rightarrow> 's invoke_constructor_payload \<Rightarrow> bool" where
  "invoke_constructor_ok v x \<longleftrightarrow> map_ok hash_ok (deposit_ok v) (ic_deposits x)"

definition deploy_contract_ok ::
  "('p, 's, 'r, 'o, 't) libs \<Rightarrow> tx_version \<Rightarrow> ('s, 'o) deploy_contract_payload \<Rightarrow> bool" where
  "deploy_contract_ok L v x \<longleftrightarrow> module_ok (lib_vm L) (dep_module x) \<and>
     pred_option (invoke_constructor_ok v) (dep_invoke x)"

fun transaction_type_ok ::
  "('p, 's, 'r, 'o, 't) libs \<Rightarrow> tx_version \<Rightarrow> ('s, 'o) transaction_type \<Rightarrow> bool" where
  "transaction_type_ok L v (Burn x) \<longleftrightarrow> hash_ok (burn_asset x)"
| "transaction_type_ok L v (Transfers ts) \<longleftrightarrow>
     ts \<noteq> [] \<and> length ts \<le> MAX_TRANSFER_COUNT \<and> list_all (transfer_payload_ok v) ts"
| "transaction_type_ok L v (MultiSig x) \<longleftrightarrow> multisig_payload_ok x"
| "transaction_type_ok L v (InvokeContract x) \<longleftrightarrow> invoke_contract_ok L v x"
| "transaction_type_ok L v (DeployContract x) \<longleftrightarrow> deploy_contract_ok L v x"

definition multisig_ok :: "'s multisig \<Rightarrow> bool" where
  "multisig_ok ms \<longleftrightarrow> length ms < 256 \<and> distinct (map sid_id ms)"

definition source_commitment_ok :: "'s source_commitment \<Rightarrow> bool" where
  "source_commitment_ok x \<longleftrightarrow>
     point_ok (sc_commitment x) \<and> eq_proof_ok (sc_proof x) \<and> hash_ok (sc_asset x)"

definition transaction_ok :: "('p, 's, 'r, 'o, 't) libs \<Rightarrow> ('s, 'r, 'o) transaction \<Rightarrow> bool" where
  "transaction_ok L tx \<longleftrightarrow> point_ok (tx_source tx) \<and>
     transaction_type_ok L (tx_version tx) (tx_data tx) \<and>
     tx_source_commitments tx \<noteq> [] \<and> length (tx_source_commitments tx) \<le> MAX_TRANSFER_COUNT \<and>
     list_all source_commitment_ok (tx_source_commitments tx) \<and>
     range_proof_ok L (tx_range_proof tx) \<and> hash_ok (ref_hash (tx_reference tx)) \<and>
     (tx_version tx = TxV0 \<longrightarrow> tx_multisig tx = None) \<and> pred_option multisig_ok (tx_multisig tx)"

lemma tx_envD:
  assumes "tx_env L v c"
  shows "codec_laws (lib_curve L)" "vm_laws (lib_vm L) c" "ctx_tx_version c = Some v"
    "rp_from_bytes L bs = Some p \<Longrightarrow> rp_to_bytes L p = bs"
  using assms by (auto simp: tx_env_def libs_laws_def)

interpretation scalar_in: codec_in "write_scalar cv" "read_scalar cv" "\<lambda>_. True" "\<lambda>_. codec_laws cv"
  for cv :: "('p, 's) curve"
  by unfold_locales
     (auto simp: canonical_codec.read_at_iff [OF scalar_codec] yields_def
       intro: codec.read_write [OF canonical_codec.axioms(1) [OF scalar_codec]])

interpretation extra_data_codec: canonical_codec write_extra_data read_extra_data size_extra_data
  "vec_ok (\<lambda>_. True)"
  unfolding write_extra_data_def read_extra_data_def size_extra_data_def
  by (rule u8_codec.vec_canonical)

interpretation extra_data_option: canonical_codec "write_option write_extra_data"
  "read_option read_extra_data" "size_option size_extra_data" "pred_option (vec_ok (\<lambda>_. True))"
  by (rule extra_data_codec.option_canonical)

interpretation reference_codec: canonical_codec write_reference read_reference size_reference
  "\<lambda>x. hash_ok (ref_hash x)"
  by unfold_locales
     (auto simp: read_reference_def write_reference_def size_reference_def size_hash_def
       size_u64_def HASH_SIZE_def result_simps)

interpretation burn_codec: canonical_codec write_burn_payload read_burn_payload size_burn_payload
  "\<lambda>x. hash_ok (burn_asset x)"
  by unfold_locales
     (auto simp: read_burn_payload_def write_burn_payload_def size_burn_payload_def size_hash_def
       size_u64_def HASH_SIZE_def result_simps)

lemmas yields_scalar = yields_bind [OF scalar_in.yields_in]

interpretation signature_in: codec_in "write_signature cv" "read_signature cv" "\<lambda>_. True"
  "\<lambda>_. codec_laws cv" for cv :: "('p, 's) curve"
proof
  fix c :: read_context
  assume "codec_laws cv"
  then show "yields c (read_signature cv) (\<lambda>_. True)"
    unfolding read_signature_def by (intro yields_scalar yields_intros) auto
qed (simp add: read_signature_def write_signature_def scalar_in.read_write_in)

interpretation signature_id_in: codec_in "write_signature_id cv" "read_signature_id cv" "\<lambda>_. True"
  "\<lambda>_. codec_laws cv" for cv :: "('p, 's) curve"
proof
  fix c :: read_context
  assume "codec_laws cv"
  then show "yields c (read_signature_id cv) (\<lambda>_. True)"
    unfolding read_signature_id_def
    by (intro yields_primitives yields_bind [OF signature_in.yields_in] yields_intros) auto
qed (simp add: read_signature_id_def write_signature_id_def signature_in.read_write_in)

interpretation eq_proof_in: codec_in "write_commitment_eq_proof cv" "read_commitment_eq_proof cv"
  eq_proof_ok "\<lambda>_. codec_laws cv" for cv :: "('p, 's) curve"
proof
  fix c :: read_context
  assume "codec_laws cv"
  then show "yields c (read_commitment_eq_proof cv) (eq_proof_ok :: 's commitment_eq_proof \<Rightarrow> bool)"
    unfolding read_commitment_eq_proof_def
    by (intro yields_primitives yields_scalar yields_intros) (auto simp: eq_proof_ok_def)
qed (simp add: read_commitment_eq_proof_def write_commitment_eq_proof_def eq_proof_ok_def
    scalar_in.read_write_in point_codec.read_write)

interpretation source_commitment_in: codec_in "write_source_commitment cv" "read_source_commitment cv"
  source_commitment_ok "\<lambda>_. codec_laws cv" for cv :: "('p, 's) curve"
proof
  fix c :: read_context
  assume "codec_laws cv"
  then show "yields c (read_source_commitment cv) (source_commitment_ok :: 's source_commitment \<Rightarrow> bool)"
    unfolding read_source_commitment_def
    by (intro yields_primitives yields_bind [OF eq_proof_in.yields_in] yields_intros)
       (auto simp: source_commitment_ok_def)
qed (simp add: read_source_commitment_def write_source_commitment_def source_commitment_ok_def
    eq_proof_in.read_write_in point_codec.read_write)

interpretation validity_proof_in: codec_in "write_ciphertext_validity_proof cv"
  "read_ciphertext_validity_proof cv" "validity_proof_ok v"
  "\<lambda>c. codec_laws cv \<and> ctx_tx_version c = Some v" for cv :: "('p, 's) curve" and v
proof
  fix c :: read_context and x :: "'s ciphertext_validity_proof" and pre post
  assume "codec_laws cv \<and> ctx_tx_version c = Some v" "validity_proof_ok v x"
  then show "read_ciphertext_validity_proof cv (at pre (write_ciphertext_validity_proof cv x @ post) c) =
      Inr (x, at (pre @ write_ciphertext_validity_proof cv x) post c)"
    by (cases "vp_Y_2 x")
       (auto simp: read_ciphertext_validity_proof_def write_ciphertext_validity_proof_def
         validity_proof_ok_def context_get_copy_def scalar_in.read_write_in point_codec.read_write)
next
  fix c :: read_context
  assume c: "codec_laws cv \<and> ctx_tx_version c = Some v"
  let ?rd = "rbind read_point (\<lambda>Y_0. rbind read_point (\<lambda>Y_1.
     rbind (if v \<ge> TxV1 then rbind read_point (\<lambda>Y. rreturn (Some Y)) else rreturn None) (\<lambda>Y_2.
     rbind (read_scalar cv) (\<lambda>z_r. rbind (read_scalar cv) (\<lambda>z_x.
     rreturn \<lparr>vp_Y_0 = Y_0, vp_Y_1 = Y_1, vp_Y_2 = Y_2, vp_z_r = z_r, vp_z_x = z_x\<rparr>)))))"
  have "yields c (if v \<ge> TxV1 then rbind read_point (\<lambda>Y. rreturn (Some Y)) else rreturn None)
      (\<lambda>m. (m \<noteq> None \<longleftrightarrow> v \<ge> TxV1) \<and> pred_option point_ok m)"
    by (intro yields_primitives yields_intros) auto
  then have "yields c ?rd (validity_proof_ok v)"
    using c
    by (intro yields_primitives yields_scalar yields_intros)
       (erule yields_bind, auto intro!: yields_scalar yields_return simp: validity_proof_ok_def)
  then show "yields c (read_ciphertext_validity_proof cv) (validity_proof_ok v)"
    using c by (simp add: yields_def read_ciphertext_validity_proof_def context_get_copy_def)
qed

lemma next_power_of_two_510: "next_power_of_two 510 = 512"
  by code_simp

lemma range_proof_sizes:
  "range_proof_min_size = 288" "range_proof_max_size = 16672"
  by (simp_all add: range_proof_min_size_def range_proof_max_size_def RISTRETTO_COMPRESSED_SIZE_def
      SCALAR_SIZE_def MAX_TRANSFER_COUNT_def next_power_of_two_510)

interpretation range_proof_in: codec_in "write_range_proof L" "read_range_proof L" "range_proof_ok L"
  "\<lambda>_. \<forall>bs p. rp_from_bytes L bs = Some p \<longrightarrow> rp_to_bytes L p = bs"
  for L :: "('p, 's, 'r, 'o, 't) libs"
proof
  fix c x pre post
  assume x: "range_proof_ok L x"
  define bs where "bs = rp_to_bytes L x"
  have bs: "rp_from_bytes L bs = Some x" "length bs mod 32 = 0" "288 \<le> length bs"
    "length bs \<le> 16672"
    using x by (simp_all add: range_proof_ok_def bs_def [symmetric] range_proof_sizes)
  moreover have "(length bs - 288) mod 32 = 0" using bs(2,3) by presburger
  ultimately show "read_range_proof L (at pre (write_range_proof L x @ post) c) =
      Inr (x, at (pre @ write_range_proof L x) post c)"
    by (simp add: read_range_proof_def write_range_proof_def bs_def [symmetric] Let_def
        range_proof_sizes)
next
  fix c
  assume "\<forall>bs p. rp_from_bytes L bs = Some p \<longrightarrow> rp_to_bytes L p = bs"
  then show "yields c (read_range_proof L) (range_proof_ok L)"
    unfolding read_range_proof_def Let_def
    by (intro yields_primitives yields_intros) (auto simp: range_proof_ok_def)
qed

interpretation multisig_payload_codec: codec_in write_multisig_payload read_multisig_payload
  multisig_payload_ok "\<lambda>_. True"
proof
  fix c x pre post
  assume x: "multisig_payload_ok x"
  show "read_multisig_payload (at pre (write_multisig_payload x @ post) c) =
      Inr (x, at (pre @ write_multisig_payload x) post c)"
  proof (cases "threshold x = 0")
    case True
    then show ?thesis
      using x by (cases x)
        (simp add: read_multisig_payload_def write_multisig_payload_def multisig_payload_ok_def)
  next
    case False
    have n: "0 < length (participants x)" "length (participants x) \<le> 255"
      using x False by (auto simp: multisig_payload_ok_def MAX_MULTISIG_PARTICIPANTS_def)
    then have "(of_nat (length (participants x)) :: u8) \<noteq> 0"
      by (simp add: unat_eq_0 [symmetric] unat_of_nat del: unat_eq_0)
    then show ?thesis
      using x False n point_codec.read_distinct_write [of "participants x" "[]"]
      by (simp add: read_multisig_payload_def write_multisig_payload_def multisig_payload_ok_def
          MAX_MULTISIG_PARTICIPANTS_def word_less_nat_alt)
  qed
next
  fix c
  have le: "unat n \<le> 255" for n :: u8
    using unat_u8_less [of n] by simp
  show "yields c read_multisig_payload multisig_payload_ok"
    unfolding read_multisig_payload_def
    by (intro yields_primitives yields_intros
        yields_bind [OF point_codec.in_context.read_distinct_yields_in [OF TrueI]])
       (auto simp: multisig_payload_ok_def MAX_MULTISIG_PARTICIPANTS_def le unat_eq_0)
qed

lemma read_signatures_write:
  "codec_laws cv \<Longrightarrow> distinct (map sid_id (acc @ ms)) \<Longrightarrow> n = length ms \<Longrightarrow>
     read_signatures cv n acc (at pre (write_all (write_signature_id cv) ms @ post) c) =
       Inr (acc @ ms, at (pre @ write_all (write_signature_id cv) ms) post c)"
proof (induction ms arbitrary: acc pre n)
  case (Cons s ms)
  then have "add_signature s acc = (True, acc @ [s])" by (auto simp: add_signature_def)
  with Cons show ?case by (simp add: signature_id_in.read_write_in)
qed simp

lemma yields_signatures:
  "codec_laws cv \<Longrightarrow> distinct (map sid_id acc) \<Longrightarrow>
     yields c (read_signatures cv n acc)
       (\<lambda>ms. length ms = length acc + n \<and> distinct (map sid_id ms))"
proof (induction n arbitrary: acc)
  case (Suc n)
  have "yields c (read_signatures cv n (acc @ [s]))
      (\<lambda>ms. length ms = length acc + Suc n \<and> distinct (map sid_id ms))"
    if "sid_id s \<notin> sid_id ` set acc" for s
    using Suc.IH [of "acc @ [s]"] Suc.prems that by simp
  then show ?case
    using Suc.prems by (auto intro!: yields_bind [OF signature_id_in.yields_in] yields_fail
        simp: add_signature_def)
qed (simp add: yields_Inr yields_return)

interpretation multisig_in: codec_in "write_multisig cv" "read_multisig cv" multisig_ok
  "\<lambda>_. codec_laws cv" for cv :: "('p, 's) curve"
proof
  fix c :: read_context
  assume "codec_laws cv"
  then show "yields c (read_multisig cv) (multisig_ok :: 's multisig \<Rightarrow> bool)"
    unfolding read_multisig_def
    by (intro yields_primitives yields_mono [OF yields_signatures])
       (use unat_u8_less in \<open>auto simp: multisig_ok_def\<close>)
qed (simp add: read_multisig_def write_multisig_def multisig_ok_def read_signatures_write)

lemmas yields_validity_proof = yields_bind [OF validity_proof_in.yields_in]

interpretation transfer_in: codec_in "write_transfer_payload cv" "read_transfer_payload cv"
  "transfer_payload_ok v" "\<lambda>c. codec_laws cv \<and> ctx_tx_version c = Some v"
  for cv :: "('p, 's) curve" and v
proof
  fix c :: read_context
  assume "codec_laws cv \<and> ctx_tx_version c = Some v"
  then show "yields c (read_transfer_payload cv) (transfer_payload_ok v :: 's transfer_payload \<Rightarrow> bool)"
    unfolding read_transfer_payload_def
    by (intro yields_primitives yields_bind [OF extra_data_option.in_context.yields_in [OF TrueI]]
        yields_validity_proof [where v = v] yields_intros)
       (auto simp: transfer_payload_ok_def)
qed (auto simp: read_transfer_payload_def write_transfer_payload_def transfer_payload_ok_def
    point_codec.read_write extra_data_option.read_write validity_proof_in.read_write_in [where v = v])

interpretation deposit_in: codec_in "write_deposit cv" "read_deposit cv" "deposit_ok v"
  "\<lambda>c. codec_laws cv \<and> ctx_tx_version c = Some v" for cv :: "('p, 's) curve" and v
proof
  fix c :: read_context and x :: "'s contract_deposit" and pre post
  assume "codec_laws cv \<and> ctx_tx_version c = Some v" "deposit_ok v x"
  then show "read_deposit cv (at pre (write_deposit cv x @ post) c) =
      Inr (x, at (pre @ write_deposit cv x) post c)"
    by (cases x) (simp_all add: read_deposit_def point_codec.read_write
        validity_proof_in.read_write_in [where v = v])
next
  fix c :: read_context
  assume "codec_laws cv \<and> ctx_tx_version c = Some v"
  then show "yields c (read_deposit cv) (deposit_ok v :: 's contract_deposit \<Rightarrow> bool)"
    unfolding read_deposit_def
    by (intro yields_primitives yields_validity_proof [where v = v] yields_intros) auto
qed

interpretation deposits_in: codec_in_pair write_hash read_hash hash_ok "write_deposit cv"
  "read_deposit cv" "deposit_ok v" "\<lambda>c. codec_laws cv \<and> ctx_tx_version c = Some v"
  for cv :: "('p, 's) curve" and v
  by (intro codec_in_pair.intro hash_codec.in_context.weaken_in deposit_in.codec_in_axioms) simp

interpretation constructor_in: codec_in "write_invoke_constructor cv" "read_invoke_constructor cv"
  "invoke_constructor_ok v" "\<lambda>c. codec_laws cv \<and> ctx_tx_version c = Some v"
  for cv :: "('p, 's) curve" and v
proof
  fix c :: read_context
  assume c: "codec_laws cv \<and> ctx_tx_version c = Some v"
  show "yields c (read_invoke_constructor cv)
      (invoke_constructor_ok v :: 's invoke_constructor_payload \<Rightarrow> bool)"
    unfolding read_invoke_constructor_def
    by (intro yields_primitives yields_bind [OF codec_in.yields_in [OF deposits_in.map_in c]]
        yields_intros)
       (auto simp: invoke_constructor_ok_def)
  fix x :: "'s invoke_constructor_payload" and pre post
  assume "invoke_constructor_ok v x"
  then show "read_invoke_constructor cv (at pre (write_invoke_constructor cv x @ post) c) =
      Inr (x, at (pre @ write_invoke_constructor cv x) post c)"
    by (simp add: read_invoke_constructor_def write_invoke_constructor_def invoke_constructor_ok_def
        codec_in.read_write_in [OF deposits_in.map_in c])
qed

interpretation invoke_in: codec_in "write_invoke_contract L" "read_invoke_contract L"
  "invoke_contract_ok L v" "tx_env L v" for L :: "('p, 's, 'r, 'o, 't) libs" and v
proof
  fix c :: read_context
  assume c: "tx_env L v c"
  have cv: "codec_laws (lib_curve L) \<and> ctx_tx_version c = Some v" using tx_envD [OF c] by simp
  note vm = tx_envD(2) [OF c]
  have le: "unat n \<le> 255" for n :: u8
    using unat_u8_less [of n] by simp
  show "yields c (read_invoke_contract L)
      (invoke_contract_ok L v :: ('s, 'o) invoke_contract_payload \<Rightarrow> bool)"
    unfolding read_invoke_contract_def
    by (intro yields_primitives yields_bind [OF deposits_in.read_entries_yields_in [OF cv]]
        yields_bind [OF cell_codec.read_n_yields_in [OF vm]] yields_intros)
       (auto simp: invoke_contract_ok_def le intro: le_trans [OF _ le])
  fix x :: "('s, 'o) invoke_contract_payload" and pre post
  assume "invoke_contract_ok L v x"
  then show "read_invoke_contract L (at pre (write_invoke_contract L x @ post) c) =
      Inr (x, at (pre @ write_invoke_contract L x) post c)"
    using cv vm by (simp add: read_invoke_contract_def write_invoke_contract_def invoke_contract_ok_def
        deposits_in.read_entries_write_in [where v = v] cell_codec.read_n_write_in)
qed

interpretation deploy_in: codec_in "write_deploy_contract L" "read_deploy_contract L"
  "deploy_contract_ok L v" "tx_env L v" for L :: "('p, 's, 'r, 'o, 't) libs" and v
proof
  fix c :: read_context
  assume c: "tx_env L v c"
  have cv: "codec_laws (lib_curve L) \<and> ctx_tx_version c = Some v" using tx_envD [OF c] by simp
  note vm = tx_envD(2) [OF c]
  show "yields c (read_deploy_contract L)
      (deploy_contract_ok L v :: ('s, 'o) deploy_contract_payload \<Rightarrow> bool)"
    unfolding read_deploy_contract_def
    by (intro yields_bind [OF module_codec.yields_in [OF vm]]
        yields_bind [OF codec_in.yields_in [OF constructor_in.option_in cv]] yields_intros)
       (auto simp: deploy_contract_ok_def)
  fix x :: "('s, 'o) deploy_contract_payload" and pre post
  assume "deploy_contract_ok L v x"
  then show "read_deploy_contract L (at pre (write_deploy_contract L x @ post) c) =
      Inr (x, at (pre @ write_deploy_contract L x) post c)"
    using vm by (simp add: read_deploy_contract_def write_deploy_contract_def deploy_contract_ok_def
        module_codec.read_write_in codec_in.read_write_in [OF constructor_in.option_in cv])
qed

interpretation transaction_type_in: codec_in "write_transaction_type L" "read_transaction_type L"
  "transaction_type_ok L v" "tx_env L v" for L :: "('p, 's, 'r, 'o, 't) libs" and v
proof
  fix c :: read_context
  assume c: "tx_env L v c"
  have cv: "codec_laws (lib_curve L) \<and> ctx_tx_version c = Some v" using tx_envD [OF c] by simp
  have le: "unat n \<le> 255" for n :: u8
    using unat_u8_less [of n] by simp
  show "yields c (read_transaction_type L)
      (transaction_type_ok L v :: ('s, 'o) transaction_type \<Rightarrow> bool)"
    unfolding read_transaction_type_def
    by (intro yields_primitives yields_bind [OF burn_codec.in_context.yields_in [OF TrueI]]
        yields_bind [OF transfer_in.read_n_yields_in [OF cv]]
        yields_bind [OF multisig_payload_codec.yields_in [OF TrueI]]
        yields_bind [OF invoke_in.yields_in [OF c]] yields_bind [OF deploy_in.yields_in [OF c]]
        yields_intros)
       (auto simp: MAX_TRANSFER_COUNT_def le unat_eq_0)
  fix x :: "('s, 'o) transaction_type" and pre post
  assume x: "transaction_type_ok L v x"
  show "read_transaction_type L (at pre (write_transaction_type L x @ post) c) =
      Inr (x, at (pre @ write_transaction_type L x) post c)"
  proof (cases x)
    case (Transfers ts)
    then have n: "0 < length ts" "length ts \<le> 255"
      using x by (auto simp: MAX_TRANSFER_COUNT_def)
    then have "(of_nat (length ts) :: u8) \<noteq> 0"
      by (simp add: unat_eq_0 [symmetric] unat_of_nat del: unat_eq_0)
    with n Transfers x cv show ?thesis
      by (simp add: read_transaction_type_def transfer_in.read_n_write_in [where v = v]
          MAX_TRANSFER_COUNT_def word_less_nat_alt)
  qed (use x c in \<open>simp_all add: read_transaction_type_def burn_codec.read_write
      multisig_payload_codec.read_write_in invoke_in.read_write_in [where v = v]
      deploy_in.read_write_in [where v = v]\<close>)
qed

section \<open>Sizes\<close>

lemma length_write_point [simp]: "point_ok p \<Longrightarrow> length (write_point p) = 32"
  by (simp add: write_point_def point_ok_def RISTRETTO_COMPRESSED_SIZE_def)

lemma length_write_scalar: "codec_laws cv \<Longrightarrow> length (write_scalar cv x) = 32"
  by (simp add: write_scalar_def codec_laws_def)

lemma length_write_signature: "codec_laws cv \<Longrightarrow> length (write_signature cv s) = 64"
  by (simp add: write_signature_def length_write_scalar)

lemma size_fixed [simp]:
  "size_point p = 32" "size_hash h = 32" "size_signature s = 64" "size_u16 n = 2"
  by (simp_all add: size_point_def size_hash_def size_signature_def size_u16_def
      RISTRETTO_COMPRESSED_SIZE_def HASH_SIZE_def SIGNATURE_SIZE_def SCALAR_SIZE_def)

lemma sum_list_length_write_all:
  "(\<And>x. x \<in> set xs \<Longrightarrow> sz x = length (wr x)) \<Longrightarrow> sum_list (map sz xs) = length (write_all wr xs)"
  by (induction xs) auto

lemma size_validity_proof_write:
  "codec_laws cv \<Longrightarrow> validity_proof_ok v p \<Longrightarrow>
     size_ciphertext_validity_proof p = length (write_ciphertext_validity_proof cv p)"
  by (cases "vp_Y_2 p")
     (simp_all add: size_ciphertext_validity_proof_def write_ciphertext_validity_proof_def
       validity_proof_ok_def length_write_scalar RISTRETTO_COMPRESSED_SIZE_def SCALAR_SIZE_def)

lemma size_transfer_write:
  "codec_laws cv \<Longrightarrow> transfer_payload_ok v x \<Longrightarrow>
     size_transfer_payload x = length (write_transfer_payload cv x)"
  by (simp add: size_transfer_payload_def write_transfer_payload_def transfer_payload_ok_def
      extra_data_option.size_write size_validity_proof_write [where v = v])

lemma size_deposit_write:
  "codec_laws cv \<Longrightarrow> deposit_ok v x \<Longrightarrow> size_deposit x = length (write_deposit cv x)"
  by (cases x) (simp_all add: size_validity_proof_write [where v = v])

lemma size_deposits_write:
  assumes "codec_laws cv" "list_all (pair_ok hash_ok (deposit_ok v)) ds"
  shows "sum_list (map (\<lambda>(a, d). size_hash a + size_deposit d) ds) =
    length (write_all (write_pair write_hash (write_deposit cv)) ds)"
  using assms
  by (intro sum_list_length_write_all)
     (auto simp: list_all_iff pair_ok_def write_pair_def size_deposit_write [where v = v])

lemma size_invoke_write:
  assumes "tx_env L v c" "invoke_contract_ok L v x"
  shows "size_invoke_contract L x = length (write_invoke_contract L x)"
proof -
  have "sum_list (map (cell_size (lib_vm L)) (inv_parameters x)) =
      length (write_all (write_value_cell (lib_vm L)) (inv_parameters x))"
    using assms tx_envD(2) [OF assms(1)]
    by (intro sum_list_length_write_all cell_size_write)
       (auto simp: invoke_contract_ok_def list_all_iff)
  then show ?thesis
    using assms(2) size_deposits_write [OF tx_envD(1) [OF assms(1)], of v "inv_deposits x"]
    by (simp add: size_invoke_contract_def write_invoke_contract_def invoke_contract_ok_def)
qed

lemma size_constructor_write:
  fixes x :: "'s invoke_constructor_payload"
  assumes "codec_laws cv" "invoke_constructor_ok v x"
  shows "size_invoke_constructor x = length (write_invoke_constructor cv x)"
proof -
  have "sum_list (map (size_pair size_hash size_deposit) ds) =
      sum_list (map (\<lambda>(a, d). size_hash a + size_deposit d) ds)" for ds :: "'s deposits"
    by (intro arg_cong [where f = sum_list] map_cong) (auto simp: size_pair_def)
  then show ?thesis
    using assms(2) size_deposits_write [OF assms(1), of v "ic_deposits x"]
    by (simp add: size_invoke_constructor_def write_invoke_constructor_def invoke_constructor_ok_def
        size_map_def write_map_def map_ok_def)
qed

lemma size_deploy_write:
  assumes "tx_env L v c" "deploy_contract_ok L v x"
  shows "size_deploy_contract L x = length (write_deploy_contract L x)"
  using assms(2) size_constructor_write [OF tx_envD(1) [OF assms(1)]]
  by (cases "dep_invoke x")
     (auto simp: size_deploy_contract_def write_deploy_contract_def deploy_contract_ok_def
       size_module_def default_size_def to_bytes_def write_bytes_def writer_new_def size_option_def
       write_option_def)

text \<open>The size of the payload that deletes a multisig counts a byte that is not written.\<close>

definition deletes_multisig :: "('s, 'o) transaction_type \<Rightarrow> bool" where
  "deletes_multisig d = (case d of MultiSig x \<Rightarrow> threshold x = 0 | _ \<Rightarrow> False)"

lemma size_multisig_payload_write:
  "multisig_payload_ok x \<Longrightarrow>
     size_multisig_payload x = length (write_multisig_payload x) + (if threshold x = 0 then 1 else 0)"
  using sum_list_length_write_all [of "participants x" size_point write_point]
  by (auto simp: size_multisig_payload_def write_multisig_payload_def multisig_payload_ok_def
      list_all_iff)

lemma size_transaction_type_write:
  assumes c: "tx_env L v c" and x: "transaction_type_ok L v x"
  shows "size_transaction_type L x =
    length (write_transaction_type L x) + (if deletes_multisig x then 1 else 0)"
proof (cases x)
  case (Transfers ts)
  have "sum_list (map size_transfer_payload ts) =
      length (write_all (write_transfer_payload (lib_curve L)) ts)"
    using x Transfers tx_envD(1) [OF c]
    by (intro sum_list_length_write_all size_transfer_write) (auto simp: list_all_iff)
  then show ?thesis using Transfers by (simp add: deletes_multisig_def)
next
  case (MultiSig m)
  then show ?thesis
    using x size_multisig_payload_write [of m] by (auto simp: deletes_multisig_def size_multisig_payload_def)
qed (use x c in \<open>simp_all add: deletes_multisig_def burn_codec.size_write
      size_invoke_write [where v = v and c = c] size_deploy_write [where v = v and c = c]\<close>)

lemma size_multisig_write:
  "codec_laws cv \<Longrightarrow> size_multisig ms = length (write_multisig cv ms)"
  using length_write_all_const [of ms "write_signature_id cv" 65]
  by (simp add: size_multisig_def write_multisig_def write_signature_id_def length_write_signature
      sum_list_triv)

lemma size_source_commitments_write:
  assumes "codec_laws cv" "list_all source_commitment_ok cs"
  shows "sum_list (map size_source_commitment cs) = length (write_all (write_source_commitment cv) cs)"
  using assms
  by (intro sum_list_length_write_all)
     (auto simp: size_source_commitment_def write_source_commitment_def source_commitment_ok_def
       size_commitment_eq_proof_def write_commitment_eq_proof_def eq_proof_ok_def list_all_iff
       length_write_scalar RISTRETTO_COMPRESSED_SIZE_def SCALAR_SIZE_def)

section \<open>The transaction\<close>

lemma store_version_at [simp]:
  "store_version v (at pre rest c) = Inr ((), at pre rest (context_store v c))"
  by (simp add: store_version_def)

lemma tx_env_store: "libs_laws L v \<Longrightarrow> tx_env L v (context_store v c)"
  by (simp add: tx_env_def context_store_def)

lemma read_transaction_write:
  fixes L :: "('p, 's, 'r, 'o, 't) libs" and tx :: "('s, 'r, 'o) transaction"
  assumes L: "libs_laws L (tx_version tx)" and tx: "transaction_ok L tx"
  shows "read_transaction L (at pre (write_transaction L tx @ post) c) =
    Inr (tx, at (pre @ write_transaction L tx) post (context_store (tx_version tx) c))"
proof -
  let ?c = "context_store (tx_version tx) c"
  have env: "tx_env L (tx_version tx) ?c" using L by (rule tx_env_store)
  note cv = tx_envD(1) [OF env]
  have n: "0 < length (tx_source_commitments tx)" "length (tx_source_commitments tx) \<le> 255"
    using tx by (auto simp: transaction_ok_def MAX_TRANSFER_COUNT_def)
  then have n0: "(of_nat (length (tx_source_commitments tx)) :: u8) \<noteq> 0"
    by (simp add: unat_eq_0 [symmetric] unat_of_nat del: unat_eq_0)
  have rp: "\<forall>bs p. rp_from_bytes L bs = Some p \<longrightarrow> rp_to_bytes L p = bs"
    using L by (simp add: libs_laws_def)
  show ?thesis
    using tx env cv n n0 rp
    by (cases "tx_version tx = TxV0")
       (simp_all add: read_transaction_def read_transaction_fields_def write_transaction_def Let_def
        transaction_ok_def
        MAX_TRANSFER_COUNT_def word_less_nat_alt tx_version_codec.read_write point_codec.read_write
        transaction_type_in.read_write_in [where v = "tx_version tx"]
        source_commitment_in.read_n_write_in range_proof_in.read_write_in
        reference_codec.read_write codec_in.read_write_in [OF multisig_in.option_in]
        signature_in.read_write_in del: write_tx_version.simps)
qed

lemma yields_transaction_fields:
  fixes L :: "('p, 's, 'r, 'o, 't) libs"
  assumes env: "tx_env L v c"
  shows "yields c (read_transaction_fields L v) (\<lambda>tx. tx_version tx = v \<and> transaction_ok L tx)"
proof -
  note cv = tx_envD(1) [OF env]
  have rp: "\<forall>bs p. rp_from_bytes L bs = Some p \<longrightarrow> rp_to_bytes L p = bs"
    using env by (simp add: tx_env_def libs_laws_def)
  have le: "unat n \<le> 255" for n :: u8
    using unat_u8_less [of n] by simp
  have "yields c (if v = TxV0 then rreturn None else read_option (read_multisig (lib_curve L)))
      (\<lambda>ms. (v = TxV0 \<longrightarrow> ms = None) \<and> pred_option multisig_ok ms)"
    by (intro yields_intros yields_mono [OF codec_in.yields_in [OF multisig_in.option_in cv]]) auto
  note ms = yields_bind [OF this]
  show ?thesis
    unfolding read_transaction_fields_def Let_def
    by (intro yields_primitives yields_bind [OF transaction_type_in.yields_in [OF env]]
        yields_bind [OF source_commitment_in.read_n_yields_in [OF cv]]
        yields_bind [OF range_proof_in.yields_in [OF rp]]
        yields_bind [OF reference_codec.in_context.yields_in [OF TrueI]]
        yields_bind [OF signature_in.yields_in [OF cv]] ms yields_return yields_fail yields_if)
       (auto simp: transaction_ok_def MAX_TRANSFER_COUNT_def le unat_eq_0)
qed

lemma read_transaction_sound:
  assumes L: "\<And>v. libs_laws L v" and "read_transaction L (at pre rest c) = Inr (tx, r')"
  shows "transaction_ok L tx"
proof -
  obtain v post where
    "read_transaction_fields L v (at (pre @ write_tx_version v) post (context_store v c)) = Inr (tx, r')"
    using assms(2) by (auto simp: read_transaction_def rbind_eq_Inr tx_version_codec.read_at_iff)
  with yields_transaction_fields [OF tx_env_store [OF L]] show ?thesis by (rule yieldsD) simp
qed

lemma size_transaction_write:
  assumes L: "libs_laws L (tx_version tx)" and tx: "transaction_ok L tx"
  shows "size_transaction L tx =
    length (write_transaction L tx) + (if deletes_multisig (tx_data tx) then 1 else 0)"
proof -
  have env: "tx_env L (tx_version tx) (context_store (tx_version tx) context_default)"
    using L by (rule tx_env_store)
  note cv = tx_envD(1) [OF env]
  have "size_option size_multisig (tx_multisig tx) =
      length (write_option (write_multisig (lib_curve L)) (tx_multisig tx))"
    by (cases "tx_multisig tx") (simp_all add: size_option_def write_option_def size_multisig_write [OF cv])
  then show ?thesis
    using tx size_transaction_type_write [OF env] size_source_commitments_write [OF cv]
    by (auto simp: size_transaction_def write_transaction_def Let_def transaction_ok_def
        reference_codec.size_write size_range_proof_def write_range_proof_def
        length_write_signature [OF cv] tx_version_codec.size_write [OF TrueI, symmetric]
        size_tx_version_def)
qed

lemma transaction_bytes_round_trip:
  assumes "libs_laws L (tx_version tx)" "transaction_ok L tx"
  shows "from_bytes (read_transaction L) (to_bytes (write_transaction L) tx) = Inr tx"
  using read_transaction_write [OF assms, of "[]" "[]" context_default]
  by (simp add: from_bytes_def to_bytes_def write_bytes_def writer_new_def reader_new_at)

text \<open>A concrete library and transaction.\<close>

definition sample_libs :: "(bool, bool, u8 list, hash, nat) libs" where
  "sample_libs = \<lparr>lib_curve = two_curve, lib_vm = hash_vm, rp_to_bytes = (\<lambda>bs. bs), rp_from_bytes = Some\<rparr>"

lemma sample_libs_laws: "libs_laws sample_libs v"
  by (simp add: libs_laws_def sample_libs_def two_curve_codec_laws hash_vm_laws)

definition sample_point :: compressed_point where "sample_point = replicate 32 0"

definition sample_tx :: "(bool, u8 list, hash) transaction" where
  "sample_tx = \<lparr>tx_version = TxV1, tx_source = sample_point,
     tx_data = Transfers [\<lparr>tr_asset = hash_zero, tr_destination = sample_point,
       tr_extra_data = Some [1, 2, 3], tr_commitment = sample_point, tr_sender_handle = sample_point,
       tr_receiver_handle = sample_point,
       tr_ct_validity_proof = \<lparr>vp_Y_0 = sample_point, vp_Y_1 = sample_point,
         vp_Y_2 = Some sample_point, vp_z_r = True, vp_z_x = False\<rparr>\<rparr>],
     tx_fee = 1000, tx_nonce = 7,
     tx_source_commitments = [\<lparr>sc_commitment = sample_point,
       sc_proof = \<lparr>eq_Y_0 = sample_point, eq_Y_1 = sample_point, eq_Y_2 = sample_point,
         eq_z_s = True, eq_z_x = False, eq_z_r = True\<rparr>, sc_asset = hash_zero\<rparr>],
     tx_range_proof = replicate 288 0,
     tx_reference = \<lparr>ref_hash = hash_zero, ref_topoheight = 5\<rparr>,
     tx_multisig = Some [\<lparr>sid_id = 3, sid_signature = \<lparr>sig_s = True, sig_e = True\<rparr>\<rparr>],
     tx_signature = \<lparr>sig_s = True, sig_e = False\<rparr>\<rparr>"

lemma sample_tx_ok: "transaction_ok sample_libs sample_tx"
  by (simp add: transaction_ok_def sample_tx_def sample_libs_def sample_point_def point_ok_def
      RISTRETTO_COMPRESSED_SIZE_def MAX_TRANSFER_COUNT_def transfer_payload_ok_def
      validity_proof_ok_def source_commitment_ok_def eq_proof_ok_def range_proof_ok_def
      range_proof_sizes multisig_ok_def hash_ok_def hash_zero_def vec_ok_def DEFAULT_MAX_ITEMS_def)

text \<open>
  C13: a well-formed transaction of any kind and version survives serialization: reading the bytes
  that it writes gives it back, with its proofs read in the format of the version that its first
  byte announces. Its announced size is the number of bytes written, except for the payload that
  deletes a multisig, which announces one byte more than it writes.
\<close>

theorem transaction_round_trip:
  assumes "libs_laws L (tx_version tx)" "transaction_ok L tx"
  shows "from_bytes (read_transaction L) (to_bytes (write_transaction L) tx) = Inr tx \<and>
    size_transaction L tx = length (to_bytes (write_transaction L) tx) +
      (case tx_data tx of MultiSig p \<Rightarrow> if threshold p = 0 then 1 else 0 | _ \<Rightarrow> 0)"
  using transaction_bytes_round_trip [OF assms] size_transaction_write [OF assms]
  by (auto simp: to_bytes_def write_bytes_def writer_new_def deletes_multisig_def
      split: transaction_type.splits)

theorem transaction_round_trip_witness:
  "from_bytes (read_transaction sample_libs) (to_bytes (write_transaction sample_libs) sample_tx) =
     Inr sample_tx"
  using transaction_round_trip [OF sample_libs_laws sample_tx_ok] by blast

text \<open>
  C14: the reader of transactions accepts well-formed transactions only (between 1 and 255 transfers
  and source commitments, one signature per signer, a multisig only from version 1 on, the extra
  point of a validity proof exactly from version 1 on, no asset deposited twice), so whatever bytes
  a peer sends, the transaction that is read from them survives being stored and sent again.
\<close>

theorem transaction_reader_sound:
  assumes "\<forall>v. libs_laws L v" "from_bytes (read_transaction L) bs = Inr tx"
  shows "transaction_ok L tx \<and>
    from_bytes (read_transaction L) (to_bytes (write_transaction L) tx) = Inr tx"
proof -
  obtain r' where "read_transaction L (at [] bs context_default) = Inr (tx, r')"
    using assms(2) by (auto simp: from_bytes_def reader_new_at result_bind_eq_Inr)
  then have ok: "transaction_ok L tx" using assms(1) read_transaction_sound by blast
  then show ?thesis using assms(1) by (simp add: transaction_bytes_round_trip)
qed

theorem transaction_reader_sound_witness:
  "transaction_ok sample_libs sample_tx \<and>
     from_bytes (read_transaction sample_libs) (to_bytes (write_transaction sample_libs) sample_tx) =
       Inr sample_tx"
  by (rule transaction_reader_sound [OF _ transaction_bytes_round_trip])
     (simp_all add: sample_libs_laws sample_tx_ok)

end
