(* ===== verification/Sigma_Proofs.thy ===== *)
theory Sigma_Proofs
  imports Transaction
begin

text \<open>
  The proofs a transaction carries and how they are verified (\<open>crypto/transcript.rs\<close>,
  \<open>crypto/proofs/mod.rs\<close>, \<open>commitment_eq.rs\<close>, \<open>ciphertext_validity.rs\<close>, \<open>balance.rs\<close>,
  \<open>ownership.rs\<close>).

  A transcript of the \<open>merlin\<close> package is the list of what was done with it; the bytes of a
  challenge are a function of this list, a parameter (record \<open>merlin\<close>) together with the reduction
  of 64 bytes to a scalar. Scalars that the sources draw at random are arguments. Clearing a secret
  after its use has no counterpart.
\<close>

section \<open>Transcripts\<close>

datatype transcript_op =
  NewTranscript string
| AppendMessage string "u8 list"
| AppendU64 string u64
| ChallengeBytes string nat

type_synonym transcript = "transcript_op list"

record 's merlin =
  challenge_bytes :: "transcript \<Rightarrow> string \<Rightarrow> nat \<Rightarrow> u8 list"
  from_bytes_mod_order_wide :: "u8 list \<Rightarrow> 's"

datatype transcript_error = IdentityPoint

definition transcript_new :: "string \<Rightarrow> transcript" where
  "transcript_new label = [NewTranscript label]"

definition append_message :: "string \<Rightarrow> u8 list \<Rightarrow> transcript \<Rightarrow> transcript" where
  "append_message label bs t = t @ [AppendMessage label bs]"

definition append_u64 :: "string \<Rightarrow> u64 \<Rightarrow> transcript \<Rightarrow> transcript" where
  "append_u64 label n t = t @ [AppendU64 label n]"

definition ascii :: "string \<Rightarrow> u8 list" where
  "ascii s = map (\<lambda>c. of_nat (of_char c)) s"

definition append_point :: "string \<Rightarrow> compressed_point \<Rightarrow> transcript \<Rightarrow> transcript" where
  "append_point label p t = append_message label p t"

definition append_public_key :: "string \<Rightarrow> compressed_public_key \<Rightarrow> transcript \<Rightarrow> transcript" where
  "append_public_key label p t = append_message label p t"

definition append_commitment :: "string \<Rightarrow> compressed_point \<Rightarrow> transcript \<Rightarrow> transcript" where
  "append_commitment label p t = append_message label p t"

definition append_handle :: "string \<Rightarrow> compressed_point \<Rightarrow> transcript \<Rightarrow> transcript" where
  "append_handle label p t = append_message label p t"

definition append_hash :: "string \<Rightarrow> hash \<Rightarrow> transcript \<Rightarrow> transcript" where
  "append_hash label h t = append_message label h t"

definition append_ciphertext :: "string \<Rightarrow> compressed_ciphertext \<Rightarrow> transcript \<Rightarrow> transcript" where
  "append_ciphertext label ct t = append_message label (to_bytes write_compressed_ciphertext ct) t"

definition append_scalar :: "('p, 's) curve \<Rightarrow> string \<Rightarrow> 's \<Rightarrow> transcript \<Rightarrow> transcript" where
  "append_scalar cv label x t = append_message label (s_bytes cv x) t"

definition challenge_scalar :: "'s merlin \<Rightarrow> string \<Rightarrow> transcript \<Rightarrow> 's \<times> transcript" where
  "challenge_scalar M label t =
     (from_bytes_mod_order_wide M (challenge_bytes M t label 64), t @ [ChallengeBytes label 64])"

definition is_identity :: "compressed_point \<Rightarrow> bool" where
  "is_identity p \<longleftrightarrow> p = replicate 32 0"

definition validate_and_append_point ::
  "string \<Rightarrow> compressed_point \<Rightarrow> transcript \<Rightarrow> transcript_error + transcript" where
  "validate_and_append_point label p t =
     (if is_identity p then Inl IdentityPoint else Inr (append_message label p t))"

definition new_commitment_eq_proof_domain_separator :: "transcript \<Rightarrow> transcript" where
  "new_commitment_eq_proof_domain_separator = append_message ''dom-sep'' (ascii ''new-commitment-proof'')"

definition transfer_proof_domain_separator :: "transcript \<Rightarrow> transcript" where
  "transfer_proof_domain_separator = append_message ''dom-sep'' (ascii ''transfer-proof'')"

definition deposit_proof_domain_separator :: "transcript \<Rightarrow> transcript" where
  "deposit_proof_domain_separator = append_message ''dom-sep'' (ascii ''deposit-proof'')"

definition burn_proof_domain_separator :: "transcript \<Rightarrow> transcript" where
  "burn_proof_domain_separator = append_message ''dom-sep'' (ascii ''burn-proof'')"

definition multisig_proof_domain_separator :: "transcript \<Rightarrow> transcript" where
  "multisig_proof_domain_separator = append_message ''dom-sep'' (ascii ''multisig-proof'')"

definition invoke_contract_proof_domain_separator :: "transcript \<Rightarrow> transcript" where
  "invoke_contract_proof_domain_separator = append_message ''dom-sep'' (ascii ''invoke-contract-proof'')"

definition deploy_contract_proof_domain_separator :: "transcript \<Rightarrow> transcript" where
  "deploy_contract_proof_domain_separator = append_message ''dom-sep'' (ascii ''deploy-contract-proof'')"

definition invoke_constructor_proof_domain_separator :: "transcript \<Rightarrow> transcript" where
  "invoke_constructor_proof_domain_separator =
     append_message ''dom-sep'' (ascii ''invoke-constructor-proof'')"

definition equality_proof_domain_separator :: "transcript \<Rightarrow> transcript" where
  "equality_proof_domain_separator = append_message ''dom-sep'' (ascii ''equality-proof'')"

definition ciphertext_validity_proof_domain_separator :: "transcript \<Rightarrow> transcript" where
  "ciphertext_validity_proof_domain_separator = append_message ''dom-sep'' (ascii ''validity-proof'')"

definition balance_proof_domain_separator :: "transcript \<Rightarrow> transcript" where
  "balance_proof_domain_separator = append_message ''dom-sep'' (ascii ''balance-proof'')"

definition ownership_proof_domain_separator :: "transcript \<Rightarrow> transcript" where
  "ownership_proof_domain_separator = append_message ''dom-sep'' (ascii ''ownership-proof'')"

section \<open>The batch of equations\<close>

definition BULLET_PROOF_SIZE :: nat where "BULLET_PROOF_SIZE = 64"

datatype proof_verification_error =
  Decompression decompression_error
| CommitmentEqProofError
| CiphertextValidityProofError
| GenericProof
| RangeProofError
| TranscriptErr transcript_error
| FormatError
| BatchVerificationError

datatype proof_generation_error =
  GenerationDecompression decompression_error
| InsufficientFunds u64 u64
| GenerationRangeProof
| GenerationFormat

record ('p, 's) batch_collector =
  dynamic_scalars :: "'s list"
  dynamic_points :: "'p list"
  g_scalar :: 's
  h_scalar :: 's

definition batch_default :: "('p, 's) curve \<Rightarrow> ('p, 's) batch_collector" where
  "batch_default cv =
     \<lparr>dynamic_scalars = [], dynamic_points = [], g_scalar = s_zero cv, h_scalar = s_zero cv\<rparr>"

fun p_sum :: "('p, 's) curve \<Rightarrow> ('s \<times> 'p) list \<Rightarrow> 'p" where
  "p_sum cv [] = p_identity cv"
| "p_sum cv ((x, p) # es) = p_add cv (p_mul cv x p) (p_sum cv es)"

text \<open>\<open>vartime_multiscalar_mul\<close> panics when the two lists differ in length; both grow together.\<close>

definition multiscalar_mul :: "('p, 's) curve \<Rightarrow> 's list \<Rightarrow> 'p list \<Rightarrow> 'p option" where
  "multiscalar_mul cv xs ps = (if length xs \<noteq> length ps then None else
     Some (p_sum cv (zip xs ps)))"

definition batch_verify :: "('p, 's) curve \<Rightarrow> ('p, 's) batch_collector \<Rightarrow> bool option" where
  "batch_verify cv b =
     map_option (\<lambda>p. p = p_identity cv)
       (multiscalar_mul cv (dynamic_scalars b @ [g_scalar b] @ [h_scalar b])
          (dynamic_points b @ [gen_B cv] @ [gen_B_blinding cv]))"

definition s_neg :: "('p, 's) curve \<Rightarrow> 's \<Rightarrow> 's" where
  "s_neg cv x = s_sub cv (s_zero cv) x"

section \<open>Equality of a ciphertext and a commitment\<close>

record ('p, 's) keypair =
  kp_public :: 'p
  kp_private :: 's

definition eq_proof_new_with_scalar ::
  "('p, 's) curve \<Rightarrow> 's merlin \<Rightarrow> 's \<times> 's \<times> 's \<Rightarrow> ('p, 's) keypair \<Rightarrow> 'p ciphertext \<Rightarrow> 's \<Rightarrow> 's \<Rightarrow>
   transcript \<Rightarrow> 's commitment_eq_proof \<times> transcript" where
  "eq_proof_new_with_scalar cv M masks kp source_ciphertext opening x t =
     (let t = equality_proof_domain_separator t;
          P_source = kp_public kp; D_source = handle source_ciphertext;
          s = kp_private kp; r = opening;
          (y_s, y_x, y_r) = masks;
          Y_0 = p_compress cv (p_mul cv y_s P_source);
          Y_1 = p_compress cv (p_add cv (p_mul cv y_x (gen_B cv)) (p_mul cv y_s D_source));
          Y_2 = p_compress cv (gens_commit cv y_x y_r);
          t = append_point ''Y_0'' Y_0 t;
          t = append_point ''Y_1'' Y_1 t;
          t = append_point ''Y_2'' Y_2 t;
          (c, t) = challenge_scalar M ''c'' t;
          (_, t) = challenge_scalar M ''w'' t;
          z_s = s_add cv (s_mul cv c s) y_s;
          z_x = s_add cv (s_mul cv c x) y_x;
          z_r = s_add cv (s_mul cv c r) y_r in
      (\<lparr>eq_Y_0 = Y_0, eq_Y_1 = Y_1, eq_Y_2 = Y_2, eq_z_s = z_s, eq_z_x = z_x, eq_z_r = z_r\<rparr>, t))"

definition eq_proof_new ::
  "('p, 's) curve \<Rightarrow> 's merlin \<Rightarrow> 's \<times> 's \<times> 's \<Rightarrow> ('p, 's) keypair \<Rightarrow> 'p ciphertext \<Rightarrow> 's \<Rightarrow> u64 \<Rightarrow>
   transcript \<Rightarrow> 's commitment_eq_proof \<times> transcript" where
  "eq_proof_new cv M masks kp ct opening amount t =
     eq_proof_new_with_scalar cv M masks kp ct opening (s_from cv amount) t"

fun validated_points ::
  "(string \<times> compressed_point) list \<Rightarrow> transcript \<Rightarrow> proof_verification_error + transcript" where
  "validated_points [] t = Inr t"
| "validated_points ((label, p) # ps) t =
     result_bind (map_err TranscriptErr (validate_and_append_point label p t)) (validated_points ps)"

definition decompress_or ::
  "('p, 's) curve \<Rightarrow> proof_verification_error \<Rightarrow> compressed_point \<Rightarrow> proof_verification_error + 'p" where
  "decompress_or cv e p = ok_or (p_decompress cv p) e"

definition batch_extend ::
  "('p, 's) curve \<Rightarrow> ('s \<times> 'p) list \<Rightarrow> 's \<Rightarrow> 's \<Rightarrow> ('p, 's) batch_collector \<Rightarrow> ('p, 's) batch_collector" where
  "batch_extend cv terms g h b =
     b\<lparr>dynamic_scalars := dynamic_scalars b @ map fst terms,
       dynamic_points := dynamic_points b @ map snd terms,
       g_scalar := s_add cv (g_scalar b) g, h_scalar := s_add cv (h_scalar b) h\<rparr>"

definition eq_points :: "'s commitment_eq_proof \<Rightarrow> (string \<times> compressed_point) list" where
  "eq_points pf = [(''Y_0'', eq_Y_0 pf), (''Y_1'', eq_Y_1 pf), (''Y_2'', eq_Y_2 pf)]"

definition eq_proof_pre_verify ::
  "('p, 's) curve \<Rightarrow> 's merlin \<Rightarrow> 's \<Rightarrow> 's commitment_eq_proof \<Rightarrow> 'p \<Rightarrow> 'p ciphertext \<Rightarrow> 'p \<Rightarrow>
   transcript \<Rightarrow> ('p, 's) batch_collector \<Rightarrow>
   proof_verification_error + transcript \<times> ('p, 's) batch_collector" where
  "eq_proof_pre_verify cv M batch_factor pf source_pubkey source_ciphertext destination_commitment t b =
     (let t = equality_proof_domain_separator t;
          P_source = source_pubkey;
          C_source = commitment source_ciphertext; D_source = handle source_ciphertext;
          C_destination = destination_commitment in
      result_bind (validated_points (eq_points pf) t) (\<lambda>t.
      (let (c, t) = challenge_scalar M ''c'' t;
           (w, t) = challenge_scalar M ''w'' t;
           ww = s_mul cv w w;
           w_negated = s_neg cv w; ww_negated = s_neg cv ww in
       result_bind (decompress_or cv CommitmentEqProofError (eq_Y_0 pf)) (\<lambda>Y_0.
       result_bind (decompress_or cv CommitmentEqProofError (eq_Y_1 pf)) (\<lambda>Y_1.
       result_bind (decompress_or cv CommitmentEqProofError (eq_Y_2 pf)) (\<lambda>Y_2.
       Inr (t, batch_extend cv
         [(s_mul cv (eq_z_s pf) batch_factor, P_source),
          (s_mul cv (s_neg cv (s_one cv)) batch_factor, Y_0),
          (s_mul cv (s_mul cv w (eq_z_s pf)) batch_factor, D_source),
          (s_mul cv (s_mul cv w_negated c) batch_factor, C_source),
          (s_mul cv w_negated batch_factor, Y_1),
          (s_mul cv (s_mul cv ww_negated c) batch_factor, C_destination),
          (s_mul cv ww_negated batch_factor, Y_2)]
         (s_mul cv (s_add cv (s_mul cv w (eq_z_x pf)) (s_mul cv ww (eq_z_x pf))) batch_factor)
         (s_mul cv (s_add cv (s_neg cv c) (s_mul cv ww (eq_z_r pf))) batch_factor) b)))))))"

section \<open>Validity of a ciphertext\<close>

definition validity_proof_new ::
  "('p, 's) curve \<Rightarrow> 's merlin \<Rightarrow> 's \<times> 's \<Rightarrow> 'p \<Rightarrow> 'p option \<Rightarrow> u64 \<Rightarrow> 's \<Rightarrow> transcript \<Rightarrow>
   's ciphertext_validity_proof \<times> transcript" where
  "validity_proof_new cv M masks destination_pubkey source_pubkey amount opening t =
     (let t = ciphertext_validity_proof_domain_separator t;
          P_dest = destination_pubkey;
          x = s_from cv amount; r = opening;
          (y_r, y_x) = masks;
          Y_0 = p_compress cv (gens_commit cv y_x y_r);
          Y_1 = p_compress cv (p_mul cv y_r P_dest);
          Y_2 = map_option (\<lambda>P_source. p_compress cv (p_mul cv y_r P_source)) source_pubkey;
          t = append_point ''Y_0'' Y_0 t;
          t = append_point ''Y_1'' Y_1 t;
          t = (case Y_2 of None \<Rightarrow> t | Some Y \<Rightarrow> append_point ''Y_2'' Y t);
          (c, t) = challenge_scalar M ''c'' t;
          (_, t) = challenge_scalar M ''w'' t;
          z_r = s_add cv (s_mul cv c r) y_r;
          z_x = s_add cv (s_mul cv c x) y_x in
      (\<lparr>vp_Y_0 = Y_0, vp_Y_1 = Y_1, vp_Y_2 = Y_2, vp_z_r = z_r, vp_z_x = z_x\<rparr>, t))"

definition validity_points :: "'s ciphertext_validity_proof \<Rightarrow> bool \<Rightarrow> (string \<times> compressed_point) list" where
  "validity_points pf check_y_2 = [(''Y_0'', vp_Y_0 pf), (''Y_1'', vp_Y_1 pf)] @
     (case vp_Y_2 pf of Some Y \<Rightarrow> if check_y_2 then [(''Y_2'', Y)] else [] | None \<Rightarrow> [])"

definition validity_proof_pre_verify ::
  "('p, 's) curve \<Rightarrow> 's merlin \<Rightarrow> 's \<Rightarrow> 's ciphertext_validity_proof \<Rightarrow> 'p \<Rightarrow> 'p \<Rightarrow> 'p \<Rightarrow> 'p \<Rightarrow> 'p \<Rightarrow> bool \<Rightarrow>
   transcript \<Rightarrow> ('p, 's) batch_collector \<Rightarrow>
   proof_verification_error + transcript \<times> ('p, 's) batch_collector" where
  "validity_proof_pre_verify cv M batch_factor pf C P_dest P_source D_dest D_source check_y_2 t b =
     (let t = ciphertext_validity_proof_domain_separator t in
      result_bind (validated_points (validity_points pf check_y_2) t) (\<lambda>t.
      (let (c, t) = challenge_scalar M ''c'' t;
           (w, t) = challenge_scalar M ''w'' t;
           w_negated = s_neg cv w in
       result_bind (decompress_or cv CiphertextValidityProofError (vp_Y_0 pf)) (\<lambda>Y_0.
       result_bind (decompress_or cv CiphertextValidityProofError (vp_Y_1 pf)) (\<lambda>Y_1.
       result_bind (case vp_Y_2 pf of None \<Rightarrow> Inr None | Some Y \<Rightarrow>
         result_bind (decompress_or cv CiphertextValidityProofError Y) (\<lambda>Y. Inr (Some Y))) (\<lambda>Y_2.
       if (Y_2 \<noteq> None) \<noteq> check_y_2 then Inl CiphertextValidityProofError else
       (let w_z_r = s_mul cv w (vp_z_r pf);
            w_negated_c = s_mul cv w_negated c;
            b = batch_extend cv
              [(s_mul cv (s_neg cv c) batch_factor, C),
               (s_mul cv (s_neg cv (s_one cv)) batch_factor, Y_0),
               (s_mul cv w_z_r batch_factor, P_dest),
               (s_mul cv w_negated_c batch_factor, D_dest),
               (s_mul cv w_negated batch_factor, Y_1)]
              (s_mul cv (vp_z_x pf) batch_factor) (s_mul cv (vp_z_r pf) batch_factor) b;
            b = (case Y_2 of None \<Rightarrow> b | Some Y_2 \<Rightarrow>
              b\<lparr>dynamic_scalars := dynamic_scalars b @
                  [s_mul cv w w_z_r, s_mul cv w w_negated_c, s_mul cv w w_negated],
                dynamic_points := dynamic_points b @ [P_source, D_source, Y_2]\<rparr>) in
        Inr (t, b))))))))"

section \<open>Balance and ownership proofs\<close>

definition PROOF_OPENING :: "('p, 's) curve \<Rightarrow> 's" where "PROOF_OPENING cv = s_one cv"

record 's balance_proof =
  bal_amount :: u64
  bal_eq_proof :: "'s commitment_eq_proof"

definition balance_proof_prove ::
  "('p, 's) curve \<Rightarrow> 's merlin \<Rightarrow> 's \<times> 's \<times> 's \<Rightarrow> ('p, 's) keypair \<Rightarrow> u64 \<Rightarrow> 'p ciphertext \<Rightarrow>
   transcript \<Rightarrow> 's balance_proof \<times> transcript" where
  "balance_proof_prove cv M masks kp amount ct t =
     (let t = balance_proof_domain_separator t;
          t = append_u64 ''amount'' amount t;
          t = append_ciphertext ''source_ct'' (ciphertext_compress cv ct) t;
          spent = encrypt_with_opening cv (kp_public kp) (s_from cv amount) (PROOF_OPENING cv);
          zeroed_balance = ciphertext_sub cv ct spent;
          (pf, t) = eq_proof_new cv M masks kp zeroed_balance (PROOF_OPENING cv) 0 t in
      (\<lparr>bal_amount = amount, bal_eq_proof = pf\<rparr>, t))"

definition balance_proof_new ::
  "('p, 's) curve \<Rightarrow> 's merlin \<Rightarrow> 's \<times> 's \<times> 's \<Rightarrow> ('p, 's) keypair \<Rightarrow> u64 \<Rightarrow> 'p ciphertext \<Rightarrow>
   's balance_proof" where
  "balance_proof_new cv M masks kp amount ct =
     fst (balance_proof_prove cv M masks kp amount ct (transcript_new ''balance_proof''))"

definition balance_proof_pre_verify ::
  "('p, 's) curve \<Rightarrow> 's merlin \<Rightarrow> 's \<Rightarrow> 's balance_proof \<Rightarrow> 'p \<Rightarrow> 'p ciphertext \<Rightarrow> transcript \<Rightarrow>
   ('p, 's) batch_collector \<Rightarrow> proof_verification_error + transcript \<times> ('p, 's) batch_collector" where
  "balance_proof_pre_verify cv M bf pf public_key ct t b =
     (let t = balance_proof_domain_separator t;
          t = append_u64 ''amount'' (bal_amount pf) t;
          t = append_ciphertext ''source_ct'' (ciphertext_compress cv ct) t;
          destination_commitment = commitment_new_with_opening cv (s_zero cv) (PROOF_OPENING cv);
          spent = encrypt_with_opening cv public_key (s_from cv (bal_amount pf)) (PROOF_OPENING cv);
          zeroed_balance = ciphertext_sub cv ct spent in
      eq_proof_pre_verify cv M bf (bal_eq_proof pf) public_key zeroed_balance destination_commitment t b)"

text \<open>The verdict of \<open>batch_collector.verify()\<close>; the outer \<open>None\<close> is its panic.\<close>

definition batch_check ::
  "('p, 's) curve \<Rightarrow> ('p, 's) batch_collector \<Rightarrow> (proof_verification_error + unit) option" where
  "batch_check cv b =
     map_option (\<lambda>ok. if ok then Inr () else Inl BatchVerificationError) (batch_verify cv b)"

definition balance_proof_verify ::
  "('p, 's) curve \<Rightarrow> 's merlin \<Rightarrow> 's \<Rightarrow> 's balance_proof \<Rightarrow> 'p \<Rightarrow> 'p ciphertext \<Rightarrow>
   (proof_verification_error + unit) option" where
  "balance_proof_verify cv M bf pf public_key ct =
     (case balance_proof_pre_verify cv M bf pf public_key ct (transcript_new ''balance_proof'')
             (batch_default cv) of
        Inl e \<Rightarrow> Some (Inl e)
      | Inr (t, b) \<Rightarrow> batch_check cv b)"

definition write_balance_proof :: "('p, 's) curve \<Rightarrow> 's balance_proof \<Rightarrow> u8 list" where
  "write_balance_proof cv p =
     write_u64 (bal_amount p) @ write_commitment_eq_proof cv (bal_eq_proof p)"

definition read_balance_proof :: "('p, 's) curve \<Rightarrow> 's balance_proof parser" where
  "read_balance_proof cv = rbind read_u64 (\<lambda>a. rbind (read_commitment_eq_proof cv) (\<lambda>p.
     rreturn \<lparr>bal_amount = a, bal_eq_proof = p\<rparr>))"

definition size_balance_proof :: "'s balance_proof \<Rightarrow> nat" where
  "size_balance_proof p = size_u64 (bal_amount p) + size_commitment_eq_proof (bal_eq_proof p)"

text \<open>
  The functions of the \<open>bulletproofs\<close> package that the sources call. A proof over commitments
  carries the point and its compressed form; the transcript goes in and comes out.
\<close>

record ('p, 's, 'r) bulletproofs =
  prove_single :: "transcript \<Rightarrow> u64 \<Rightarrow> 's \<Rightarrow> nat \<Rightarrow> (('r \<times> compressed_point) \<times> transcript) option"
  verify_single :: "'r \<Rightarrow> transcript \<Rightarrow> 'p \<times> compressed_point \<Rightarrow> nat \<Rightarrow> transcript option"
  verify_multiple :: "'r \<Rightarrow> transcript \<Rightarrow> ('p \<times> compressed_point) list \<Rightarrow> nat \<Rightarrow> bool"
  range_verify_batch :: "('r \<times> transcript \<times> ('p \<times> compressed_point) list \<times> nat) list \<Rightarrow> bool"

text \<open>A range proof made for an amount and an opening verifies against the commitment to them.\<close>

definition single_proof_laws :: "('p, 's) curve \<Rightarrow> ('p, 's, 'r) bulletproofs \<Rightarrow> bool" where
  "single_proof_laws cv R \<longleftrightarrow> (\<forall>t v r n p com t'. prove_single R t v r n = Some ((p, com), t') \<longrightarrow>
     com = p_compress cv (gens_commit cv (s_from cv v) r) \<and>
     verify_single R p t (gens_commit cv (s_from cv v) r, com) n = Some t')"

record ('s, 'r) ownership_proof =
  own_amount :: u64
  own_commitment :: compressed_point
  own_eq_proof :: "'s commitment_eq_proof"
  own_range_proof :: 'r

text \<open>\<open>assert_eq\<close> on the two commitments is the panic \<open>None\<close>.\<close>

definition ownership_proof_prove ::
  "('p, 's) curve \<Rightarrow> 's merlin \<Rightarrow> ('p, 's, 'r) bulletproofs \<Rightarrow> 's \<times> 's \<times> 's \<Rightarrow> 's \<Rightarrow> ('p, 's) keypair \<Rightarrow>
   u64 \<Rightarrow> u64 \<Rightarrow> 'p ciphertext \<Rightarrow> transcript \<Rightarrow>
   (proof_generation_error + ('s, 'r) ownership_proof \<times> transcript) option" where
  "ownership_proof_prove cv M R masks opening kp balance amount ct t =
     (if amount = 0 then Some (Inl GenerationFormat)
      else if balance < amount then Some (Inl (InsufficientFunds amount balance)) else
      (let left = balance - amount;
           left_commitment = p_compress cv (commitment_new_with_opening cv (s_from cv left) opening);
           t = ownership_proof_domain_separator t;
           t = append_u64 ''amount'' amount t;
           t = append_commitment ''commitment'' left_commitment t;
           t = append_ciphertext ''source_ct'' (ciphertext_compress cv ct) t;
           spent = encrypt_with_opening cv (kp_public kp) (s_from cv amount) (PROOF_OPENING cv);
           ct_left = ciphertext_sub cv ct spent;
           (pf, t) = eq_proof_new cv M masks kp ct_left opening left t in
       (case prove_single R t left opening BULLET_PROOF_SIZE of
          None \<Rightarrow> Some (Inl GenerationRangeProof)
        | Some ((rp, range_commitment), t) \<Rightarrow>
            if range_commitment \<noteq> left_commitment then None
            else Some (Inr (\<lparr>own_amount = amount, own_commitment = left_commitment,
              own_eq_proof = pf, own_range_proof = rp\<rparr>, t)))))"

definition ownership_proof_pre_verify ::
  "('p, 's) curve \<Rightarrow> 's merlin \<Rightarrow> ('p, 's, 'r) bulletproofs \<Rightarrow> 's \<Rightarrow> ('s, 'r) ownership_proof \<Rightarrow> 'p \<Rightarrow>
   'p ciphertext \<Rightarrow> transcript \<Rightarrow> ('p, 's) batch_collector \<Rightarrow>
   proof_verification_error + transcript \<times> ('p, 's) batch_collector" where
  "ownership_proof_pre_verify cv M R bf pf public_key ct t b =
     (if own_amount pf = 0 then Inl FormatError else
      (let t = ownership_proof_domain_separator t;
           t = append_u64 ''amount'' (own_amount pf) t;
           t = append_commitment ''commitment'' (own_commitment pf) t;
           t = append_ciphertext ''source_ct'' (ciphertext_compress cv ct) t in
       result_bind (map_err Decompression (point_decompress cv (own_commitment pf))) (\<lambda>com.
       (let spent = encrypt_with_opening cv public_key (s_from cv (own_amount pf)) (PROOF_OPENING cv);
            balance_left = ciphertext_sub cv ct spent in
        result_bind (eq_proof_pre_verify cv M bf (own_eq_proof pf) public_key balance_left com t b)
          (\<lambda>(t, b). (case verify_single R (own_range_proof pf) t (com, own_commitment pf) BULLET_PROOF_SIZE of
             None \<Rightarrow> Inl RangeProofError | Some t \<Rightarrow> Inr (t, b)))))))"

definition ownership_proof_verify ::
  "('p, 's) curve \<Rightarrow> 's merlin \<Rightarrow> ('p, 's, 'r) bulletproofs \<Rightarrow> 's \<Rightarrow> ('s, 'r) ownership_proof \<Rightarrow> 'p \<Rightarrow>
   'p ciphertext \<Rightarrow> (proof_verification_error + unit) option" where
  "ownership_proof_verify cv M R bf pf public_key ct =
     (case ownership_proof_pre_verify cv M R bf pf public_key ct (transcript_new ''ownership_proof'')
             (batch_default cv) of
        Inl e \<Rightarrow> Some (Inl e)
      | Inr (t, b) \<Rightarrow> batch_check cv b)"

definition write_ownership_proof ::
  "('p, 's, 'r, 'o, 't) libs \<Rightarrow> ('s, 'r) ownership_proof \<Rightarrow> u8 list" where
  "write_ownership_proof L p =
     write_u64 (own_amount p) @ write_point (own_commitment p) @
     write_commitment_eq_proof (lib_curve L) (own_eq_proof p) @ write_range_proof L (own_range_proof p)"

definition read_ownership_proof ::
  "('p, 's, 'r, 'o, 't) libs \<Rightarrow> ('s, 'r) ownership_proof parser" where
  "read_ownership_proof L = rbind read_u64 (\<lambda>a. rbind read_point (\<lambda>com.
     rbind (read_commitment_eq_proof (lib_curve L)) (\<lambda>p. rbind (read_range_proof L) (\<lambda>rp.
     rreturn \<lparr>own_amount = a, own_commitment = com, own_eq_proof = p, own_range_proof = rp\<rparr>))))"

definition size_ownership_proof ::
  "('p, 's, 'r, 'o, 't) libs \<Rightarrow> ('s, 'r) ownership_proof \<Rightarrow> nat" where
  "size_ownership_proof L p = size_u64 (own_amount p) + size_point (own_commitment p) +
     size_commitment_eq_proof (own_eq_proof p) + size_range_proof L (own_range_proof p)"

section \<open>Algebra of the batch\<close>

text \<open>
  Negation of a point, and the rules that bring a sum of multiples to a normal form: products over
  sums are distributed, negations moved outside, factors and summands ordered.
\<close>

definition p_neg :: "('p, 's) curve \<Rightarrow> 'p \<Rightarrow> 'p" where
  "p_neg cv a = p_sub cv (p_identity cv) a"

definition batch_value :: "('p, 's) curve \<Rightarrow> ('p, 's) batch_collector \<Rightarrow> 'p" where
  "batch_value cv b = p_add cv (p_sum cv (zip (dynamic_scalars b) (dynamic_points b)))
     (p_add cv (p_mul cv (g_scalar b) (gen_B cv)) (p_mul cv (h_scalar b) (gen_B_blinding cv)))"

definition batch_ok :: "('p, 's) batch_collector \<Rightarrow> bool" where
  "batch_ok b \<longleftrightarrow> length (dynamic_scalars b) = length (dynamic_points b)"

lemma p_identity_left: "curve_laws cv \<Longrightarrow> p_add cv (p_identity cv) a = a"
  by (metis curve_rules(2,3))

lemma p_sub_self: "curve_laws cv \<Longrightarrow> p_sub cv a a = p_identity cv"
  by (simp add: p_sub_eq_iff p_identity_left)

lemma p_sub_neg: "curve_laws cv \<Longrightarrow> p_sub cv a b = p_add cv a (p_neg cv b)"
  by (simp add: p_neg_def p_sub_eq_iff curve_rules(1,4) curve_rules(3))

lemma p_mul_identity: "curve_laws cv \<Longrightarrow> p_mul cv x (p_identity cv) = p_identity cv"
  by (metis curve_rules(3,5) p_add_cancel curve_rules(2))

lemma p_mul_zero:
  assumes cv: "curve_laws cv"
  shows "p_mul cv (s_zero cv) a = p_identity cv"
proof -
  fix x
  have diff: "p_mul cv (s_sub cv x x) b = p_identity cv" for b
    by (simp add: curve_rules(7) [OF cv] p_sub_self [OF cv])
  show ?thesis
  proof (cases "s_sub cv x x = s_zero cv")
    case True
    then show ?thesis using diff [of a] by simp
  next
    case False
    then have "b = p_identity cv" for b
      using diff curve_rules(8,9,10,11) [OF cv] p_mul_identity [OF cv] by metis
    then show ?thesis by metis
  qed
qed

lemma p_neg_distrib:
  assumes cv: "curve_laws cv"
  shows "p_neg cv (p_add cv a b) = p_add cv (p_neg cv a) (p_neg cv b)"
    and "p_mul cv x (p_neg cv a) = p_neg cv (p_mul cv x a)"
    and "p_mul cv (s_neg cv x) a = p_neg cv (p_mul cv x a)"
    and "p_neg cv (p_identity cv) = p_identity cv"
  using p_sub_add_distrib [OF cv, of "p_identity cv" "p_identity cv" a b]
  by (simp_all add: p_neg_def s_neg_def curve_rules(7) [OF cv] p_mul_sub [OF cv] p_mul_identity [OF cv]
      p_mul_zero [OF cv] curve_rules(3) [OF cv] p_sub_self [OF cv])

lemma p_mul_commute: "curve_laws cv \<Longrightarrow> p_mul cv x (p_mul cv y a) = p_mul cv y (p_mul cv x a)"
  by (metis curve_rules(8,10))

lemmas p_normal = curve_rules(3,5,6,8,9) p_neg_distrib p_identity_left p_sub_neg p_mul_identity

lemma p_sum_append: "curve_laws cv \<Longrightarrow> p_sum cv (es @ fs) = p_add cv (p_sum cv es) (p_sum cv fs)"
  by (induction cv es rule: p_sum.induct) (simp_all add: p_identity_left curve_rules(1))

lemma batch_verify_value:
  assumes cv: "curve_laws cv" and b: "batch_ok b"
  shows "batch_verify cv b = Some (batch_value cv b = p_identity cv)"
  using b by (simp add: batch_verify_def multiscalar_mul_def batch_ok_def batch_value_def
      p_sum_append [OF cv] curve_rules(3) [OF cv])

lemma batch_default_value: "curve_laws cv \<Longrightarrow> batch_value cv (batch_default cv) = p_identity cv"
  by (simp add: batch_value_def batch_default_def p_mul_zero curve_rules(3))

lemma batch_ok_simps [simp]: "batch_ok (batch_default cv)" "batch_ok (batch_extend cv es g h b) = batch_ok b"
  by (simp_all add: batch_ok_def batch_default_def batch_extend_def)

lemma batch_extend_value:
  assumes cv: "curve_laws cv" and b: "batch_ok b"
  shows "batch_value cv (batch_extend cv es g h b) =
    p_add cv (batch_value cv b) (p_add cv (p_sum cv es)
      (p_add cv (p_mul cv g (gen_B cv)) (p_mul cv h (gen_B_blinding cv))))"
proof -
  have "zip (map fst es) (map snd es) = es" by (induction es) auto
  then show ?thesis
    using b by (simp add: batch_value_def batch_extend_def batch_ok_def p_sum_append [OF cv]
        curve_rules(6) [OF cv] p_ac [OF cv])
qed

text \<open>
  The equations of the two proofs, each as a difference that is the identity when it holds. The
  collector receives their sum weighted with the challenge \<open>w\<close> and the random batch factor; the
  equation of \<open>Y_2\<close> in the validity proof is added without the batch factor.
\<close>

definition eq_equations ::
  "('p, 's) curve \<Rightarrow> 's commitment_eq_proof \<Rightarrow> 'p \<Rightarrow> 'p ciphertext \<Rightarrow> 'p \<Rightarrow> 's \<Rightarrow> 'p \<times> 'p \<times> 'p \<Rightarrow> 'p \<times> 'p \<times> 'p" where
  "eq_equations cv pf P ct C c Ys = (case Ys of (Y_0, Y_1, Y_2) \<Rightarrow>
     (p_sub cv (p_mul cv (eq_z_s pf) P) (p_add cv (p_mul cv c (gen_B_blinding cv)) Y_0),
      p_sub cv (p_add cv (p_mul cv (eq_z_x pf) (gen_B cv)) (p_mul cv (eq_z_s pf) (handle ct)))
        (p_add cv (p_mul cv c (commitment ct)) Y_1),
      p_sub cv (gens_commit cv (eq_z_x pf) (eq_z_r pf)) (p_add cv (p_mul cv c C) Y_2)))"

lemma validated_points_Inr:
  "validated_points ps t = Inr t' \<longleftrightarrow>
     (\<forall>p \<in> set ps. \<not> is_identity (snd p)) \<and> t' = t @ map (\<lambda>(label, p). AppendMessage label p) ps"
proof (induction ps arbitrary: t)
  case (Cons p ps)
  show ?case
    by (cases p) (auto simp: validate_and_append_point_def append_message_def Cons.IH)
qed auto

text \<open>The challenges of a proof, with the transcript after them; prover and verifier agree on them.\<close>

definition challenges :: "'s merlin \<Rightarrow> (string \<times> compressed_point) list \<Rightarrow> transcript \<Rightarrow> 's \<times> 's \<times> transcript" where
  "challenges M ps t = (let (c, t) = challenge_scalar M ''c'' (t @ map (\<lambda>(label, p). AppendMessage label p) ps);
     (w, t) = challenge_scalar M ''w'' t in (c, w, t))"

lemma eq_proof_pre_verify_Inr:
  assumes cv: "curve_laws cv" and b: "batch_ok b"
    and ch: "challenges M (eq_points pf) (equality_proof_domain_separator t) = (c, w, t3)"
    and Y: "p_decompress cv (eq_Y_0 pf) = Some Y_0" "p_decompress cv (eq_Y_1 pf) = Some Y_1"
      "p_decompress cv (eq_Y_2 pf) = Some Y_2"
    and E: "eq_equations cv pf P ct C c (Y_0, Y_1, Y_2) = (E_0, E_1, E_2)"
    and id: "\<forall>p \<in> set (eq_points pf). \<not> is_identity (snd p)"
  shows "\<exists>b'. eq_proof_pre_verify cv M bf pf P ct C t b = Inr (t3, b') \<and> batch_ok b' \<and>
    batch_value cv b' = p_add cv (batch_value cv b)
      (p_mul cv bf (p_add cv E_0 (p_add cv (p_mul cv w E_1) (p_mul cv (s_mul cv w w) E_2))))"
proof -
  have t: "validated_points (eq_points pf)
      (equality_proof_domain_separator t) =
      Inr (equality_proof_domain_separator t @ map (\<lambda>(label, p). AppendMessage label p) (eq_points pf))"
    using id by (simp add: validated_points_Inr)
  show ?thesis
    using ch b
    by (auto simp: eq_proof_pre_verify_def Let_def t Y decompress_or_def challenges_def
        batch_extend_value [OF cv b] E [symmetric, unfolded eq_equations_def, simplified]
        p_normal [OF cv] p_mul_commute [OF cv] p_ac [OF cv] curve_rules(12) [OF cv]
        split: prod.splits)
qed

definition validity_equations ::
  "('p, 's) curve \<Rightarrow> 's ciphertext_validity_proof \<Rightarrow> 'p \<Rightarrow> 'p \<Rightarrow> 'p \<Rightarrow> 's \<Rightarrow> 'p \<times> 'p \<Rightarrow> 'p \<times> 'p" where
  "validity_equations cv pf C P D c Ys = (case Ys of (Y_0, Y_1) \<Rightarrow>
     (p_sub cv (gens_commit cv (vp_z_x pf) (vp_z_r pf)) (p_add cv (p_mul cv c C) Y_0),
      p_sub cv (p_mul cv (vp_z_r pf) P) (p_add cv (p_mul cv c D) Y_1)))"

text \<open>The term of the third equation, without the batch factor.\<close>

definition source_equation ::
  "('p, 's) curve \<Rightarrow> 's ciphertext_validity_proof \<Rightarrow> 'p \<Rightarrow> 'p \<Rightarrow> 's \<Rightarrow> 'p option \<Rightarrow> 'p" where
  "source_equation cv pf P D c Y_2 = (case Y_2 of None \<Rightarrow> p_identity cv | Some Y \<Rightarrow>
     p_sub cv (p_mul cv (vp_z_r pf) P) (p_add cv (p_mul cv c D) Y))"

definition source_term ::
  "('p, 's) curve \<Rightarrow> 's ciphertext_validity_proof \<Rightarrow> 'p \<Rightarrow> 'p \<Rightarrow> 's \<Rightarrow> 's \<Rightarrow> 'p option \<Rightarrow> 'p" where
  "source_term cv pf P D c w Y_2 = p_mul cv (s_mul cv w w) (source_equation cv pf P D c Y_2)"

lemma batch_more_value:
  assumes cv: "curve_laws cv" and b: "batch_ok b"
  shows "batch_value cv (b\<lparr>dynamic_scalars := dynamic_scalars b @ map fst es,
      dynamic_points := dynamic_points b @ map snd es\<rparr>) = p_add cv (batch_value cv b) (p_sum cv es)"
proof -
  have "zip (map fst es) (map snd es) = es" by (induction es) auto
  then show ?thesis
    using b by (simp add: batch_value_def batch_ok_def p_sum_append [OF cv] p_ac [OF cv])
qed

lemma validity_proof_pre_verify_Inr:
  assumes cv: "curve_laws cv" and b: "batch_ok b"
    and ch: "challenges M (validity_points pf check) (ciphertext_validity_proof_domain_separator t) = (c, w, t3)"
    and Y: "p_decompress cv (vp_Y_0 pf) = Some Y_0" "p_decompress cv (vp_Y_1 pf) = Some Y_1"
    and Y2: "(case vp_Y_2 pf of None \<Rightarrow> Y_2 = None | Some Y \<Rightarrow> p_decompress cv Y = Y_2 \<and> Y_2 \<noteq> None)"
      "(Y_2 \<noteq> None) = check"
    and E: "validity_equations cv pf C P_dest D_dest c (Y_0, Y_1) = (E_0, E_1)"
    and id: "\<forall>p \<in> set (validity_points pf check). \<not> is_identity (snd p)"
  shows "\<exists>b'. validity_proof_pre_verify cv M bf pf C P_dest P_source D_dest D_source check t b = Inr (t3, b') \<and>
    batch_ok b' \<and>
    batch_value cv b' = p_add cv (batch_value cv b)
      (p_add cv (p_mul cv bf (p_add cv E_0 (p_mul cv w E_1))) (source_term cv pf P_source D_source c w Y_2))"
proof -
  let ?t = "ciphertext_validity_proof_domain_separator t"
  have t: "validated_points (validity_points pf check) ?t =
      Inr (?t @ map (\<lambda>(label, p). AppendMessage label p) (validity_points pf check))"
    using id by (simp add: validated_points_Inr)
  have Y2': "(case vp_Y_2 pf of None \<Rightarrow> Inr None | Some Y \<Rightarrow>
         result_bind (decompress_or cv CiphertextValidityProofError Y) (\<lambda>Y. Inr (Some Y))) = Inr Y_2"
    using Y2 by (auto simp: decompress_or_def split: option.splits)
  obtain t2 where c: "challenge_scalar M ''c''
      (?t @ map (\<lambda>(label, p). AppendMessage label p) (validity_points pf check)) = (c, t2)"
    and w: "challenge_scalar M ''w'' t2 = (w, t3)"
    using ch by (auto simp: challenges_def split: prod.splits)
  have Yd: "decompress_or cv e (vp_Y_0 pf) = Inr Y_0" "decompress_or cv e (vp_Y_1 pf) = Inr Y_1" for e
    by (simp_all add: decompress_or_def Y)
  define b1 where "b1 = batch_extend cv
      [(s_mul cv (s_neg cv c) bf, C), (s_mul cv (s_neg cv (s_one cv)) bf, Y_0),
       (s_mul cv (s_mul cv w (vp_z_r pf)) bf, P_dest),
       (s_mul cv (s_mul cv (s_neg cv w) c) bf, D_dest), (s_mul cv (s_neg cv w) bf, Y_1)]
      (s_mul cv (vp_z_x pf) bf) (s_mul cv (vp_z_r pf) bf) b"
  have b1: "batch_ok b1" "batch_value cv b1 =
      p_add cv (batch_value cv b) (p_mul cv bf (p_add cv E_0 (p_mul cv w E_1)))"
    using b by (auto simp: b1_def batch_extend_value [OF cv b] E [symmetric, unfolded validity_equations_def, simplified]
        p_normal [OF cv] p_mul_commute [OF cv] p_ac [OF cv] curve_rules(12) [OF cv])
  define b2 where "b2 = (case Y_2 of None \<Rightarrow> b1 | Some Y_2 \<Rightarrow>
      b1\<lparr>dynamic_scalars := dynamic_scalars b1 @ [s_mul cv w (s_mul cv w (vp_z_r pf)),
            s_mul cv w (s_mul cv (s_neg cv w) c), s_mul cv w (s_neg cv w)],
         dynamic_points := dynamic_points b1 @ [P_source, D_source, Y_2]\<rparr>)"
  have "validity_proof_pre_verify cv M bf pf C P_dest P_source D_dest D_source check t b = Inr (t3, b2)"
    using Y2(2)
    by (simp add: validity_proof_pre_verify_def Let_def t Y2' Yd c w b2_def)
       (auto simp: b1_def split: option.split)
  moreover have "batch_ok b2 \<and> batch_value cv b2 = p_add cv (batch_value cv b1)
      (source_term cv pf P_source D_source c w Y_2)"
  proof (cases Y_2)
    case None
    then show ?thesis using b1 by (simp add: b2_def source_term_def source_equation_def curve_rules(3) [OF cv] p_mul_identity [OF cv])
  next
    case (Some Y)
    then show ?thesis
      using b1 batch_more_value [OF cv b1(1), of "[(s_mul cv w (s_mul cv w (vp_z_r pf)), P_source),
          (s_mul cv w (s_mul cv (s_neg cv w) c), D_source), (s_mul cv w (s_neg cv w), Y)]"]
      by (simp add: b2_def source_term_def source_equation_def batch_ok_def p_normal [OF cv] p_mul_commute [OF cv] p_ac [OF cv])
  qed
  ultimately show ?thesis
    by (auto simp: b1(2) curve_rules(1) [OF cv])
qed

section \<open>What the proofs show\<close>

lemma p_sub_identity_iff: "curve_laws cv \<Longrightarrow> p_sub cv a b = p_identity cv \<longleftrightarrow> a = b"
  by (simp add: p_sub_eq_iff p_identity_left)

lemma public_key_new_mul:
  assumes cv: "curve_laws cv" and key: "public_key_new cv s = Some P"
  shows "p_mul cv s P = gen_B_blinding cv"
proof -
  have s: "s \<noteq> s_zero cv" "P = p_mul cv (s_invert cv s) (gen_B_blinding cv)"
    using key by (auto simp: public_key_new_def split: if_splits)
  from p_mul_invert [OF cv s(1), of "s_one cv"] show ?thesis
    by (simp add: s(2) curve_rules(9) [OF cv])
qed

definition eq_honest_points ::
  "('p, 's) curve \<Rightarrow> 's \<times> 's \<times> 's \<Rightarrow> 'p \<Rightarrow> 'p ciphertext \<Rightarrow> 'p list" where
  "eq_honest_points cv masks P ct = (case masks of (y_s, y_x, y_r) \<Rightarrow>
     [p_mul cv y_s P, p_add cv (p_mul cv y_x (gen_B cv)) (p_mul cv y_s (handle ct)), gens_commit cv y_x y_r])"

lemma eq_honest_equations:
  assumes cv: "curve_laws cv" and key: "public_key_new cv s = Some P"
    and ct: "decrypt_to_point cv s ct = p_mul cv x (gen_B cv)"
  shows "eq_equations cv \<lparr>eq_Y_0 = a, eq_Y_1 = b, eq_Y_2 = d, eq_z_s = s_add cv (s_mul cv c s) y_s,
      eq_z_x = s_add cv (s_mul cv c x) y_x, eq_z_r = s_add cv (s_mul cv c r) y_r\<rparr> P ct (gens_commit cv x r) c
      (p_mul cv y_s P, p_add cv (p_mul cv y_x (gen_B cv)) (p_mul cv y_s (handle ct)), gens_commit cv y_x y_r) =
    (p_identity cv, p_identity cv, p_identity cv)"
proof -
  have "commitment ct = p_add cv (p_mul cv x (gen_B cv)) (p_mul cv s (handle ct))"
    using ct by (simp add: decrypt_to_point_def p_sub_eq_iff [OF cv])
  then show ?thesis
    by (simp add: eq_equations_def p_sub_identity_iff [OF cv] curve_rules(5,6,8,12) [OF cv]
        public_key_new_mul [OF cv key] p_ac [OF cv])
qed

lemma eq_proof_complete:
  assumes cv: "curve_laws cv" and cl: "codec_laws cv" and key: "public_key_new cv s = Some P"
    and ct: "decrypt_to_point cv s ct = p_mul cv x (gen_B cv)"
    and new: "eq_proof_new_with_scalar cv M masks \<lparr>kp_public = P, kp_private = s\<rparr> ct r x t = (pf, t')"
    and id: "\<forall>p \<in> set (eq_honest_points cv masks P ct). \<not> is_identity (p_compress cv p)"
    and b: "batch_ok b"
  shows "\<exists>b'. eq_proof_pre_verify cv M bf pf P ct (gens_commit cv x r) t b = Inr (t', b') \<and>
    batch_ok b' \<and> batch_value cv b' = batch_value cv b"
proof -
  obtain y_s y_x y_r where m: "masks = (y_s, y_x, y_r)" by (rule prod_cases3)
  let ?Y0 = "p_mul cv y_s P" and ?Y1 = "p_add cv (p_mul cv y_x (gen_B cv)) (p_mul cv y_s (handle ct))"
    and ?Y2 = "gens_commit cv y_x y_r"
  obtain c w t3 where ch: "challenges M (eq_points pf) (equality_proof_domain_separator t) = (c, w, t3)"
    by (rule prod_cases3)
  have pf: "pf = \<lparr>eq_Y_0 = p_compress cv ?Y0, eq_Y_1 = p_compress cv ?Y1, eq_Y_2 = p_compress cv ?Y2,
      eq_z_s = s_add cv (s_mul cv c s) y_s, eq_z_x = s_add cv (s_mul cv c x) y_x,
      eq_z_r = s_add cv (s_mul cv c r) y_r\<rparr>" and t': "t' = t3"
    using new ch by (auto simp: eq_proof_new_with_scalar_def m Let_def append_point_def append_message_def
        challenges_def eq_points_def split: prod.splits)
  have Y: "p_decompress cv (p_compress cv p) = Some p" for p
    using cl by (simp add: codec_laws_def)
  have ok: "\<forall>p \<in> set (eq_points pf). \<not> is_identity (snd p)"
    using id by (simp add: eq_points_def pf m eq_honest_points_def)
  have E: "eq_equations cv pf P ct (gens_commit cv x r) c (?Y0, ?Y1, ?Y2) =
      (p_identity cv, p_identity cv, p_identity cv)"
    unfolding pf by (rule eq_honest_equations [OF cv key ct])
  from eq_proof_pre_verify_Inr [OF cv b ch _ _ _ E ok, of bf] show ?thesis
    by (simp add: pf Y t' p_mul_identity [OF cv] curve_rules(3) [OF cv])
qed

lemma validity_proof_complete:
  assumes cv: "curve_laws cv" and cl: "codec_laws cv"
    and new: "validity_proof_new cv M (y_r, y_x) P_dest source amount r t = (pf, t')"
    and id: "\<forall>p \<in> set ([gens_commit cv y_x y_r, p_mul cv y_r P_dest] @
      (case source of None \<Rightarrow> [] | Some P \<Rightarrow> [p_mul cv y_r P])). \<not> is_identity (p_compress cv p)"
    and P: "pred_option (\<lambda>P. P = P_source) source" and b: "batch_ok b"
  shows "\<exists>b'. validity_proof_pre_verify cv M bf pf (gens_commit cv (s_from cv amount) r) P_dest P_source
      (decrypt_handle cv P_dest r) (decrypt_handle cv P_source r) (source \<noteq> None) t b = Inr (t', b') \<and>
    batch_ok b' \<and> batch_value cv b' = batch_value cv b"
proof -
  let ?Y0 = "gens_commit cv y_x y_r" and ?Y1 = "p_mul cv y_r P_dest"
    and ?Y2 = "map_option (p_mul cv y_r) source" and ?x = "s_from cv amount"
  obtain c w t3 where ch: "challenges M (validity_points pf (source \<noteq> None))
      (ciphertext_validity_proof_domain_separator t) = (c, w, t3)"
    by (rule prod_cases3)
  have pf: "pf = \<lparr>vp_Y_0 = p_compress cv ?Y0, vp_Y_1 = p_compress cv ?Y1,
      vp_Y_2 = map_option (p_compress cv) ?Y2, vp_z_r = s_add cv (s_mul cv c r) y_r,
      vp_z_x = s_add cv (s_mul cv c ?x) y_x\<rparr>" and t': "t' = t3"
    using new ch by (auto simp: validity_proof_new_def Let_def append_point_def append_message_def
        challenges_def validity_points_def comp_def option.map_comp split: prod.splits option.splits)
  have Y: "p_decompress cv (p_compress cv p) = Some p" for p
    using cl by (simp add: codec_laws_def)
  have ok: "\<forall>p \<in> set (validity_points pf (source \<noteq> None)). \<not> is_identity (snd p)"
    using id by (auto simp: validity_points_def pf split: option.splits)
  have E: "validity_equations cv pf (gens_commit cv ?x r) P_dest (decrypt_handle cv P_dest r) c (?Y0, ?Y1) =
      (p_identity cv, p_identity cv)"
    by (simp add: pf validity_equations_def p_sub_identity_iff [OF cv] curve_rules(5,6,8,12) [OF cv]
        decrypt_handle_def p_ac [OF cv])
  have S: "source_term cv pf P_source (decrypt_handle cv P_source r) c w ?Y2 = p_identity cv"
    using P by (cases source) (simp_all add: pf source_term_def source_equation_def p_sub_self [OF cv] decrypt_handle_def
        curve_rules(6,8) [OF cv] p_mul_identity [OF cv])
  have Y2: "case vp_Y_2 pf of None \<Rightarrow> ?Y2 = None | Some Y \<Rightarrow> p_decompress cv Y = ?Y2 \<and> ?Y2 \<noteq> None"
    by (cases source) (simp_all add: pf Y)
  have src: "(?Y2 \<noteq> None) = (source \<noteq> None)" by simp
  have D: "p_decompress cv (vp_Y_0 pf) = Some ?Y0" "p_decompress cv (vp_Y_1 pf) = Some ?Y1"
    by (simp_all add: pf Y)
  from validity_proof_pre_verify_Inr [OF cv b ch D Y2 src E ok, of bf P_source "decrypt_handle cv P_source r"]
  show ?thesis
    by (simp add: S t' p_mul_identity [OF cv] curve_rules(3) [OF cv])
qed

text \<open>
  Knowledge soundness: two answers to different challenges for the same points determine a witness.
\<close>

lemma difference_quotient:
  assumes cv: "curve_laws cv" and c: "s_sub cv c c' \<noteq> s_zero cv"
    and eq: "p_add cv (p_mul cv c A) Y = L" "p_add cv (p_mul cv c' A) Y = L'"
  shows "A = p_mul cv (s_invert cv (s_sub cv c c')) (p_sub cv L L')"
proof -
  have "p_sub cv L L' = p_mul cv (s_sub cv c c') A"
    using p_sub_add_distrib [OF cv, of "p_mul cv c A" Y "p_mul cv c' A" Y]
    by (simp add: eq [symmetric] p_sub_self [OF cv] curve_rules(3,7) [OF cv])
  then show ?thesis
    using p_mul_invert [OF cv c, of "s_one cv" A] c
    by (simp add: curve_rules(9) [OF cv] p_mul_commute [OF cv, of "s_invert cv _"])
qed

lemma p_mul_quotient:
  "curve_laws cv \<Longrightarrow> p_mul cv (s_mul cv k (s_sub cv a b)) G = p_mul cv k (p_sub cv (p_mul cv a G) (p_mul cv b G))"
  by (simp add: curve_rules(7,8))

lemma p_mul_p_sub_add:
  "curve_laws cv \<Longrightarrow> p_mul cv k (p_sub cv (p_add cv a b) (p_add cv a' b')) =
     p_add cv (p_mul cv k (p_sub cv a a')) (p_mul cv k (p_sub cv b b'))"
  by (simp add: p_sub_add_distrib curve_rules(5))

lemma eq_extract:
  assumes cv: "curve_laws cv" and c: "s_sub cv c c' \<noteq> s_zero cv"
    and E: "eq_equations cv pf P ct C c Ys = (p_identity cv, p_identity cv, p_identity cv)"
      "eq_equations cv pf' P ct C c' Ys = (p_identity cv, p_identity cv, p_identity cv)"
  shows "\<exists>s x r. p_mul cv s P = gen_B_blinding cv \<and> decrypt_to_point cv s ct = p_mul cv x (gen_B cv) \<and>
    C = gens_commit cv x r"
proof -
  obtain Y_0 Y_1 Y_2 where Ys: "Ys = (Y_0, Y_1, Y_2)" by (rule prod_cases3)
  note E' = E [unfolded Ys eq_equations_def, simplified, unfolded p_sub_identity_iff [OF cv]]
  define k where "k = s_invert cv (s_sub cv c c')"
  note quot = difference_quotient [OF cv c, folded k_def]
  define s x r where sxr: "s = s_mul cv k (s_sub cv (eq_z_s pf) (eq_z_s pf'))"
    "x = s_mul cv k (s_sub cv (eq_z_x pf) (eq_z_x pf'))" "r = s_mul cv k (s_sub cv (eq_z_r pf) (eq_z_r pf'))"
  have "gen_B_blinding cv = p_mul cv s P"
    using quot [OF E'(1,2) [THEN conjunct1, symmetric]] by (simp add: sxr p_mul_quotient [OF cv])
  moreover have "commitment ct = p_add cv (p_mul cv x (gen_B cv)) (p_mul cv s (handle ct))"
    using quot [OF E'(1,2) [THEN conjunct2, THEN conjunct1, symmetric]]
    by (simp add: sxr p_mul_quotient [OF cv] p_mul_p_sub_add [OF cv])
  moreover have "C = gens_commit cv x r"
    using quot [OF E'(1,2) [THEN conjunct2, THEN conjunct2, symmetric]]
    by (simp add: sxr p_mul_quotient [OF cv] p_mul_p_sub_add [OF cv] curve_rules(12) [OF cv])
  ultimately show ?thesis
    by (metis decrypt_to_point_def p_sub_eq_iff [OF cv])
qed

lemma validity_extract:
  assumes cv: "curve_laws cv" and c: "s_sub cv c c' \<noteq> s_zero cv"
    and E: "validity_equations cv pf C P D c Ys = (p_identity cv, p_identity cv)"
      "validity_equations cv pf' C P D c' Ys = (p_identity cv, p_identity cv)"
    and S: "source_equation cv pf P_s D_s c Y_2 = p_identity cv"
      "source_equation cv pf' P_s D_s c' Y_2 = p_identity cv"
  shows "\<exists>x r. C = gens_commit cv x r \<and> D = decrypt_handle cv P r \<and>
    (Y_2 \<noteq> None \<longrightarrow> D_s = decrypt_handle cv P_s r)"
proof -
  obtain Y_0 Y_1 where Ys: "Ys = (Y_0, Y_1)" by (rule prod.exhaust)
  note E' = E [unfolded Ys validity_equations_def, simplified, unfolded p_sub_identity_iff [OF cv]]
  define k where "k = s_invert cv (s_sub cv c c')"
  note quot = difference_quotient [OF cv c, folded k_def]
  define x r where xr: "x = s_mul cv k (s_sub cv (vp_z_x pf) (vp_z_x pf'))"
    "r = s_mul cv k (s_sub cv (vp_z_r pf) (vp_z_r pf'))"
  have "C = gens_commit cv x r"
    using quot [OF E'(1,2) [THEN conjunct1, symmetric]]
    by (simp add: xr p_mul_quotient [OF cv] p_mul_p_sub_add [OF cv] curve_rules(12) [OF cv])
  moreover have "D = p_mul cv r P"
    using quot [OF E'(1,2) [THEN conjunct2, symmetric]] by (simp add: xr p_mul_quotient [OF cv])
  moreover have "D_s = p_mul cv r P_s" if Y: "Y_2 = Some Y" for Y
    using quot [OF S [unfolded Y source_equation_def, simplified, unfolded p_sub_identity_iff [OF cv], symmetric]]
    by (simp add: xr p_mul_quotient [OF cv])
  ultimately show ?thesis by (auto simp: decrypt_handle_def)
qed

lemma eq_proof_pre_verify_cases:
  assumes "eq_proof_pre_verify cv M bf pf P ct C t b = Inr (t', b')"
  obtains Y_0 Y_1 Y_2 where "p_decompress cv (eq_Y_0 pf) = Some Y_0" "p_decompress cv (eq_Y_1 pf) = Some Y_1"
    "p_decompress cv (eq_Y_2 pf) = Some Y_2" "\<forall>p \<in> set (eq_points pf). \<not> is_identity (snd p)"
  using assms
  by (auto simp: eq_proof_pre_verify_def Let_def result_simps decompress_or_def validated_points_Inr
      split: prod.splits)

lemma validity_proof_pre_verify_cases:
  assumes "validity_proof_pre_verify cv M bf pf C P_dest P_source D_dest D_source check t b = Inr (t', b')"
  obtains Y_0 Y_1 Y_2 where "p_decompress cv (vp_Y_0 pf) = Some Y_0" "p_decompress cv (vp_Y_1 pf) = Some Y_1"
    "case vp_Y_2 pf of None \<Rightarrow> Y_2 = None | Some Y \<Rightarrow> p_decompress cv Y = Y_2 \<and> Y_2 \<noteq> None"
    "(Y_2 \<noteq> None) = check" "\<forall>p \<in> set (validity_points pf check). \<not> is_identity (snd p)"
  using assms
  by (auto simp: validity_proof_pre_verify_def Let_def result_simps decompress_or_def validated_points_Inr
      split: prod.splits option.splits if_splits)

text \<open>
  A run of the verifier on one proof: it is accepted when the checks of \<open>pre_verify\<close> pass and the
  batch with this proof alone verifies.
\<close>

definition eq_accepts ::
  "('p, 's) curve \<Rightarrow> 's merlin \<Rightarrow> 's \<Rightarrow> 's commitment_eq_proof \<Rightarrow> 'p \<Rightarrow> 'p ciphertext \<Rightarrow> 'p \<Rightarrow> transcript \<Rightarrow> bool" where
  "eq_accepts cv M bf pf P ct C t \<longleftrightarrow>
     (case eq_proof_pre_verify cv M bf pf P ct C t (batch_default cv) of
        Inl _ \<Rightarrow> False | Inr (_, b) \<Rightarrow> batch_verify cv b = Some True)"

definition validity_accepts ::
  "('p, 's) curve \<Rightarrow> 's merlin \<Rightarrow> 's \<Rightarrow> 's ciphertext_validity_proof \<Rightarrow> 'p \<Rightarrow> 'p \<Rightarrow> 'p \<Rightarrow> 'p \<Rightarrow> 'p \<Rightarrow> bool \<Rightarrow>
   transcript \<Rightarrow> bool" where
  "validity_accepts cv M bf pf C P_dest P_source D_dest D_source check t \<longleftrightarrow>
     (case validity_proof_pre_verify cv M bf pf C P_dest P_source D_dest D_source check t (batch_default cv) of
        Inl _ \<Rightarrow> False | Inr (_, b) \<Rightarrow> batch_verify cv b = Some True)"

text \<open>
  A proof answers the challenge \<open>c\<close> for the weights of \<open>W\<close>: for each of them there is a transcript
  that yields \<open>c\<close> and this weight, and the verifier accepts.
\<close>

definition eq_answers ::
  "('p, 's) curve \<Rightarrow> 's \<Rightarrow> 's commitment_eq_proof \<Rightarrow> 'p \<Rightarrow> 'p ciphertext \<Rightarrow> 'p \<Rightarrow> transcript \<Rightarrow> 's \<Rightarrow> 's set \<Rightarrow> bool" where
  "eq_answers cv bf pf P ct C t c W \<longleftrightarrow> (\<forall>w \<in> W. \<exists>M t'.
     challenges M (eq_points pf) (equality_proof_domain_separator t) = (c, w, t') \<and>
     eq_accepts cv M bf pf P ct C t)"

definition validity_answers ::
  "('p, 's) curve \<Rightarrow> 's \<Rightarrow> 's ciphertext_validity_proof \<Rightarrow> 'p \<Rightarrow> 'p \<Rightarrow> 'p \<Rightarrow> 'p \<Rightarrow> 'p \<Rightarrow> bool \<Rightarrow>
   transcript \<Rightarrow> 's \<Rightarrow> 's set \<Rightarrow> bool" where
  "validity_answers cv bf pf C P_dest P_source D_dest D_source check t c W \<longleftrightarrow> (\<forall>w \<in> W. \<exists>M t'.
     challenges M (validity_points pf check) (ciphertext_validity_proof_domain_separator t) = (c, w, t') \<and>
     validity_accepts cv M bf pf C P_dest P_source D_dest D_source check t)"

lemma p_mul_cancel:
  assumes cv: "curve_laws cv" and x: "x \<noteq> s_zero cv"
  shows "p_mul cv x A = p_identity cv \<longleftrightarrow> A = p_identity cv"
proof
  assume "p_mul cv x A = p_identity cv"
  then show "A = p_identity cv"
    using p_mul_invert [OF cv x, of "s_one cv" A] p_mul_commute [OF cv, of x "s_invert cv x" A]
    by (simp add: curve_rules(9) [OF cv] p_mul_identity [OF cv])
qed (simp add: p_mul_identity [OF cv])

text \<open>A polynomial in the weight with three roots is zero.\<close>

definition weighted :: "('p, 's) curve \<Rightarrow> 's \<Rightarrow> 'p \<times> 'p \<times> 'p \<Rightarrow> 'p" where
  "weighted cv w Es = (case Es of (E_0, E_1, E_2) \<Rightarrow>
     p_add cv E_0 (p_add cv (p_mul cv w E_1) (p_mul cv (s_mul cv w w) E_2)))"

definition distinct3 :: "('p, 's) curve \<Rightarrow> 's \<Rightarrow> 's \<Rightarrow> 's \<Rightarrow> bool" where
  "distinct3 cv w1 w2 w3 \<longleftrightarrow> s_sub cv w1 w2 \<noteq> s_zero cv \<and> s_sub cv w1 w3 \<noteq> s_zero cv \<and>
     s_sub cv w2 w3 \<noteq> s_zero cv"

lemma weighted_slope:
  assumes cv: "curve_laws cv" and v: "s_sub cv v w \<noteq> s_zero cv"
    and eq: "weighted cv v (A, B, C) = p_identity cv" "weighted cv w (A, B, C) = p_identity cv"
  shows "p_add cv B (p_mul cv (s_add cv v w) C) = p_identity cv"
proof -
  have "p_sub cv (weighted cv v (A, B, C)) (weighted cv w (A, B, C)) =
      p_add cv (p_mul cv (s_sub cv v w) B) (p_sub cv (p_mul cv v (p_mul cv v C)) (p_mul cv w (p_mul cv w C)))"
    by (simp add: weighted_def p_sub_add_distrib [OF cv] p_sub_self [OF cv] p_identity_left [OF cv]
        curve_rules(7,8) [OF cv])
  moreover have "p_sub cv (p_mul cv v (p_mul cv v C)) (p_mul cv w (p_mul cv w C)) =
      p_mul cv (s_sub cv v w) (p_mul cv (s_add cv v w) C)"
    using p_sub_add_distrib [OF cv, of "p_mul cv v (p_mul cv v C)" "p_mul cv v (p_mul cv w C)"
        "p_mul cv w (p_mul cv w C)" "p_mul cv v (p_mul cv w C)"]
      p_sub_add_distrib [OF cv, of "p_mul cv v (p_mul cv v C)" "p_mul cv v (p_mul cv w C)"
        "p_mul cv v (p_mul cv w C)" "p_mul cv w (p_mul cv w C)"]
      curve_rules(2) [OF cv, of "p_mul cv v (p_mul cv w C)" "p_mul cv w (p_mul cv w C)"]
    by (simp add: curve_rules(3,5,6,7) [OF cv] p_mul_commute [OF cv, of w v] p_sub_self [OF cv])
  ultimately have "p_mul cv (s_sub cv v w) (p_add cv B (p_mul cv (s_add cv v w) C)) = p_identity cv"
    by (simp add: eq p_sub_self [OF cv] curve_rules(5) [OF cv])
  then show ?thesis by (simp add: p_mul_cancel [OF cv v])
qed

lemma weighted_three_roots:
  assumes cv: "curve_laws cv" and w: "distinct3 cv w1 w2 w3"
    and eq: "\<forall>w \<in> {w1, w2, w3}. weighted cv w (A, B, C) = p_identity cv"
  shows "A = p_identity cv \<and> B = p_identity cv \<and> C = p_identity cv"
proof -
  note slope = weighted_slope [OF cv, of _ _ A B C]
  have s: "p_add cv B (p_mul cv (s_add cv w1 w2) C) = p_identity cv"
    "p_add cv B (p_mul cv (s_add cv w1 w3) C) = p_identity cv"
    using slope w eq by (simp_all add: distinct3_def)
  have "p_sub cv (p_add cv B (p_mul cv (s_add cv w1 w2) C)) (p_add cv B (p_mul cv (s_add cv w1 w3) C)) =
      p_mul cv (s_sub cv w2 w3) C"
    by (simp add: p_sub_add_distrib [OF cv] p_sub_self [OF cv] p_identity_left [OF cv] curve_rules(6,7) [OF cv])
  then have "p_mul cv (s_sub cv w2 w3) C = p_identity cv"
    by (simp add: s p_sub_self [OF cv])
  with w have C: "C = p_identity cv"
    by (simp add: p_mul_cancel [OF cv] distinct3_def)
  moreover from s(1) have B: "B = p_identity cv"
    by (simp add: C p_mul_identity [OF cv] curve_rules(3) [OF cv])
  moreover have "A = p_identity cv"
    using eq by (auto simp: weighted_def B C p_mul_identity [OF cv] curve_rules(3) [OF cv])
  ultimately show ?thesis by simp
qed

text \<open>What acceptance is, in terms of the points that the proof carries.\<close>

lemma eq_accepts_iff:
  assumes cv: "curve_laws cv" and bf: "bf \<noteq> s_zero cv"
  shows "eq_accepts cv M bf pf P ct C t \<longleftrightarrow>
    (\<forall>p \<in> set (eq_points pf). \<not> is_identity (snd p)) \<and>
    (\<exists>Y_0 Y_1 Y_2 c w t'. p_decompress cv (eq_Y_0 pf) = Some Y_0 \<and> p_decompress cv (eq_Y_1 pf) = Some Y_1 \<and>
       p_decompress cv (eq_Y_2 pf) = Some Y_2 \<and>
       challenges M (eq_points pf) (equality_proof_domain_separator t) = (c, w, t') \<and>
       weighted cv w (eq_equations cv pf P ct C c (Y_0, Y_1, Y_2)) = p_identity cv)"
    (is "_ \<longleftrightarrow> ?id \<and> ?eq")
proof -
  have run: "eq_accepts cv M bf pf P ct C t \<longleftrightarrow>
      weighted cv w (eq_equations cv pf P ct C c (Y_0, Y_1, Y_2)) = p_identity cv"
    if id: ?id and Y: "p_decompress cv (eq_Y_0 pf) = Some Y_0" "p_decompress cv (eq_Y_1 pf) = Some Y_1"
      "p_decompress cv (eq_Y_2 pf) = Some Y_2"
      and ch: "challenges M (eq_points pf) (equality_proof_domain_separator t) = (c, w, t')" for Y_0 Y_1 Y_2 c w t'
  proof -
    obtain E_0 E_1 E_2 where E: "eq_equations cv pf P ct C c (Y_0, Y_1, Y_2) = (E_0, E_1, E_2)"
      by (rule prod_cases3)
    from eq_proof_pre_verify_Inr [OF cv batch_ok_simps(1) [of cv] ch Y E id, of bf] show ?thesis
      by (auto simp: eq_accepts_def E weighted_def batch_verify_value [OF cv] batch_default_value [OF cv]
          p_identity_left [OF cv] p_mul_cancel [OF cv bf])
  qed
  show ?thesis
  proof
    assume a: "eq_accepts cv M bf pf P ct C t"
    then obtain t' b' where "eq_proof_pre_verify cv M bf pf P ct C t (batch_default cv) = Inr (t', b')"
      by (auto simp: eq_accepts_def split: sum.splits)
    then obtain Y_0 Y_1 Y_2 where Y: "p_decompress cv (eq_Y_0 pf) = Some Y_0"
      "p_decompress cv (eq_Y_1 pf) = Some Y_1" "p_decompress cv (eq_Y_2 pf) = Some Y_2" and id: ?id
      by (rule eq_proof_pre_verify_cases)
    obtain c w t' where ch: "challenges M (eq_points pf) (equality_proof_domain_separator t) = (c, w, t')"
      by (rule prod_cases3)
    from a run [OF id Y ch] id Y ch show "?id \<and> ?eq" by blast
  qed (use run in blast)
qed

lemma validity_accepts_iff:
  assumes cv: "curve_laws cv"
  shows "validity_accepts cv M bf pf C P_dest P_source D_dest D_source check t \<longleftrightarrow>
    (\<forall>p \<in> set (validity_points pf check). \<not> is_identity (snd p)) \<and>
    (\<exists>Y_0 Y_1 Y_2 c w t' E_0 E_1. p_decompress cv (vp_Y_0 pf) = Some Y_0 \<and> p_decompress cv (vp_Y_1 pf) = Some Y_1 \<and>
       (case vp_Y_2 pf of None \<Rightarrow> Y_2 = None | Some Y \<Rightarrow> p_decompress cv Y = Y_2 \<and> Y_2 \<noteq> None) \<and>
       (Y_2 \<noteq> None) = check \<and>
       challenges M (validity_points pf check) (ciphertext_validity_proof_domain_separator t) = (c, w, t') \<and>
       validity_equations cv pf C P_dest D_dest c (Y_0, Y_1) = (E_0, E_1) \<and>
       weighted cv w (p_mul cv bf E_0, p_mul cv bf E_1, source_equation cv pf P_source D_source c Y_2) = p_identity cv)"
    (is "_ \<longleftrightarrow> ?id \<and> ?eq")
proof -
  have run: "validity_accepts cv M bf pf C P_dest P_source D_dest D_source check t \<longleftrightarrow>
      weighted cv w (p_mul cv bf E_0, p_mul cv bf E_1, source_equation cv pf P_source D_source c Y_2) = p_identity cv"
    if id: ?id and Y: "p_decompress cv (vp_Y_0 pf) = Some Y_0" "p_decompress cv (vp_Y_1 pf) = Some Y_1"
      "case vp_Y_2 pf of None \<Rightarrow> Y_2 = None | Some Y \<Rightarrow> p_decompress cv Y = Y_2 \<and> Y_2 \<noteq> None"
      "(Y_2 \<noteq> None) = check"
      and ch: "challenges M (validity_points pf check) (ciphertext_validity_proof_domain_separator t) = (c, w, t')"
      and E: "validity_equations cv pf C P_dest D_dest c (Y_0, Y_1) = (E_0, E_1)"
    for Y_0 Y_1 Y_2 c w t' E_0 E_1
    using validity_proof_pre_verify_Inr [OF cv batch_ok_simps(1) [of cv] ch Y E id, of bf P_source D_source]
    by (auto simp: validity_accepts_def batch_verify_value [OF cv] batch_default_value [OF cv]
        p_identity_left [OF cv] weighted_def source_term_def curve_rules(1,5) [OF cv] p_mul_commute [OF cv, of bf w])
  show ?thesis
  proof
    assume a: "validity_accepts cv M bf pf C P_dest P_source D_dest D_source check t"
    then obtain t' b' where
      "validity_proof_pre_verify cv M bf pf C P_dest P_source D_dest D_source check t (batch_default cv) = Inr (t', b')"
      by (auto simp: validity_accepts_def split: sum.splits)
    then obtain Y_0 Y_1 Y_2 where Y: "p_decompress cv (vp_Y_0 pf) = Some Y_0" "p_decompress cv (vp_Y_1 pf) = Some Y_1"
      "case vp_Y_2 pf of None \<Rightarrow> Y_2 = None | Some Y \<Rightarrow> p_decompress cv Y = Y_2 \<and> Y_2 \<noteq> None"
      "(Y_2 \<noteq> None) = check" and id: ?id
      by (rule validity_proof_pre_verify_cases)
    obtain c w t' where ch: "challenges M (validity_points pf check)
        (ciphertext_validity_proof_domain_separator t) = (c, w, t')" by (rule prod_cases3)
    obtain E_0 E_1 where E: "validity_equations cv pf C P_dest D_dest c (Y_0, Y_1) = (E_0, E_1)"
      by (rule prod.exhaust)
    from a run [OF id Y ch E] id Y ch E show "?id \<and> ?eq" by blast
  qed (use run in blast)
qed

lemma eq_answers_equations:
  assumes cv: "curve_laws cv" and bf: "bf \<noteq> s_zero cv" and w: "distinct3 cv w1 w2 w3"
    and ans: "eq_answers cv bf pf P ct C t c {w1, w2, w3}"
    and Y: "p_decompress cv (eq_Y_0 pf) = Some Y_0" "p_decompress cv (eq_Y_1 pf) = Some Y_1"
      "p_decompress cv (eq_Y_2 pf) = Some Y_2"
  shows "eq_equations cv pf P ct C c (Y_0, Y_1, Y_2) = (p_identity cv, p_identity cv, p_identity cv)"
proof -
  obtain E_0 E_1 E_2 where E: "eq_equations cv pf P ct C c (Y_0, Y_1, Y_2) = (E_0, E_1, E_2)"
    by (rule prod_cases3)
  have "\<forall>w \<in> {w1, w2, w3}. weighted cv w (E_0, E_1, E_2) = p_identity cv"
    using ans by (auto simp: eq_answers_def eq_accepts_iff [OF cv bf] Y E)
  from weighted_three_roots [OF cv w this] show ?thesis by (simp add: E)
qed

lemma eq_answers_points:
  assumes "curve_laws cv" "bf \<noteq> s_zero cv" "eq_answers cv bf pf P ct C t c {w1, w2, w3}"
  obtains Y_0 Y_1 Y_2 where "p_decompress cv (eq_Y_0 pf) = Some Y_0" "p_decompress cv (eq_Y_1 pf) = Some Y_1"
    "p_decompress cv (eq_Y_2 pf) = Some Y_2"
  using assms by (auto simp: eq_answers_def eq_accepts_iff)

lemma eq_answers_extract:
  assumes cv: "curve_laws cv" and bf: "bf \<noteq> s_zero cv" and w: "distinct3 cv w1 w2 w3"
    and c: "s_sub cv c c' \<noteq> s_zero cv" and same: "eq_points pf' = eq_points pf"
    and ans: "eq_answers cv bf pf P ct C t c {w1, w2, w3}" "eq_answers cv bf pf' P ct C t c' {w1, w2, w3}"
  shows "\<exists>s x r. p_mul cv s P = gen_B_blinding cv \<and> decrypt_to_point cv s ct = p_mul cv x (gen_B cv) \<and>
    C = gens_commit cv x r"
proof -
  obtain Y_0 Y_1 Y_2 where Y: "p_decompress cv (eq_Y_0 pf) = Some Y_0" "p_decompress cv (eq_Y_1 pf) = Some Y_1"
    "p_decompress cv (eq_Y_2 pf) = Some Y_2" by (rule eq_answers_points [OF cv bf ans(1)])
  have Y': "p_decompress cv (eq_Y_0 pf') = Some Y_0" "p_decompress cv (eq_Y_1 pf') = Some Y_1"
    "p_decompress cv (eq_Y_2 pf') = Some Y_2" using Y same by (simp_all add: eq_points_def)
  show ?thesis
    by (rule eq_extract [OF cv c eq_answers_equations [OF cv bf w ans(1) Y] eq_answers_equations [OF cv bf w ans(2) Y']])
qed

text \<open>
  The weight is drawn together with the challenge, before the answers are known, and the answers are
  in no transcript. The prover can thus choose them for one weight: run with the amount
  \<open>(x + w \<cdot> x') / (1 + w)\<close> it balances the error in the second equation by the one in the third.
\<close>

definition forged_amount :: "('p, 's) curve \<Rightarrow> 's \<Rightarrow> 's \<Rightarrow> 's \<Rightarrow> 's" where
  "forged_amount cv w x x' =
     s_mul cv (s_invert cv (s_add cv (s_one cv) w)) (s_add cv x (s_mul cv w x'))"

lemma forged_amount_mul:
  assumes cv: "curve_laws cv" and w: "s_add cv (s_one cv) w \<noteq> s_zero cv"
  shows "p_add cv (p_mul cv (forged_amount cv w x x') G) (p_mul cv w (p_mul cv (forged_amount cv w x x') G)) =
    p_add cv (p_mul cv x G) (p_mul cv w (p_mul cv x' G))"
proof -
  let ?A = "p_mul cv (s_add cv x (s_mul cv w x')) G"
  have "p_mul cv (s_add cv (s_one cv) w) (p_mul cv (forged_amount cv w x x') G) = ?A"
    using p_mul_invert [OF cv w, of "s_one cv" ?A]
    by (simp add: forged_amount_def curve_rules(8,9) [OF cv])
  then show ?thesis by (simp add: curve_rules(6,8,9) [OF cv])
qed

lemma eq_prover_points:
  "eq_points (fst (eq_proof_new_with_scalar cv M masks kp ct r x t)) =
     zip [''Y_0'', ''Y_1'', ''Y_2''] (map (p_compress cv) (eq_honest_points cv masks (kp_public kp) ct))"
  by (simp add: eq_proof_new_with_scalar_def Let_def eq_points_def eq_honest_points_def split: prod.splits)

lemma eq_forged_equations:
  assumes cv: "curve_laws cv" and key: "public_key_new cv s = Some P"
    and ct: "decrypt_to_point cv s ct = p_mul cv x (gen_B cv)"
  shows "eq_equations cv \<lparr>eq_Y_0 = a, eq_Y_1 = b, eq_Y_2 = d, eq_z_s = s_add cv (s_mul cv c s) y_s,
      eq_z_x = s_add cv (s_mul cv c v) y_x, eq_z_r = s_add cv (s_mul cv c r) y_r\<rparr> P ct (gens_commit cv x' r) c
      (p_mul cv y_s P, p_add cv (p_mul cv y_x (gen_B cv)) (p_mul cv y_s (handle ct)), gens_commit cv y_x y_r) =
    (p_identity cv, p_mul cv c (p_sub cv (p_mul cv v (gen_B cv)) (p_mul cv x (gen_B cv))),
     p_mul cv c (p_sub cv (p_mul cv v (gen_B cv)) (p_mul cv x' (gen_B cv))))"
proof -
  have "commitment ct = p_add cv (p_mul cv x (gen_B cv)) (p_mul cv s (handle ct))"
    using ct by (simp add: decrypt_to_point_def p_sub_eq_iff [OF cv])
  note com = this
  have diff: "L = p_add cv a e \<Longrightarrow> R = p_add cv b e \<Longrightarrow> p_sub cv L R = p_sub cv a b" for a b e L R
    using p_sub_add_distrib [OF cv, of a e b e] by (simp add: p_sub_self [OF cv] curve_rules(3) [OF cv])
  note norm = curve_rules(5,6,8,12) [OF cv] com public_key_new_mul [OF cv key]
  show ?thesis
    unfolding eq_equations_def p_mul_sub [OF cv] prod.case prod.inject
    by (intro conjI diff [where e = "p_add cv (p_mul cv c (p_mul cv s (handle ct)))
            (p_add cv (p_mul cv y_x (gen_B cv)) (p_mul cv y_s (handle ct)))"]
          diff [where e = "p_add cv (p_mul cv c (p_mul cv r (gen_B_blinding cv)))
            (p_add cv (p_mul cv y_x (gen_B cv)) (p_mul cv y_r (gen_B_blinding cv)))"])
       (simp_all add: norm p_sub_identity_iff [OF cv] p_ac [OF cv])
qed

lemma eq_forge:
  assumes cv: "curve_laws cv" and cl: "codec_laws cv" and bf: "bf \<noteq> s_zero cv"
    and key: "public_key_new cv s = Some P" and ct: "decrypt_to_point cv s ct = p_mul cv x (gen_B cv)"
    and id: "\<forall>p \<in> set (eq_honest_points cv masks P ct). \<not> is_identity (p_compress cv p)"
    and ch: "challenges M (eq_points (fst (eq_proof_new_with_scalar cv M masks \<lparr>kp_public = P, kp_private = s\<rparr>
      ct r x t))) (equality_proof_domain_separator t) = (c, w, t')"
    and w: "s_add cv (s_one cv) w \<noteq> s_zero cv"
  shows "eq_accepts cv M bf (fst (eq_proof_new_with_scalar cv M masks \<lparr>kp_public = P, kp_private = s\<rparr>
      ct r (forged_amount cv w x x') t)) P ct (gens_commit cv x' r) t"
    (is "eq_accepts cv M bf ?pf P ct _ t")
proof -
  obtain y_s y_x y_r where m: "masks = (y_s, y_x, y_r)" by (rule prod_cases3)
  let ?Y0 = "p_mul cv y_s P" and ?Y1 = "p_add cv (p_mul cv y_x (gen_B cv)) (p_mul cv y_s (handle ct))"
    and ?Y2 = "gens_commit cv y_x y_r" and ?v = "forged_amount cv w x x'" and ?G = "gen_B cv"
  have ch': "challenges M (eq_points ?pf) (equality_proof_domain_separator t) = (c, w, t')"
    using ch by (simp only: eq_prover_points)
  have pf: "?pf = \<lparr>eq_Y_0 = p_compress cv ?Y0, eq_Y_1 = p_compress cv ?Y1, eq_Y_2 = p_compress cv ?Y2,
      eq_z_s = s_add cv (s_mul cv c s) y_s, eq_z_x = s_add cv (s_mul cv c ?v) y_x,
      eq_z_r = s_add cv (s_mul cv c r) y_r\<rparr>"
    using ch' by (auto simp: eq_proof_new_with_scalar_def m Let_def append_point_def append_message_def
        challenges_def eq_points_def split: prod.splits)
  have Y: "p_decompress cv (p_compress cv p) = Some p" for p
    using cl by (simp add: codec_laws_def)
  have ok: "\<forall>p \<in> set (eq_points ?pf). \<not> is_identity (snd p)"
    using id by (simp add: eq_prover_points m eq_honest_points_def)
  let ?A = "p_sub cv (p_mul cv ?v ?G) (p_mul cv x ?G)" and ?B = "p_sub cv (p_mul cv ?v ?G) (p_mul cv x' ?G)"
  have "p_add cv ?A (p_mul cv w ?B) = p_identity cv"
    using forged_amount_mul [OF cv w, of x x' ?G] p_sub_self [OF cv]
    by (simp add: p_mul_sub [OF cv] p_sub_add_distrib [OF cv, symmetric])
  then have "p_mul cv (s_mul cv w c) (p_add cv ?A (p_mul cv w ?B)) = p_identity cv"
    by (simp add: p_mul_identity [OF cv])
  then have "weighted cv w (eq_equations cv ?pf P ct (gens_commit cv x' r) c (?Y0, ?Y1, ?Y2)) = p_identity cv"
    unfolding pf eq_forged_equations [OF cv key ct]
    by (simp add: weighted_def p_identity_left [OF cv] curve_rules(5,8) [OF cv] p_mul_commute [OF cv, of c w])
  then show ?thesis
    unfolding eq_accepts_iff [OF cv bf] using ok ch' by (intro conjI exI) (simp_all add: pf Y)
qed

text \<open>
  C21: what the check of an equality proof establishes, and what not. A proof is accepted exactly when
  its points are no identities, decompress, and its three equations vanish in the sum weighted with the
  weight \<open>w\<close> of the transcript. Answers that are accepted for three weights satisfy each equation, and
  such answers to two challenges for the same points give a secret key of the account, an amount and
  an opening: the ciphertext decrypts to the amount and the commitment opens to it. But the weight is
  known before the answers are given: the holder of the key, with a ciphertext of \<open>x\<close>, passes the
  verifier with a commitment to any \<open>x'\<close>, by running the prover of the code with another amount.
\<close>

theorem eq_proof_check:
  assumes cv: "curve_laws cv" and bf: "bf \<noteq> s_zero cv"
  shows "(eq_accepts cv M bf pf P ct C t \<longleftrightarrow>
      (\<forall>p \<in> set (eq_points pf). \<not> is_identity (snd p)) \<and>
      (\<exists>Y_0 Y_1 Y_2 c w t'. p_decompress cv (eq_Y_0 pf) = Some Y_0 \<and> p_decompress cv (eq_Y_1 pf) = Some Y_1 \<and>
         p_decompress cv (eq_Y_2 pf) = Some Y_2 \<and>
         challenges M (eq_points pf) (equality_proof_domain_separator t) = (c, w, t') \<and>
         weighted cv w (eq_equations cv pf P ct C c (Y_0, Y_1, Y_2)) = p_identity cv)) \<and>
    (distinct3 cv w1 w2 w3 \<and> s_sub cv c c' \<noteq> s_zero cv \<and> eq_points pf' = eq_points pf \<and>
       eq_answers cv bf pf P ct C t c {w1, w2, w3} \<and> eq_answers cv bf pf' P ct C t c' {w1, w2, w3} \<longrightarrow>
       (\<exists>s x r. p_mul cv s P = gen_B_blinding cv \<and> decrypt_to_point cv s ct = p_mul cv x (gen_B cv) \<and>
          C = commitment_new_with_opening cv x r)) \<and>
    (codec_laws cv \<and> public_key_new cv s = Some P \<and> decrypt_to_point cv s ct = p_mul cv x (gen_B cv) \<and>
       (\<forall>p \<in> set (eq_honest_points cv masks P ct). \<not> is_identity (p_compress cv p)) \<and>
       challenges M (eq_points (fst (eq_proof_new_with_scalar cv M masks \<lparr>kp_public = P, kp_private = s\<rparr>
         ct r x t))) (equality_proof_domain_separator t) = (c, w, t') \<and>
       s_add cv (s_one cv) w \<noteq> s_zero cv \<longrightarrow>
       eq_accepts cv M bf (fst (eq_proof_new_with_scalar cv M masks \<lparr>kp_public = P, kp_private = s\<rparr>
         ct r (forged_amount cv w x x') t)) P ct (commitment_new_with_opening cv x' r) t)"
  unfolding commitment_new_with_opening_def
  using eq_accepts_iff [OF cv bf, of M pf P ct C t] eq_answers_extract [OF cv bf, of w1 w2 w3 c c' pf' pf P ct C t]
    eq_forge [OF cv _ bf, of s P ct x masks M r t c w t' x'] by blast

text \<open>
  The field with three elements, acting on itself: the smallest with three weights. Its transcripts
  yield a given challenge and a given weight.
\<close>

definition three_curve :: "(3, 3) curve" where
  "three_curve = \<lparr>
     p_add = (+), p_sub = (-), p_identity = 0, p_mul = (*),
     p_compress = (\<lambda>a. replicate 32 (if a = 0 then 0 else if a = 1 then 1 else 2)),
     p_decompress = (\<lambda>bs. if bs = replicate 32 0 then Some 0
       else if bs = replicate 32 1 then Some 1 else if bs = replicate 32 2 then Some 2 else None),
     s_zero = 0, s_one = 1, s_add = (+), s_sub = (-), s_mul = (*), s_invert = (\<lambda>a. a),
     s_from = (\<lambda>n. of_nat (unat n)), s_bytes = (\<lambda>a. replicate 32 (if a = 0 then 0 else if a = 1 then 1 else 2)),
     s_from_canonical_bytes = (\<lambda>bs. if bs = replicate 32 0 then Some 0
       else if bs = replicate 32 1 then Some 1 else if bs = replicate 32 2 then Some 2 else None),
     s_hash = (\<lambda>bs. of_nat (length bs)), gen_B = 1, gen_B_blinding = 1, gens_commit = (+)\<rparr>"

lemma three_cases: "(a :: 3) = 0 \<or> a = 1 \<or> a = 2"
proof (cases a)
  case (of_int z)
  then have "z = 0 \<or> z = 1 \<or> z = 2" by auto
  then show ?thesis using of_int(1) by auto
qed

lemma three_neq: "(0 :: 3) \<noteq> 1" "(0 :: 3) \<noteq> 2" "(1 :: 3) \<noteq> 2" "(1 :: 3) \<noteq> 0" "(2 :: 3) \<noteq> 0" "(2 :: 3) \<noteq> 1"
  by simp_all

lemma three_curve_laws: "curve_laws three_curve"
proof -
  have "x \<noteq> 0 \<Longrightarrow> x * x = (1 :: 3)" for x using three_cases [of x] by auto
  then show ?thesis by (simp add: curve_laws_def three_curve_def algebra_simps)
qed

lemma three_curve_codec_laws: "codec_laws three_curve"
proof -
  have r: "replicate 32 (a :: u8) = replicate 32 b \<longleftrightarrow> a = b" for a b by (simp add: replicate_eq_replicate)
  have "x = 0 \<or> x = 1 \<or> x = 2" for x :: 3 by (rule three_cases)
  then show ?thesis by (auto simp: codec_laws_def three_curve_def r)
qed

definition three_merlin :: "u8 \<Rightarrow> u8 \<Rightarrow> 3 merlin" where
  "three_merlin c w = \<lparr>challenge_bytes = (\<lambda>t label n. replicate n (if label = ''c'' then c else w)),
     from_bytes_mod_order_wide = (\<lambda>bs. of_nat (unat (hd bs)))\<rparr>"

lemma three_challenges:
  "challenges (three_merlin c w) ps t = (of_nat (unat c), of_nat (unat w),
     t @ map (\<lambda>(label, p). AppendMessage label p) ps @ [ChallengeBytes ''c'' 64, ChallengeBytes ''w'' 64])"
  by (simp add: challenges_def challenge_scalar_def three_merlin_def)

text \<open>A key pair, an encryption of one, masks that avoid the identity, and the proofs for a challenge.\<close>

definition three_keys :: "(3, 3) keypair" where "three_keys = \<lparr>kp_public = 1, kp_private = 1\<rparr>"

definition three_ct :: "3 ciphertext" where "three_ct = encrypt_with_opening three_curve 1 1 1"

definition three_eq_proof :: "u8 \<Rightarrow> 3 commitment_eq_proof" where
  "three_eq_proof c = fst (eq_proof_new_with_scalar three_curve (three_merlin c 0) (1, 0, 1) three_keys three_ct 1 1
     (transcript_new ''t''))"

lemma three_key: "public_key_new three_curve 1 = Some 1"
  by (simp add: public_key_new_def three_curve_def)

lemma three_decrypt: "decrypt_to_point three_curve 1 three_ct = p_mul three_curve 1 (gen_B three_curve)"
  by (simp add: three_ct_def encrypt_with_opening_def decrypt_to_point_def decrypt_handle_def
      commitment_new_with_opening_def three_curve_def)

lemma three_points:
  "\<forall>p \<in> set (eq_honest_points three_curve (1, 0, 1) 1 three_ct). \<not> is_identity (p_compress three_curve p)"
proof -
  have "set (eq_honest_points three_curve (1, 0, 1) 1 three_ct) = {1}"
    by (simp add: eq_honest_points_def three_curve_def three_ct_def encrypt_with_opening_def decrypt_handle_def)
  then show ?thesis using replicate_32_neq by (simp add: is_identity_def three_curve_def)
qed

lemma three_eq_proof_weight:
  "three_eq_proof c = fst (eq_proof_new_with_scalar three_curve (three_merlin c w) (1, 0, 1) three_keys three_ct 1 1
     (transcript_new ''t''))"
  by (simp add: three_eq_proof_def eq_proof_new_with_scalar_def Let_def challenge_scalar_def three_merlin_def)

lemma three_eq_accepts:
  "eq_accepts three_curve (three_merlin c w) 1 (three_eq_proof c) 1 three_ct (gens_commit three_curve 1 1)
     (transcript_new ''t'')"
  unfolding three_eq_proof_weight [of c w]
  using eq_proof_complete [OF three_curve_laws three_curve_codec_laws three_key three_decrypt
      prod.collapse [symmetric] three_points batch_ok_simps(1) [of three_curve], where M = "three_merlin c w" and t = "transcript_new ''t''" and bf = 1 and r = 1]
  by (auto simp: eq_accepts_def three_keys_def batch_verify_value [OF three_curve_laws]
      batch_default_value [OF three_curve_laws])

lemma three_weights: "w \<in> {0, 1, 2} \<Longrightarrow> \<exists>v. (w :: 3) = of_nat (unat (v :: u8))"
  by (auto intro: exI [of _ 0] exI [of _ 1] exI [of _ 2])

lemma three_eq_answers:
  "eq_answers three_curve 1 (three_eq_proof c) 1 three_ct (gens_commit three_curve 1 1) (transcript_new ''t'')
     (of_nat (unat c)) {0, 1, 2}"
  unfolding eq_answers_def by (metis three_challenges three_eq_accepts three_weights)

theorem eq_proof_check_witness:
  "(\<exists>s x r. p_mul three_curve s 1 = gen_B_blinding three_curve \<and>
      decrypt_to_point three_curve s three_ct = p_mul three_curve x (gen_B three_curve) \<and>
      gens_commit three_curve 1 1 = commitment_new_with_opening three_curve x r) \<and>
   eq_accepts three_curve (three_merlin 1 1) 1 (fst (eq_proof_new_with_scalar three_curve (three_merlin 1 1) (1, 0, 1)
     \<lparr>kp_public = 1, kp_private = 1\<rparr> three_ct 1 (forged_amount three_curve 1 1 2) (transcript_new ''t''))) 1 three_ct
     (commitment_new_with_opening three_curve 2 1) (transcript_new ''t'')"
proof -
  let ?t = "transcript_new ''t''" and ?kp = "\<lparr>kp_public = 1, kp_private = 1\<rparr> :: (3, 3) keypair"
  have bf: "(1 :: 3) \<noteq> s_zero three_curve" by (simp add: three_curve_def)
  have w: "distinct3 three_curve 0 1 2" "s_sub three_curve 0 1 \<noteq> s_zero three_curve"
    "s_add three_curve (s_one three_curve) 1 \<noteq> s_zero three_curve"
    by (simp_all add: distinct3_def three_curve_def)
  have pts: "eq_points (three_eq_proof 1) = eq_points (three_eq_proof 0)"
    by (simp add: three_eq_proof_def eq_prover_points)
  have ch: "\<exists>t'. challenges (three_merlin 1 1) (eq_points (fst (eq_proof_new_with_scalar three_curve (three_merlin 1 1)
      (1, 0, 1) ?kp three_ct 1 1 ?t))) (equality_proof_domain_separator ?t) = (1, 1, t')"
    by (simp add: three_challenges)
  note open_C = eq_proof_check [OF three_curve_laws bf, THEN conjunct2, THEN conjunct1, rule_format]
  note forge = eq_proof_check [OF three_curve_laws bf, THEN conjunct2, THEN conjunct2, rule_format]
  have "\<exists>s x r. p_mul three_curve s 1 = gen_B_blinding three_curve \<and>
      decrypt_to_point three_curve s three_ct = p_mul three_curve x (gen_B three_curve) \<and>
      gens_commit three_curve 1 1 = commitment_new_with_opening three_curve x r"
    using w pts three_eq_answers [of 0] three_eq_answers [of 1]
    by (intro open_C [of 0 1 2 0 1 "three_eq_proof 1" "three_eq_proof 0"]) simp
  then show ?thesis
    using ch w three_curve_codec_laws three_key three_decrypt three_points by (blast intro: forge)
qed

lemma validity_answers_equations:
  assumes cv: "curve_laws cv" and bf: "bf \<noteq> s_zero cv" and w: "distinct3 cv w1 w2 w3"
    and ans: "validity_answers cv bf pf C P_dest P_source D_dest D_source check t c {w1, w2, w3}"
    and Y: "p_decompress cv (vp_Y_0 pf) = Some Y_0" "p_decompress cv (vp_Y_1 pf) = Some Y_1"
      "Option.bind (vp_Y_2 pf) (p_decompress cv) = Y_2"
  shows "validity_equations cv pf C P_dest D_dest c (Y_0, Y_1) = (p_identity cv, p_identity cv) \<and>
    source_equation cv pf P_source D_source c Y_2 = p_identity cv"
proof -
  obtain E_0 E_1 where E: "validity_equations cv pf C P_dest D_dest c (Y_0, Y_1) = (E_0, E_1)"
    by (rule prod.exhaust)
  have Y2: "(case vp_Y_2 pf of None \<Rightarrow> Z = None | Some Y \<Rightarrow> p_decompress cv Y = Z \<and> Z \<noteq> None) \<Longrightarrow> Z = Y_2" for Z
    using Y(3) by (cases "vp_Y_2 pf") auto
  have "\<forall>w \<in> {w1, w2, w3}. weighted cv w (p_mul cv bf E_0, p_mul cv bf E_1,
      source_equation cv pf P_source D_source c Y_2) = p_identity cv"
    using ans Y2 by (fastforce simp: validity_answers_def validity_accepts_iff [OF cv] Y(1,2) E)
  from weighted_three_roots [OF cv w this] show ?thesis by (simp add: E p_mul_cancel [OF cv bf])
qed

lemma validity_answers_points:
  assumes "curve_laws cv" "validity_answers cv bf pf C P_dest P_source D_dest D_source check t c {w1, w2, w3}"
  obtains Y_0 Y_1 where "p_decompress cv (vp_Y_0 pf) = Some Y_0" "p_decompress cv (vp_Y_1 pf) = Some Y_1"
    "Option.bind (vp_Y_2 pf) (p_decompress cv) \<noteq> None \<longleftrightarrow> check"
  using assms by (auto simp: validity_answers_def validity_accepts_iff split: option.splits)

lemma validity_answers_extract:
  assumes cv: "curve_laws cv" and bf: "bf \<noteq> s_zero cv" and w: "distinct3 cv w1 w2 w3"
    and c: "s_sub cv c c' \<noteq> s_zero cv"
    and same: "vp_Y_0 pf' = vp_Y_0 pf" "vp_Y_1 pf' = vp_Y_1 pf" "vp_Y_2 pf' = vp_Y_2 pf"
    and ans: "validity_answers cv bf pf C P_dest P_source D_dest D_source check t c {w1, w2, w3}"
      "validity_answers cv bf pf' C P_dest P_source D_dest D_source check t c' {w1, w2, w3}"
  shows "\<exists>x r. C = gens_commit cv x r \<and> D_dest = decrypt_handle cv P_dest r \<and>
    (check \<longrightarrow> D_source = decrypt_handle cv P_source r)"
proof -
  obtain Y_0 Y_1 where Y: "p_decompress cv (vp_Y_0 pf) = Some Y_0" "p_decompress cv (vp_Y_1 pf) = Some Y_1"
    and ck: "Option.bind (vp_Y_2 pf) (p_decompress cv) \<noteq> None \<longleftrightarrow> check"
    by (rule validity_answers_points [OF cv ans(1)])
  have E: "validity_equations cv pf C P_dest D_dest c (Y_0, Y_1) = (p_identity cv, p_identity cv) \<and>
      source_equation cv pf P_source D_source c (Option.bind (vp_Y_2 pf) (p_decompress cv)) = p_identity cv"
    by (rule validity_answers_equations [OF cv bf w ans(1) Y refl])
  have E': "validity_equations cv pf' C P_dest D_dest c' (Y_0, Y_1) = (p_identity cv, p_identity cv) \<and>
      source_equation cv pf' P_source D_source c' (Option.bind (vp_Y_2 pf) (p_decompress cv)) = p_identity cv"
    by (rule validity_answers_equations [OF cv bf w ans(2)]) (simp_all add: same Y)
  from validity_extract [OF cv c E [THEN conjunct1] E' [THEN conjunct1] E [THEN conjunct2] E' [THEN conjunct2]] ck
  show ?thesis by blast
qed

text \<open>
  C22: a validity proof is accepted exactly when its points are no identities, decompress, the point of
  the sender is there when it has to be, and the equations vanish in the weighted sum, where the one for
  the sender's handle has no batch factor. Answers that are accepted for three weights, to two
  challenges for the same points, give an amount and an opening of the commitment with which the
  handle of the receiver was made, and with the same opening the one of the sender when it is checked.
\<close>

theorem validity_proof_sound:
  assumes cv: "curve_laws cv" and bf: "bf \<noteq> s_zero cv"
  shows "(validity_accepts cv M bf pf C P_dest P_source D_dest D_source check t \<longleftrightarrow>
      (\<forall>p \<in> set (validity_points pf check). \<not> is_identity (snd p)) \<and>
      (\<exists>Y_0 Y_1 Y_2 c w t' E_0 E_1. p_decompress cv (vp_Y_0 pf) = Some Y_0 \<and>
         p_decompress cv (vp_Y_1 pf) = Some Y_1 \<and>
         (case vp_Y_2 pf of None \<Rightarrow> Y_2 = None | Some Y \<Rightarrow> p_decompress cv Y = Y_2 \<and> Y_2 \<noteq> None) \<and>
         (Y_2 \<noteq> None) = check \<and>
         challenges M (validity_points pf check) (ciphertext_validity_proof_domain_separator t) = (c, w, t') \<and>
         validity_equations cv pf C P_dest D_dest c (Y_0, Y_1) = (E_0, E_1) \<and>
         weighted cv w (p_mul cv bf E_0, p_mul cv bf E_1, source_equation cv pf P_source D_source c Y_2) =
           p_identity cv)) \<and>
    (distinct3 cv w1 w2 w3 \<and> s_sub cv c c' \<noteq> s_zero cv \<and>
       vp_Y_0 pf' = vp_Y_0 pf \<and> vp_Y_1 pf' = vp_Y_1 pf \<and> vp_Y_2 pf' = vp_Y_2 pf \<and>
       validity_answers cv bf pf C P_dest P_source D_dest D_source check t c {w1, w2, w3} \<and>
       validity_answers cv bf pf' C P_dest P_source D_dest D_source check t c' {w1, w2, w3} \<longrightarrow>
       (\<exists>x r. C = commitment_new_with_opening cv x r \<and> D_dest = decrypt_handle cv P_dest r \<and>
          (check \<longrightarrow> D_source = decrypt_handle cv P_source r)))"
  unfolding commitment_new_with_opening_def
  using validity_accepts_iff [OF cv, of M bf pf C P_dest P_source D_dest D_source check t]
    validity_answers_extract [OF cv bf, of w1 w2 w3 c c' pf' pf C P_dest P_source D_dest D_source check t]
  by (intro conjI impI) (assumption, blast)

definition three_validity :: "u8 \<Rightarrow> 3 ciphertext_validity_proof" where
  "three_validity c = fst (validity_proof_new three_curve (three_merlin c 0) (1, 0) 1 (Some 1) 1 1
     (transcript_new ''t''))"

lemma three_validity_weight:
  "three_validity c = fst (validity_proof_new three_curve (three_merlin c w) (1, 0) 1 (Some 1) 1 1
     (transcript_new ''t''))"
  by (simp add: three_validity_def validity_proof_new_def Let_def challenge_scalar_def three_merlin_def)

lemma three_validity_accepts:
  "validity_accepts three_curve (three_merlin c w) 1 (three_validity c)
     (gens_commit three_curve (s_from three_curve 1) 1) 1 1 (decrypt_handle three_curve 1 1)
     (decrypt_handle three_curve 1 1) True (transcript_new ''t'')"
proof -
  have "\<forall>p \<in> set ([gens_commit three_curve 0 1, p_mul three_curve 1 1] @
      (case Some 1 of None \<Rightarrow> [] | Some P \<Rightarrow> [p_mul three_curve 1 P])). \<not> is_identity (p_compress three_curve p)"
    using replicate_32_neq by (simp add: is_identity_def three_curve_def)
  from validity_proof_complete [where M = "three_merlin c w" and t = "transcript_new ''t''" and amount = 1 and
      r = 1 and bf = 1 and P_source = 1 and b = "batch_default three_curve",
      OF three_curve_laws three_curve_codec_laws prod.collapse [symmetric] this]
  show ?thesis
    by (auto simp: three_validity_weight [of c w] validity_accepts_def batch_verify_value [OF three_curve_laws]
        batch_default_value [OF three_curve_laws])
qed

lemma three_validity_answers:
  "validity_answers three_curve 1 (three_validity c)
     (gens_commit three_curve (s_from three_curve 1) 1) 1 1 (decrypt_handle three_curve 1 1)
     (decrypt_handle three_curve 1 1) True (transcript_new ''t'') (of_nat (unat c)) {0, 1, 2}"
  unfolding validity_answers_def by (metis three_challenges three_validity_accepts three_weights)

theorem validity_proof_sound_witness:
  "\<exists>x r. gens_commit three_curve (s_from three_curve 1) 1 = commitment_new_with_opening three_curve x r \<and>
     decrypt_handle three_curve 1 1 = decrypt_handle three_curve 1 r"
proof -
  have bf: "(1 :: 3) \<noteq> s_zero three_curve" by (simp add: three_curve_def)
  have w: "distinct3 three_curve 0 1 2" "s_sub three_curve 0 1 \<noteq> s_zero three_curve"
    by (simp_all add: distinct3_def three_curve_def)
  have pts: "vp_Y_0 (three_validity 1) = vp_Y_0 (three_validity 0)" "vp_Y_1 (three_validity 1) = vp_Y_1 (three_validity 0)"
    "vp_Y_2 (three_validity 1) = vp_Y_2 (three_validity 0)"
    by (simp_all add: three_validity_def validity_proof_new_def Let_def challenge_scalar_def)
  have "\<exists>x r. gens_commit three_curve (s_from three_curve 1) 1 = commitment_new_with_opening three_curve x r \<and>
     decrypt_handle three_curve 1 1 = decrypt_handle three_curve 1 r \<and>
     (True \<longrightarrow> decrypt_handle three_curve 1 1 = decrypt_handle three_curve 1 r)"
    using w pts three_validity_answers [of 0] three_validity_answers [of 1]
    by (intro validity_proof_sound [OF three_curve_laws bf, THEN conjunct2, rule_format,
        of 0 1 2 0 1 "three_validity 1" "three_validity 0"]) simp
  then show ?thesis by blast
qed

text \<open>A transcript whose challenges are constant, for the examples.\<close>

definition sample_merlin :: "bool merlin" where
  "sample_merlin = \<lparr>challenge_bytes = (\<lambda>t label n. replicate n 1),
     from_bytes_mod_order_wide = (\<lambda>bs. bs \<noteq> [])\<rparr>"

text \<open>With the secret \<open>True\<close>, an encryption of one and masks that avoid the identity.\<close>

definition sample_ct :: "bool ciphertext" where
  "sample_ct = encrypt_with_opening two_curve True True False"

definition sample_eq_proof :: "bool commitment_eq_proof" where
  "sample_eq_proof = fst (eq_proof_new_with_scalar two_curve sample_merlin (True, True, False)
     \<lparr>kp_public = True, kp_private = True\<rparr> sample_ct True True (transcript_new ''t''))"

lemma sample_not_identity: "\<not> is_identity (p_compress two_curve True)"
  using replicate_32_neq by (simp add: is_identity_def two_curve_def)

lemma sample_decrypt: "decrypt_to_point two_curve True sample_ct = p_mul two_curve True (gen_B two_curve)"
  by (simp add: sample_ct_def encrypt_with_opening_def decrypt_to_point_def decrypt_handle_def
      commitment_new_with_opening_def two_curve_def)

lemma sample_eq_points:
  "\<forall>p \<in> set (eq_honest_points two_curve (True, True, False) True sample_ct).
     \<not> is_identity (p_compress two_curve p)"
proof -
  have "set (eq_honest_points two_curve (True, True, False) True sample_ct) = {True}"
    by (simp add: eq_honest_points_def two_curve_def sample_ct_def encrypt_with_opening_def decrypt_handle_def)
  then show ?thesis using sample_not_identity by simp
qed

section \<open>Balance and ownership proofs verify\<close>

text \<open>What is documented of the conversion of integers to scalars.\<close>

definition u64_laws :: "('p, 's) curve \<Rightarrow> bool" where
  "u64_laws cv \<longleftrightarrow> s_from cv 0 = s_zero cv \<and>
     (\<forall>a b. b \<le> a \<longrightarrow> s_from cv (a - b) = s_sub cv (s_from cv a) (s_from cv b))"

lemma decrypt_spent:
  assumes cv: "curve_laws cv" and key: "public_key_new cv s = Some P"
    and ct: "decrypt_to_point cv s ct = p_mul cv x (gen_B cv)"
  shows "decrypt_to_point cv s (ciphertext_sub cv ct (encrypt_with_opening cv P y r)) =
    p_mul cv (s_sub cv x y) (gen_B cv)"
proof -
  have "decrypt_to_point cv s (encrypt_with_opening cv P y r) = p_mul cv y (gen_B cv)"
    using p_mul_commute [OF cv, of s r P] public_key_new_mul [OF cv key]
    by (simp add: decrypt_to_point_def encrypt_with_opening_def commitment_new_with_opening_def
        decrypt_handle_def curve_rules(12) [OF cv] p_sub_eq_iff [OF cv])
  then show ?thesis
    using ct by (simp add: decrypt_to_point_def ciphertext_sub_def p_mul_sub [OF cv]
        p_sub_sub_distrib [OF cv] curve_rules(7) [OF cv])
qed

definition spent_ct :: "('p, 's) curve \<Rightarrow> 'p \<Rightarrow> u64 \<Rightarrow> 'p ciphertext \<Rightarrow> 'p ciphertext" where
  "spent_ct cv P amount ct =
     ciphertext_sub cv ct (encrypt_with_opening cv P (s_from cv amount) (PROOF_OPENING cv))"

lemma balance_proof_verifies:
  assumes cv: "curve_laws cv" and cl: "codec_laws cv" and u: "u64_laws cv" and key: "public_key_new cv s = Some P"
    and ct: "decrypt_to_point cv s ct = p_mul cv (s_from cv amount) (gen_B cv)"
    and id: "\<forall>p \<in> set (eq_honest_points cv masks P (spent_ct cv P amount ct)). \<not> is_identity (p_compress cv p)"
  shows "balance_proof_verify cv M bf
    (balance_proof_new cv M masks \<lparr>kp_public = P, kp_private = s\<rparr> amount ct) P ct = Some (Inr ())"
proof -
  let ?z = "spent_ct cv P amount ct" and ?kp = "\<lparr>kp_public = P, kp_private = s\<rparr>"
  define t where "t = append_ciphertext ''source_ct'' (ciphertext_compress cv ct) (append_u64 ''amount'' amount
      (balance_proof_domain_separator (transcript_new ''balance_proof'')))"
  obtain pf t' where new: "eq_proof_new_with_scalar cv M masks ?kp ?z (PROOF_OPENING cv) (s_zero cv) t = (pf, t')"
    by (rule prod.exhaust)
  have "p_mul cv (s_sub cv (s_from cv amount) (s_from cv amount)) (gen_B cv) = p_mul cv (s_zero cv) (gen_B cv)"
    by (simp add: curve_rules(7) [OF cv] p_sub_self [OF cv] p_mul_zero [OF cv])
  then have z: "decrypt_to_point cv s ?z = p_mul cv (s_zero cv) (gen_B cv)"
    using decrypt_spent [OF cv key ct, of "s_from cv amount"] by (simp add: spent_ct_def)
  from eq_proof_complete [OF cv cl key z new id batch_ok_simps(1) [of cv], of bf]
  obtain b' where "eq_proof_pre_verify cv M bf pf P ?z (gens_commit cv (s_zero cv) (PROOF_OPENING cv)) t
      (batch_default cv) = Inr (t', b')" "batch_ok b'" "batch_value cv b' = p_identity cv"
    by (auto simp: batch_default_value [OF cv])
  moreover have "balance_proof_new cv M masks ?kp amount ct = \<lparr>bal_amount = amount, bal_eq_proof = pf\<rparr>"
    using new u by (simp add: balance_proof_new_def balance_proof_prove_def Let_def eq_proof_new_def t_def
        spent_ct_def u64_laws_def)
  ultimately show ?thesis
    by (simp add: balance_proof_verify_def balance_proof_pre_verify_def Let_def t_def spent_ct_def
        commitment_new_with_opening_def batch_check_def batch_verify_value [OF cv])
qed

lemma ownership_proof_verifies:
  assumes cv: "curve_laws cv" and cl: "codec_laws cv" and u: "u64_laws cv" and R: "single_proof_laws cv R"
    and key: "public_key_new cv s = Some P"
    and ct: "decrypt_to_point cv s ct = p_mul cv (s_from cv balance) (gen_B cv)"
    and id: "\<forall>p \<in> set (eq_honest_points cv masks P (spent_ct cv P amount ct)). \<not> is_identity (p_compress cv p)"
  shows "case ownership_proof_prove cv M R masks r \<lparr>kp_public = P, kp_private = s\<rparr> balance amount ct
       (transcript_new ''ownership_proof'') of
       None \<Rightarrow> False
     | Some (Inl e) \<Rightarrow> amount = 0 \<or> balance < amount \<or> e = GenerationRangeProof
     | Some (Inr (pf, t')) \<Rightarrow> 0 < amount \<and> amount \<le> balance \<and>
         ownership_proof_verify cv M R bf pf P ct = Some (Inr ())"
proof -
  let ?z = "spent_ct cv P amount ct" and ?kp = "\<lparr>kp_public = P, kp_private = s\<rparr>"
  let ?C = "gens_commit cv (s_from cv (balance - amount)) r"
  define com where "com = p_compress cv ?C"
  define t where "t = append_ciphertext ''source_ct'' (ciphertext_compress cv ct) (append_commitment ''commitment''
      com (append_u64 ''amount'' amount (ownership_proof_domain_separator (transcript_new ''ownership_proof''))))"
  obtain pf t' where new: "eq_proof_new_with_scalar cv M masks ?kp ?z r (s_from cv (balance - amount)) t = (pf, t')"
    by (rule prod.exhaust)
  note defs = ownership_proof_prove_def Let_def eq_proof_new_def t_def spent_ct_def com_def
    commitment_new_with_opening_def
  show ?thesis
  proof (cases "amount = 0 \<or> balance < amount \<or> prove_single R t' (balance - amount) r BULLET_PROOF_SIZE = None")
    case True
    then show ?thesis using new by (auto simp: defs)
  next
    case False
    then obtain rp com' t2 where
      rp: "prove_single R t' (balance - amount) r BULLET_PROOF_SIZE = Some ((rp, com'), t2)" by auto
    have v: "com' = com" "verify_single R rp t' (?C, com) BULLET_PROOF_SIZE = Some t2"
      using R rp unfolding single_proof_laws_def com_def by blast+
    have "decrypt_to_point cv s ?z = p_mul cv (s_from cv (balance - amount)) (gen_B cv)"
      using decrypt_spent [OF cv key ct, of "s_from cv amount"] u False
      by (simp add: spent_ct_def u64_laws_def not_less)
    from eq_proof_complete [OF cv cl key this new id batch_ok_simps(1) [of cv], of bf]
    obtain b' where b': "eq_proof_pre_verify cv M bf pf P ?z ?C t (batch_default cv) = Inr (t', b')"
      "batch_ok b'" "batch_value cv b' = p_identity cv"
      by (auto simp: batch_default_value [OF cv])
    have "ownership_proof_prove cv M R masks r ?kp balance amount ct (transcript_new ''ownership_proof'') =
        Some (Inr (\<lparr>own_amount = amount, own_commitment = com, own_eq_proof = pf, own_range_proof = rp\<rparr>, t2))"
      using new False rp v(1) by (simp add: defs)
    moreover have "point_decompress cv com = Inr ?C"
      using cl by (simp add: point_decompress_def com_def codec_laws_def)
    ultimately show ?thesis
      using False b' v(2)
      by (auto simp: ownership_proof_verify_def ownership_proof_pre_verify_def Let_def t_def [symmetric]
          spent_ct_def [symmetric] batch_check_def batch_verify_value [OF cv] word_gt_0)
  qed
qed

text \<open>
  C23: honest proofs verify: the proof of a balance made by the owner of the account for the amount
  that the ciphertext holds, and every proof of ownership that the owner makes of a part of it, are
  accepted, whatever the random masks, openings and batch factors are (unless a mask gives the
  identity point, which verification refuses).
\<close>

theorem honest_proofs_verify:
  assumes cv: "curve_laws cv" and cl: "codec_laws cv" and u: "u64_laws cv" and R: "single_proof_laws cv R"
    and key: "public_key_new cv s = Some P"
    and ct: "decrypt_to_point cv s ct = p_mul cv (s_from cv balance) (gen_B cv)"
    and id: "\<And>a. \<forall>p \<in> set (eq_honest_points cv masks P (spent_ct cv P a ct)). \<not> is_identity (p_compress cv p)"
  shows "balance_proof_verify cv M bf
      (balance_proof_new cv M masks \<lparr>kp_public = P, kp_private = s\<rparr> balance ct) P ct = Some (Inr ()) \<and>
    (\<forall>amount r. case ownership_proof_prove cv M R masks r \<lparr>kp_public = P, kp_private = s\<rparr> balance
        amount ct (transcript_new ''ownership_proof'') of
       None \<Rightarrow> False
     | Some (Inl e) \<Rightarrow> amount = 0 \<or> balance < amount \<or> e = GenerationRangeProof
     | Some (Inr (pf, t')) \<Rightarrow> 0 < amount \<and> amount \<le> balance \<and>
         ownership_proof_verify cv M R bf pf P ct = Some (Inr ()))"
  using balance_proof_verifies [OF cv cl u key ct id] ownership_proof_verifies [OF cv cl u R key ct id]
  by blast

definition sample_range :: "(bool, bool, bool) bulletproofs" where
  "sample_range = \<lparr>prove_single = (\<lambda>t v r n. Some ((True, p_compress two_curve (gens_commit two_curve (s_from two_curve v) r)), t)),
     verify_single = (\<lambda>p t c n. Some t), verify_multiple = (\<lambda>p t cs n. p), range_verify_batch = list_all fst\<rparr>"

lemma two_curve_u64_laws: "u64_laws two_curve"
  by (simp add: u64_laws_def two_curve_def)

lemma sample_range_laws: "single_proof_laws two_curve sample_range"
  by (simp add: single_proof_laws_def sample_range_def)

theorem honest_proofs_verify_witness:
  "balance_proof_verify two_curve sample_merlin True (balance_proof_new two_curve sample_merlin (True, True, False)
     \<lparr>kp_public = True, kp_private = True\<rparr> 7 (encrypt_with_opening two_curve True (s_from two_curve 7) True)) True
     (encrypt_with_opening two_curve True (s_from two_curve 7) True) = Some (Inr ())"
proof -
  let ?ct = "encrypt_with_opening two_curve True (s_from two_curve 7) True"
  have "decrypt_to_point two_curve True ?ct = p_mul two_curve (s_from two_curve 7) (gen_B two_curve)"
    by (simp add: encrypt_with_opening_def decrypt_to_point_def decrypt_handle_def
        commitment_new_with_opening_def two_curve_def)
  moreover have "set (eq_honest_points two_curve (True, True, False) True (spent_ct two_curve True a ?ct)) = {True}" for a
    by (simp add: eq_honest_points_def two_curve_def spent_ct_def ciphertext_sub_def encrypt_with_opening_def
        decrypt_handle_def PROOF_OPENING_def)
  ultimately show ?thesis
    using honest_proofs_verify [OF two_curve_laws two_curve_codec_laws two_curve_u64_laws sample_range_laws
        two_curve_key, of ?ct 7 "(True, True, False)" sample_merlin True] sample_not_identity by auto
qed

section \<open>Serialized form\<close>

interpretation balance_proof_in: codec_in "write_balance_proof cv" "read_balance_proof cv"
  "\<lambda>p. eq_proof_ok (bal_eq_proof p)" "\<lambda>_. codec_laws cv" for cv :: "('p, 's) curve"
proof
  fix c
  assume cv: "codec_laws cv"
  show "yields c (read_balance_proof cv) (\<lambda>p. eq_proof_ok (bal_eq_proof p))"
    unfolding read_balance_proof_def
    by (intro yields_bind [OF u64_codec.in_context.yields_in] yields_bind [OF eq_proof_in.yields_in [OF cv]]
        yields_return) simp_all
qed (simp add: read_balance_proof_def write_balance_proof_def eq_proof_in.read_write_in)

interpretation ownership_proof_in: codec_in "write_ownership_proof L" "read_ownership_proof L"
  "\<lambda>p. point_ok (own_commitment p) \<and> eq_proof_ok (own_eq_proof p) \<and> range_proof_ok L (own_range_proof p)"
  "tx_env L v" for L :: "('p, 's, 'r, 'o, 't) libs" and v
proof
  fix c
  assume env: "tx_env L v c"
  then have cv: "codec_laws (lib_curve L)"
    and rp: "\<forall>bs p. rp_from_bytes L bs = Some p \<longrightarrow> rp_to_bytes L p = bs"
    by (simp_all add: tx_env_def libs_laws_def)
  show "yields c (read_ownership_proof L)
      (\<lambda>p. point_ok (own_commitment p) \<and> eq_proof_ok (own_eq_proof p) \<and> range_proof_ok L (own_range_proof p))"
    unfolding read_ownership_proof_def
    by (intro yields_bind [OF u64_codec.in_context.yields_in] yields_bind [OF point_codec.in_context.yields_in]
        yields_bind [OF eq_proof_in.yields_in [OF cv]] yields_bind [OF range_proof_in.yields_in [OF rp]]
        yields_return) simp_all
qed (simp add: read_ownership_proof_def write_ownership_proof_def eq_proof_in.read_write_in
    range_proof_in.read_write_in point_codec.read_write tx_env_def libs_laws_def)

end
