(* ===== verification/Tx_State.thy ===== *)
theory Tx_State
  imports Sigma_Proofs
begin

text \<open>
  The interface between transactions and the state they run on (\<open>transaction/verify/state.rs\<close> and
  \<open>transaction/verify/error.rs\<close>).

  An operation that may fail returns its result and the state after it, also when it fails: an
  implementation that gave up half-way has kept what it had changed. The traits
  \<open>BlockchainVerificationState\<close> and \<open>BlockchainApplyState\<close> are records of operations. A method that
  hands out a mutable reference to a balance is two operations: one that finds the balance, and one
  that stores what was written through the reference.
\<close>

section \<open>Operations on a state\<close>

type_synonym ('st, 'e, 'a) action = "'st \<Rightarrow> ('e + 'a) \<times> 'st"

definition areturn :: "'a \<Rightarrow> ('st, 'e, 'a) action" where
  "areturn x st = (Inr x, st)"

definition afail :: "'e \<Rightarrow> ('st, 'e, 'a) action" where
  "afail e st = (Inl e, st)"

definition alift :: "'e + 'a \<Rightarrow> ('st, 'e, 'a) action" where
  "alift r st = (r, st)"

definition abind :: "('st, 'e, 'a) action \<Rightarrow> ('a \<Rightarrow> ('st, 'e, 'b) action) \<Rightarrow> ('st, 'e, 'b) action" where
  "abind m f st = (case m st of (Inl e, st') \<Rightarrow> (Inl e, st') | (Inr x, st') \<Rightarrow> f x st')"

definition aerr :: "('e \<Rightarrow> 'f) \<Rightarrow> ('st, 'e, 'a) action \<Rightarrow> ('st, 'f, 'a) action" where
  "aerr f m st = (case m st of (r, st') \<Rightarrow> (map_err f r, st'))"

definition aupdate :: "('st \<Rightarrow> 'st) \<Rightarrow> ('st, 'e, unit) action" where
  "aupdate f st = (Inr (), f st)"

definition aguard :: "bool \<Rightarrow> 'e \<Rightarrow> ('st, 'e, unit) action" where
  "aguard b e st = (if b then Inr () else Inl e, st)"

fun afor :: "('x \<Rightarrow> 'acc \<Rightarrow> ('st, 'e, 'acc) action) \<Rightarrow> 'x list \<Rightarrow> 'acc \<Rightarrow> ('st, 'e, 'acc) action" where
  "afor f [] acc = areturn acc"
| "afor f (x # xs) acc = abind (f x acc) (afor f xs)"

lemma action_simps [simp]:
  "areturn x st = (Inr x, st)" "afail e st = (Inl e, st)" "alift r st = (r, st)"
  "aupdate f st = (Inr (), f st)" "aguard True e st = (Inr (), st)" "aguard False e st = (Inl e, st)"
  by (simp_all add: areturn_def afail_def alift_def aupdate_def aguard_def)

lemma abind_Inr [result_simps]:
  "abind m f st = (Inr y, st') \<longleftrightarrow> (\<exists>x st1. m st = (Inr x, st1) \<and> f x st1 = (Inr y, st'))"
  by (auto simp: abind_def split: prod.splits sum.splits)

lemma aerr_Inr [result_simps]: "aerr f m st = (Inr x, st') \<longleftrightarrow> m st = (Inr x, st')"
  by (auto simp: aerr_def map_err_def split: prod.splits sum.splits)

lemma aguard_Inr [result_simps]: "aguard b e st = (Inr x, st') \<longleftrightarrow> b \<and> st' = st"
  by (auto simp: aguard_def)

text \<open>What holds of the result and the state after a successful operation, as a Hoare triple.\<close>

definition ensures ::
  "('st \<Rightarrow> bool) \<Rightarrow> ('st, 'e, 'a) action \<Rightarrow> ('a \<Rightarrow> 'st \<Rightarrow> bool) \<Rightarrow> bool" where
  "ensures P m Q \<longleftrightarrow> (\<forall>st x st'. P st \<longrightarrow> m st = (Inr x, st') \<longrightarrow> Q x st')"

lemma ensuresI: "(\<And>st x st'. P st \<Longrightarrow> m st = (Inr x, st') \<Longrightarrow> Q x st') \<Longrightarrow> ensures P m Q"
  by (simp add: ensures_def)

lemma ensuresD: "ensures P m Q \<Longrightarrow> P st \<Longrightarrow> m st = (Inr x, st') \<Longrightarrow> Q x st'"
  by (simp add: ensures_def)

lemma ensures_bind:
  "ensures P m R \<Longrightarrow> (\<And>x. ensures (R x) (f x) Q) \<Longrightarrow> ensures P (abind m f) Q"
  unfolding ensures_def abind_Inr by blast

lemma ensures_for:
  assumes "\<And>x acc. x \<in> set xs \<Longrightarrow> ensures (Q acc) (f x acc) Q"
  shows "ensures (Q acc) (afor f xs acc) Q"
  using assms
proof (induction xs arbitrary: acc)
  case Nil
  then show ?case by (auto intro!: ensuresI)
next
  case (Cons x xs)
  then show ?case by (auto intro!: ensures_bind)
qed

lemma ensures_conseq:
  "ensures P m Q \<Longrightarrow> (\<And>st. P' st \<Longrightarrow> P st) \<Longrightarrow> (\<And>x st. Q x st \<Longrightarrow> Q' x st) \<Longrightarrow> ensures P' m Q'"
  unfolding ensures_def by blast

section \<open>Errors\<close>

datatype 'e verification_error =
  State 'e
| InvalidNonce nonce nonce
| SenderIsReceiver
| InvalidSignature
| Proof proof_verification_error
| TransferExtraDataSize
| TransactionExtraDataSize
| TransferCount
| DepositCount
| Commitments
| MultiSigParticipants
| MultiSigThreshold
| MultiSigNotConfigured
| MultiSigNotFound
| InvalidFormat
| ModuleError
| AnyError
| InvalidInvokeContract
| GasOverflow
| DepositNotFound
| MaxGasReached
| ContractNotFound

section \<open>The state interfaces\<close>

record ('st, 'e, 'p, 's, 'r, 'o, 'env) verification_state =
  vs_pre_verify_tx :: "('s, 'r, 'o) transaction \<Rightarrow> ('st, 'e, unit) action"
  vs_get_receiver_balance :: "compressed_public_key \<Rightarrow> hash \<Rightarrow> ('st, 'e, 'p ciphertext) action"
  vs_put_receiver_balance :: "compressed_public_key \<Rightarrow> hash \<Rightarrow> 'p ciphertext \<Rightarrow> 'st \<Rightarrow> 'st"
  vs_get_sender_balance ::
    "compressed_public_key \<Rightarrow> hash \<Rightarrow> reference \<Rightarrow> ('st, 'e, 'p ciphertext) action"
  vs_put_sender_balance :: "compressed_public_key \<Rightarrow> hash \<Rightarrow> 'p ciphertext \<Rightarrow> 'st \<Rightarrow> 'st"
  vs_add_sender_output ::
    "compressed_public_key \<Rightarrow> hash \<Rightarrow> 'p ciphertext \<Rightarrow> ('st, 'e, unit) action"
  vs_get_account_nonce :: "compressed_public_key \<Rightarrow> ('st, 'e, nonce) action"
  vs_update_account_nonce :: "compressed_public_key \<Rightarrow> nonce \<Rightarrow> ('st, 'e, unit) action"
  vs_set_multisig_state :: "compressed_public_key \<Rightarrow> multisig_payload \<Rightarrow> ('st, 'e, unit) action"
  vs_get_multisig_state :: "compressed_public_key \<Rightarrow> ('st, 'e, multisig_payload option) action"
  vs_get_environment :: "('st, 'e, 'env) action"
  vs_set_contract_module :: "hash \<Rightarrow> 'o contract_module \<Rightarrow> ('st, 'e, unit) action"
  vs_load_contract_module :: "hash \<Rightarrow> ('st, 'e, bool) action"
  vs_get_contract_module_with_environment :: "hash \<Rightarrow> ('st, 'e, 'o contract_module \<times> 'env) action"

datatype contract_output =
  RefundGas u64
| OutputTransfer u64 hash compressed_public_key
| OutputMint hash u64
| OutputBurn hash u64
| NewAsset hash
| ExitCode "u64 option"
| RefundDeposits

text \<open>\<open>'cs\<close> is the contract's \<open>ChainState\<close>: its cache, tracker, assets and outputs.\<close>

record ('st, 'e, 'p, 's, 'r, 'o, 'env, 'cs) apply_state =
  "('st, 'e, 'p, 's, 'r, 'o, 'env) verification_state" +
  as_add_burned_coins :: "u64 \<Rightarrow> ('st, 'e, unit) action"
  as_add_gas_fee :: "u64 \<Rightarrow> ('st, 'e, unit) action"
  as_set_contract_outputs :: "hash \<Rightarrow> contract_output list \<Rightarrow> ('st, 'e, unit) action"
  as_get_contract_environment_for :: "hash \<Rightarrow> 's deposits \<Rightarrow> hash \<Rightarrow> ('st, 'e, 'cs) action"
  as_merge_contract_changes :: "hash \<Rightarrow> 'cs \<Rightarrow> ('st, 'e, unit) action"
  as_remove_contract_module :: "hash \<Rightarrow> ('st, 'e, unit) action"

end
