(* ===== verification/Difficulty.thy ===== *)
theory Difficulty
  imports Versions "HOL-Library.Monad_Syntax"
begin

text \<open>
  256-bit difficulties: \<open>VarUint\<close> with its serializer (\<open>varuint.rs\<close>), the proof-of-work target
  (\<open>difficulty.rs\<close>) and the difficulty adjustment of the daemon (\<open>core/difficulty\<close>), a Kalman
  filter in unsigned integer arithmetic.

  \<open>U256\<close> is a \<open>256 word\<close>. Its operators panic on overflow, underflow and division by zero
  (a value of an option type, a panic is \<open>None\<close>), its shifts drop the bits shifted out.
\<close>

section \<open>256-bit arithmetic\<close>

type_synonym varuint = u256
type_synonym difficulty = varuint

definition u256_add :: "u256 \<Rightarrow> u256 \<Rightarrow> u256 option" where
  "u256_add a b = (if unat a + unat b < 2 ^ 256 then Some (a + b) else None)"

definition u256_sub :: "u256 \<Rightarrow> u256 \<Rightarrow> u256 option" where
  "u256_sub a b = (if b \<le> a then Some (a - b) else None)"

definition u256_mul :: "u256 \<Rightarrow> u256 \<Rightarrow> u256 option" where
  "u256_mul a b = (if unat a * unat b < 2 ^ 256 then Some (a * b) else None)"

definition u256_div :: "u256 \<Rightarrow> u256 \<Rightarrow> u256 option" where
  "u256_div a b = (if b = 0 then None else Some (a div b))"

definition u256_rem :: "u256 \<Rightarrow> u256 \<Rightarrow> u256 option" where
  "u256_rem a b = (if b = 0 then None else Some (a mod b))"

definition u256_shl :: "u256 \<Rightarrow> nat \<Rightarrow> u256" where
  "u256_shl a n = push_bit n a"

definition u256_shr :: "u256 \<Rightarrow> nat \<Rightarrow> u256" where
  "u256_shr a n = drop_bit n a"

definition varuint_from_u64 :: "u64 \<Rightarrow> varuint" where
  "varuint_from_u64 u = ucast u"

definition varuint_from_u128 :: "u128 \<Rightarrow> varuint" where
  "varuint_from_u128 u = ucast u"

definition u256_max_value :: u256 where
  "u256_max_value = - 1"

text \<open>
  Every operation on numbers that fit is the operation on natural numbers: with these rules a
  computation on \<open>of_nat\<close> arguments is rewritten to one on natural numbers, with the bounds as
  side conditions.
\<close>

lemma unat_u256 [simp]: "m < 2 ^ 256 \<Longrightarrow> unat (of_nat m :: u256) = m"
  by (simp add: unat_of_nat)

lemma u256_cases: obtains m where "m < 2 ^ 256" "(a :: u256) = of_nat m" "unat a = m"
proof
  show "unat a < 2 ^ 256" using unsigned_less [of a] by simp
qed simp_all

lemma u256_add_nat: "m + n < 2 ^ 256 \<Longrightarrow> u256_add (of_nat m) (of_nat n) = Some (of_nat (m + n))"
  by (simp add: u256_add_def)

lemma u256_sub_nat:
  "n \<le> m \<Longrightarrow> m < 2 ^ 256 \<Longrightarrow> u256_sub (of_nat m) (of_nat n) = Some (of_nat (m - n))"
  by (simp add: u256_sub_def word_le_nat_alt of_nat_diff)

lemma u256_mul_nat:
  "m * n < 2 ^ 256 \<Longrightarrow> m < 2 ^ 256 \<Longrightarrow> n < 2 ^ 256 \<Longrightarrow>
     u256_mul (of_nat m) (of_nat n) = Some (of_nat (m * n))"
  by (simp add: u256_mul_def)

lemma u256_div_nat:
  assumes "0 < n" "m < 2 ^ 256" "n < 2 ^ 256"
  shows "u256_div (of_nat m) (of_nat n) = Some (of_nat (m div n))"
proof -
  have "(of_nat n :: u256) \<noteq> 0"
    using assms by (metis unat_u256 unat_0 not_gr0)
  moreover have "(of_nat m :: u256) div of_nat n = of_nat (m div n)"
    using assms le_less_trans [OF div_le_dividend [of m n] assms(2)]
    by (intro word_unat_eq_iff [THEN iffD2]) (simp add: unat_div)
  ultimately show ?thesis by (simp add: u256_div_def)
qed

lemma u256_shr_nat:
  assumes "m < 2 ^ 256"
  shows "u256_shr (of_nat m) s = of_nat (m div 2 ^ s)"
proof (rule word_unat_eq_iff [THEN iffD2])
  have "unat (of_nat (m div 2 ^ s) :: u256) = m div 2 ^ s"
    using le_less_trans [OF div_le_dividend assms] by (rule unat_u256)
  moreover have "unat (u256_shr (of_nat m) s) = drop_bit s m"
    using assms by (simp only: u256_shr_def unat_drop_bit_eq unat_u256)
  ultimately show "unat (u256_shr (of_nat m) s) = unat (of_nat (m div 2 ^ s) :: u256)"
    by (simp only: drop_bit_eq_div)
qed

lemma u256_shl_nat: "u256_shl (of_nat m) s = of_nat (m * 2 ^ s)"
  by (simp add: u256_shl_def push_bit_eq_mult)

lemma u256_le_nat: "m < 2 ^ 256 \<Longrightarrow> n < 2 ^ 256 \<Longrightarrow> (of_nat m :: u256) \<le> of_nat n \<longleftrightarrow> m \<le> n"
  by (simp add: word_le_nat_alt)

lemma u256_less_nat: "m < 2 ^ 256 \<Longrightarrow> n < 2 ^ 256 \<Longrightarrow> (of_nat m :: u256) < of_nat n \<longleftrightarrow> m < n"
  by (simp add: word_less_nat_alt)

lemma varuint_from_u64_nat: "varuint_from_u64 u = of_nat (unat u)"
  by (simp add: varuint_from_u64_def)

lemmas u256_nat = u256_add_nat u256_sub_nat u256_mul_nat u256_div_nat u256_shr_nat u256_shl_nat
  u256_le_nat u256_less_nat

section \<open>The serializer of VarUint\<close>

definition MAX_VARUINT_SIZE :: nat where
  "MAX_VARUINT_SIZE = 32"

text \<open>
  The writing loop shortens the big-endian buffer from its end, so it drops the zero bytes of
  lowest weight; the reader fills the buffer from its start.
\<close>

fun trim_len :: "u8 list \<Rightarrow> nat \<Rightarrow> nat" where
  "trim_len buffer 0 = 0"
| "trim_len buffer (Suc len) = (if buffer ! len = 0 then trim_len buffer len else Suc len)"

definition write_varuint :: "varuint \<Rightarrow> u8 list" where
  "write_varuint v =
     (let buffer = to_be_bytes v; len = trim_len buffer (length buffer) in
      write_u8 (of_nat len) @ (if len > 0 then take len buffer else []))"

definition read_varuint :: "varuint parser" where
  "read_varuint = rbind read_u8 (\<lambda>l. let len = unat l in
     if len > MAX_VARUINT_SIZE then rfail InvalidSize
     else if len = 0 then rreturn 0
     else rbind (read_bytes len) (\<lambda>bytes.
       rreturn (from_be_bytes (bytes @ drop len (replicate 32 0)))))"

lemma trim_len_le: "trim_len b n \<le> n"
  by (induction n) auto

lemma trim_len_zeros: "n \<le> length b \<Longrightarrow> trim_len b n \<le> i \<Longrightarrow> i < n \<Longrightarrow> b ! i = 0"
  by (induction n) (auto split: if_splits simp: less_Suc_eq)

lemma trim_len_take:
  assumes "length b = 32"
  shows "take (trim_len b 32) b @ drop (trim_len b 32) (replicate 32 0) = b"
proof (rule nth_equalityI)
  have le: "trim_len b 32 \<le> 32" by (rule trim_len_le)
  then show "length (take (trim_len b 32) b @ drop (trim_len b 32) (replicate 32 0)) = length b"
    using assms by simp
  fix i assume "i < length (take (trim_len b 32) b @ drop (trim_len b 32) (replicate 32 0))"
  then have "i < 32" using le assms by simp
  then show "(take (trim_len b 32) b @ drop (trim_len b 32) (replicate 32 0)) ! i = b ! i"
    using trim_len_zeros [of 32 b i] le assms by (auto simp: nth_append)
qed

definition size_varuint :: "varuint \<Rightarrow> nat" where
  "size_varuint v = default_size write_varuint v"

interpretation varuint_codec: codec write_varuint read_varuint size_varuint "\<lambda>_. True"
proof unfold_locales
  fix x :: varuint and pre post c
  let ?b = "to_be_bytes x" and ?l = "trim_len (to_be_bytes x) 32"
  have len: "length ?b = 32" by simp
  have le: "?l \<le> 32" by (rule trim_len_le)
  have b: "from_be_bytes (take ?l ?b @ drop ?l (replicate 32 0)) = x"
    by (simp only: trim_len_take [OF len] from_to_be_u256)
  have small: "unat (of_nat ?l :: u8) = ?l" using le by simp
  have zero: "x = 0" if "?l = 0"
  proof -
    from that have "from_be_bytes (replicate 32 0) = x" using b by simp
    moreover have "(from_be_bytes (replicate 32 0) :: u256) = 0"
      using nat_from_be_zeros [of 32 "[]"] by (simp add: from_be_bytes_def)
    ultimately show ?thesis by simp
  qed
  show "read_varuint (at pre (write_varuint x @ post) c) =
      Inr (x, at (pre @ write_varuint x) post c)"
  proof (cases "?l = 0")
    case True
    then show ?thesis
      using zero by (simp add: read_varuint_def write_varuint_def MAX_VARUINT_SIZE_def)
  next
    case False
    with le small b show ?thesis
      by (simp add: read_varuint_def write_varuint_def MAX_VARUINT_SIZE_def Let_def)
  qed
  show "size_varuint x = length (write_varuint x)"
    by (simp add: size_varuint_def default_size_def to_bytes_def write_bytes_def writer_new_def)
qed

lemma length_write_varuint: "length (write_varuint v) \<le> 33"
  using trim_len_le [of "to_be_bytes v" 32] by (auto simp: write_varuint_def Let_def)

section \<open>Proof of work\<close>

datatype difficulty_error = DifficultyCannotBeZero | ErrorOnConversionBigUint

definition compute_difficulty_target :: "difficulty \<Rightarrow> difficulty_error + u256" where
  "compute_difficulty_target diff =
     (if diff = 0 then Inl DifficultyCannotBeZero else Inr (u256_max_value div diff))"

definition check_difficulty_against_target :: "hash \<Rightarrow> u256 \<Rightarrow> bool" where
  "check_difficulty_against_target h target = (let hash_work = from_be_bytes h in hash_work \<le> target)"

definition check_difficulty :: "hash \<Rightarrow> difficulty \<Rightarrow> difficulty_error + bool" where
  "check_difficulty h diff = result_bind (compute_difficulty_target diff) (\<lambda>target.
     Inr (check_difficulty_against_target h target))"

definition difficulty_from_hash :: "hash \<Rightarrow> difficulty option" where
  "difficulty_from_hash h = u256_div u256_max_value (from_be_bytes h)"

lemma unat_max_value: "unat u256_max_value = 2 ^ 256 - 1"
  by (simp add: u256_max_value_def unsigned_minus_1_eq_mask mask_eq_exp_minus_1)

lemma target_iff:
  fixes w d :: u256
  assumes "d \<noteq> 0"
  shows "w \<le> u256_max_value div d \<longleftrightarrow> unat w * unat d < 2 ^ 256"
proof -
  have "0 < unat d" using assms by (simp add: unat_gt_0)
  then have "unat w \<le> (2 ^ 256 - 1) div unat d \<longleftrightarrow> unat w * unat d \<le> 2 ^ 256 - 1"
    by (simp only: less_eq_div_iff_mult_less_eq)
  then show ?thesis
    by (simp add: word_le_nat_alt unat_div unat_max_value less_eq_iff_succ_less)
qed

lemma check_difficulty_iff:
  "diff \<noteq> 0 \<Longrightarrow>
     check_difficulty h diff = Inr (unat (from_be_bytes h :: u256) * unat diff < 2 ^ 256)"
  by (simp add: check_difficulty_def compute_difficulty_target_def
      check_difficulty_against_target_def target_iff)

section \<open>Difficulty adjustment\<close>

definition MILLIS_PER_SECOND :: u64 where
  "MILLIS_PER_SECOND = 1000"

definition BLOCK_TIME_MILLIS :: u64 where
  "BLOCK_TIME_MILLIS = 15 * MILLIS_PER_SECOND"

definition MAINNET_MINIMUM_DIFFICULTY :: difficulty where
  "MAINNET_MINIMUM_DIFFICULTY = varuint_from_u64 (BLOCK_TIME_MILLIS * 20)"

definition OTHER_MINIMUM_DIFFICULTY :: difficulty where
  "OTHER_MINIMUM_DIFFICULTY = varuint_from_u64 (BLOCK_TIME_MILLIS * 2)"

definition GENESIS_BLOCK_DIFFICULTY :: difficulty where
  "GENESIS_BLOCK_DIFFICULTY = varuint_from_u64 1"

definition get_minimum_difficulty :: "network \<Rightarrow> difficulty" where
  "get_minimum_difficulty n =
     (case n of Mainnet \<Rightarrow> MAINNET_MINIMUM_DIFFICULTY | _ \<Rightarrow> OTHER_MINIMUM_DIFFICULTY)"

definition get_difficulty_at_hard_fork :: "network \<Rightarrow> block_version \<Rightarrow> difficulty option" where
  "get_difficulty_at_hard_fork n v =
     (case n of
        Mainnet \<Rightarrow>
          (case v of
             BlockV0 \<Rightarrow> Some MAINNET_MINIMUM_DIFFICULTY
           | BlockV1 \<Rightarrow> Some MAINNET_MINIMUM_DIFFICULTY
           | _ \<Rightarrow> u256_mul MAINNET_MINIMUM_DIFFICULTY (varuint_from_u64 100000))
      | _ \<Rightarrow> Some OTHER_MINIMUM_DIFFICULTY)"

definition kalman_filter ::
  "varuint \<Rightarrow> varuint \<Rightarrow> varuint \<Rightarrow> nat \<Rightarrow> varuint \<Rightarrow> varuint \<Rightarrow> (varuint \<times> varuint) option" where
  "kalman_filter z x_est_prev p_prev shift left_shift process_noise_covar = do {
     z \<leftarrow> u256_mul z left_shift;
     r \<leftarrow> u256_mul z 2;
     x_est_prev \<leftarrow> u256_mul x_est_prev left_shift;
     noise \<leftarrow> u256_mul x_est_prev process_noise_covar;
     p_pred \<leftarrow> u256_add (u256_shr noise shift) p_prev;
     d \<leftarrow> u256_add p_pred r;
     d \<leftarrow> u256_add d 1;
     k \<leftarrow> u256_div (u256_shl p_pred shift) d;
     x_est_new \<leftarrow>
       (if z \<ge> x_est_prev then do {
          diff \<leftarrow> u256_sub z x_est_prev;
          m \<leftarrow> u256_mul k diff;
          u256_add x_est_prev (u256_shr m shift) }
        else do {
          diff \<leftarrow> u256_sub x_est_prev z;
          m \<leftarrow> u256_mul k diff;
          u256_sub x_est_prev (u256_shr m shift) });
     c \<leftarrow> u256_sub left_shift k;
     m \<leftarrow> u256_mul c p_pred;
     Some (u256_shr x_est_new shift, u256_shr m shift) }"

definition V1_SHIFT :: nat where "V1_SHIFT = 32"

definition V1_LEFT_SHIFT :: varuint where
  "V1_LEFT_SHIFT = varuint_from_u64 (push_bit V1_SHIFT 1)"

definition V1_PROCESS_NOISE_COVAR :: varuint where
  "V1_PROCESS_NOISE_COVAR = varuint_from_u64 (push_bit V1_SHIFT 1 div 100 * 5)"

definition V1_P :: varuint where "V1_P = V1_LEFT_SHIFT"

definition calculate_difficulty_v1 ::
  "u64 \<Rightarrow> difficulty \<Rightarrow> varuint \<Rightarrow> difficulty \<Rightarrow> (difficulty \<times> varuint) option" where
  "calculate_difficulty_v1 solve_time previous_difficulty p minimum_difficulty = do {
     z \<leftarrow> u256_div previous_difficulty (ucast solve_time);
     x \<leftarrow> u256_div previous_difficulty (ucast BLOCK_TIME_MILLIS);
     (x_est_new, p_new) \<leftarrow> kalman_filter z x p V1_SHIFT V1_LEFT_SHIFT V1_PROCESS_NOISE_COVAR;
     difficulty \<leftarrow> u256_mul x_est_new (ucast BLOCK_TIME_MILLIS);
     Some (if difficulty < minimum_difficulty then (minimum_difficulty, V1_P)
           else (difficulty, p_new)) }"

definition V2_SHIFT :: nat where "V2_SHIFT = 20"

definition V2_LEFT_SHIFT :: varuint where
  "V2_LEFT_SHIFT = varuint_from_u64 (push_bit V2_SHIFT 1)"

definition V2_PROCESS_NOISE_COVAR :: varuint where
  "V2_PROCESS_NOISE_COVAR =
     varuint_from_u64 (push_bit V2_SHIFT 1 * of_nat V2_SHIFT div MILLIS_PER_SECOND)"

definition V2_P :: varuint where "V2_P = V2_LEFT_SHIFT"

definition calculate_difficulty_v2 ::
  "u64 \<Rightarrow> difficulty \<Rightarrow> varuint \<Rightarrow> difficulty \<Rightarrow> (difficulty \<times> varuint) option" where
  "calculate_difficulty_v2 solve_time previous_difficulty p minimum_difficulty = do {
     d \<leftarrow> u256_mul previous_difficulty (ucast MILLIS_PER_SECOND);
     z \<leftarrow> u256_div d (ucast solve_time);
     x \<leftarrow> u256_div d (ucast BLOCK_TIME_MILLIS);
     (x_est_new, p_new) \<leftarrow> kalman_filter z x p V2_SHIFT V2_LEFT_SHIFT V2_PROCESS_NOISE_COVAR;
     d \<leftarrow> u256_mul x_est_new (ucast BLOCK_TIME_MILLIS);
     difficulty \<leftarrow> u256_div d (ucast MILLIS_PER_SECOND);
     Some (if difficulty < minimum_difficulty then (minimum_difficulty, V2_P)
           else (difficulty, p_new)) }"

text \<open>
  The subtraction of the timestamps wraps when the block is older than its parent, which the
  block checks exclude.
\<close>

definition calculate_difficulty ::
  "u64 \<Rightarrow> u64 \<Rightarrow> difficulty \<Rightarrow> varuint \<Rightarrow> difficulty \<Rightarrow> block_version \<Rightarrow> (difficulty \<times> varuint) option" where
  "calculate_difficulty parent_timestamp timestamp previous_difficulty p minimum_difficulty version =
     (let solve_time = max (timestamp - parent_timestamp) 1 in
      case version of
        BlockV0 \<Rightarrow> calculate_difficulty_v1 solve_time previous_difficulty p minimum_difficulty
      | _ \<Rightarrow> calculate_difficulty_v2 solve_time previous_difficulty p minimum_difficulty)"

definition get_covariance_p :: "block_version \<Rightarrow> varuint" where
  "get_covariance_p v = (case v of BlockV0 \<Rightarrow> V1_P | _ \<Rightarrow> V2_P)"

subsection \<open>The filter on natural numbers\<close>

text \<open>
  The filter as a function on natural numbers, with the scale factor cancelled where the
  arithmetic is exact: the specification that the 256-bit code refines while nothing overflows.
\<close>

definition kalman_pred :: "nat \<Rightarrow> nat \<Rightarrow> nat \<Rightarrow> nat" where
  "kalman_pred x p q = x * q + p"

definition kalman_gain :: "nat \<Rightarrow> nat \<Rightarrow> nat \<Rightarrow> nat" where
  "kalman_gain z pp s = pp * 2 ^ s div (pp + z * 2 ^ s * 2 + 1)"

definition kalman_est_scaled :: "nat \<Rightarrow> nat \<Rightarrow> nat \<Rightarrow> nat \<Rightarrow> nat" where
  "kalman_est_scaled z x k s =
     (if x \<le> z then x * 2 ^ s + k * (z - x) else x * 2 ^ s - k * (x - z))"

definition kalman_est :: "nat \<Rightarrow> nat \<Rightarrow> nat \<Rightarrow> nat \<Rightarrow> nat" where
  "kalman_est z x k s = kalman_est_scaled z x k s div 2 ^ s"

definition kalman_cov :: "nat \<Rightarrow> nat \<Rightarrow> nat \<Rightarrow> nat" where
  "kalman_cov pp k s = (2 ^ s - k) * pp div 2 ^ s"

lemma less_of_mult: "n * S < M \<Longrightarrow> 0 < S \<Longrightarrow> n < (M :: nat)"
  by (rule le_less_trans [of n "n * S"]) simp_all

lemma kalman_gain_less: "kalman_gain z pp s < 2 ^ s"
proof -
  have "pp * 2 ^ s < (pp + z * 2 ^ s * 2 + 1) * 2 ^ s"
    by (intro mult_strict_right_mono) simp_all
  then show ?thesis
    unfolding kalman_gain_def by (intro less_mult_imp_div_less) (simp only: mult.commute)
qed

lemma kalman_est_scaled_between:
  assumes "k \<le> 2 ^ s"
  shows "min z x * 2 ^ s \<le> kalman_est_scaled z x k s" "kalman_est_scaled z x k s \<le> max z x * 2 ^ s"
proof -
  let ?S = "2 ^ s :: nat"
  have kd: "k * d \<le> d * ?S" for d
    using mult_le_mono1 [OF assms, of d] by (simp only: mult.commute)
  have "min z x * ?S \<le> kalman_est_scaled z x k s \<and> kalman_est_scaled z x k s \<le> max z x * ?S"
  proof (cases "x \<le> z")
    case True
    then obtain d where "z = x + d" using le_Suc_ex by blast
    with kd [of d] show ?thesis by (simp add: kalman_est_scaled_def add_mult_distrib)
  next
    case False
    then obtain d where d: "x = z + d" using le_Suc_ex [of z x] by auto
    have "z * ?S \<le> (z + d) * ?S - k * d" using kd [of d] unfolding add_mult_distrib by linarith
    with d False show ?thesis by (simp add: kalman_est_scaled_def)
  qed
  then show "min z x * 2 ^ s \<le> kalman_est_scaled z x k s"
    "kalman_est_scaled z x k s \<le> max z x * 2 ^ s" by auto
qed

lemma kalman_est_between:
  assumes "k \<le> 2 ^ s"
  shows "min z x \<le> kalman_est z x k s" "kalman_est z x k s \<le> max z x"
  using kalman_est_scaled_between [OF assms, of z x, THEN div_le_mono, of "2 ^ s"]
  by (simp_all add: kalman_est_def)

text \<open>The correction term of the update step, and the update step, on scaled numbers.\<close>

lemma kalman_correction_nat:
  fixes a b k s :: nat
  defines "S \<equiv> 2 ^ s"
  assumes k: "k < S" and ba: "b \<le> a" and M: "a * S * S < 2 ^ 256"
  shows "u256_sub (of_nat (a * S)) (of_nat (b * S)) = Some (of_nat ((a - b) * S))"
    and "u256_mul (of_nat k) (of_nat ((a - b) * S)) = Some (of_nat (k * ((a - b) * S)))"
    and "u256_shr (of_nat (k * ((a - b) * S))) s = of_nat (k * (a - b))"
proof -
  have S: "0 < S" by (simp add: S_def)
  have d: "(a - b) * S * S < 2 ^ 256" by (rule le_less_trans [OF _ M]) simp
  have kd: "k * ((a - b) * S) < 2 ^ 256"
    using k by (intro le_less_trans [OF _ d]) (simp add: mult.commute)
  note aS = less_of_mult [OF M S] and dS = less_of_mult [OF d S]
  show "u256_sub (of_nat (a * S)) (of_nat (b * S)) = Some (of_nat ((a - b) * S))"
    using u256_sub_nat [OF mult_le_mono1 [OF ba] aS] by (simp only: diff_mult_distrib)
  show "u256_mul (of_nat k) (of_nat ((a - b) * S)) = Some (of_nat (k * ((a - b) * S)))"
  proof (cases "a = b")
    case False
    have "k < 2 ^ 256" using kd False S ba by (intro less_of_mult [OF kd]) simp
    then show ?thesis by (rule u256_mul_nat [OF kd _ dS])
  qed (simp add: u256_mul_def)
  have "k * ((a - b) * S) div S = k * (a - b)" using S by simp
  then show "u256_shr (of_nat (k * ((a - b) * S))) s = of_nat (k * (a - b))"
    using u256_shr_nat [OF kd, of s] by (simp only: S_def)
qed

lemma kalman_update_nat:
  fixes z x k s :: nat
  defines "S \<equiv> 2 ^ s"
  assumes k: "k < S" and zx: "max z x * S * S < 2 ^ 256"
  shows "(if of_nat (z * S) \<ge> (of_nat (x * S) :: u256) then do {
            diff \<leftarrow> u256_sub (of_nat (z * S)) (of_nat (x * S));
            m \<leftarrow> u256_mul (of_nat k) diff;
            u256_add (of_nat (x * S)) (u256_shr m s) }
          else do {
            diff \<leftarrow> u256_sub (of_nat (x * S)) (of_nat (z * S));
            m \<leftarrow> u256_mul (of_nat k) diff;
            u256_sub (of_nat (x * S)) (u256_shr m s) }) =
     Some (of_nat (kalman_est_scaled z x k s))"
proof -
  have S: "0 < S" by (simp add: S_def)
  have M: "max z x * S < 2 ^ 256" by (rule less_of_mult [OF zx S])
  have zM: "z * S < 2 ^ 256" and xM: "x * S < 2 ^ 256"
    by (rule le_less_trans [OF _ M]; simp)+
  have le: "of_nat (x * S) \<le> (of_nat (z * S) :: u256) \<longleftrightarrow> x \<le> z"
    unfolding u256_le_nat [OF xM zM] using S by simp
  have est: "kalman_est_scaled z x k s < 2 ^ 256"
    using kalman_est_scaled_between(2) [of k s z x] k M unfolding S_def by linarith
  show ?thesis
  proof (cases "x \<le> z")
    case True
    note c = kalman_correction_nat [OF k [unfolded S_def] True, folded S_def]
    have "u256_add (of_nat (x * S)) (of_nat (k * (z - x))) = Some (of_nat (x * S + k * (z - x)))"
      using est True by (intro u256_add_nat) (simp add: kalman_est_scaled_def S_def)
    with True zx show ?thesis
      by (simp only: le if_True c bind.simps kalman_est_scaled_def S_def [symmetric] max_absorb1)
  next
    case False
    then have xz: "z \<le> x" by simp
    note c = kalman_correction_nat [OF k [unfolded S_def] xz, folded S_def]
    have "k * (x - z) \<le> S * x" using k by (intro mult_le_mono) simp_all
    then have "u256_sub (of_nat (x * S)) (of_nat (k * (x - z))) = Some (of_nat (x * S - k * (x - z)))"
      using xM by (intro u256_sub_nat) (simp_all only: mult.commute)
    with False xz zx show ?thesis
      by (simp only: le if_False c bind.simps kalman_est_scaled_def S_def [symmetric] max_absorb2)
  qed
qed

text \<open>
  Under the bounds that keep every intermediate result below \<open>2 ^ 256\<close>, the filter returns and
  computes the specification.
\<close>

lemma kalman_filter_nat:
  fixes z x p q s :: nat
  defines "pp \<equiv> kalman_pred x p q"
  defines "k \<equiv> kalman_gain z pp s"
  assumes q: "x * 2 ^ s * q < 2 ^ 256" "q < 2 ^ 256" "s < 256"
    and pp: "pp * 2 ^ s < 2 ^ 256" "pp + z * 2 ^ s * 2 + 1 < 2 ^ 256"
    and zx: "max z x * 2 ^ s * 2 ^ s < 2 ^ 256"
  shows "kalman_filter (of_nat z) (of_nat x) (of_nat p) s (of_nat (2 ^ s)) (of_nat q) =
    Some (of_nat (kalman_est z x k s), of_nat (kalman_cov pp k s))"
proof -
  define S :: nat where "S = 2 ^ s"
  have S: "0 < S" "S < 2 ^ 256"
    unfolding S_def using power_strict_increasing [OF q(3), of "2 :: nat"] by simp_all
  have k: "k < S" unfolding k_def S_def by (rule kalman_gain_less)
  note kM = less_trans [OF k S(2)] and ppM = less_of_mult [OF pp(1) [folded S_def] S(1)]
  have M: "max z x * S < 2 ^ 256" by (rule less_of_mult [OF zx [folded S_def] S(1)])
  have zM: "z * S < 2 ^ 256" and xM: "x * S < 2 ^ 256"
    by (rule le_less_trans [OF _ M]; simp)+
  have noise: "x * S * q div S + p = pp"
    using S unfolding pp_def kalman_pred_def by (simp add: mult.commute [of _ S] mult.assoc)
  have c: "(S - k) * pp < 2 ^ 256"
    by (rule le_less_trans [OF _ pp(1)]) (simp add: S_def mult.commute)
  have est: "kalman_est_scaled z x k s < 2 ^ 256"
    using kalman_est_scaled_between(2) [of k s z x] k M unfolding S_def by linarith
  note predict =
    u256_mul_nat [OF zM less_of_mult [OF zM S(1)] S(2)]
    u256_mul_nat [OF xM less_of_mult [OF xM S(1)] S(2)]
    u256_mul_nat [OF q(1) [folded S_def] xM q(2)]
    u256_shr_nat [OF q(1), of s, folded S_def]
    u256_add_nat [of "x * S * q div S" p, unfolded noise, OF ppM]
  have r: "u256_mul (of_nat (z * S)) 2 = Some (of_nat (z * S * 2))"
    using u256_mul_nat [of "z * S" 2] pp(2) zM by (simp add: S_def)
  have d: "u256_add (of_nat pp) (of_nat (z * S * 2)) = Some (of_nat (pp + z * S * 2))"
    "u256_add (of_nat (pp + z * S * 2)) 1 = Some (of_nat (pp + z * S * 2 + 1))"
    using u256_add_nat [of pp "z * S * 2"] u256_add_nat [of "pp + z * S * 2" 1] pp(2)
    by (simp_all add: S_def)
  have gain: "u256_div (u256_shl (of_nat pp) s) (of_nat (pp + z * S * 2 + 1)) = Some (of_nat k)"
    unfolding u256_shl_nat k_def kalman_gain_def S_def
    using pp by (intro u256_div_nat) simp_all
  note cov = u256_sub_nat [OF less_imp_le [OF k] S(2)]
    u256_mul_nat [OF c le_less_trans [OF diff_le_self S(2)] ppM] u256_shr_nat [OF c, of s]
  show ?thesis
    unfolding kalman_filter_def S_def [symmetric] predict bind.simps r d gain
      kalman_update_nat [OF k [unfolded S_def] zx, folded S_def] cov u256_shr_nat [OF est]
    by (simp only: kalman_est_def kalman_cov_def S_def [symmetric])
qed

lemma kalman_cov_le:
  fixes z pp s :: nat
  defines "D \<equiv> pp + z * 2 ^ s * 2 + 1"
  shows "kalman_cov pp (kalman_gain z pp s) s \<le> z * 2 ^ s * 2 + 1 + D div 2 ^ s"
proof -
  define S k R where "S = (2 ^ s :: nat)" and "k = kalman_gain z pp s" and "R = z * 2 ^ s * 2 + 1"
  have S: "0 < S" by (simp add: S_def)
  have D: "D = pp + R" "0 < D" by (simp_all add: D_def R_def)
  have "pp * S < k * D + D"
    using dividend_less_div_times [OF D(2), of "pp * S"]
    unfolding k_def kalman_gain_def D_def [symmetric] S_def by simp
  then have kD: "pp * S \<le> k * D + D" by simp
  have "(S - k) * pp \<le> (S - k) * D" using D by simp
  also have "\<dots> = S * D - k * D" by (simp add: diff_mult_distrib)
  also have "\<dots> \<le> S * R + D" using kD D(1) by (simp add: algebra_simps)
  finally have "(S - k) * pp div S \<le> (S * R + D) div S" by (rule div_le_mono)
  also have "\<dots> = R + D div S" using S by simp
  finally show ?thesis by (simp add: kalman_cov_def S_def k_def R_def)
qed

text \<open>The range in which the daemon runs the filter: it returns, and stays in the range.\<close>

lemma kalman_filter_range:
  assumes z: "z < 2 ^ 138" and x: "x < 2 ^ 138" and p: "p < 2 ^ 200" and q: "q < 2 ^ 28"
    and s: "8 \<le> s" "s \<le> 32"
  obtains x' p' where
    "kalman_filter (of_nat z) (of_nat x) (of_nat p) s (of_nat (2 ^ s)) (of_nat q) =
       Some (of_nat x', of_nat p')"
    "min z x \<le> x'" "x' \<le> max z x" "p' < 2 ^ 200"
proof -
  define S :: nat where "S = 2 ^ s"
  have S: "2 ^ 8 \<le> S" "S \<le> 2 ^ 32" unfolding S_def using power_increasing [OF s(1), of "2 :: nat"]
      power_increasing [OF s(2), of "2 :: nat"] by simp_all
  let ?pp = "kalman_pred x p q" and ?D = "kalman_pred x p q + z * S * 2 + 1"
  have xq: "x * q < 2 ^ 138 * 2 ^ 28" using x q by (intro mult_strict_mono) simp_all
  then have pp: "?pp < 2 ^ 201" using p by (simp add: kalman_pred_def)
  have zS: "z * S \<le> 2 ^ 138 * 2 ^ 32" using z S by (intro mult_le_mono) simp_all
  have "x * S * q = x * q * S" by simp
  also have "\<dots> \<le> 2 ^ 138 * 2 ^ 28 * 2 ^ 32" by (rule mult_le_mono [OF less_imp_le [OF xq] S(2)])
  finally have b1: "x * S * q < 2 ^ 256" by simp
  have "?pp * S \<le> 2 ^ 201 * 2 ^ 32" using pp S by (intro mult_le_mono) simp_all
  then have b2: "?pp * S < 2 ^ 256" by simp
  have b3: "?D < 2 ^ 202" using pp zS by simp
  have "max z x * S * S \<le> 2 ^ 138 * 2 ^ 32 * 2 ^ 32"
    using z x S by (intro mult_le_mono) simp_all
  then have b4: "max z x * S * S < 2 ^ 256" by simp
  have "?D div S \<le> ?D div 2 ^ 8" using S by (intro div_le_mono2) simp_all
  also have "\<dots> < 2 ^ 194" using b3 by (simp add: less_mult_imp_div_less)
  finally have cov: "kalman_cov ?pp (kalman_gain z ?pp s) s < 2 ^ 200"
    using kalman_cov_le [of ?pp z s, folded S_def] zS by simp
  have k: "kalman_gain z ?pp s \<le> 2 ^ s" using kalman_gain_less less_imp_le by blast
  show ?thesis
    by (rule that [OF _ kalman_est_between [OF k] cov], rule kalman_filter_nat)
       (use b1 b2 b3 b4 q s in \<open>simp_all add: S_def\<close>)
qed

lemma filter_constants:
  "V1_LEFT_SHIFT = of_nat (2 ^ 32)" "V1_PROCESS_NOISE_COVAR = of_nat 214748360"
  "V2_LEFT_SHIFT = of_nat (2 ^ 20)" "V2_PROCESS_NOISE_COVAR = of_nat 20971"
  "(ucast BLOCK_TIME_MILLIS :: u256) = of_nat 15000" "(ucast MILLIS_PER_SECOND :: u256) = of_nat 1000"
  by (simp_all add: V1_LEFT_SHIFT_def V1_SHIFT_def V1_PROCESS_NOISE_COVAR_def V2_LEFT_SHIFT_def
      V2_SHIFT_def V2_PROCESS_NOISE_COVAR_def varuint_from_u64_def BLOCK_TIME_MILLIS_def
      MILLIS_PER_SECOND_def push_bit_eq_mult)

text \<open>
  One adjustment, on both algorithms: it returns for every solve time, the result respects the
  minimum, the covariance stays in range, and the difficulty moves the right way.
\<close>

definition adjusted :: "nat \<Rightarrow> nat \<Rightarrow> nat \<Rightarrow> (difficulty \<times> varuint) option \<Rightarrow> bool" where
  "adjusted st d m res \<longleftrightarrow>
     (\<exists>d' p'. res = Some (d', p') \<and> unat p' < 2 ^ 200 \<and> m \<le> unat d' \<and>
        (st \<le> 15000 \<longrightarrow> d < unat d' + 15000) \<and>
        (15000 \<le> st \<longrightarrow> unat d' \<le> max m d) \<and> unat d' \<le> max m (15000 * d))"

lemma adjustedI:
  assumes "n < 2 ^ 256" "p' < 2 ^ 200" "P < 2 ^ 200"
    and "st \<le> 15000 \<Longrightarrow> d < n + 15000" "15000 \<le> st \<Longrightarrow> n \<le> d" "n \<le> 15000 * d"
  shows "adjusted st d (unat m)
    (Some (if (of_nat n :: u256) < m then (m, of_nat P) else (of_nat n, of_nat p')))"
  using assms by (auto simp: adjusted_def word_less_nat_alt)

lemma calculate_difficulty_v1_adjusted:
  assumes D: "D < 2 ^ 128" and P: "P < 2 ^ 200" and st: "st \<noteq> 0"
  shows "adjusted (unat st) D (unat m) (calculate_difficulty_v1 st (of_nat D) (of_nat P) m)"
proof -
  let ?T = "unat st" and ?z = "D div unat st" and ?x = "D div 15000"
  have T: "0 < ?T" "?T < 2 ^ 256" "(ucast st :: u256) = of_nat ?T"
    using st unat_u64_less [of st] by (simp_all add: unat_gt_0)
  have zx: "?z \<le> D" "?x \<le> D" by simp_all
  have "D < 2 ^ 138" using D by simp
  note zlt = le_less_trans [OF zx(1) this] le_less_trans [OF zx(2) this]
  obtain x' p' where f: "kalman_filter (of_nat ?z) (of_nat ?x) (of_nat P) 32 (of_nat (2 ^ 32))
      (of_nat 214748360) = Some (of_nat x', of_nat p')"
    and b: "min ?z ?x \<le> x'" "x' \<le> max ?z ?x" "p' < 2 ^ 200"
    by (rule kalman_filter_range [OF zlt P, of 214748360 32]) simp_all
  have x': "x' \<le> D" by (rule order_trans [OF b(2) max.boundedI [OF zx]])
  have mul: "u256_mul (of_nat x') (of_nat 15000) = Some (of_nat (x' * 15000))"
    using x' D by (intro u256_mul_nat) simp_all
  have div: "u256_div (of_nat D) (of_nat ?T) = Some (of_nat ?z)"
    "u256_div (of_nat D) (of_nat 15000) = Some (of_nat ?x)"
    using D T(1,2) by (intro u256_div_nat; simp)+
  have "adjusted ?T D (unat m) (Some (if (of_nat (x' * 15000) :: u256) < m
      then (m, of_nat (2 ^ 32)) else (of_nat (x' * 15000), of_nat p')))"
  proof (rule adjustedI)
    assume "?T \<le> 15000"
    then have "?x \<le> ?z" using T(1) by (intro div_le_mono2)
    then have "?x * 15000 \<le> x' * 15000" using b(1) by simp
    then show "D < x' * 15000 + 15000" using dividend_less_div_times [of 15000 D] by linarith
  next
    assume "15000 \<le> ?T"
    then have "?z \<le> ?x" by (intro div_le_mono2) simp_all
    then have "x' * 15000 \<le> ?x * 15000" using b(2) by simp
    then show "x' * 15000 \<le> D" using div_times_less_eq_dividend [of D 15000] by linarith
  qed (use b x' D in simp_all)
  then show ?thesis
    unfolding calculate_difficulty_v1_def V1_SHIFT_def V1_P_def filter_constants T(3) div bind.simps f
      prod.case mul .
qed

lemma calculate_difficulty_v2_adjusted:
  assumes D: "D < 2 ^ 128" and P: "P < 2 ^ 200" and st: "st \<noteq> 0"
  shows "adjusted (unat st) D (unat m) (calculate_difficulty_v2 st (of_nat D) (of_nat P) m)"
proof -
  let ?T = "unat st" and ?z = "D * 1000 div unat st" and ?x = "D * 1000 div 15000"
  have T: "0 < ?T" "?T < 2 ^ 256" "(ucast st :: u256) = of_nat ?T"
    using st unat_u64_less [of st] by (simp_all add: unat_gt_0)
  have zx: "?z \<le> D * 1000" "?x \<le> D * 1000" by simp_all
  have "D * 1000 < 2 ^ 138" using D by simp
  note zlt = le_less_trans [OF zx(1) this] le_less_trans [OF zx(2) this]
  obtain x' p' where f: "kalman_filter (of_nat ?z) (of_nat ?x) (of_nat P) 20 (of_nat (2 ^ 20))
      (of_nat 20971) = Some (of_nat x', of_nat p')"
    and b: "min ?z ?x \<le> x'" "x' \<le> max ?z ?x" "p' < 2 ^ 200"
    by (rule kalman_filter_range [OF zlt P, of 20971 20]) simp_all
  have x': "x' \<le> D * 1000" by (rule order_trans [OF b(2) max.boundedI [OF zx]])
  have mul: "u256_mul (of_nat D) (of_nat 1000) = Some (of_nat (D * 1000))"
    "u256_mul (of_nat x') (of_nat 15000) = Some (of_nat (x' * 15000))"
    using x' D by (intro u256_mul_nat; simp)+
  have div: "u256_div (of_nat (D * 1000)) (of_nat ?T) = Some (of_nat ?z)"
    "u256_div (of_nat (D * 1000)) (of_nat 15000) = Some (of_nat ?x)"
    "u256_div (of_nat (x' * 15000)) (of_nat 1000) = Some (of_nat (x' * 15000 div 1000))"
    using D T(1,2) x' by (intro u256_div_nat; simp)+
  have "adjusted ?T D (unat m) (Some (if (of_nat (x' * 15000 div 1000) :: u256) < m
      then (m, of_nat (2 ^ 20)) else (of_nat (x' * 15000 div 1000), of_nat p')))"
  proof (rule adjustedI)
    assume "?T \<le> 15000"
    then have "?x \<le> ?z" using T(1) by (intro div_le_mono2)
    then have "?x \<le> x'" using b(1) by simp
    then show "D < x' * 15000 div 1000 + 15000" by linarith
  next
    assume "15000 \<le> ?T"
    then have "?z \<le> ?x" by (intro div_le_mono2) simp_all
    then have "x' \<le> ?x" using b(2) by simp
    then show "x' * 15000 div 1000 \<le> D" by linarith
  qed (use b x' D in simp_all)
  then show ?thesis
    unfolding calculate_difficulty_v2_def V2_SHIFT_def V2_P_def filter_constants T(3) mul div
      bind.simps f prod.case .
qed

lemma calculate_difficulty_adjusted:
  assumes "unat d < 2 ^ 128" "unat p < 2 ^ 200"
  shows "adjusted (unat (max (t - pt) 1)) (unat d) (unat m) (calculate_difficulty pt t d p m v)"
proof -
  have "max (t - pt) 1 \<noteq> 0" by (auto simp: max_def word_le_nat_alt)
  from calculate_difficulty_v1_adjusted [OF assms this, of m]
    calculate_difficulty_v2_adjusted [OF assms this, of m]
  show ?thesis by (cases v) (simp_all add: calculate_difficulty_def Let_def)
qed

text \<open>The test vectors of the two algorithms.\<close>

lemma kalman_filter_vectors:
  "kalman_filter 300 1 V1_P V1_SHIFT V1_LEFT_SHIFT V1_PROCESS_NOISE_COVAR = Some (1, 4501837440)"
  "kalman_filter 150 1 4501837440 V1_SHIFT V1_LEFT_SHIFT V1_PROCESS_NOISE_COVAR =
     Some (1, 4699383461)"
  "kalman_filter 300 1 V2_P V2_SHIFT V2_LEFT_SHIFT V2_PROCESS_NOISE_COVAR = Some (1, 1067732)"
  by (simp_all add: kalman_filter_def V1_P_def V2_P_def filter_constants V1_SHIFT_def V2_SHIFT_def
      u256_mul_def u256_add_def u256_div_def u256_sub_def u256_shl_def u256_shr_def
      push_bit_eq_mult drop_bit_eq_div)

section \<open>Properties\<close>

text \<open>
  Every 256-bit number survives the compact encoding of \<open>VarUint\<close>: reading what was written
  gives the number back, and the encoding takes between 1 and 33 bytes.
\<close>

theorem varuint_round_trip:
  "from_bytes read_varuint (to_bytes write_varuint v) = Inr v \<and>
   1 \<le> length (to_bytes write_varuint v) \<and> length (to_bytes write_varuint v) \<le> 33"
  using varuint_codec.from_bytes_to_bytes [of v] length_write_varuint [of v]
  by (simp add: to_bytes_def write_bytes_def writer_new_def)
     (simp add: write_varuint_def Let_def)

text \<open>
  C8: for every block version, solve time and minimum, as long as the previous difficulty is
  below \<open>2 ^ 128\<close> and the covariance below \<open>2 ^ 200\<close>, the difficulty adjustment does not panic.
  The new difficulty is at least the minimum and the new covariance is below \<open>2 ^ 200\<close> again. A
  block found within the block time does not lower the difficulty (up to the rounding to a
  multiple of the block time), a block found later does not raise it above the previous one or
  the minimum.
\<close>

theorem difficulty_adjustment:
  assumes "unat previous < 2 ^ 128" "unat p < 2 ^ 200"
  shows "\<exists>d' p'. calculate_difficulty parent t previous p minimum v = Some (d', p') \<and>
    minimum \<le> d' \<and> unat p' < 2 ^ 200 \<and>
    (t - parent \<le> BLOCK_TIME_MILLIS \<longrightarrow> unat previous < unat d' + unat BLOCK_TIME_MILLIS) \<and>
    (BLOCK_TIME_MILLIS \<le> t - parent \<longrightarrow> d' \<le> max minimum previous)"
proof -
  have bt: "unat BLOCK_TIME_MILLIS = 15000"
    by (simp add: BLOCK_TIME_MILLIS_def MILLIS_PER_SECOND_def)
  have st: "t - parent \<le> BLOCK_TIME_MILLIS \<Longrightarrow> unat (max (t - parent) 1) \<le> 15000"
    "BLOCK_TIME_MILLIS \<le> t - parent \<Longrightarrow> 15000 \<le> unat (max (t - parent) 1)"
    by (auto simp: word_le_nat_alt max_def bt)
  obtain d' p' where r: "calculate_difficulty parent t previous p minimum v = Some (d', p')"
    "unat p' < 2 ^ 200" "unat minimum \<le> unat d'"
    "unat (max (t - parent) 1) \<le> 15000 \<longrightarrow> unat previous < unat d' + 15000"
    "15000 \<le> unat (max (t - parent) 1) \<longrightarrow> unat d' \<le> max (unat minimum) (unat previous)"
    using calculate_difficulty_adjusted [OF assms, of t parent minimum v]
    unfolding adjusted_def by blast
  show ?thesis
  proof (intro exI conjI impI)
    show "minimum \<le> d'" using r(3) by (simp add: word_le_nat_alt)
    show "t - parent \<le> BLOCK_TIME_MILLIS \<Longrightarrow> unat previous < unat d' + unat BLOCK_TIME_MILLIS"
      using st(1) r(4) bt by simp
    show "BLOCK_TIME_MILLIS \<le> t - parent \<Longrightarrow> d' \<le> max minimum previous"
      using st(2) r(5) by (auto simp: max_def word_le_nat_alt split: if_splits)
  qed (fact r)+
qed

theorem difficulty_adjustment_witness:
  "\<exists>d' p'. calculate_difficulty 1000 21000 90000000 V2_P 300000 BlockV1 = Some (d', p') \<and>
    300000 \<le> d' \<and> d' \<le> 90000000"
  using difficulty_adjustment [of 90000000 V2_P 1000 21000 300000 BlockV1]
  by (auto simp: V2_P_def filter_constants BLOCK_TIME_MILLIS_def MILLIS_PER_SECOND_def max_def)

text \<open>
  C34: the difficulty that \<open>difficulty_from_hash\<close> computes for a non-zero hash is the greatest one
  that \<open>check_difficulty\<close> accepts for it, and acceptance is monotone: a hash good enough for a
  difficulty is good enough for every smaller non-zero one.
\<close>

theorem difficulty_from_hash_greatest:
  assumes "difficulty_from_hash h = Some best" "diff \<noteq> 0"
  shows "check_difficulty h diff = Inr (diff \<le> best)"
proof -
  define w :: u256 where "w = from_be_bytes h"
  from assms(1) have w: "w \<noteq> 0" "best = u256_max_value div w"
    by (auto simp: difficulty_from_hash_def u256_div_def w_def split: if_splits)
  have "check_difficulty h diff = Inr (unat w * unat diff < 2 ^ 256)"
    unfolding w_def by (rule check_difficulty_iff [OF assms(2)])
  moreover have "diff \<le> best \<longleftrightarrow> unat diff * unat w < 2 ^ 256"
    unfolding w(2) by (rule target_iff [OF w(1)])
  ultimately show ?thesis by (simp add: mult.commute)
qed

theorem difficulty_from_hash_greatest_witness:
  "check_difficulty (replicate 31 0 @ [2]) (2 ^ 255) = Inr False \<and>
   check_difficulty (replicate 31 0 @ [2]) (2 ^ 255 - 1) = Inr True"
proof -
  have "difficulty_from_hash (replicate 31 0 @ [2]) = Some (2 ^ 255 - 1)"
    unfolding difficulty_from_hash_def from_be_bytes_def nat_from_be_zeros
    by (simp add: u256_div_def u256_max_value_def nat_from_be_def)
  from difficulty_from_hash_greatest [OF this, of "2 ^ 255"]
    difficulty_from_hash_greatest [OF this, of "2 ^ 255 - 1"]
  show ?thesis by simp
qed

end
