(* ===== verification/Emission.thy ===== *)
theory Emission
  imports Difficulty
begin

text \<open>
  The monetary rules of the daemon: transaction fees (\<open>utils.rs\<close>), the emission curve, side
  block and developer shares (\<open>core/blockchain.rs\<close>, constants in the two \<open>config.rs\<close>).
  Amounts are 64-bit words, as in the source; the lemmas show where nothing wraps.
\<close>

section \<open>Constants\<close>

definition FEE_PER_KB :: u64 where "FEE_PER_KB = 10000"

definition FEE_PER_ACCOUNT_CREATION :: u64 where "FEE_PER_ACCOUNT_CREATION = 100000"

definition FEE_PER_TRANSFER :: u64 where "FEE_PER_TRANSFER = 5000"

definition BYTES_PER_KB :: nat where "BYTES_PER_KB = 1024"

definition COIN_DECIMALS :: nat where "COIN_DECIMALS = 8"

definition COIN_VALUE :: u64 where "COIN_VALUE = 10 ^ COIN_DECIMALS"

definition MAXIMUM_SUPPLY :: u64 where "MAXIMUM_SUPPLY = 18400000 * COIN_VALUE"

definition MAX_TRANSACTION_SIZE :: nat where
  "MAX_TRANSACTION_SIZE = BYTES_PER_KB * BYTES_PER_KB"

definition MAX_BLOCK_SIZE :: nat where
  "MAX_BLOCK_SIZE = BYTES_PER_KB * BYTES_PER_KB + 256 * BYTES_PER_KB"

definition TIPS_LIMIT :: nat where "TIPS_LIMIT = 3"

definition STABLE_LIMIT :: u64 where "STABLE_LIMIT = 8"

definition PRUNE_SAFETY_LIMIT :: u64 where "PRUNE_SAFETY_LIMIT = STABLE_LIMIT * 10"

definition SIDE_BLOCK_REWARD_PERCENT :: u64 where "SIDE_BLOCK_REWARD_PERCENT = 30"

definition SIDE_BLOCK_REWARD_MAX_BLOCKS :: u64 where "SIDE_BLOCK_REWARD_MAX_BLOCKS = 3"

definition SIDE_BLOCK_REWARD_MIN_PERCENT :: u64 where "SIDE_BLOCK_REWARD_MIN_PERCENT = 5"

definition EMISSION_SPEED_FACTOR :: nat where "EMISSION_SPEED_FACTOR = 20"

record dev_fee_threshold =
  dft_height :: u64
  dft_fee_percentage :: u64

definition DEV_FEES :: "dev_fee_threshold list" where
  "DEV_FEES = [\<lparr>dft_height = 0, dft_fee_percentage = 10\<rparr>,
               \<lparr>dft_height = 3250000, dft_fee_percentage = 5\<rparr>]"

section \<open>Fees\<close>

definition calculate_tx_fee :: "nat \<Rightarrow> nat \<Rightarrow> nat \<Rightarrow> nat \<Rightarrow> u64" where
  "calculate_tx_fee tx_size output_count new_addresses multisig =
     (let size_in_kb = of_nat (tx_size div BYTES_PER_KB) :: u64;
          size_in_kb = (if tx_size mod BYTES_PER_KB \<noteq> 0 then size_in_kb + 1 else size_in_kb) in
      size_in_kb * FEE_PER_KB + of_nat output_count * FEE_PER_TRANSFER
        + of_nat new_addresses * FEE_PER_ACCOUNT_CREATION + of_nat multisig * FEE_PER_TRANSFER)"

section \<open>Rewards\<close>

definition side_block_reward_percentage :: "u64 \<Rightarrow> u64" where
  "side_block_reward_percentage side_blocks =
     (if side_blocks > 0 then
        if side_blocks < SIDE_BLOCK_REWARD_MAX_BLOCKS
        then SIDE_BLOCK_REWARD_PERCENT div (side_blocks * 2)
        else SIDE_BLOCK_REWARD_MIN_PERCENT
      else SIDE_BLOCK_REWARD_PERCENT)"

definition get_block_reward :: "u64 \<Rightarrow> u64" where
  "get_block_reward supply =
     (if supply \<ge> MAXIMUM_SUPPLY then 0
      else let base_reward = drop_bit EMISSION_SPEED_FACTOR (MAXIMUM_SUPPLY - supply) in
        base_reward * BLOCK_TIME_MILLIS div MILLIS_PER_SECOND div 180)"

definition get_block_dev_fee :: "u64 \<Rightarrow> u64" where
  "get_block_dev_fee height = foldl (\<lambda>percentage threshold.
     if height \<ge> dft_height threshold then dft_fee_percentage threshold else percentage) 0 DEV_FEES"

definition internal_get_block_reward :: "u64 \<Rightarrow> bool \<Rightarrow> u64 \<Rightarrow> u64" where
  "internal_get_block_reward past_supply is_side_block side_blocks_count =
     (if is_side_block then
        let reward = get_block_reward past_supply;
            side_block_percent = side_block_reward_percentage side_blocks_count in
        reward * side_block_percent div 100
      else get_block_reward past_supply)"

subsection \<open>The rewards on natural numbers\<close>

lemma maximum_supply: "unat MAXIMUM_SUPPLY = 1840000000000000"
  by (simp add: MAXIMUM_SUPPLY_def COIN_VALUE_def COIN_DECIMALS_def)

lemma unat_get_block_reward:
  "unat (get_block_reward s) =
     (unat MAXIMUM_SUPPLY - unat s) div 2 ^ EMISSION_SPEED_FACTOR * 15000 div 1000 div 180"
proof (cases "s \<ge> MAXIMUM_SUPPLY")
  case True
  then show ?thesis by (simp add: get_block_reward_def word_le_nat_alt)
next
  case False
  then have sub: "unat (MAXIMUM_SUPPLY - s) = unat MAXIMUM_SUPPLY - unat s"
    by (intro unat_sub) simp
  have base: "unat (drop_bit EMISSION_SPEED_FACTOR (MAXIMUM_SUPPLY - s)) =
      (unat MAXIMUM_SUPPLY - unat s) div 2 ^ EMISSION_SPEED_FACTOR" (is "?u = ?b")
    by (simp only: unat_drop_bit sub)
  have "?b \<le> 1840000000000000 div 2 ^ 20"
    unfolding maximum_supply EMISSION_SPEED_FACTOR_def by (intro div_le_mono diff_le_self)
  then have "unat (drop_bit EMISSION_SPEED_FACTOR (MAXIMUM_SUPPLY - s) * BLOCK_TIME_MILLIS) =
      ?b * 15000"
    unfolding maximum_supply
    by (subst unat_mult_lem [THEN iffD1])
       (simp_all only: base, simp_all add: BLOCK_TIME_MILLIS_def MILLIS_PER_SECOND_def maximum_supply)
  with False show ?thesis
    by (simp add: get_block_reward_def Let_def unat_div MILLIS_PER_SECOND_def)
qed

lemma get_block_reward_bound: "unat (get_block_reward s) \<le> (unat MAXIMUM_SUPPLY - unat s) div 1048576"
  unfolding unat_get_block_reward EMISSION_SPEED_FACTOR_def by simp

lemma side_block_percentage_cases:
  "side_block_reward_percentage n =
     (if n = 0 then 30 else if n = 1 then 15 else if n = 2 then 7 else 5)"
proof -
  consider "n = 0" | "n = 1" | "n = 2" | "3 \<le> n" "n \<noteq> 0" "n \<noteq> 1" "n \<noteq> 2"
    by (cases "n < 3") (simp_all add: word_le_nat_alt word_less_nat_alt word_unat_eq_iff, linarith)
  then show ?thesis
    by cases (auto simp: side_block_reward_percentage_def SIDE_BLOCK_REWARD_PERCENT_def
        SIDE_BLOCK_REWARD_MAX_BLOCKS_def SIDE_BLOCK_REWARD_MIN_PERCENT_def word_neq_0_conv)
qed

lemma internal_reward_le: "unat (internal_get_block_reward s side n) \<le> unat (get_block_reward s)"
proof (cases side)
  case True
  let ?r = "unat (get_block_reward s)" and ?p = "unat (side_block_reward_percentage n)"
  have p: "?p \<le> 30" by (simp add: side_block_percentage_cases)
  have "?r \<le> 1840000000000000"
    using get_block_reward_bound [of s] unfolding maximum_supply by linarith
  then have "?r * ?p < 2 ^ 64" using mult_le_mono [OF _ p, of ?r 1840000000000000] by simp
  then have "unat (get_block_reward s * side_block_reward_percentage n) = ?r * ?p"
    by (simp add: unat_mult_lem [THEN iffD1])
  moreover have "?r * ?p div 100 \<le> ?r * 30 div 100" using p by (intro div_le_mono mult_le_mono) simp_all
  moreover have "?r * 30 div 100 \<le> ?r" by linarith
  ultimately show ?thesis using True by (simp add: internal_get_block_reward_def unat_div)
qed (simp add: internal_get_block_reward_def)

text \<open>
  The supply after a sequence of blocks: each block, side block or not, adds its reward to the
  supply of the block ordered before it.
\<close>

definition emit_block :: "bool \<times> u64 \<Rightarrow> u64 \<Rightarrow> u64" where
  "emit_block b supply = supply + internal_get_block_reward supply (fst b) (snd b)"

lemma emit_block_supply:
  assumes "s \<le> MAXIMUM_SUPPLY"
  shows "emit_block b s \<le> MAXIMUM_SUPPLY" "s \<le> emit_block b s"
proof -
  let ?r = "unat (internal_get_block_reward s (fst b) (snd b))"
  have "?r \<le> unat MAXIMUM_SUPPLY - unat s"
    using internal_reward_le [of s "fst b" "snd b"] get_block_reward_bound [of s]
      div_le_dividend [of "unat MAXIMUM_SUPPLY - unat s" 1048576] by linarith
  then have b: "unat s + ?r \<le> unat MAXIMUM_SUPPLY" using assms by (simp add: word_le_nat_alt)
  then have "unat (emit_block b s) = unat s + ?r"
    unfolding emit_block_def by (intro unat_add_lem [THEN iffD1]) (simp add: maximum_supply)
  with b show "emit_block b s \<le> MAXIMUM_SUPPLY" "s \<le> emit_block b s"
    by (simp_all add: word_le_nat_alt)
qed

section \<open>Properties\<close>

text \<open>
  C26: the supply is capped: whatever the order and kind of the blocks, starting from a supply
  that does not exceed the maximum, adding the reward of each block never lets the 64-bit supply
  wrap, decrease or exceed \<open>MAXIMUM_SUPPLY\<close>.
\<close>

theorem supply_capped:
  assumes "s \<le> MAXIMUM_SUPPLY"
  shows "fold emit_block blocks s \<le> MAXIMUM_SUPPLY \<and> s \<le> fold emit_block blocks s"
  using assms
proof (induction blocks arbitrary: s)
  case Nil
  then show ?case by simp
next
  case (Cons b bs)
  note step = emit_block_supply [OF Cons.prems, of b]
  from Cons.IH [OF step(1)] order_trans [OF step(2)] show ?case by simp
qed

theorem supply_capped_witness:
  "0 \<le> MAXIMUM_SUPPLY \<and>
   fold emit_block [(False, 0), (True, 1), (True, 7)] 0 \<le> MAXIMUM_SUPPLY"
  using supply_capped [of 0 "[(False, 0), (True, 1), (True, 7)]"] word_zero_le by blast

text \<open>
  The reward of a block decreases with the supply already emitted, and the share of a side
  block decreases with the number of side blocks at its height, from 30\% to 5\%.
\<close>

theorem rewards_decrease:
  "(s \<le> s' \<longrightarrow> get_block_reward s' \<le> get_block_reward s) \<and>
   (n \<le> n' \<longrightarrow> side_block_reward_percentage n' \<le> side_block_reward_percentage n) \<and>
   5 \<le> side_block_reward_percentage n \<and> side_block_reward_percentage n \<le> 30"
proof (intro conjI impI)
  assume "s \<le> s'"
  then show "get_block_reward s' \<le> get_block_reward s"
    unfolding word_le_nat_alt unat_get_block_reward
    by (intro div_le_mono mult_le_mono1) simp
next
  assume "n \<le> n'"
  then show "side_block_reward_percentage n' \<le> side_block_reward_percentage n"
    by (auto simp: side_block_percentage_cases word_le_nat_alt word_unat_eq_iff)
qed (simp_all add: side_block_percentage_cases)

theorem rewards_decrease_witness:
  "get_block_reward 1000 \<le> get_block_reward 7 \<and>
   side_block_reward_percentage 4 \<le> side_block_reward_percentage 1"
  using rewards_decrease [of 7 1000 1 4] by simp

text \<open>
  On sizes and counts that cannot wrap 64 bits, the fee of a transaction is its size in
  kilobytes, rounded up, times the fee per kilobyte, plus the fees of its outputs, of the accounts
  it creates and of its signatures; a signature is charged like a transfer.
\<close>

theorem calculate_tx_fee_spec:
  assumes "sz \<le> MAX_TRANSACTION_SIZE" "outs < 2 ^ 32" "news < 2 ^ 32" "sigs < 2 ^ 32"
  shows "unat (calculate_tx_fee sz outs news sigs) =
    (sz + 1023) div 1024 * 10000 + outs * 5000 + news * 100000 + sigs * 5000"
proof -
  have kb: "(if sz mod 1024 \<noteq> 0 then of_nat (sz div 1024) + 1 else of_nat (sz div 1024) :: u64) =
      of_nat ((sz + 1023) div 1024)"
  proof -
    obtain q r where sz: "sz = q * 1024 + r" "r < 1024"
      by (metis div_mult_mod_eq mod_less_divisor zero_less_numeral)
    have "(q * 1024 + r + 1023) div 1024 = (if r = 0 then q else q + 1)"
      using sz(2) by (intro div_nat_eqI) (auto simp: algebra_simps)
    with sz show ?thesis by (simp add: add.commute)
  qed
  let ?n = "(sz + 1023) div 1024 * 10000 + outs * 5000 + news * 100000 + sigs * 5000"
  have "calculate_tx_fee sz outs news sigs = of_nat ?n"
    unfolding calculate_tx_fee_def BYTES_PER_KB_def Let_def kb
    by (simp add: FEE_PER_KB_def FEE_PER_TRANSFER_def FEE_PER_ACCOUNT_CREATION_def)
  moreover have "?n < 2 ^ 64"
    using assms unfolding MAX_TRANSACTION_SIZE_def BYTES_PER_KB_def by simp
  then have "unat (of_nat ?n :: u64) = ?n" by (rule unat_u64)
  ultimately show ?thesis by (simp only:)
qed

theorem calculate_tx_fee_spec_witness:
  "unat (calculate_tx_fee 2049 2 1 0) = 3 * 10000 + 2 * 5000 + 100000"
  using calculate_tx_fee_spec [of 2049 2 1 0] by (simp add: MAX_TRANSACTION_SIZE_def BYTES_PER_KB_def)

end
