(* ===== verification/Block.thy ===== *)
theory Block
  imports Emission ElGamal "HOL-Library.Multiset"
begin

unbundle bit_operations_syntax

text \<open>
  Blocks and mining work (\<open>xelis_common/src/block\<close>): the block header with its serializer, the
  part of it that is mined, the mining job \<open>MinerWork\<close> and the \<open>Worker\<close> that keeps the job's
  serialized form beside it and patches it in place. The hash function of the \<open>blake3\<close> library
  and the proof-of-work functions of \<open>xelis_hash\<close> are parameters.
\<close>

section \<open>The block header\<close>

definition EXTRA_NONCE_SIZE :: nat where "EXTRA_NONCE_SIZE = 32"

definition HEADER_WORK_SIZE :: nat where "HEADER_WORK_SIZE = 73"

definition BLOCK_WORK_SIZE :: nat where "BLOCK_WORK_SIZE = 112"

type_synonym hash_fn = "u8 list \<Rightarrow> hash"

record block_header =
  version :: block_version
  tips :: "hash list"
  timestamp :: u64
  height :: u64
  nonce :: u64
  extra_nonce :: "u8 list"
  miner :: compressed_public_key
  txs_hashes :: "hash list"

definition block_header_new ::
  "block_version \<Rightarrow> u64 \<Rightarrow> u64 \<Rightarrow> hash list \<Rightarrow> u8 list \<Rightarrow> compressed_public_key \<Rightarrow> hash list \<Rightarrow>
   block_header" where
  "block_header_new v h t ts en m txs =
     \<lparr>version = v, tips = ts, timestamp = t, height = h, nonce = 0, extra_nonce = en, miner = m,
      txs_hashes = txs\<rparr>"

definition get_tips_hash :: "hash_fn \<Rightarrow> block_header \<Rightarrow> hash" where
  "get_tips_hash bh b = bh (concat (tips b))"

definition get_txs_hash :: "hash_fn \<Rightarrow> block_header \<Rightarrow> hash" where
  "get_txs_hash bh b = bh (concat (txs_hashes b))"

definition get_work :: "hash_fn \<Rightarrow> block_header \<Rightarrow> u8 list" where
  "get_work bh b =
     to_bytes write_block_version (version b) @ to_be_bytes (height b) @ get_tips_hash bh b @
     get_txs_hash bh b"

definition get_work_hash :: "hash_fn \<Rightarrow> block_header \<Rightarrow> hash" where
  "get_work_hash bh b = bh (get_work bh b)"

definition get_serialized_header :: "hash_fn \<Rightarrow> block_header \<Rightarrow> u8 list" where
  "get_serialized_header bh b =
     get_work_hash bh b @ to_be_bytes (timestamp b) @ to_be_bytes (nonce b) @ extra_nonce b @ miner b"

definition block_hash :: "hash_fn \<Rightarrow> block_header \<Rightarrow> hash" where
  "block_hash bh b = bh (get_serialized_header bh b)"

definition header_get_pow_hash ::
  "hash_fn \<Rightarrow> (u8 list \<Rightarrow> algorithm \<Rightarrow> 'e + hash) \<Rightarrow> block_header \<Rightarrow> algorithm \<Rightarrow> 'e + hash" where
  "header_get_pow_hash bh pow_hash b algorithm = pow_hash (get_serialized_header bh b) algorithm"

definition write_block_header :: "block_header \<Rightarrow> u8 list" where
  "write_block_header b =
     write_block_version (version b) @ write_u64 (height b) @ write_u64 (timestamp b) @
     write_u64 (nonce b) @ extra_nonce b @
     write_u8 (of_nat (length (tips b))) @ write_all write_hash (tips b) @
     write_u16 (of_nat (length (txs_hashes b))) @ write_all write_hash (txs_hashes b) @
     write_point (miner b)"

definition read_block_header :: "block_header parser" where
  "read_block_header =
     rbind read_block_version (\<lambda>v. rbind read_u64 (\<lambda>h. rbind read_u64 (\<lambda>t. rbind read_u64 (\<lambda>n.
     rbind (read_bytes 32) (\<lambda>en. rbind read_u8 (\<lambda>tips_count.
     if unat tips_count > TIPS_LIMIT then rfail InvalidValue
     else rbind (read_distinct InvalidValue (unat tips_count) read_hash []) (\<lambda>ts.
       rbind read_u16 (\<lambda>txs_count.
       rbind (read_distinct InvalidValue (unat txs_count) read_hash []) (\<lambda>txs.
       rbind read_point (\<lambda>m.
       rreturn \<lparr>version = v, tips = ts, timestamp = t, height = h, nonce = n, extra_nonce = en,
         miner = m, txs_hashes = txs\<rparr>))))))))))"

definition size_block_header :: "block_header \<Rightarrow> nat" where
  "size_block_header b =
     (let tips_size = 1 + length (tips b) * HASH_SIZE;
          txs_size = 2 + length (txs_hashes b) * HASH_SIZE;
          version_size = 1 in
      EXTRA_NONCE_SIZE + tips_size + txs_size + version_size + size_point (miner b)
      + size_u64 (timestamp b) + size_u64 (height b) + size_u64 (nonce b))"

text \<open>The invariants of the header's types (array lengths, sets without duplicates) and the two
  limits that the reader enforces.\<close>

definition block_header_ok :: "block_header \<Rightarrow> bool" where
  "block_header_ok b \<longleftrightarrow>
     length (tips b) \<le> TIPS_LIMIT \<and> distinct (tips b) \<and> list_all hash_ok (tips b) \<and>
     length (txs_hashes b) < 65536 \<and> distinct (txs_hashes b) \<and> list_all hash_ok (txs_hashes b) \<and>
     length (extra_nonce b) = EXTRA_NONCE_SIZE \<and> point_ok (miner b)"

lemma read_hashes_iff:
  "read_distinct e n read_hash [] (at pre rest c) = Inr (hs, r') \<longleftrightarrow>
     length hs = n \<and> list_all hash_ok hs \<and> distinct hs \<and>
     (\<exists>post. rest = write_all write_hash hs @ post \<and> r' = at (pre @ write_all write_hash hs) post c)"
  using hash_codec.read_distinct_at [of e n "[]" pre rest c hs r']
    hash_codec.read_distinct_write [of hs "[]" n e pre] by auto

interpretation block_header_codec:
  canonical_codec write_block_header read_block_header size_block_header block_header_ok
proof unfold_locales
  fix x pre post c
  assume ok: "block_header_ok x"
  then have en: "length (extra_nonce x) = 32" "unat (of_nat (length (tips x)) :: u8) = length (tips x)"
    by (simp_all add: block_header_ok_def TIPS_LIMIT_def EXTRA_NONCE_SIZE_def)
  from ok show "read_block_header (at pre (write_block_header x @ post) c) =
      Inr (x, at (pre @ write_block_header x) post c)"
    by (simp add: block_header_ok_def read_block_header_def write_block_header_def en
        hash_codec.read_distinct_write point_codec.read_write)
  show "size_block_header x = length (write_block_header x)"
    using ok by (simp add: block_header_ok_def size_block_header_def write_block_header_def
        length_write_hashes HASH_SIZE_def EXTRA_NONCE_SIZE_def size_point_def point_ok_def size_u64_def
        write_point_def)
next
  fix pre rest c x r'
  assume "read_block_header (at pre rest c) = Inr (x, r')"
  then show "block_header_ok x \<and> (\<exists>post. rest = write_block_header x @ post \<and>
      r' = at (pre @ write_block_header x) post c)"
    using unat_u16_less
    by (auto simp: block_header_ok_def read_block_header_def write_block_header_def result_simps
        read_hashes_iff point_codec.read_at_iff EXTRA_NONCE_SIZE_def split: if_splits)
qed

section \<open>Mining work\<close>

record miner_work =
  header_work_hash :: hash
  mw_timestamp :: u64
  mw_nonce :: u64
  mw_miner :: "compressed_public_key option"
  mw_extra_nonce :: "u8 list"

definition miner_work_new :: "hash \<Rightarrow> u64 \<Rightarrow> miner_work" where
  "miner_work_new h t =
     \<lparr>header_work_hash = h, mw_timestamp = t, mw_nonce = 0, mw_miner = None,
      mw_extra_nonce = replicate EXTRA_NONCE_SIZE 0\<rparr>"

definition miner_work_from_block :: "hash_fn \<Rightarrow> block_header \<Rightarrow> miner_work" where
  "miner_work_from_block bh b =
     \<lparr>header_work_hash = get_work_hash bh b, mw_timestamp = timestamp b, mw_nonce = 0,
      mw_miner = Some (miner b), mw_extra_nonce = extra_nonce b\<rparr>"

definition mw_increase_nonce :: "miner_work \<Rightarrow> miner_work" where
  "mw_increase_nonce w = w\<lparr>mw_nonce := mw_nonce w + 1\<rparr>"

definition mw_set_thread_id :: "u8 \<Rightarrow> miner_work \<Rightarrow> miner_work" where
  "mw_set_thread_id i w = w\<lparr>mw_extra_nonce := (mw_extra_nonce w)[EXTRA_NONCE_SIZE - 1 := i]\<rparr>"

definition mw_set_thread_id_u16 :: "u16 \<Rightarrow> miner_work \<Rightarrow> miner_work" where
  "mw_set_thread_id_u16 i w =
     w\<lparr>mw_extra_nonce := take (EXTRA_NONCE_SIZE - 2) (mw_extra_nonce w) @ to_be_bytes i\<rparr>"

definition write_miner_work :: "miner_work \<Rightarrow> u8 list" where
  "write_miner_work w =
     write_hash (header_work_hash w) @ write_u64 (mw_timestamp w) @ write_u64 (mw_nonce w) @
     mw_extra_nonce w @
     (case mw_miner w of Some m \<Rightarrow> write_point m | None \<Rightarrow> replicate RISTRETTO_COMPRESSED_SIZE 0)"

definition read_miner_work :: "miner_work parser" where
  "read_miner_work r =
     (if reader_total_size r \<noteq> BLOCK_WORK_SIZE then Inl InvalidSize
      else rbind read_hash (\<lambda>h. rbind read_u64 (\<lambda>t. rbind read_u64 (\<lambda>n. rbind (read_bytes 32) (\<lambda>en.
        rbind read_point (\<lambda>m.
        rreturn \<lparr>header_work_hash = h, mw_timestamp = t, mw_nonce = n, mw_miner = Some m,
          mw_extra_nonce = en\<rparr>))))) r)"

definition size_miner_work :: "miner_work \<Rightarrow> nat" where
  "size_miner_work w = BLOCK_WORK_SIZE"

definition miner_work_ok :: "miner_work \<Rightarrow> bool" where
  "miner_work_ok w \<longleftrightarrow> hash_ok (header_work_hash w) \<and> length (mw_extra_nonce w) = EXTRA_NONCE_SIZE \<and>
     pred_option point_ok (mw_miner w)"

text \<open>\<open>apply_miner_work\<close> panics when the job has no miner (\<open>unwrap\<close>).\<close>

definition apply_miner_work :: "miner_work \<Rightarrow> block_header \<Rightarrow> block_header option" where
  "apply_miner_work w b =
     map_option (\<lambda>m. b\<lparr>miner := m, timestamp := mw_timestamp w, nonce := mw_nonce w,
       extra_nonce := mw_extra_nonce w\<rparr>) (mw_miner w)"

section \<open>The worker\<close>

datatype ('a, 'b) work_variant = Uninitialized | VariantV1 'a | VariantV2 'b

definition variant_get_algorithm :: "('a, 'b) work_variant \<Rightarrow> algorithm option" where
  "variant_get_algorithm v =
     (case v of Uninitialized \<Rightarrow> None | VariantV1 _ \<Rightarrow> Some AlgorithmV1
      | VariantV2 _ \<Rightarrow> Some AlgorithmV2)"

record ('a, 'b) worker =
  work :: "(miner_work \<times> u8 list) option"
  variant :: "('a, 'b) work_variant"

datatype 'e worker_error = WorkerUninitialized | WorkerMissingWork | WorkerHashError 'e

definition worker_new :: "('a, 'b) worker" where
  "worker_new = \<lparr>work = None, variant = Uninitialized\<rparr>"

definition worker_take_work :: "('a, 'b) worker \<Rightarrow> miner_work option \<times> ('a, 'b) worker" where
  "worker_take_work w = (map_option fst (work w), w\<lparr>work := None\<rparr>)"

text \<open>Copying the serialized job panics when it does not have the length of the buffer.\<close>

definition worker_set_work ::
  "'a \<Rightarrow> 'b \<Rightarrow> miner_work \<Rightarrow> algorithm \<Rightarrow> ('a, 'b) worker \<Rightarrow> ('a, 'b) worker option" where
  "worker_set_work v1_scratch v2_scratch mw kind w =
     (let w = (if variant_get_algorithm (variant w) \<noteq> Some kind
               then (case kind of
                       AlgorithmV1 \<Rightarrow> w\<lparr>variant := VariantV1 v1_scratch\<rparr>
                     | AlgorithmV2 \<Rightarrow> w\<lparr>variant := VariantV2 v2_scratch\<rparr>)
               else w);
          bytes = to_bytes write_miner_work mw in
      if length bytes = BLOCK_WORK_SIZE then Some (w\<lparr>work := Some (mw, bytes)\<rparr>) else None)"

text \<open>\<open>input[i..i + 8].copy_from_slice(..)\<close>\<close>

definition patch :: "nat \<Rightarrow> u8 list \<Rightarrow> u8 list \<Rightarrow> u8 list" where
  "patch i bs input = take i input @ bs @ drop (i + length bs) input"

definition worker_increase_nonce :: "('a, 'b) worker \<Rightarrow> 'e worker_error + ('a, 'b) worker" where
  "worker_increase_nonce w =
     (case work w of
        Some (mw, input) \<Rightarrow>
          let mw = mw_increase_nonce mw in
          Inr (w\<lparr>work := Some (mw, patch 40 (to_be_bytes (mw_nonce mw)) input)\<rparr>)
      | None \<Rightarrow> Inl WorkerMissingWork)"

definition worker_set_timestamp :: "u64 \<Rightarrow> ('a, 'b) worker \<Rightarrow> 'e worker_error + ('a, 'b) worker" where
  "worker_set_timestamp t w =
     (case work w of
        Some (mw, input) \<Rightarrow>
          let mw = mw\<lparr>mw_timestamp := t\<rparr> in
          Inr (w\<lparr>work := Some (mw, patch 32 (to_be_bytes (mw_timestamp mw)) input)\<rparr>)
      | None \<Rightarrow> Inl WorkerMissingWork)"

text \<open>
  \<open>get_pow_hash\<close> hashes the cached input with the algorithm of the variant; the hash functions
  also update the scratch pad, and the first algorithm copies the input to an aligned buffer.
\<close>

definition worker_get_pow_hash ::
  "'e + u8 list \<Rightarrow> (u8 list \<Rightarrow> 'a \<Rightarrow> ('e + hash) \<times> 'a) \<Rightarrow> (u8 list \<Rightarrow> 'b \<Rightarrow> ('e + hash) \<times> 'b) \<Rightarrow>
   ('a, 'b) worker \<Rightarrow> ('e worker_error + hash) \<times> ('a, 'b) worker" where
  "worker_get_pow_hash aligned v1_hash v2_hash w =
     (case work w of
        None \<Rightarrow> (Inl WorkerMissingWork, w)
      | Some (_, input) \<Rightarrow>
        (case variant w of
           Uninitialized \<Rightarrow> (Inl WorkerUninitialized, w)
         | VariantV1 pad \<Rightarrow>
             (case aligned of
                Inl e \<Rightarrow> (Inl (WorkerHashError e), w)
              | Inr buffer \<Rightarrow>
                  (case v1_hash (input @ drop BLOCK_WORK_SIZE buffer) pad of (res, pad') \<Rightarrow>
                     (map_sum WorkerHashError id res, w\<lparr>variant := VariantV1 pad'\<rparr>)))
         | VariantV2 pad \<Rightarrow>
             (case v2_hash input pad of (res, pad') \<Rightarrow>
                (map_sum WorkerHashError id res, w\<lparr>variant := VariantV2 pad'\<rparr>))))"

definition worker_get_block_hash :: "hash_fn \<Rightarrow> ('a, 'b) worker \<Rightarrow> 'e worker_error + hash" where
  "worker_get_block_hash bh w =
     (case work w of Some (_, cache) \<Rightarrow> Inr (bh cache) | None \<Rightarrow> Inl WorkerMissingWork)"

section \<open>Combining tips\<close>

text \<open>The exclusive or of the hashes, byte by byte.\<close>

definition xor_bytes :: "u8 list \<Rightarrow> u8 list \<Rightarrow> u8 list" where
  "xor_bytes a b = map2 (XOR) a b"

definition get_combined_hash_for_tips :: "hash list \<Rightarrow> hash" where
  "get_combined_hash_for_tips ts = foldl xor_bytes (replicate HASH_SIZE 0) ts"

section \<open>The worker's cache is the serialized job\<close>

definition worker_ok :: "('a, 'b) worker \<Rightarrow> bool" where
  "worker_ok w \<longleftrightarrow>
     (case work w of None \<Rightarrow> True
      | Some (mw, input) \<Rightarrow> miner_work_ok mw \<and> input = to_bytes write_miner_work mw)"

lemma to_bytes_write [simp]: "to_bytes wr x = wr x"
  by (simp add: to_bytes_def write_bytes_def writer_new_def)

lemma length_write_miner_work:
  "miner_work_ok w \<Longrightarrow> length (write_miner_work w) = BLOCK_WORK_SIZE"
  by (cases "mw_miner w")
     (simp_all add: miner_work_ok_def write_miner_work_def BLOCK_WORK_SIZE_def EXTRA_NONCE_SIZE_def
       point_ok_def write_point_def RISTRETTO_COMPRESSED_SIZE_def)

lemma patch_nonce:
  "miner_work_ok w \<Longrightarrow>
     patch 40 (to_be_bytes n) (write_miner_work w) = write_miner_work (w\<lparr>mw_nonce := n\<rparr>)"
  by (simp add: patch_def write_miner_work_def miner_work_ok_def write_hash_def write_u64_def
      hash_ok_def HASH_SIZE_def)

lemma patch_timestamp:
  "miner_work_ok w \<Longrightarrow>
     patch 32 (to_be_bytes t) (write_miner_work w) = write_miner_work (w\<lparr>mw_timestamp := t\<rparr>)"
  by (simp add: patch_def write_miner_work_def miner_work_ok_def write_hash_def write_u64_def
      hash_ok_def HASH_SIZE_def)

lemma miner_work_ok_update [simp]:
  "miner_work_ok (w\<lparr>mw_nonce := n\<rparr>) = miner_work_ok w"
  "miner_work_ok (w\<lparr>mw_timestamp := t\<rparr>) = miner_work_ok w"
  by (simp_all add: miner_work_ok_def)

lemma worker_set_work_ok:
  "miner_work_ok mw \<Longrightarrow>
     \<exists>w'. worker_set_work s1 s2 mw kind w = Some w' \<and> worker_ok w' \<and>
       map_option fst (work w') = Some mw \<and> variant_get_algorithm (variant w') = Some kind"
  by (cases kind) (auto simp: worker_set_work_def worker_ok_def length_write_miner_work
      variant_get_algorithm_def Let_def)

text \<open>What a miner does between receiving a job and submitting it.\<close>

datatype worker_op = IncreaseNonce | SetTimestamp u64

fun worker_step :: "worker_op \<Rightarrow> ('a, 'b) worker \<Rightarrow> 'e worker_error + ('a, 'b) worker" where
  "worker_step IncreaseNonce w = worker_increase_nonce w"
| "worker_step (SetTimestamp t) w = worker_set_timestamp t w"

fun job_step :: "worker_op \<Rightarrow> miner_work \<Rightarrow> miner_work" where
  "job_step IncreaseNonce mw = mw_increase_nonce mw"
| "job_step (SetTimestamp t) mw = mw\<lparr>mw_timestamp := t\<rparr>"

lemma worker_step_refines:
  assumes "worker_ok w" "map_option fst (work w) = Some mw"
  shows "\<exists>w'. worker_step op w = Inr w' \<and> worker_ok w' \<and>
    map_option fst (work w') = Some (job_step op mw)"
  using assms
  by (cases op) (auto simp: worker_ok_def worker_increase_nonce_def worker_set_timestamp_def
      mw_increase_nonce_def patch_nonce patch_timestamp)

lemma worker_steps_refine:
  fixes w :: "('a, 'b) worker"
  assumes "worker_ok w" "map_option fst (work w) = Some mw"
  shows "\<exists>w'. fold_result worker_step ops w = (Inr w' :: 'e worker_error + ('a, 'b) worker) \<and> worker_ok w' \<and>
    map_option fst (work w') = Some (fold job_step ops mw)"
  using assms
proof (induction ops arbitrary: w mw)
  case Nil
  then show ?case by simp
next
  case (Cons op ops)
  obtain w1 where w1: "worker_step op w = (Inr w1 :: 'e worker_error + ('a, 'b) worker)" "worker_ok w1"
    "map_option fst (work w1) = Some (job_step op mw)"
    using worker_step_refines [OF Cons.prems] by metis
  from Cons.IH [OF w1(2,3)] w1(1) show ?case by simp
qed

text \<open>The job never touches the part of the header that the work hash covers.\<close>

lemma fold_job_step:
  "header_work_hash (fold job_step ops mw) = header_work_hash mw \<and>
   mw_miner (fold job_step ops mw) = mw_miner mw \<and>
   mw_extra_nonce (fold job_step ops mw) = mw_extra_nonce mw"
proof (induction ops arbitrary: mw)
  case (Cons op ops)
  then show ?case by (cases op) (simp_all add: mw_increase_nonce_def)
qed simp

lemma get_work_hash_apply:
  "apply_miner_work mw b = Some b' \<Longrightarrow> get_work_hash bh b' = get_work_hash bh b"
  by (auto simp: apply_miner_work_def get_work_hash_def get_work_def get_tips_hash_def
      get_txs_hash_def)

lemma serialized_header_apply:
  "apply_miner_work mw b = Some b' \<Longrightarrow> header_work_hash mw = get_work_hash bh b \<Longrightarrow>
     get_serialized_header bh b' = write_miner_work mw"
  using get_work_hash_apply [of mw b b' bh]
  by (auto simp: apply_miner_work_def get_serialized_header_def write_miner_work_def write_hash_def
      write_u64_def write_point_def)

lemma miner_work_from_block_ok:
  "block_header_ok b \<Longrightarrow> hash_ok (bh (get_work bh b)) \<Longrightarrow> miner_work_ok (miner_work_from_block bh b)"
  by (simp add: miner_work_ok_def miner_work_from_block_def block_header_ok_def get_work_hash_def)

lemma length_serialized_header:
  assumes "block_header_ok b" "\<forall>bs. hash_ok (bh bs)"
  shows "length (get_work bh b) = HEADER_WORK_SIZE"
    and "length (get_serialized_header bh b) = BLOCK_WORK_SIZE"
  using assms
  by (simp_all add: get_work_def get_serialized_header_def get_work_hash_def get_tips_hash_def
      get_txs_hash_def hash_ok_def HASH_SIZE_def HEADER_WORK_SIZE_def BLOCK_WORK_SIZE_def
      block_header_ok_def EXTRA_NONCE_SIZE_def point_ok_def RISTRETTO_COMPRESSED_SIZE_def)

subsection \<open>Combined tips\<close>

lemma length_xor_bytes [simp]: "length (xor_bytes a b) = min (length a) (length b)"
  by (simp add: xor_bytes_def)

lemma xor_bytes_left_commute: "xor_bytes (xor_bytes a b) c = xor_bytes (xor_bytes a c) b"
  by (rule nth_equalityI) (auto simp: xor_bytes_def ac_simps)

lemma length_combined_hash: "list_all hash_ok ts \<Longrightarrow> length (get_combined_hash_for_tips ts) = HASH_SIZE"
  unfolding get_combined_hash_for_tips_def
  by (induction ts rule: rev_induct) (simp_all add: hash_ok_def)

section \<open>Properties\<close>

text \<open>
  C1: mining is sound: take the job of a header to a worker, let it increase the nonce and update
  the timestamp in any order, then take the mined job back and apply it to the header. Nothing
  fails, and the buffer that the worker patched in place is exactly the serialized form of the new
  header, so that the block hash the worker announces is the hash of the block.
\<close>

theorem mined_header_hash:
  fixes w :: "('a, 'b) worker"
  assumes "block_header_ok b" "\<forall>bs. hash_ok (bh bs)"
  shows "\<exists>w1 w2 mw b'.
    worker_set_work s1 s2 (miner_work_from_block bh b) kind w = Some w1 \<and>
    fold_result worker_step ops w1 = (Inr w2 :: 'e worker_error + ('a, 'b) worker) \<and>
    fst (worker_take_work w2) = Some mw \<and> apply_miner_work mw b = Some b' \<and>
    map_option snd (work w2) = Some (get_serialized_header bh b') \<and>
    worker_get_block_hash bh w2 = (Inr (block_hash bh b') :: 'e worker_error + hash)"
proof -
  let ?mw = "miner_work_from_block bh b"
  have ok: "miner_work_ok ?mw" using assms by (intro miner_work_from_block_ok) simp_all
  obtain w1 where w1: "worker_set_work s1 s2 ?mw kind w = Some w1" "worker_ok w1"
    "map_option fst (work w1) = Some ?mw"
    using worker_set_work_ok [OF ok, of s1 s2 kind w] by blast
  obtain w2 where w2: "fold_result worker_step ops w1 = (Inr w2 :: 'e worker_error + ('a, 'b) worker)"
    "worker_ok w2" "map_option fst (work w2) = Some (fold job_step ops ?mw)"
    using worker_steps_refine [OF w1(2,3)] by blast
  define mw where "mw = fold job_step ops ?mw"
  have mw: "header_work_hash mw = get_work_hash bh b" "mw_miner mw = Some (miner b)"
    using fold_job_step [of ops ?mw] by (simp_all add: mw_def miner_work_from_block_def)
  obtain b' where b': "apply_miner_work mw b = Some b'" by (simp add: apply_miner_work_def mw)
  have ser: "get_serialized_header bh b' = write_miner_work mw"
    by (rule serialized_header_apply [OF b' mw(1)])
  have "work w2 = Some (mw, write_miner_work mw)"
    using w2(2,3) by (auto simp: worker_ok_def mw_def)
  with w1(1) w2(1) b' ser show ?thesis
    by (intro exI [of _ w1] exI [of _ w2] exI [of _ mw] exI [of _ b'])
       (simp add: worker_take_work_def worker_get_block_hash_def block_hash_def)
qed

definition sample_header :: block_header where
  "sample_header = block_header_new BlockV2 7 1000 [hash_zero, hash_max] (replicate 32 1)
     (replicate 32 2) [replicate 32 3]"

lemma sample_header_ok: "block_header_ok sample_header"
proof -
  have "hash_zero \<noteq> hash_max"
    by (simp add: hash_zero_def hash_max_def HASH_SIZE_def replicate_eq_replicate)
  then show ?thesis
    by (simp add: block_header_ok_def sample_header_def block_header_new_def TIPS_LIMIT_def
        hash_ok_def hash_zero_def hash_max_def HASH_SIZE_def EXTRA_NONCE_SIZE_def point_ok_def
        RISTRETTO_COMPRESSED_SIZE_def)
qed

theorem mined_header_hash_witness:
  "\<exists>w1 w2 :: (unit, unit) worker. \<exists>mw b'.
    worker_set_work () () (miner_work_from_block (\<lambda>_. hash_zero) sample_header) AlgorithmV2 worker_new
      = Some w1 \<and>
    fold_result worker_step [IncreaseNonce, SetTimestamp 2000, IncreaseNonce] w1 =
      (Inr w2 :: unit worker_error + (unit, unit) worker) \<and>
    fst (worker_take_work w2) = Some mw \<and> apply_miner_work mw sample_header = Some b'"
  using mined_header_hash [OF sample_header_ok, of "\<lambda>_. hash_zero" "()" "()" AlgorithmV2
      "worker_new :: (unit, unit) worker" "[IncreaseNonce, SetTimestamp 2000, IncreaseNonce]"]
  by (auto simp: hash_ok_def hash_zero_def)

text \<open>
  C28: a block header survives serialization: reading what was written gives the header back, the
  announced size is the number of bytes, and the reader accepts nothing else: whatever bytes are
  read as a header are the written form of a header with at most three distinct tips and without
  duplicate transactions, followed by the bytes that were not consumed.
\<close>

theorem block_header_round_trip:
  "(block_header_ok b \<longrightarrow> from_bytes read_block_header (to_bytes write_block_header b) = Inr b \<and>
      size_block_header b = length (to_bytes write_block_header b)) \<and>
   (from_bytes read_block_header bytes = Inr b \<longrightarrow>
      block_header_ok b \<and> (\<exists>rest. bytes = to_bytes write_block_header b @ rest))"
proof (intro conjI impI)
  assume ok: "block_header_ok b"
  show "from_bytes read_block_header (to_bytes write_block_header b) = Inr b"
    by (rule block_header_codec.from_bytes_to_bytes [OF ok])
  show "size_block_header b = length (to_bytes write_block_header b)"
    using block_header_codec.size_write [OF ok] by simp
next
  assume "from_bytes read_block_header bytes = Inr b"
  then obtain r where "read_block_header (at [] bytes context_default) = Inr (b, r)"
    by (auto simp: from_bytes_def reader_new_at result_simps)
  from block_header_codec.read_canonical [OF this]
  show "block_header_ok b" "\<exists>rest. bytes = to_bytes write_block_header b @ rest"
    by auto
qed

theorem block_header_round_trip_witness:
  "from_bytes read_block_header (to_bytes write_block_header sample_header) = Inr sample_header \<and>
   size_block_header sample_header = length (to_bytes write_block_header sample_header)"
  using block_header_round_trip [of sample_header] sample_header_ok by blast

text \<open>
  The combined hash of a list of tips does not depend on the order of the tips, and is a hash.
\<close>

theorem combined_hash_order_independent:
  assumes "list_all hash_ok ts" "mset ts = mset us"
  shows "get_combined_hash_for_tips ts = get_combined_hash_for_tips us \<and>
    hash_ok (get_combined_hash_for_tips ts)"
proof -
  have "fold (\<lambda>t acc. xor_bytes acc t) ts = fold (\<lambda>t acc. xor_bytes acc t) us"
    by (rule fold_multiset_equiv [OF _ assms(2)]) (auto simp: xor_bytes_left_commute)
  with length_combined_hash [OF assms(1)] show ?thesis
    by (simp add: get_combined_hash_for_tips_def foldl_conv_fold hash_ok_def)
qed

theorem combined_hash_order_independent_witness:
  "get_combined_hash_for_tips [hash_zero, hash_max] = get_combined_hash_for_tips [hash_max, hash_zero]"
  using combined_hash_order_independent [of "[hash_zero, hash_max]" "[hash_max, hash_zero]"]
  by (simp add: hash_ok_def hash_zero_def hash_max_def)

end
