(* ===== verification/Tx_Verify.thy ===== *)
theory Tx_Verify
  imports Tx_State Block Emission
begin

text \<open>
  Verification and application of a transaction (\<open>transaction/verify/mod.rs\<close> and
  \<open>transaction/verify/contract.rs\<close>) on any state of the interface in \<open>Tx_State\<close>.

  The record \<open>verifier\<close> collects what is not in the repository: the curve and range proof packages,
  transcripts, the hash functions and the checks of the virtual machine. The random batch factor of
  a proof is a function of the transcript it is drawn at, which no two proofs of a batch share.
\<close>

section \<open>Parameters and constants\<close>

datatype invoke_contract = InvokeEntry u16 | InvokeHook u8

text \<open>How a run of the virtual machine ends: gas used, exit code and the contract's chain state.\<close>

datatype 'cs vm_outcome = HookNotFound | Ran u64 "u64 option" 'cs

record ('p, 's, 'r, 'o, 't, 'env) verifier =
  v_libs :: "('p, 's, 'r, 'o, 't) libs"
  v_merlin :: "'s merlin"
  v_range :: "('p, 's, 'r) bulletproofs"
  v_batch_factor :: "transcript \<Rightarrow> 's"
  v_hash :: hash_fn
  v_key_from_hash :: "hash \<Rightarrow> 'p"
  v_is_entry_chunk :: "'o contract_module \<Rightarrow> nat \<Rightarrow> bool"
  v_chunk_id_of_hook :: "'o contract_module \<Rightarrow> u8 \<Rightarrow> nat option"
  v_module_ok :: "'o contract_module \<Rightarrow> 'env \<Rightarrow> bool"
  v_constant_ok :: "'o contract_module \<Rightarrow> 'env \<Rightarrow> 'o value_cell \<Rightarrow> bool"

abbreviation v_curve :: "('p, 's, 'r, 'o, 't, 'env) verifier \<Rightarrow> ('p, 's) curve" where
  "v_curve V \<equiv> lib_curve (v_libs V)"

definition XELIS_ASSET :: hash where "XELIS_ASSET = hash_zero"

definition BURN_PER_CONTRACT :: u64 where "BURN_PER_CONTRACT = COIN_VALUE"

definition MAX_GAS_USAGE_PER_TX :: u64 where "MAX_GAS_USAGE_PER_TX = COIN_VALUE * 10"

definition TX_GAS_BURN_PERCENT :: u64 where "TX_GAS_BURN_PERCENT = 30"

section \<open>Decompressed ciphertexts\<close>

record 'p decompressed_ct =
  d_commitment :: 'p
  d_sender_handle :: 'p
  d_receiver_handle :: 'p

definition decompress_ct ::
  "('p, 's) curve \<Rightarrow> compressed_point \<Rightarrow> compressed_point \<Rightarrow> compressed_point \<Rightarrow>
   decompression_error + 'p decompressed_ct" where
  "decompress_ct cv com sh rh =
     result_bind (point_decompress cv com) (\<lambda>c.
     result_bind (point_decompress cv sh) (\<lambda>s.
     result_bind (point_decompress cv rh) (\<lambda>r.
     Inr \<lparr>d_commitment = c, d_sender_handle = s, d_receiver_handle = r\<rparr>)))"

definition decompress_transfer ::
  "('p, 's) curve \<Rightarrow> 's transfer_payload \<Rightarrow> decompression_error + 'p decompressed_ct" where
  "decompress_transfer cv t = decompress_ct cv (tr_commitment t) (tr_sender_handle t) (tr_receiver_handle t)"

definition d_get_ciphertext :: "'p decompressed_ct \<Rightarrow> role \<Rightarrow> 'p ciphertext" where
  "d_get_ciphertext d role = \<lparr>commitment = d_commitment d,
     handle = (case role of Receiver \<Rightarrow> d_receiver_handle d | Sender \<Rightarrow> d_sender_handle d)\<rparr>"

type_synonym 'p decompressed_deposits = "(hash \<times> 'p decompressed_ct) list"

fun decompress_transfers ::
  "('p, 's) curve \<Rightarrow> 's transfer_payload list \<Rightarrow> decompression_error + 'p decompressed_ct list" where
  "decompress_transfers cv [] = Inr []"
| "decompress_transfers cv (t # ts) = result_bind (decompress_transfer cv t) (\<lambda>d.
     result_bind (decompress_transfers cv ts) (\<lambda>ds. Inr (d # ds)))"

fun decompress_deposits ::
  "('p, 's) curve \<Rightarrow> 's deposits \<Rightarrow> 'p decompressed_deposits \<Rightarrow>
   decompression_error + 'p decompressed_deposits" where
  "decompress_deposits cv [] m = Inr m"
| "decompress_deposits cv ((asset, DepositPublic n) # ds) m = decompress_deposits cv ds m"
| "decompress_deposits cv ((asset, DepositPrivate com sh rh pf) # ds) m =
     result_bind (decompress_ct cv com sh rh) (\<lambda>d.
       decompress_deposits cv ds (index_map_insert asset d m))"

section \<open>What a transaction takes from its sender\<close>

definition has_valid_version_format :: "('s, 'r, 'o) transaction \<Rightarrow> bool" where
  "has_valid_version_format tx = (case tx_version tx of
     TxV0 \<Rightarrow> tx_multisig tx = None \<and> (case tx_data tx of Transfers _ \<Rightarrow> True | Burn _ \<Rightarrow> True | _ \<Rightarrow> False)
   | TxV1 \<Rightarrow> (case tx_data tx of Transfers _ \<Rightarrow> True | Burn _ \<Rightarrow> True | MultiSig _ \<Rightarrow> True | _ \<Rightarrow> False)
   | TxV2 \<Rightarrow> True)"

definition add_deposit_output ::
  "('p, 's) curve \<Rightarrow> hash \<Rightarrow> 's deposits \<Rightarrow> 'p decompressed_deposits \<Rightarrow> 'p ciphertext \<Rightarrow>
   decompression_error + 'p ciphertext" where
  "add_deposit_output cv asset deposits decompressed out =
     (case map_of deposits asset of
        None \<Rightarrow> Inr out
      | Some (DepositPublic n) \<Rightarrow> Inr (ciphertext_add_scalar cv out (s_from cv n))
      | Some (DepositPrivate _ _ _ _) \<Rightarrow>
          result_bind (ok_or (map_of decompressed asset) DecompressionError) (\<lambda>d.
            Inr (ciphertext_add cv out \<lparr>commitment = d_commitment d, handle = d_sender_handle d\<rparr>)))"

definition add_native :: "('p, 's) curve \<Rightarrow> hash \<Rightarrow> u64 \<Rightarrow> 'p ciphertext \<Rightarrow> 'p ciphertext" where
  "add_native cv asset n out =
     (if asset = XELIS_ASSET then ciphertext_add_scalar cv out (s_from cv n) else out)"

definition get_sender_output_ct ::
  "('p, 's) curve \<Rightarrow> ('s, 'r, 'o) transaction \<Rightarrow> hash \<Rightarrow> 'p decompressed_ct list \<Rightarrow>
   'p decompressed_deposits \<Rightarrow> decompression_error + 'p ciphertext" where
  "get_sender_output_ct cv tx asset transfers_d deposits_d =
     (let out = add_native cv asset (tx_fee tx) (ciphertext_zero cv) in
      case tx_data tx of
        Transfers ts \<Rightarrow> Inr (fold (\<lambda>(t, d) out. if asset = tr_asset t
          then ciphertext_add cv out (d_get_ciphertext d Sender) else out) (zip ts transfers_d) out)
      | Burn p \<Rightarrow> Inr (if asset = burn_asset p
          then ciphertext_add_scalar cv out (s_from cv (burn_amount p)) else out)
      | MultiSig _ \<Rightarrow> Inr out
      | InvokeContract p \<Rightarrow>
          add_deposit_output cv asset (inv_deposits p) deposits_d
            (add_native cv asset (inv_max_gas p) out)
      | DeployContract p \<Rightarrow>
          result_bind (case dep_invoke p of
              None \<Rightarrow> Inr out
            | Some i \<Rightarrow> add_deposit_output cv asset (ic_deposits i) deposits_d
                (add_native cv asset (ic_max_gas i) out))
            (\<lambda>out. Inr (add_native cv asset BURN_PER_CONTRACT out)))"

text \<open>
  The decompression that \<open>get_expected_sender_outputs\<close>, \<open>apply_without_verify\<close> and
  \<open>apply_with_partial_verify\<close> begin with: the deposits of an invocation, and not those of a
  constructor.
\<close>

definition decompress_tx ::
  "('p, 's) curve \<Rightarrow> ('s, 'r, 'o) transaction \<Rightarrow>
   decompression_error + 'p decompressed_ct list \<times> 'p decompressed_deposits" where
  "decompress_tx cv tx = (case tx_data tx of
     Transfers ts \<Rightarrow> result_bind (decompress_transfers cv ts) (\<lambda>ds. Inr (ds, []))
   | InvokeContract p \<Rightarrow> result_bind (decompress_deposits cv (inv_deposits p) []) (\<lambda>m. Inr ([], m))
   | _ \<Rightarrow> Inr ([], []))"

fun sender_outputs ::
  "('p, 's) curve \<Rightarrow> ('s, 'r, 'o) transaction \<Rightarrow> 'p decompressed_ct list \<Rightarrow> 'p decompressed_deposits \<Rightarrow>
   's source_commitment list \<Rightarrow> decompression_error + (hash \<times> 'p ciphertext) list" where
  "sender_outputs cv tx ts ds [] = Inr []"
| "sender_outputs cv tx ts ds (c # cs) = result_bind (get_sender_output_ct cv tx (sc_asset c) ts ds) (\<lambda>ct.
     result_bind (sender_outputs cv tx ts ds cs) (\<lambda>outs. Inr ((sc_asset c, ct) # outs)))"

definition get_expected_sender_outputs ::
  "('p, 's) curve \<Rightarrow> ('s, 'r, 'o) transaction \<Rightarrow> decompression_error + (hash \<times> 'p ciphertext) list" where
  "get_expected_sender_outputs cv tx =
     result_bind (decompress_tx cv tx) (\<lambda>(ts, ds). sender_outputs cv tx ts ds (tx_source_commitments tx))"

definition prepare_transcript :: "tx_version \<Rightarrow> compressed_public_key \<Rightarrow> u64 \<Rightarrow> nonce \<Rightarrow> transcript" where
  "prepare_transcript v source fee n =
     append_u64 ''nonce'' n (append_u64 ''fee'' fee (append_public_key ''source_pubkey'' source
       (append_u64 ''version'' (ucast (tx_version_into_u8 v)) (transcript_new ''transaction-proof''))))"

definition has_commitment_for_asset :: "('s, 'r, 'o) transaction \<Rightarrow> hash \<Rightarrow> bool" where
  "has_commitment_for_asset tx asset \<longleftrightarrow> (\<exists>c \<in> set (tx_source_commitments tx). sc_asset c = asset)"

definition verify_commitment_assets :: "('s, 'r, 'o) transaction \<Rightarrow> bool" where
  "verify_commitment_assets tx \<longleftrightarrow>
     has_commitment_for_asset tx XELIS_ASSET \<and>
     distinct (map sc_asset (tx_source_commitments tx)) \<and>
     (case tx_data tx of
        Transfers ts \<Rightarrow> list_all (\<lambda>t. has_commitment_for_asset tx (tr_asset t)) ts
      | Burn p \<Rightarrow> has_commitment_for_asset tx (burn_asset p)
      | MultiSig _ \<Rightarrow> True
      | InvokeContract p \<Rightarrow> list_all (\<lambda>d. has_commitment_for_asset tx (fst d)) (inv_deposits p)
      | DeployContract _ \<Rightarrow> True)"

section \<open>Verification\<close>

text \<open>The format of a call: the number of deposits, the gas limit, and the deposits decompressed.\<close>

fun check_deposits ::
  "('p, 's) curve \<Rightarrow> 's deposits \<Rightarrow> 'p decompressed_deposits \<Rightarrow>
   'e verification_error + 'p decompressed_deposits" where
  "check_deposits cv [] m = Inr m"
| "check_deposits cv ((asset, DepositPublic n) # ds) m =
     (if n = 0 then Inl InvalidFormat else check_deposits cv ds m)"
| "check_deposits cv ((asset, DepositPrivate com sh rh pf) # ds) m =
     result_bind (map_err (Proof \<circ> Decompression) (decompress_ct cv com sh rh)) (\<lambda>d.
       check_deposits cv ds (index_map_insert asset d m))"

definition verify_invoke_contract ::
  "('p, 's) curve \<Rightarrow> 's deposits \<Rightarrow> u64 \<Rightarrow> 'e verification_error + 'p decompressed_deposits" where
  "verify_invoke_contract cv deposits max_gas =
     (if length deposits > MAX_DEPOSIT_PER_INVOKE_CALL then Inl DepositCount
      else if max_gas > MAX_GAS_USAGE_PER_TX then Inl MaxGasReached
      else check_deposits cv deposits [])"

text \<open>The state of the proofs under verification: transcript, value commitments and collector.\<close>

record ('p, 's) proof_state =
  ps_transcript :: transcript
  ps_values :: "('p \<times> compressed_point) list"
  ps_batch :: "('p, 's) batch_collector"

definition verify_validity ::
  "('p, 's, 'r, 'o, 't, 'env) verifier \<Rightarrow> 's ciphertext_validity_proof \<Rightarrow> compressed_point \<Rightarrow>
   'p decompressed_ct \<Rightarrow> 'p \<Rightarrow> 'p \<Rightarrow> bool \<Rightarrow> ('p, 's) proof_state \<Rightarrow>
   'e verification_error + ('p, 's) proof_state" where
  "verify_validity V pf com d dest_pubkey source check ps =
     result_bind (map_err Proof (validity_proof_pre_verify (v_curve V) (v_merlin V)
         (v_batch_factor V (ps_transcript ps)) pf (d_commitment d) dest_pubkey source
         (d_receiver_handle d) (d_sender_handle d) check (ps_transcript ps) (ps_batch ps)))
       (\<lambda>(t, b). Inr \<lparr>ps_transcript = t, ps_values = ps_values ps @ [(d_commitment d, com)], ps_batch = b\<rparr>)"

fun verify_contract_deposits ::
  "('p, 's, 'r, 'o, 't, 'env) verifier \<Rightarrow> 'p \<Rightarrow> 'p \<Rightarrow> 'p decompressed_deposits \<Rightarrow> 's deposits \<Rightarrow>
   ('p, 's) proof_state \<Rightarrow> 'e verification_error + ('p, 's) proof_state" where
  "verify_contract_deposits V source dest deposits_d [] ps = Inr ps"
| "verify_contract_deposits V source dest deposits_d ((asset, deposit) # ds) ps =
     (let t = append_hash ''deposit_asset'' asset (deposit_proof_domain_separator (ps_transcript ps)) in
      result_bind
        (case deposit of
           DepositPublic n \<Rightarrow> Inr (ps\<lparr>ps_transcript := append_u64 ''deposit_plain'' n t\<rparr>)
         | DepositPrivate com sh rh pf \<Rightarrow>
             (let t = append_handle ''deposit_receiver_handle'' rh (append_handle ''deposit_sender_handle'' sh
                   (append_commitment ''deposit_commitment'' com t)) in
              result_bind (ok_or (map_of deposits_d asset) DepositNotFound) (\<lambda>d.
                verify_validity V pf com d dest source True (ps\<lparr>ps_transcript := t\<rparr>))))
        (verify_contract_deposits V source dest deposits_d ds))"

fun check_transfers ::
  "('p, 's) curve \<Rightarrow> compressed_public_key \<Rightarrow> 's transfer_payload list \<Rightarrow>
   'e verification_error + nat \<times> 'p decompressed_ct list" where
  "check_transfers cv source [] = Inr (0, [])"
| "check_transfers cv source (t # ts) =
     (if tr_destination t = source then Inl SenderIsReceiver else
      result_bind (case tr_extra_data t of None \<Rightarrow> Inr 0
        | Some d \<Rightarrow> if size_extra_data d > EXTRA_DATA_LIMIT_SIZE then Inl TransferExtraDataSize
            else Inr (size_extra_data d)) (\<lambda>n.
      result_bind (map_err (Proof \<circ> Decompression) (decompress_transfer cv t)) (\<lambda>d.
      result_bind (check_transfers cv source ts) (\<lambda>(m, ds). Inr (n + m, d # ds)))))"

text \<open>\<open>is_contract_available\<close> of \<open>contract.rs\<close>.\<close>

definition is_contract_available ::
  "('st, 'e, 'p, 's, 'r, 'o, 'env, 'z) verification_state_scheme \<Rightarrow> hash \<Rightarrow>
   ('st, 'e verification_error, bool) action" where
  "is_contract_available S contract = aerr State (vs_load_contract_module S contract)"

text \<open>The checks of each kind of transaction that come before any proof.\<close>

definition verify_data ::
  "('p, 's, 'r, 'o, 't, 'env) verifier \<Rightarrow> ('st, 'e, 'p, 's, 'r, 'o, 'env, 'z) verification_state_scheme \<Rightarrow>
   ('s, 'r, 'o) transaction \<Rightarrow>
   ('st, 'e verification_error, 'p decompressed_ct list \<times> 'p decompressed_deposits) action" where
  "verify_data V S tx = (case tx_data tx of
     Transfers ts \<Rightarrow>
       if length ts > MAX_TRANSFER_COUNT \<or> ts = [] then afail TransferCount else
       abind (alift (check_transfers (v_curve V) (tx_source tx) ts)) (\<lambda>(n, ds).
       if n > EXTRA_DATA_LIMIT_SUM_SIZE then afail TransactionExtraDataSize else areturn (ds, []))
   | Burn p \<Rightarrow>
       (let fee = tx_fee tx; amount = burn_amount p in
        if amount = 0 then afail InvalidFormat
        else if unat fee + unat amount \<ge> 2 ^ 64 then afail InvalidFormat
        else if fee + amount < fee \<or> fee + amount < amount then afail InvalidFormat
        else areturn ([], []))
   | MultiSig p \<Rightarrow>
       if length (participants p) > MAX_MULTISIG_PARTICIPANTS then afail MultiSigParticipants
       else if unat (threshold p) > length (participants p) then afail MultiSigThreshold
       else if threshold p = 0 \<and> participants p \<noteq> [] then afail MultiSigThreshold
       else if tx_source tx \<in> set (participants p) then afail MultiSigParticipants
       else if threshold p = 0 \<and> participants p = [] then
         abind (aerr State (vs_get_multisig_state S (tx_source tx))) (\<lambda>m.
           if m = None then afail MultiSigNotConfigured else areturn ([], []))
       else areturn ([], [])
   | InvokeContract p \<Rightarrow>
       abind (alift (verify_invoke_contract (v_curve V) (inv_deposits p) (inv_max_gas p))) (\<lambda>ds.
       abind (is_contract_available S (inv_contract p)) (\<lambda>available.
       if \<not> available then afail ContractNotFound else
       abind (aerr State (vs_get_contract_module_with_environment S (inv_contract p))) (\<lambda>(m, env).
       if \<not> v_is_entry_chunk V m (unat (inv_chunk_id p)) then afail InvalidInvokeContract
       else if \<not> list_all (v_constant_ok V m env) (inv_parameters p) then afail ModuleError
       else areturn ([], ds))))
   | DeployContract p \<Rightarrow>
       abind (case dep_invoke p of None \<Rightarrow> areturn []
         | Some i \<Rightarrow> alift (verify_invoke_contract (v_curve V) (ic_deposits i) (ic_max_gas i))) (\<lambda>ds.
       abind (aerr State (vs_get_environment S)) (\<lambda>env.
       if \<not> v_module_ok V (dep_module p) env then afail ModuleError else areturn ([], ds))))"

fun decompress_commitments ::
  "('p, 's) curve \<Rightarrow> 's source_commitment list \<Rightarrow> decompression_error + 'p list" where
  "decompress_commitments cv [] = Inr []"
| "decompress_commitments cv (c # cs) = result_bind (point_decompress cv (sc_commitment c)) (\<lambda>p.
     result_bind (decompress_commitments cv cs) (\<lambda>ps. Inr (p # ps)))"

fun verify_signers ::
  "('p, 's) curve \<Rightarrow> u8 list \<Rightarrow> compressed_public_key list \<Rightarrow> 's multisig \<Rightarrow> 'e verification_error + unit" where
  "verify_signers cv h keys [] = Inr ()"
| "verify_signers cv h keys (s # ss) =
     (if unat (sid_id s) \<ge> length keys then Inl MultiSigParticipants else
      result_bind (map_err (Proof \<circ> Decompression) (point_decompress cv (keys ! unat (sid_id s)))) (\<lambda>key.
      if \<not> signature_verify cv (sid_signature s) h key then Inl InvalidSignature
      else verify_signers cv h keys ss))"

definition verify_multisig ::
  "('p, 's, 'r, 'o, 't, 'env) verifier \<Rightarrow> u8 list \<Rightarrow> multisig_payload option \<Rightarrow> 's multisig option \<Rightarrow>
   'e verification_error + unit" where
  "verify_multisig V bytes config ms = (case config of
     None \<Rightarrow> if ms \<noteq> None then Inl MultiSigNotConfigured else Inr ()
   | Some c \<Rightarrow> (case ms of None \<Rightarrow> Inl MultiSigNotFound
     | Some ms \<Rightarrow>
         if unat (threshold c) \<noteq> length ms \<or> length ms > MAX_MULTISIG_PARTICIPANTS
         then Inl MultiSigParticipants else
         (let len = 1 + 1 + SIGNATURE_SIZE + length ms * (SIGNATURE_SIZE + 1) in
          if len \<ge> length bytes then Inl InvalidFormat
          else verify_signers (v_curve V) (v_hash V (take (length bytes - len) bytes)) (participants c) ms)))"

text \<open>
  One source commitment: the balance of the sender after what the transaction takes, and the proof
  that the commitment holds it. \<open>write\<close> tells whether the balance is written through the reference at
  once, as \<open>pre_verify\<close> does.
\<close>

definition verify_source_commitment ::
  "('p, 's, 'r, 'o, 't, 'env) verifier \<Rightarrow> ('st, 'e, 'p, 's, 'r, 'o, 'env, 'z) verification_state_scheme \<Rightarrow>
   ('s, 'r, 'o) transaction \<Rightarrow> 'p \<Rightarrow> 'p decompressed_ct list \<Rightarrow> 'p decompressed_deposits \<Rightarrow> bool \<Rightarrow>
   's source_commitment \<times> 'p \<Rightarrow> transcript \<times> ('p, 's) batch_collector \<Rightarrow>
   ('st, 'e verification_error,
    ('p ciphertext \<times> 'p ciphertext) \<times> transcript \<times> ('p, 's) batch_collector) action" where
  "verify_source_commitment V S tx source ts ds write cc tb =
     (case cc of (c, new_commitment) \<Rightarrow> case tb of (t, b) \<Rightarrow>
      abind (alift (map_err (Proof \<circ> Decompression) (get_sender_output_ct (v_curve V) tx (sc_asset c) ts ds))) (\<lambda>out.
      abind (aerr State (vs_get_sender_balance S (tx_source tx) (sc_asset c) (tx_reference tx))) (\<lambda>balance.
      (let source_ct = ciphertext_compress (v_curve V) balance;
           new_balance = ciphertext_sub (v_curve V) balance out;
           t = new_commitment_eq_proof_domain_separator t;
           t = append_hash ''new_source_commitment_asset'' (sc_asset c) t;
           t = append_commitment ''new_source_commitment'' (sc_commitment c) t;
           t = (if tx_version tx \<ge> TxV1 then append_ciphertext ''source_ct'' source_ct t else t) in
       abind (aupdate (if write then vs_put_sender_balance S (tx_source tx) (sc_asset c) new_balance else id)) (\<lambda>_.
       abind (alift (map_err Proof (eq_proof_pre_verify (v_curve V) (v_merlin V) (v_batch_factor V t)
         (sc_proof c) source new_balance new_commitment t b))) (\<lambda>tb.
       areturn ((new_balance, out), tb)))))))"

definition verify_commitment_step ::
  "('p, 's, 'r, 'o, 't, 'env) verifier \<Rightarrow> ('st, 'e, 'p, 's, 'r, 'o, 'env, 'z) verification_state_scheme \<Rightarrow>
   ('s, 'r, 'o) transaction \<Rightarrow> 'p \<Rightarrow> 'p decompressed_ct list \<Rightarrow> 'p decompressed_deposits \<Rightarrow>
   's source_commitment \<times> 'p \<Rightarrow> transcript \<times> ('p, 's) batch_collector \<Rightarrow>
   ('st, 'e verification_error, transcript \<times> ('p, 's) batch_collector) action" where
  "verify_commitment_step V S tx source ts ds cc tb =
     abind (verify_source_commitment V S tx source ts ds True cc tb) (\<lambda>((_, out), tb).
     abind (aerr State (vs_add_sender_output S (tx_source tx) (sc_asset (fst cc)) out)) (\<lambda>_.
     areturn tb))"

definition add_to_receiver ::
  "('p, 's) curve \<Rightarrow> ('st, 'e, 'p, 's, 'r, 'o, 'env, 'z) verification_state_scheme \<Rightarrow>
   compressed_public_key \<Rightarrow> hash \<Rightarrow> 'p ciphertext \<Rightarrow> ('st, 'e verification_error, unit) action" where
  "add_to_receiver cv S key asset ct =
     abind (aerr State (vs_get_receiver_balance S key asset)) (\<lambda>balance.
     aupdate (vs_put_receiver_balance S key asset (ciphertext_add cv balance ct)))"

definition verify_transfer_step ::
  "('p, 's, 'r, 'o, 't, 'env) verifier \<Rightarrow> ('st, 'e, 'p, 's, 'r, 'o, 'env, 'z) verification_state_scheme \<Rightarrow>
   ('s, 'r, 'o) transaction \<Rightarrow> 'p \<Rightarrow> 's transfer_payload \<times> 'p decompressed_ct \<Rightarrow> ('p, 's) proof_state \<Rightarrow>
   ('st, 'e verification_error, ('p, 's) proof_state) action" where
  "verify_transfer_step V S tx source td ps = (case td of (x, d) \<Rightarrow>
     abind (alift (map_err (Proof \<circ> Decompression) (point_decompress (v_curve V) (tr_destination x)))) (\<lambda>receiver.
     abind (add_to_receiver (v_curve V) S (tr_destination x) (tr_asset x) (d_get_ciphertext d Receiver)) (\<lambda>_.
     (let t = transfer_proof_domain_separator (ps_transcript ps);
          t = append_public_key ''dest_pubkey'' (tr_destination x) t;
          t = append_commitment ''amount_commitment'' (tr_commitment x) t;
          t = append_handle ''amount_sender_handle'' (tr_sender_handle x) t;
          t = append_handle ''amount_receiver_handle'' (tr_receiver_handle x) t in
      alift (verify_validity V (tr_ct_validity_proof x) (tr_commitment x) d receiver source
        (tx_version tx \<ge> TxV1) (ps\<lparr>ps_transcript := t\<rparr>))))))"

definition on_transcript :: "(transcript \<Rightarrow> transcript) \<Rightarrow> ('p, 's) proof_state \<Rightarrow> ('p, 's) proof_state" where
  "on_transcript f ps = ps\<lparr>ps_transcript := f (ps_transcript ps)\<rparr>"

definition verify_payload ::
  "('p, 's, 'r, 'o, 't, 'env) verifier \<Rightarrow> ('st, 'e, 'p, 's, 'r, 'o, 'env, 'z) verification_state_scheme \<Rightarrow>
   ('s, 'r, 'o) transaction \<Rightarrow> hash \<Rightarrow> 'p \<Rightarrow> 'p decompressed_ct list \<Rightarrow> 'p decompressed_deposits \<Rightarrow>
   ('p, 's) proof_state \<Rightarrow> ('st, 'e verification_error, ('p, 's) proof_state) action" where
  "verify_payload V S tx tx_hash source ts ds ps = (case tx_data tx of
     Transfers xs \<Rightarrow> afor (verify_transfer_step V S tx source) (zip xs ts) ps
   | Burn p \<Rightarrow> areturn (if tx_version tx \<ge> TxV1 then on_transcript (\<lambda>t.
       append_u64 ''burn_amount'' (burn_amount p) (append_hash ''burn_asset'' (burn_asset p)
         (burn_proof_domain_separator t))) ps else ps)
   | MultiSig p \<Rightarrow>
       (let ps = on_transcript (\<lambda>t. fold (append_public_key ''multisig_participant'') (participants p)
            (append_u64 ''multisig_threshold'' (ucast (threshold p)) (multisig_proof_domain_separator t))) ps in
        abind (aerr State (vs_set_multisig_state S (tx_source tx) p)) (\<lambda>_. areturn ps))
   | InvokeContract p \<Rightarrow>
       abind (alift (verify_contract_deposits V source (v_key_from_hash V (inv_contract p)) ds (inv_deposits p) ps)) (\<lambda>ps.
       areturn (on_transcript (\<lambda>t. fold (\<lambda>c. append_message ''contract_param'' (to_bytes (write_value_cell (lib_vm (v_libs V))) c))
         (inv_parameters p) (append_u64 ''max_gas'' (inv_max_gas p) (append_hash ''contract_hash'' (inv_contract p)
         (invoke_contract_proof_domain_separator t)))) ps))
   | DeployContract p \<Rightarrow>
       (let ps = on_transcript deploy_contract_proof_domain_separator ps in
        if (dep_invoke p = None) \<noteq> (v_chunk_id_of_hook V (dep_module p) 0 = None) then afail InvalidFormat else
        abind (case dep_invoke p of None \<Rightarrow> areturn ps
          | Some i \<Rightarrow> abind (alift (verify_contract_deposits V source (v_key_from_hash V tx_hash) ds (ic_deposits i) ps))
              (\<lambda>ps. areturn (on_transcript (\<lambda>t. append_u64 ''max_gas'' (ic_max_gas i)
                 (invoke_constructor_proof_domain_separator t)) ps))) (\<lambda>ps.
        abind (aerr State (vs_set_contract_module S tx_hash (dep_module p))) (\<lambda>_. areturn ps))))"

text \<open>
  The commitments for the range proof: those of the source, of the values, and enough identities to
  make their number a power of two. \<open>checked_next_power_of_two\<close> has a result for every length that a
  list in memory can have.
\<close>

definition final_commitments ::
  "('p, 's) curve \<Rightarrow> 's source_commitment list \<Rightarrow> 'p list \<Rightarrow> ('p \<times> compressed_point) list \<Rightarrow>
   ('p \<times> compressed_point) list" where
  "final_commitments cv cs new_commitments vals =
     (let n = length cs + length vals in
      zip new_commitments (map sc_commitment cs) @ vals @
      replicate (next_power_of_two n - n) (p_identity cv, replicate 32 0))"

definition pre_verify ::
  "('p, 's, 'r, 'o, 't, 'env) verifier \<Rightarrow> ('st, 'e, 'p, 's, 'r, 'o, 'env, 'z) verification_state_scheme \<Rightarrow>
   ('s, 'r, 'o) transaction \<Rightarrow> hash \<Rightarrow> ('p, 's) batch_collector \<Rightarrow>
   ('st, 'e verification_error,
    transcript \<times> ('p \<times> compressed_point) list \<times> ('p, 's) batch_collector) action" where
  "pre_verify V S tx tx_hash b =
     (if \<not> has_valid_version_format tx then afail InvalidFormat else
      abind (aerr State (vs_pre_verify_tx S tx)) (\<lambda>_.
      abind (aerr State (vs_get_account_nonce S (tx_source tx))) (\<lambda>account_nonce.
      if account_nonce \<noteq> tx_nonce tx then afail (InvalidNonce account_nonce (tx_nonce tx)) else
      abind (aerr State (vs_update_account_nonce S (tx_source tx) (tx_nonce tx + 1))) (\<lambda>_.
      if \<not> verify_commitment_assets tx then afail Commitments else
      abind (verify_data V S tx) (\<lambda>(ts, ds).
      abind (alift (map_err (Proof \<circ> Decompression)
        (decompress_commitments (v_curve V) (tx_source_commitments tx)))) (\<lambda>new_commitments.
      abind (alift (map_err (Proof \<circ> Decompression) (point_decompress (v_curve V) (tx_source tx)))) (\<lambda>source.
      (let t = prepare_transcript (tx_version tx) (tx_source tx) (tx_fee tx) (tx_nonce tx);
           bytes = to_bytes (write_transaction (v_libs V)) tx in
       if \<not> signature_verify (v_curve V) (tx_signature tx) (take (length bytes - SIGNATURE_SIZE) bytes) source
       then afail InvalidSignature else
       abind (aerr State (vs_get_multisig_state S (tx_source tx))) (\<lambda>config.
       abind (alift (verify_multisig V bytes config (tx_multisig tx))) (\<lambda>_.
       abind (afor (verify_commitment_step V S tx source ts ds)
         (zip (tx_source_commitments tx) new_commitments) (t, b)) (\<lambda>(t, b).
       abind (verify_payload V S tx tx_hash source ts ds
         \<lparr>ps_transcript = t, ps_values = [], ps_batch = b\<rparr>) (\<lambda>ps.
       areturn (ps_transcript ps,
         final_commitments (v_curve V) (tx_source_commitments tx) new_commitments (ps_values ps),
         ps_batch ps))))))))))))) "

text \<open>
  The two lists of the collector have the same length (\<open>batch_ok\<close>), so \<open>batch_verify\<close> does not panic.
\<close>

definition verify_tx ::
  "('p, 's, 'r, 'o, 't, 'env) verifier \<Rightarrow> ('st, 'e, 'p, 's, 'r, 'o, 'env, 'z) verification_state_scheme \<Rightarrow>
   ('s, 'r, 'o) transaction \<Rightarrow> hash \<Rightarrow> ('st, 'e verification_error, unit) action" where
  "verify_tx V S tx tx_hash =
     abind (pre_verify V S tx tx_hash (batch_default (v_curve V))) (\<lambda>(t, commitments, b).
     abind (aguard (batch_verify (v_curve V) b = Some True) (Proof GenericProof)) (\<lambda>_.
     aguard (verify_multiple (v_range V) (tx_range_proof tx) t commitments BULLET_PROOF_SIZE)
       (Proof RangeProofError)))"

fun prepare_batch ::
  "('p, 's, 'r, 'o, 't, 'env) verifier \<Rightarrow> ('st, 'e, 'p, 's, 'r, 'o, 'env, 'z) verification_state_scheme \<Rightarrow>
   (('s, 'r, 'o) transaction \<times> hash) list \<Rightarrow> ('p, 's) batch_collector \<Rightarrow>
   ('st, 'e verification_error, ('r \<times> transcript \<times> ('p \<times> compressed_point) list \<times> nat) list \<times>
     ('p, 's) batch_collector) action" where
  "prepare_batch V S [] b = areturn ([], b)"
| "prepare_batch V S ((tx, h) # txs) b = abind (pre_verify V S tx h b) (\<lambda>(t, commitments, b).
     abind (prepare_batch V S txs b) (\<lambda>(views, b).
     areturn ((tx_range_proof tx, t, commitments, BULLET_PROOF_SIZE) # views, b)))"

definition verify_batch ::
  "('p, 's, 'r, 'o, 't, 'env) verifier \<Rightarrow> ('st, 'e, 'p, 's, 'r, 'o, 'env, 'z) verification_state_scheme \<Rightarrow>
   (('s, 'r, 'o) transaction \<times> hash) list \<Rightarrow> ('st, 'e verification_error, unit) action" where
  "verify_batch V S txs =
     abind (prepare_batch V S txs (batch_default (v_curve V))) (\<lambda>(views, b).
     abind (aguard (batch_verify (v_curve V) b = Some True) (Proof GenericProof)) (\<lambda>_.
     aguard (range_verify_batch (v_range V) views) (Proof RangeProofError)))"

section \<open>Application\<close>

text \<open>Gas: a part of what was used is burned, the rest of it a fee, what was not used goes back.\<close>

definition handle_gas ::
  "('p, 's) curve \<Rightarrow> ('st, 'e, 'p, 's, 'r, 'o, 'env, 'cs, 'z) apply_state_scheme \<Rightarrow>
   ('s, 'r, 'o) transaction \<Rightarrow> u64 \<Rightarrow> u64 \<Rightarrow> ('st, 'e verification_error, u64) action" where
  "handle_gas cv S tx used_gas max_gas =
     (let burned_gas = used_gas * TX_GAS_BURN_PERCENT div 100 in
      if used_gas < burned_gas then afail GasOverflow else
      (let gas_fee = used_gas - burned_gas in
       if max_gas < used_gas then afail GasOverflow else
       (let refund_gas = max_gas - used_gas in
        abind (aerr State (as_add_burned_coins S burned_gas)) (\<lambda>_.
        abind (aerr State (as_add_gas_fee S gas_fee)) (\<lambda>_.
        abind (if refund_gas > 0 then
            abind (aerr State (vs_get_receiver_balance S (tx_source tx) XELIS_ASSET)) (\<lambda>balance.
            aupdate (vs_put_receiver_balance S (tx_source tx) XELIS_ASSET
              (ciphertext_add_scalar cv balance (s_from cv refund_gas))))
          else areturn ()) (\<lambda>_.
        areturn refund_gas))))))"

definition refund_deposit ::
  "('p, 's) curve \<Rightarrow> ('st, 'e, 'p, 's, 'r, 'o, 'env, 'cs, 'z) apply_state_scheme \<Rightarrow>
   ('s, 'r, 'o) transaction \<Rightarrow> 'p decompressed_deposits \<Rightarrow> hash \<times> 's contract_deposit \<Rightarrow> unit \<Rightarrow>
   ('st, 'e verification_error, unit) action" where
  "refund_deposit cv S tx ds ad _ = (case ad of (asset, deposit) \<Rightarrow>
     abind (aerr State (vs_get_receiver_balance S (tx_source tx) asset)) (\<lambda>balance.
     abind (case deposit of
         DepositPublic n \<Rightarrow> areturn (ciphertext_add_scalar cv balance (s_from cv n))
       | DepositPrivate _ _ _ _ \<Rightarrow> abind (alift (ok_or (map_of ds asset) DepositNotFound)) (\<lambda>d.
           areturn (ciphertext_add cv balance \<lparr>commitment = d_commitment d, handle = d_sender_handle d\<rparr>)))
       (\<lambda>balance. aupdate (vs_put_receiver_balance S (tx_source tx) asset balance))))"

definition refund_deposits ::
  "('p, 's) curve \<Rightarrow> ('st, 'e, 'p, 's, 'r, 'o, 'env, 'cs, 'z) apply_state_scheme \<Rightarrow>
   ('s, 'r, 'o) transaction \<Rightarrow> 's deposits \<Rightarrow> 'p decompressed_deposits \<Rightarrow>
   ('st, 'e verification_error, unit) action" where
  "refund_deposits cv S tx deposits ds = afor (refund_deposit cv S tx ds) deposits ()"

text \<open>
  The virtual machine is the parameter \<open>run\<close>: it takes the contract's chain state, what to invoke,
  the stack in the order of the pushes and the gas limit. \<open>outputs\<close> reads the outputs off a chain state.
\<close>

definition run_invoked ::
  "('cs \<Rightarrow> invoke_contract \<Rightarrow> 'o value_cell list \<Rightarrow> u64 \<Rightarrow> unit + 'cs vm_outcome) \<Rightarrow> 'cs \<Rightarrow> invoke_contract \<Rightarrow>
   'o value_cell list \<Rightarrow> u64 \<Rightarrow> 'e verification_error + u64 \<times> u64 option \<times> 'cs" where
  "run_invoked run cs invoke parameters max_gas = (case run cs invoke (rev parameters) max_gas of
     Inl _ \<Rightarrow> Inl AnyError
   | Inr HookNotFound \<Rightarrow> Inr (0, None, cs)
   | Inr (Ran gas exit_code cs') \<Rightarrow> Inr (min gas max_gas, exit_code, cs'))"

definition invoke_contract_tx ::
  "('p, 's) curve \<Rightarrow> ('cs \<Rightarrow> invoke_contract \<Rightarrow> 'o value_cell list \<Rightarrow> u64 \<Rightarrow> unit + 'cs vm_outcome) \<Rightarrow>
   ('cs \<Rightarrow> contract_output list) \<Rightarrow> ('st, 'e, 'p, 's, 'r, 'o, 'env, 'cs, 'z) apply_state_scheme \<Rightarrow>
   ('s, 'r, 'o) transaction \<Rightarrow> hash \<Rightarrow> 'p decompressed_deposits \<Rightarrow> hash \<Rightarrow> 's deposits \<Rightarrow>
   'o value_cell list \<Rightarrow> u64 \<Rightarrow> invoke_contract \<Rightarrow> ('st, 'e verification_error, bool) action" where
  "invoke_contract_tx cv run outputs S tx tx_hash ds contract deposits parameters max_gas invoke =
     abind (aerr State (as_get_contract_environment_for S contract deposits tx_hash)) (\<lambda>cs.
     abind (alift (run_invoked run cs invoke parameters max_gas)) (\<lambda>(used_gas, exit_code, cs).
     (let is_success = (exit_code = Some 0) in
      abind (if is_success then
          abind (aerr State (as_merge_contract_changes S contract cs)) (\<lambda>_. areturn (outputs cs))
        else if deposits \<noteq> [] then
          abind (refund_deposits cv S tx deposits ds) (\<lambda>_. areturn [RefundDeposits])
        else areturn []) (\<lambda>outs.
      (let outs = outs @ [ExitCode exit_code] in
       abind (handle_gas cv S tx used_gas max_gas) (\<lambda>refund_gas.
       (let outs = (if refund_gas > 0 then outs @ [RefundGas refund_gas] else outs) in
        abind (aerr State (as_set_contract_outputs S tx_hash outs)) (\<lambda>_.
        areturn is_success)))))))) "

definition apply_tx ::
  "('p, 's) curve \<Rightarrow> ('cs \<Rightarrow> invoke_contract \<Rightarrow> 'o value_cell list \<Rightarrow> u64 \<Rightarrow> unit + 'cs vm_outcome) \<Rightarrow>
   ('cs \<Rightarrow> contract_output list) \<Rightarrow> ('st, 'e, 'p, 's, 'r, 'o, 'env, 'cs, 'z) apply_state_scheme \<Rightarrow>
   ('s, 'r, 'o) transaction \<Rightarrow> hash \<Rightarrow> 'p decompressed_deposits \<Rightarrow> ('st, 'e verification_error, unit) action" where
  "apply_tx cv run outputs S tx tx_hash ds =
     abind (aerr State (vs_update_account_nonce S (tx_source tx) (tx_nonce tx + 1))) (\<lambda>_.
     case tx_data tx of
       Transfers ts \<Rightarrow> afor (\<lambda>x _.
         abind (aerr State (vs_get_receiver_balance S (tr_destination x) (tr_asset x))) (\<lambda>balance.
         abind (alift (map_err (Proof \<circ> Decompression) (ciphertext_decompress cv (tr_get_ciphertext x Receiver)))) (\<lambda>ct.
         aupdate (vs_put_receiver_balance S (tr_destination x) (tr_asset x) (ciphertext_add cv balance ct))))) ts ()
     | Burn p \<Rightarrow> if burn_asset p = XELIS_ASSET
         then aerr State (as_add_burned_coins S (burn_amount p)) else areturn ()
     | MultiSig p \<Rightarrow> aerr State (vs_set_multisig_state S (tx_source tx) p)
     | InvokeContract p \<Rightarrow>
         abind (is_contract_available S (inv_contract p)) (\<lambda>available.
         if available then
           abind (invoke_contract_tx cv run outputs S tx tx_hash ds (inv_contract p) (inv_deposits p)
             (inv_parameters p) (inv_max_gas p) (InvokeEntry (inv_chunk_id p))) (\<lambda>_. areturn ())
         else
           abind (handle_gas cv S tx 0 (inv_max_gas p)) (\<lambda>_.
           refund_deposits cv S tx (inv_deposits p) ds))
     | DeployContract p \<Rightarrow>
         abind (aerr State (vs_set_contract_module S tx_hash (dep_module p))) (\<lambda>_.
         (case dep_invoke p of
            None \<Rightarrow> areturn ()
          | Some i \<Rightarrow>
              abind (invoke_contract_tx cv run outputs S tx tx_hash ds tx_hash (ic_deposits i) [] (ic_max_gas i)
                (InvokeHook 0)) (\<lambda>is_success.
              if \<not> is_success then aerr State (as_remove_contract_module S tx_hash) else areturn ()))))"

definition apply_without_verify ::
  "('p, 's) curve \<Rightarrow> ('cs \<Rightarrow> invoke_contract \<Rightarrow> 'o value_cell list \<Rightarrow> u64 \<Rightarrow> unit + 'cs vm_outcome) \<Rightarrow>
   ('cs \<Rightarrow> contract_output list) \<Rightarrow> ('st, 'e, 'p, 's, 'r, 'o, 'env, 'cs, 'z) apply_state_scheme \<Rightarrow>
   ('s, 'r, 'o) transaction \<Rightarrow> hash \<Rightarrow> ('st, 'e verification_error, unit) action" where
  "apply_without_verify cv run outputs S tx tx_hash =
     abind (alift (map_err (Proof \<circ> Decompression) (decompress_tx cv tx))) (\<lambda>(ts, ds).
     abind (afor (\<lambda>c _.
       abind (aerr State (vs_get_sender_balance S (tx_source tx) (sc_asset c) (tx_reference tx))) (\<lambda>balance.
       abind (alift (map_err (Proof \<circ> Decompression) (get_sender_output_ct cv tx (sc_asset c) ts ds))) (\<lambda>out.
       abind (aupdate (vs_put_sender_balance S (tx_source tx) (sc_asset c) (ciphertext_sub cv balance out))) (\<lambda>_.
       aerr State (vs_add_sender_output S (tx_source tx) (sc_asset c) out))))) (tx_source_commitments tx) ()) (\<lambda>_.
     apply_tx cv run outputs S tx tx_hash ds))"

text \<open>
  \<open>apply_with_partial_verify\<close> checks the equality proofs on copies of the balances and writes them
  only when the batch passes.
\<close>

definition partial_verify_step ::
  "('p, 's, 'r, 'o, 't, 'env) verifier \<Rightarrow> ('st, 'e, 'p, 's, 'r, 'o, 'env, 'z) verification_state_scheme \<Rightarrow>
   ('s, 'r, 'o) transaction \<Rightarrow> 'p \<Rightarrow> 'p decompressed_ct list \<Rightarrow> 'p decompressed_deposits \<Rightarrow>
   's source_commitment \<times> 'p \<Rightarrow>
   ('p ciphertext \<times> 'p ciphertext \<times> hash) list \<times> transcript \<times> ('p, 's) batch_collector \<Rightarrow>
   ('st, 'e verification_error,
    ('p ciphertext \<times> 'p ciphertext \<times> hash) list \<times> transcript \<times> ('p, 's) batch_collector) action" where
  "partial_verify_step V S tx source ts ds cc acc = (case acc of (changes, tb) \<Rightarrow>
     abind (verify_source_commitment V S tx source ts ds False cc tb) (\<lambda>((new_balance, out), tb).
     areturn (changes @ [(new_balance, out, sc_asset (fst cc))], tb)))"

definition apply_change ::
  "('st, 'e, 'p, 's, 'r, 'o, 'env, 'z) verification_state_scheme \<Rightarrow> ('s, 'r, 'o) transaction \<Rightarrow>
   'p ciphertext \<times> 'p ciphertext \<times> hash \<Rightarrow> unit \<Rightarrow> ('st, 'e verification_error, unit) action" where
  "apply_change S tx change _ = (case change of (new_balance, out, asset) \<Rightarrow>
     abind (aerr State (vs_get_sender_balance S (tx_source tx) asset (tx_reference tx))) (\<lambda>_.
     abind (aupdate (vs_put_sender_balance S (tx_source tx) asset new_balance)) (\<lambda>_.
     aerr State (vs_add_sender_output S (tx_source tx) asset out))))"

definition apply_with_partial_verify ::
  "('p, 's, 'r, 'o, 't, 'env) verifier \<Rightarrow>
   ('cs \<Rightarrow> invoke_contract \<Rightarrow> 'o value_cell list \<Rightarrow> u64 \<Rightarrow> unit + 'cs vm_outcome) \<Rightarrow>
   ('cs \<Rightarrow> contract_output list) \<Rightarrow> ('st, 'e, 'p, 's, 'r, 'o, 'env, 'cs, 'z) apply_state_scheme \<Rightarrow>
   ('s, 'r, 'o) transaction \<Rightarrow> hash \<Rightarrow> ('st, 'e verification_error, unit) action" where
  "apply_with_partial_verify V run outputs S tx tx_hash = (let cv = v_curve V in
     abind (alift (map_err (Proof \<circ> Decompression) (decompress_tx cv tx))) (\<lambda>(ts, ds).
     abind (alift (map_err (Proof \<circ> Decompression) (decompress_commitments cv (tx_source_commitments tx)))) (\<lambda>new_commitments.
     abind (alift (map_err (Proof \<circ> Decompression) (point_decompress cv (tx_source tx)))) (\<lambda>owner.
     abind (afor (partial_verify_step V S tx owner ts ds) (zip (tx_source_commitments tx) new_commitments)
       ([], prepare_transcript (tx_version tx) (tx_source tx) (tx_fee tx) (tx_nonce tx), batch_default cv)) (\<lambda>(changes, t, b).
     abind (aguard (batch_verify cv b = Some True) (Proof GenericProof)) (\<lambda>_.
     abind (afor (apply_change S tx) changes ()) (\<lambda>_.
     apply_tx cv run outputs S tx tx_hash ds)))))))"

section \<open>What is charged is what is spent\<close>

text \<open>
  The specification: everything a transaction takes from its sender, as ciphertexts with their assets,
  each once. A plain amount is a commitment without a handle.
\<close>

definition plain :: "('p, 's) curve \<Rightarrow> u64 \<Rightarrow> 'p ciphertext" where
  "plain cv n = \<lparr>commitment = p_mul cv (s_from cv n) (gen_B cv), handle = p_identity cv\<rparr>"

definition deposit_spending ::
  "('p, 's) curve \<Rightarrow> 'p decompressed_deposits \<Rightarrow> hash \<times> 's contract_deposit \<Rightarrow> hash \<times> 'p ciphertext" where
  "deposit_spending cv ds ad = (fst ad, case snd ad of DepositPublic n \<Rightarrow> plain cv n
     | DepositPrivate _ _ _ _ \<Rightarrow> (case map_of ds (fst ad) of None \<Rightarrow> ciphertext_zero cv
         | Some d \<Rightarrow> d_get_ciphertext d Sender))"

definition spendings ::
  "('p, 's) curve \<Rightarrow> ('s, 'r, 'o) transaction \<Rightarrow> 'p decompressed_ct list \<Rightarrow> 'p decompressed_deposits \<Rightarrow>
   (hash \<times> 'p ciphertext) list" where
  "spendings cv tx ts ds = (XELIS_ASSET, plain cv (tx_fee tx)) # (case tx_data tx of
     Transfers xs \<Rightarrow> map (\<lambda>(x, d). (tr_asset x, d_get_ciphertext d Sender)) (zip xs ts)
   | Burn p \<Rightarrow> [(burn_asset p, plain cv (burn_amount p))]
   | MultiSig _ \<Rightarrow> []
   | InvokeContract p \<Rightarrow>
       (XELIS_ASSET, plain cv (inv_max_gas p)) # map (deposit_spending cv ds) (inv_deposits p)
   | DeployContract p \<Rightarrow> (case dep_invoke p of None \<Rightarrow> [] | Some i \<Rightarrow>
       (XELIS_ASSET, plain cv (ic_max_gas i)) # map (deposit_spending cv ds) (ic_deposits i)) @
       [(XELIS_ASSET, plain cv BURN_PER_CONTRACT)])"

fun ct_sum :: "('p, 's) curve \<Rightarrow> 'p ciphertext list \<Rightarrow> 'p ciphertext" where
  "ct_sum cv [] = ciphertext_zero cv"
| "ct_sum cv (c # cs) = ciphertext_add cv c (ct_sum cv cs)"

definition spent_of :: "('p, 's) curve \<Rightarrow> hash \<Rightarrow> (hash \<times> 'p ciphertext) list \<Rightarrow> 'p ciphertext" where
  "spent_of cv asset sp = ct_sum cv (map snd (filter (\<lambda>e. fst e = asset) sp))"

definition tx_deposits :: "('s, 'r, 'o) transaction \<Rightarrow> 's deposits" where
  "tx_deposits tx = (case tx_data tx of InvokeContract p \<Rightarrow> inv_deposits p
     | DeployContract p \<Rightarrow> (case dep_invoke p of None \<Rightarrow> [] | Some i \<Rightarrow> ic_deposits i) | _ \<Rightarrow> [])"

lemma ct_add_rules:
  assumes "curve_laws cv"
  shows "ciphertext_add cv (ciphertext_add cv a b) c = ciphertext_add cv a (ciphertext_add cv b c)"
    and "ciphertext_add cv a b = ciphertext_add cv b a"
    and "ciphertext_add cv a (ciphertext_add cv b c) = ciphertext_add cv b (ciphertext_add cv a c)"
    and "ciphertext_add cv a (ciphertext_zero cv) = a"
    and "ciphertext_add cv (ciphertext_zero cv) a = a"
    and "ciphertext_add_scalar cv a (s_from cv n) = ciphertext_add cv a (plain cv n)"
  using assms
  by (simp_all add: ciphertext_add_def ciphertext_zero_def ciphertext_add_scalar_def commitment_add_scalar_def
      plain_def p_ac curve_rules(3) p_identity_left)

lemma ct_sum_append: "curve_laws cv \<Longrightarrow> ct_sum cv (a @ b) = ciphertext_add cv (ct_sum cv a) (ct_sum cv b)"
  by (induction a) (simp_all add: ct_add_rules)

lemma spent_of_simps:
  assumes cv: "curve_laws cv"
  shows "spent_of cv a [] = ciphertext_zero cv"
    and "spent_of cv a (e # sp) = (if fst e = a then ciphertext_add cv (snd e) (spent_of cv a sp) else spent_of cv a sp)"
    and "spent_of cv a (sp @ sp') = ciphertext_add cv (spent_of cv a sp) (spent_of cv a sp')"
  by (simp_all add: spent_of_def ct_sum_append [OF cv])

lemma add_native_spent:
  "curve_laws cv \<Longrightarrow> add_native cv a n out = ciphertext_add cv out (spent_of cv a [(XELIS_ASSET, plain cv n)])"
  by (simp add: add_native_def spent_of_simps ct_add_rules)

lemma fold_transfers_spent:
  assumes cv: "curve_laws cv"
  shows "fold (\<lambda>(x, d) out. if a = tr_asset x then ciphertext_add cv out (d_get_ciphertext d Sender) else out) es out =
    ciphertext_add cv out (spent_of cv a (map (\<lambda>(x, d). (tr_asset x, d_get_ciphertext d Sender)) es))"
  by (induction es arbitrary: out) (auto simp: spent_of_simps [OF cv] ct_add_rules [OF cv])

lemma add_deposit_output_spent:
  assumes cv: "curve_laws cv" and d: "distinct (map fst deposits)"
    and ok: "add_deposit_output cv a deposits ds out = Inr out'"
  shows "out' = ciphertext_add cv out (spent_of cv a (map (deposit_spending cv ds) deposits))"
proof (cases "map_of deposits a")
  case None
  then have "a \<notin> fst ` set deposits" by (simp add: map_of_eq_None_iff)
  then have "filter (\<lambda>e. fst e = a) (map (deposit_spending cv ds) deposits) = []"
    by (auto simp: filter_empty_conv deposit_spending_def)
  with None ok show ?thesis by (simp add: add_deposit_output_def spent_of_def ct_add_rules [OF cv])
next
  case (Some x)
  then have "filter (\<lambda>e. fst e = a) deposits = [(a, x)]"
    using d by (induction deposits) (auto simp: filter_empty_conv rev_image_eqI split: if_splits)
  then have "filter (\<lambda>e. fst e = a) (map (deposit_spending cv ds) deposits) = [deposit_spending cv ds (a, x)]"
    by (simp add: filter_map comp_def deposit_spending_def)
  with Some ok show ?thesis
    by (cases x) (auto simp: add_deposit_output_def spent_of_def deposit_spending_def d_get_ciphertext_def
        ct_add_rules [OF cv] result_simps)
qed

lemma get_sender_output_spent:
  assumes cv: "curve_laws cv" and d: "distinct (map fst (tx_deposits tx))"
    and ok: "get_sender_output_ct cv tx a ts ds = Inr out"
  shows "out = spent_of cv a (spendings cv tx ts ds)"
proof (cases "tx_data tx")
  case (InvokeContract p)
  with ok d show ?thesis
    by (auto simp: get_sender_output_ct_def spendings_def tx_deposits_def add_native_spent [OF cv]
        spent_of_simps [OF cv] ct_add_rules [OF cv] dest!: add_deposit_output_spent [OF cv, rotated])
next
  case (DeployContract p)
  with ok d show ?thesis
    by (cases "dep_invoke p")
       (auto simp: get_sender_output_ct_def spendings_def tx_deposits_def add_native_spent [OF cv] result_simps
        ct_add_rules [OF cv] spent_of_simps [OF cv] dest!: add_deposit_output_spent [OF cv, rotated])
qed (use ok in \<open>auto simp: get_sender_output_ct_def spendings_def Let_def add_native_spent [OF cv]
    fold_transfers_spent [OF cv] spent_of_simps [OF cv] ct_add_rules [OF cv]\<close>)

lemma ct_sum_distribute:
  assumes cv: "curve_laws cv"
  shows "distinct as \<Longrightarrow> ct_sum cv (map (\<lambda>a. if x = a then ciphertext_add cv c (f a) else f a) as) =
    (if x \<in> set as then ciphertext_add cv c (ct_sum cv (map f as)) else ct_sum cv (map f as))"
  by (induction as) (auto simp: ct_add_rules [OF cv])

lemma ct_sum_spent_of:
  assumes cv: "curve_laws cv" and as: "distinct as"
  shows "ct_sum cv (map (\<lambda>a. spent_of cv a sp) as) = ct_sum cv (map snd (filter (\<lambda>e. fst e \<in> set as) sp))"
proof (induction sp)
  case Nil
  have "ct_sum cv (map (\<lambda>a. ciphertext_zero cv) as) = ciphertext_zero cv"
    by (induction as) (simp_all add: ct_add_rules [OF cv])
  then show ?case by (simp add: spent_of_simps [OF cv])
next
  case (Cons e sp)
  then show ?case by (simp add: spent_of_simps(2) [OF cv] ct_sum_distribute [OF cv as])
qed

lemma sender_outputs_spent:
  assumes cv: "curve_laws cv" and d: "distinct (map fst (tx_deposits tx))"
  shows "sender_outputs cv tx ts ds cs = Inr outs \<Longrightarrow>
    outs = map (\<lambda>c. (sc_asset c, spent_of cv (sc_asset c) (spendings cv tx ts ds))) cs"
  by (induction cs arbitrary: outs) (auto simp: result_simps dest: get_sender_output_spent [OF cv d])

lemma covered_assets:
  "has_commitment_for_asset tx a \<longleftrightarrow> a \<in> set (map sc_asset (tx_source_commitments tx))"
  by (auto simp: has_commitment_for_asset_def)

text \<open>
  C20: what is charged to the sender through the source commitments is exactly what the transaction
  spends, in total and asset by asset: the fee, every transfer, the burned amount, the gas, the
  deposits, each once. For a deployment this holds of the spendings whose asset has a source
  commitment; the deposits of the constructor in other assets are not charged to anyone.
\<close>

theorem charged_is_spent:
  assumes cv: "curve_laws cv" and d: "distinct (map fst (tx_deposits tx))"
    and assets: "verify_commitment_assets tx"
    and outs: "sender_outputs cv tx ts ds (tx_source_commitments tx) = Inr outs"
  shows "(\<forall>(a, ct) \<in> set outs. ct = spent_of cv a (spendings cv tx ts ds)) \<and>
    ct_sum cv (map snd outs) =
      ct_sum cv (map snd (filter (\<lambda>e. has_commitment_for_asset tx (fst e)) (spendings cv tx ts ds))) \<and>
    ((\<forall>p. tx_data tx \<noteq> DeployContract p) \<longrightarrow>
      ct_sum cv (map snd outs) = ct_sum cv (map snd (spendings cv tx ts ds)))"
proof -
  let ?sp = "spendings cv tx ts ds" and ?as = "map sc_asset (tx_source_commitments tx)"
  have o: "outs = map (\<lambda>c. (sc_asset c, spent_of cv (sc_asset c) ?sp)) (tx_source_commitments tx)"
    by (rule sender_outputs_spent [OF cv d outs])
  have as: "distinct ?as" using assets by (simp add: verify_commitment_assets_def)
  have sum: "ct_sum cv (map snd outs) = ct_sum cv (map snd (filter (\<lambda>e. has_commitment_for_asset tx (fst e)) ?sp))"
    using ct_sum_spent_of [OF cv as, of ?sp] by (simp add: o comp_def covered_assets)
  moreover have "filter (\<lambda>e. has_commitment_for_asset tx (fst e)) ?sp = ?sp" if "\<forall>p. tx_data tx \<noteq> DeployContract p"
  proof -
    have "\<forall>e \<in> set ?sp. has_commitment_for_asset tx (fst e)"
      using assets that
      by (cases "tx_data tx")
         (auto simp: spendings_def verify_commitment_assets_def list_all_iff deposit_spending_def dest: set_zip_leftD)
    then show ?thesis by (rule filter_True)
  qed
  ultimately show ?thesis by (auto simp: o)
qed

text \<open>
  A deployment with a constructor deposit of one unit of an asset for which there is no source
  commitment: the assets pass, and what is charged is less than what is spent.
\<close>

definition sample_deploy :: "(bool, u8 list, hash) transaction" where
  "sample_deploy = sample_tx\<lparr>tx_version := TxV2, tx_data := DeployContract \<lparr>
     dep_module = \<lparr>constants = [], chunks = [], chunks_entry_ids = [], hook_chunk_ids = []\<rparr>,
     dep_invoke = Some \<lparr>ic_max_gas = 100, ic_deposits = [(replicate 32 1, DepositPublic 1)]\<rparr>\<rparr>\<rparr>"

theorem charged_is_spent_witness:
  "verify_commitment_assets sample_deploy \<and>
   (\<exists>outs. sender_outputs two_curve sample_deploy [] [] (tx_source_commitments sample_deploy) = Inr outs \<and>
     ct_sum two_curve (map snd outs) = ct_sum two_curve (map snd
       (filter (\<lambda>e. has_commitment_for_asset sample_deploy (fst e)) (spendings two_curve sample_deploy [] []))) \<and>
     ct_sum two_curve (map snd outs) \<noteq> ct_sum two_curve (map snd (spendings two_curve sample_deploy [] [])))"
proof -
  have d: "distinct (map fst (tx_deposits sample_deploy))"
    by (simp add: tx_deposits_def sample_deploy_def)
  have a: "verify_commitment_assets sample_deploy"
    by (simp add: verify_commitment_assets_def sample_deploy_def sample_tx_def has_commitment_for_asset_def XELIS_ASSET_def)
  have neq: "hash_zero \<noteq> replicate 32 1" "replicate 32 1 \<noteq> hash_zero"
    using replicate_32_neq by (auto simp: hash_zero_def)
  have "\<exists>outs. sender_outputs two_curve sample_deploy [] [] (tx_source_commitments sample_deploy) = Inr outs \<and>
      ct_sum two_curve (map snd outs) \<noteq> ct_sum two_curve (map snd (spendings two_curve sample_deploy [] []))"
    using neq by (simp add: sample_deploy_def sample_tx_def get_sender_output_ct_def add_native_def XELIS_ASSET_def
        add_deposit_output_def spendings_def deposit_spending_def plain_def two_curve_def ciphertext_add_scalar_def
        commitment_add_scalar_def ciphertext_zero_def ciphertext_add_def BURN_PER_CONTRACT_def COIN_VALUE_def)
  with a charged_is_spent [OF two_curve_laws d a] show ?thesis by blast
qed

end
