(* ===== verification/Tx_Accounts.thy ===== *)
theory Tx_Accounts
  imports Tx_Verify
begin

text \<open>
  What a transaction does to the accounts of the state it is verified on. The locale
  \<open>account_state\<close> is what verification relies on: the nonce of an account and the balance that a
  sender spends from are loaded on the first access, stay what they are under every other operation,
  and are what was last stored. Both states of the daemon are interpretations of it.
\<close>

section \<open>The contract of a state\<close>

definition extends ::
  "('st \<Rightarrow> 'k \<Rightarrow> 'n option) \<Rightarrow> ('st \<Rightarrow> 'k \<Rightarrow> 'a \<Rightarrow> 'b option) \<Rightarrow> 'st \<Rightarrow> 'st \<Rightarrow> bool" where
  "extends nonce_of sender_of st st' \<longleftrightarrow>
     (\<forall>k n. nonce_of st k = Some n \<longrightarrow> nonce_of st' k = Some n) \<and>
     (\<forall>k a b. sender_of st k a = Some b \<longrightarrow> sender_of st' k a = Some b)"

lemma extends_refl [simp]: "extends f g st st"
  by (simp add: extends_def)

lemma extends_trans: "extends f g st st1 \<Longrightarrow> extends f g st1 st2 \<Longrightarrow> extends f g st st2"
  by (simp add: extends_def)

text \<open>
  The nonce of an account: the one in the state, or the one that would be loaded. Other operations
  may load nonces, they do not change them.
\<close>

definition current_nonce ::
  "('st \<Rightarrow> 'k \<Rightarrow> 'n option) \<Rightarrow> ('k \<Rightarrow> 'e + 'n) \<Rightarrow> 'st \<Rightarrow> 'k \<Rightarrow> 'e + 'n" where
  "current_nonce nonce_of first_nonce st k = (case nonce_of st k of Some n \<Rightarrow> Inr n | None \<Rightarrow> first_nonce k)"

definition nonces_kept :: "('st \<Rightarrow> 'k \<Rightarrow> 'n option) \<Rightarrow> ('k \<Rightarrow> 'e + 'n) \<Rightarrow> 'st \<Rightarrow> 'st \<Rightarrow> bool" where
  "nonces_kept nonce_of first_nonce st st' \<longleftrightarrow>
     (\<forall>k n. nonce_of st k = Some n \<longrightarrow> nonce_of st' k = Some n) \<and>
     (\<forall>k n. nonce_of st k = None \<longrightarrow> nonce_of st' k = Some n \<longrightarrow> first_nonce k = Inr n)"

lemma nonces_kept_refl [simp]: "nonces_kept f fn st st"
  by (simp add: nonces_kept_def)

lemma nonces_kept_trans: "nonces_kept f fn st st1 \<Longrightarrow> nonces_kept f fn st1 st2 \<Longrightarrow> nonces_kept f fn st st2"
  unfolding nonces_kept_def by (metis option.exhaust)

lemma nonces_kept_current:
  "nonces_kept f fn st st' \<Longrightarrow> current_nonce f fn st k = Inr n \<Longrightarrow> current_nonce f fn st' k = Inr n"
  by (auto simp: nonces_kept_def current_nonce_def split: option.splits)

lemma nonces_kept_loaded:
  "nonces_kept f fn st st' \<Longrightarrow> f st' k = Some n \<Longrightarrow> current_nonce f fn st k = Inr n"
  by (auto simp: nonces_kept_def current_nonce_def split: option.splits)

text \<open>Operations that keep the accounts.\<close>

definition keeping ::
  "('st \<Rightarrow> bool) \<Rightarrow> ('st \<Rightarrow> 'k \<Rightarrow> 'n option) \<Rightarrow> ('k \<Rightarrow> 'f + 'n) \<Rightarrow> ('st \<Rightarrow> 'k \<Rightarrow> 'a \<Rightarrow> 'b option) \<Rightarrow>
   ('st, 'e, 'x) action \<Rightarrow> bool" where
  "keeping ok nonce_of first_nonce sender_of m \<longleftrightarrow> (\<forall>st x st'. ok st \<longrightarrow> m st = (Inr x, st') \<longrightarrow>
     ok st' \<and> nonces_kept nonce_of first_nonce st st' \<and> sender_of st' = sender_of st)"

lemma keeping_pure [simp, intro]:
  "keeping ok f fn g (areturn x)" "keeping ok f fn g (afail e)" "keeping ok f fn g (alift r)"
  "keeping ok f fn g (aguard b e)"
  by (simp_all add: keeping_def aguard_def)

lemma keeping_aerr [simp]: "keeping ok f fn g (aerr h m) \<longleftrightarrow> keeping ok f fn g m"
  by (simp add: keeping_def aerr_Inr)

lemma keeping_bind:
  assumes m: "keeping ok f fn g m" and h: "\<And>x. keeping ok f fn g (h x)"
  shows "keeping ok f fn g (abind m h)"
  unfolding keeping_def abind_Inr
proof (intro allI impI)
  fix st y st'
  assume st: "ok st" and "\<exists>x st1. m st = (Inr x, st1) \<and> h x st1 = (Inr y, st')"
  then obtain x st1 where 1: "m st = (Inr x, st1)" and 2: "h x st1 = (Inr y, st')" by blast
  from m st 1 have st1: "ok st1" "nonces_kept f fn st st1" "g st1 = g st" unfolding keeping_def by blast+
  with h [of x] 2 have "ok st'" "nonces_kept f fn st1 st'" "g st' = g st1" unfolding keeping_def by blast+
  with nonces_kept_trans [OF st1(2)] st1(3) show "ok st' \<and> nonces_kept f fn st st' \<and> g st' = g st" by simp
qed

lemma keeping_for: "(\<And>x acc. x \<in> set xs \<Longrightarrow> keeping ok f fn g (h x acc)) \<Longrightarrow> keeping ok f fn g (afor h xs acc)"
proof (induction xs arbitrary: acc)
  case (Cons x xs)
  show ?case unfolding afor.simps by (rule keeping_bind) (simp_all add: Cons)
qed simp

lemma keepingD:
  "keeping ok f fn g m \<Longrightarrow> ok st \<Longrightarrow> m st = (Inr x, st') \<Longrightarrow>
     ok st' \<and> nonces_kept f fn st st' \<and> g st' = g st"
  unfolding keeping_def by blast

text \<open>
  The ciphertexts that a transaction carries: a commitment and the two handles for each transfer, or for
  each private deposit of a call or of a constructor. The checks before the proofs compute exactly the
  points that these bytes stand for; a deposit map has the last one for each asset.
\<close>

definition opens ::
  "('p, 's) curve \<Rightarrow> compressed_point \<times> compressed_point \<times> compressed_point \<Rightarrow> 'p decompressed_ct \<Rightarrow> bool" where
  "opens cv c d \<longleftrightarrow> (case c of (com, sender, receiver) \<Rightarrow> p_decompress cv com = Some (d_commitment d) \<and>
     p_decompress cv sender = Some (d_sender_handle d) \<and> p_decompress cv receiver = Some (d_receiver_handle d))"

fun private_deposits ::
  "'s deposits \<Rightarrow> (hash \<times> compressed_point \<times> compressed_point \<times> compressed_point) list" where
  "private_deposits [] = []"
| "private_deposits ((asset, DepositPublic n) # ds) = private_deposits ds"
| "private_deposits ((asset, DepositPrivate com sender receiver pf) # ds) =
     (asset, com, sender, receiver) # private_deposits ds"

definition deposits_opened :: "('p, 's) curve \<Rightarrow> 's deposits \<Rightarrow> 'p decompressed_deposits \<Rightarrow> bool" where
  "deposits_opened cv deposits m \<longleftrightarrow> (\<exists>ds. list_all2 (opens cv) (map snd (private_deposits deposits)) ds \<and>
     m = fold (\<lambda>(asset, d). index_map_insert asset d) (zip (map fst (private_deposits deposits)) ds) [])"

definition payload_opened ::
  "('p, 's) curve \<Rightarrow> ('s, 'r, 'o) transaction \<Rightarrow> 'p decompressed_ct list \<Rightarrow> 'p decompressed_deposits \<Rightarrow> bool" where
  "payload_opened cv tx ts ds = (case tx_data tx of
     Transfers xs \<Rightarrow> list_all2 (opens cv)
       (map (\<lambda>t. (tr_commitment t, tr_sender_handle t, tr_receiver_handle t)) xs) ts \<and> ds = []
   | InvokeContract p \<Rightarrow> ts = [] \<and> deposits_opened cv (inv_deposits p) ds
   | DeployContract p \<Rightarrow> ts = [] \<and> (case dep_invoke p of None \<Rightarrow> ds = []
       | Some i \<Rightarrow> deposits_opened cv (ic_deposits i) ds)
   | _ \<Rightarrow> ts = [] \<and> ds = [])"

lemma decompress_ct_opens: "decompress_ct cv com sender receiver = Inr d \<Longrightarrow> opens cv (com, sender, receiver) d"
  by (auto simp: decompress_ct_def opens_def point_decompress_def result_simps)

lemma check_transfers_opens:
  "check_transfers cv source ts = Inr (n, ds) \<Longrightarrow> list_all2 (opens cv)
     (map (\<lambda>t. (tr_commitment t, tr_sender_handle t, tr_receiver_handle t)) ts) ds"
  by (induction ts arbitrary: n ds)
     (auto simp: result_simps decompress_transfer_def intro: decompress_ct_opens split: if_splits)

lemma check_deposits_opens:
  assumes "check_deposits cv deposits m = (Inr m' :: 'e verification_error + _)"
  shows "\<exists>ds. list_all2 (opens cv) (map snd (private_deposits deposits)) ds \<and>
    m' = fold (\<lambda>(asset, d). index_map_insert asset d) (zip (map fst (private_deposits deposits)) ds) m"
  using assms
proof (induction cv deposits m rule: check_deposits.induct)
  case (3 cv asset com sh rh pf ds m)
  from "3.prems" obtain d where d: "decompress_ct cv com sh rh = Inr d"
    "check_deposits cv ds (index_map_insert asset d m) = (Inr m' :: 'e verification_error + _)" by (auto simp: result_simps)
  with "3.IH" [of d] obtain xs where "list_all2 (opens cv) (map snd (private_deposits ds)) xs"
    "m' = fold (\<lambda>(asset, d). index_map_insert asset d) (zip (map fst (private_deposits ds)) xs) (index_map_insert asset d m)"
    by (auto simp: result_simps)
  then show ?case using decompress_ct_opens [OF d(1)] by (intro exI [of _ "d # xs"]) simp
qed (auto split: if_splits)

lemma verify_data_opens:
  assumes "verify_data V S tx st = (Inr (ts, ds), st')"
  shows "payload_opened (v_curve V) tx ts ds"
  using assms
  by (auto simp: verify_data_def payload_opened_def deposits_opened_def verify_invoke_contract_def Let_def result_simps
      dest!: check_transfers_opens check_deposits_opens split: transaction_type.splits option.splits if_splits)

text \<open>
  The change that the source commitments make: for each of the assets the balance of the sender, the
  one in the state or the one that is loaded for the reference of the transaction, goes down by what
  the transaction takes; nothing else changes.
\<close>

definition charged ::
  "('p, 's) curve \<Rightarrow> ('s, 'r, 'o) transaction \<Rightarrow> 'p decompressed_ct list \<Rightarrow> 'p decompressed_deposits \<Rightarrow>
   (compressed_public_key \<Rightarrow> hash \<Rightarrow> reference \<Rightarrow> 'e + 'p ciphertext) \<Rightarrow> hash \<Rightarrow>
   'p ciphertext option \<Rightarrow> 'p ciphertext option \<Rightarrow> bool" where
  "charged cv tx ts ds first_balance a before after \<longleftrightarrow>
     (\<exists>balance out. get_sender_output_ct cv tx a ts ds = Inr out \<and>
        (case before of
           Some b \<Rightarrow> balance = b
         | None \<Rightarrow> first_balance (tx_source tx) a (tx_reference tx) = Inr balance) \<and>
        after = Some (ciphertext_sub cv balance out))"

definition charges ::
  "('p, 's) curve \<Rightarrow> ('s, 'r, 'o) transaction \<Rightarrow> 'p decompressed_ct list \<Rightarrow> 'p decompressed_deposits \<Rightarrow>
   (compressed_public_key \<Rightarrow> hash \<Rightarrow> reference \<Rightarrow> 'e + 'p ciphertext) \<Rightarrow>
   ('st \<Rightarrow> compressed_public_key \<Rightarrow> hash \<Rightarrow> 'p ciphertext option) \<Rightarrow> hash set \<Rightarrow> 'st \<Rightarrow> 'st \<Rightarrow> bool" where
  "charges cv tx ts ds first_balance sender_of as st st' \<longleftrightarrow>
     (\<forall>k a. k \<noteq> tx_source tx \<or> a \<notin> as \<longrightarrow> sender_of st' k a = sender_of st k a) \<and>
     (\<forall>a \<in> as. charged cv tx ts ds first_balance a (sender_of st (tx_source tx) a) (sender_of st' (tx_source tx) a))"

lemma charges_union:
  assumes 1: "charges cv tx ts ds fb g as st st1" and 2: "charges cv tx ts ds fb g bs st1 st2" and "as \<inter> bs = {}"
  shows "charges cv tx ts ds fb g (as \<union> bs) st st2"
proof -
  have "charged cv tx ts ds fb a (g st (tx_source tx) a) (g st2 (tx_source tx) a)" if a: "a \<in> as \<union> bs" for a
  proof (cases "a \<in> as")
    case True
    with assms(3) have "a \<notin> bs" by blast
    with True 1 2 show ?thesis by (simp add: charges_def)
  next
    case False
    with 1 have "g st1 (tx_source tx) a = g st (tx_source tx) a" by (simp add: charges_def)
    with False a 2 show ?thesis by (auto simp: charges_def)
  qed
  with 1 2 show ?thesis by (auto simp: charges_def)
qed

lemma charges_same:
  "g st1 = g st \<Longrightarrow> charges cv tx ts ds fb g as st1 st2 = charges cv tx ts ds fb g as st st2"
  "g st2 = g st1 \<Longrightarrow> charges cv tx ts ds fb g as st st2 = charges cv tx ts ds fb g as st st1"
  by (simp_all add: charges_def)

text \<open>
  What a verified transaction has shown: its format fits its version, its source commitments cover
  what it spends, and its key has signed every byte before the signature.
\<close>

definition tx_checked :: "('p, 's, 'r, 'o, 't, 'env) verifier \<Rightarrow> ('s, 'r, 'o) transaction \<Rightarrow> bool" where
  "tx_checked V tx \<longleftrightarrow> has_valid_version_format tx \<and> verify_commitment_assets tx \<and>
     (\<exists>source. point_decompress (v_curve V) (tx_source tx) = Inr source \<and>
        (let bytes = to_bytes (write_transaction (v_libs V)) tx in
         signature_verify (v_curve V) (tx_signature tx) (take (length bytes - SIGNATURE_SIZE) bytes) source))"

text \<open>
  What it has done: its nonce was the current one and is now the next, the balances were charged with
  the ciphertexts that it carries, and nothing else changed.
\<close>

definition tx_done ::
  "('p, 's, 'r, 'o, 't, 'env) verifier \<Rightarrow> ('st \<Rightarrow> compressed_public_key \<Rightarrow> nonce option) \<Rightarrow>
   (compressed_public_key \<Rightarrow> 'e + nonce) \<Rightarrow>
   (compressed_public_key \<Rightarrow> hash \<Rightarrow> reference \<Rightarrow> 'e + 'p ciphertext) \<Rightarrow>
   ('st \<Rightarrow> compressed_public_key \<Rightarrow> hash \<Rightarrow> 'p ciphertext option) \<Rightarrow> ('s, 'r, 'o) transaction \<Rightarrow> 'st \<Rightarrow> 'st \<Rightarrow> bool" where
  "tx_done V nonce_of first_nonce first_balance sender_of tx st st' \<longleftrightarrow>
     current_nonce nonce_of first_nonce st (tx_source tx) = Inr (tx_nonce tx) \<and>
     nonce_of st' (tx_source tx) = Some (tx_nonce tx + 1) \<and>
     (\<forall>k n. k \<noteq> tx_source tx \<longrightarrow> current_nonce nonce_of first_nonce st k = Inr n \<longrightarrow>
        current_nonce nonce_of first_nonce st' k = Inr n) \<and>
     (\<exists>ts ds. payload_opened (v_curve V) tx ts ds \<and>
        charges (v_curve V) tx ts ds first_balance sender_of (set (map sc_asset (tx_source_commitments tx))) st st')"

text \<open>A batch is done one transaction after the other.\<close>

fun txs_done ::
  "('p, 's, 'r, 'o, 't, 'env) verifier \<Rightarrow> ('st \<Rightarrow> compressed_public_key \<Rightarrow> nonce option) \<Rightarrow>
   (compressed_public_key \<Rightarrow> 'e + nonce) \<Rightarrow>
   (compressed_public_key \<Rightarrow> hash \<Rightarrow> reference \<Rightarrow> 'e + 'p ciphertext) \<Rightarrow>
   ('st \<Rightarrow> compressed_public_key \<Rightarrow> hash \<Rightarrow> 'p ciphertext option) \<Rightarrow> ('s, 'r, 'o) transaction list \<Rightarrow> 'st \<Rightarrow> 'st \<Rightarrow> bool" where
  "txs_done V f fn fb g [] st st' \<longleftrightarrow> st' = st"
| "txs_done V f fn fb g (tx # txs) st st' \<longleftrightarrow> tx_checked V tx \<and>
     (\<exists>st1. tx_done V f fn fb g tx st st1 \<and> txs_done V f fn fb g txs st1 st')"

definition nonce_run :: "('s, 'r, 'o) transaction list \<Rightarrow> compressed_public_key \<Rightarrow> nonce \<Rightarrow> bool" where
  "nonce_run txs key n \<longleftrightarrow> (let ns = map tx_nonce (filter (\<lambda>tx. tx_source tx = key) txs) in
     ns = map (\<lambda>i. n + of_nat i) [0 ..< length ns])"

lemma upt_shift_map: "map (\<lambda>i. n + of_nat i) [0 ..< Suc k] = n # map (\<lambda>i. n + 1 + of_nat i) [0 ..< k]"
  for n :: nonce
  by (simp add: upt_conv_Cons map_Suc_upt [symmetric] add.assoc del: upt_Suc)

lemma nonce_run_Cons:
  "nonce_run (tx # txs) key n \<longleftrightarrow> (if tx_source tx = key then tx_nonce tx = n \<and> nonce_run txs key (n + 1)
     else nonce_run txs key n)"
  by (simp add: nonce_run_def Let_def upt_shift_map del: upt_Suc)

text \<open>The nonces of each sender in a batch are consecutive, from the one in the state on.\<close>

lemma txs_done_run:
  assumes "txs_done V f fn fb g txs st st'" "current_nonce f fn st key = Inr n"
  shows "nonce_run txs key n"
  using assms
proof (induction txs arbitrary: st n)
  case (Cons tx txs)
  then obtain st1 where 1: "tx_done V f fn fb g tx st st1" "txs_done V f fn fb g txs st1 st'" by auto
  have "current_nonce f fn st1 key = Inr (if tx_source tx = key then n + 1 else n)"
    "tx_source tx = key \<Longrightarrow> tx_nonce tx = n"
    using 1(1) Cons.prems(2) by (auto simp: tx_done_def current_nonce_def [of f fn st1])
  with Cons.IH [OF 1(2)] show ?case by (simp add: nonce_run_Cons split: if_splits)
qed (simp add: nonce_run_def)

lemma length_decompress_commitments: "decompress_commitments cv cs = Inr ps \<Longrightarrow> length ps = length cs"
  by (induction cs arbitrary: ps) (auto simp: result_simps)

lemma pre_verify_nonce:
  assumes "pre_verify V S tx h b st = (Inr r, st')"
  shows "\<exists>st1 st2. vs_pre_verify_tx S tx st = (Inr (), st1) \<and>
    vs_get_account_nonce S (tx_source tx) st1 = (Inr (tx_nonce tx), st2)"
  using assms by (auto simp: pre_verify_def result_simps split: if_splits)

lemma verify_tx_pre_verify:
  "verify_tx V S tx h st = (Inr u, st') \<Longrightarrow> \<exists>r. pre_verify V S tx h (batch_default (v_curve V)) st = (Inr r, st')"
  by (auto simp: verify_tx_def result_simps)

locale account_state =
  fixes S :: "('st, 'e, 'p, 's, 'r, 'o, 'env, 'z) verification_state_scheme"
    and ok :: "'st \<Rightarrow> bool"
    and nonce_of :: "'st \<Rightarrow> compressed_public_key \<Rightarrow> nonce option"
    and first_nonce :: "compressed_public_key \<Rightarrow> 'e + nonce"
    and first_balance :: "compressed_public_key \<Rightarrow> hash \<Rightarrow> reference \<Rightarrow> 'e + 'p ciphertext"
    and sender_of :: "'st \<Rightarrow> compressed_public_key \<Rightarrow> hash \<Rightarrow> 'p ciphertext option"
  assumes keep_laws:
      "keeping ok nonce_of first_nonce sender_of (vs_pre_verify_tx S tx)"
      "keeping ok nonce_of first_nonce sender_of (vs_get_receiver_balance S k a)"
      "keeping ok nonce_of first_nonce sender_of (vs_add_sender_output S k a ct)"
      "keeping ok nonce_of first_nonce sender_of (vs_set_multisig_state S k p)"
      "keeping ok nonce_of first_nonce sender_of (vs_get_multisig_state S k)"
      "keeping ok nonce_of first_nonce sender_of (vs_get_environment S)"
      "keeping ok nonce_of first_nonce sender_of (vs_set_contract_module S h md)"
      "keeping ok nonce_of first_nonce sender_of (vs_load_contract_module S h)"
      "keeping ok nonce_of first_nonce sender_of (vs_get_contract_module_with_environment S h)"
      "keeping ok nonce_of first_nonce sender_of
         (aupdate (vs_put_receiver_balance S k a ct) :: ('st, 'e, unit) action)"
    and get_nonce_law: "ok st \<Longrightarrow> vs_get_account_nonce S k st = (Inr n, st') \<Longrightarrow>
      ok st' \<and> nonces_kept nonce_of first_nonce st st' \<and> sender_of st' = sender_of st \<and> nonce_of st' k = Some n"
    and update_nonce_law: "ok st \<Longrightarrow> vs_update_account_nonce S k n st = (Inr u, st') \<Longrightarrow>
      ok st' \<and> nonce_of st' k = Some n \<and> (\<forall>k'. k' \<noteq> k \<longrightarrow> nonce_of st' k' = nonce_of st k') \<and>
      sender_of st' = sender_of st"
    and get_sender_law: "ok st \<Longrightarrow> vs_get_sender_balance S k a r st = (Inr ct, st') \<Longrightarrow>
      ok st' \<and> nonces_kept nonce_of first_nonce st st' \<and>
      (\<forall>k' a'. sender_of st' k' a' = (if k' = k \<and> a' = a then Some ct else sender_of st k' a')) \<and>
      (case sender_of st k a of Some b \<Rightarrow> ct = b | None \<Rightarrow> nonce_of st k \<noteq> None \<longrightarrow> first_balance k a r = Inr ct)"
    and put_sender_law: "ok st \<Longrightarrow> sender_of st k a = Some ct \<Longrightarrow>
      ok (vs_put_sender_balance S k a ct' st) \<and>
      (\<forall>k' a'. sender_of (vs_put_sender_balance S k a ct' st) k' a' =
         (if k' = k \<and> a' = a then Some ct' else sender_of st k' a')) \<and>
      nonce_of (vs_put_sender_balance S k a ct' st) = nonce_of st"
begin

abbreviation keep :: "('st, 'x, 'y) action \<Rightarrow> bool" where
  "keep \<equiv> keeping ok nonce_of first_nonce sender_of"

abbreviation kept :: "'st \<Rightarrow> 'st \<Rightarrow> bool" where
  "kept \<equiv> nonces_kept nonce_of first_nonce"

text \<open>The checks of the data of a transaction and of its payload leave the accounts alone.\<close>

lemma keep_put_receiver: "keep (aupdate (vs_put_receiver_balance S k a ct) :: ('st, 'x, unit) action)"
  using keep_laws(10) [of k a ct] by (auto simp: keeping_def)

lemma verify_data_keeps: "keep (verify_data V S tx)"
  unfolding verify_data_def Let_def is_contract_available_def
  by (auto intro!: keep_laws keeping_bind split: transaction_type.splits option.splits)

lemma verify_payload_keeps: "keep (verify_payload V S tx h source ts ds ps)"
  unfolding verify_payload_def Let_def verify_transfer_step_def add_to_receiver_def
  by (auto intro!: keep_laws keep_put_receiver keeping_bind keeping_for split: transaction_type.splits option.splits)

lemma verify_source_commitment_spec:
  assumes st: "ok st" "nonce_of st (tx_source tx) \<noteq> None"
    and step: "verify_source_commitment V S tx source ts ds True cc tb st = (Inr ((new, out), tb'), st')"
  shows "ok st' \<and> kept st st' \<and>
    charges (v_curve V) tx ts ds first_balance sender_of {sc_asset (fst cc)} st st'"
proof -
  obtain c p t b where cc: "cc = (c, p)" "tb = (t, b)" by (cases cc; cases tb)
  obtain balance st1 where out: "get_sender_output_ct (v_curve V) tx (sc_asset c) ts ds = Inr out"
    and get: "vs_get_sender_balance S (tx_source tx) (sc_asset c) (tx_reference tx) st = (Inr balance, st1)"
    and st': "st' = vs_put_sender_balance S (tx_source tx) (sc_asset c) (ciphertext_sub (v_curve V) balance out) st1"
    using step by (auto simp: verify_source_commitment_def cc result_simps Let_def)
  note get' = get_sender_law [OF st(1) get]
  then have 1: "ok st1" "sender_of st1 (tx_source tx) (sc_asset c) = Some balance" by auto
  note put = put_sender_law [OF 1, of "ciphertext_sub (v_curve V) balance out", folded st']
  have "charges (v_curve V) tx ts ds first_balance sender_of {sc_asset c} st st'"
    using out put get' st(2) by (auto simp: charges_def charged_def split: option.splits)
  moreover have "kept st st'" using get' put by (simp add: nonces_kept_def)
  ultimately show ?thesis using put by (simp add: cc)
qed

lemma verify_commitments_spec:
  assumes "ok st" "nonce_of st (tx_source tx) \<noteq> None" "distinct (map (sc_asset \<circ> fst) ccs)"
    "afor (verify_commitment_step V S tx source ts ds) ccs tb st = (Inr tb', st')"
  shows "ok st' \<and> kept st st' \<and>
    charges (v_curve V) tx ts ds first_balance sender_of (set (map (sc_asset \<circ> fst) ccs)) st st'"
  using assms
proof (induction ccs arbitrary: st tb)
  case Nil
  then show ?case by (simp add: charges_def)
next
  case (Cons cc ccs)
  obtain tb1 st1 where step: "verify_commitment_step V S tx source ts ds cc tb st = (Inr tb1, st1)"
    and rest: "afor (verify_commitment_step V S tx source ts ds) ccs tb1 st1 = (Inr tb', st')"
    using Cons.prems(4) by (auto simp: result_simps)
  obtain new out st0 where src: "verify_source_commitment V S tx source ts ds True cc tb st = (Inr ((new, out), tb1), st0)"
    and add: "vs_add_sender_output S (tx_source tx) (sc_asset (fst cc)) out st0 = (Inr (), st1)"
    using step by (auto simp: verify_commitment_step_def result_simps)
  from verify_source_commitment_spec [OF Cons.prems(1,2) src] have s: "ok st0" "kept st st0"
    "charges (v_curve V) tx ts ds first_balance sender_of {sc_asset (fst cc)} st st0" by blast+
  from keepingD [OF keep_laws(3) s(1) add] have a: "ok st1" "kept st0 st1" "sender_of st1 = sender_of st0" by blast+
  from s(3) have 1: "charges (v_curve V) tx ts ds first_balance sender_of {sc_asset (fst cc)} st st1"
    by (simp add: charges_same(2) [of sender_of, OF a(3)])
  have k: "kept st st1" by (rule nonces_kept_trans [OF s(2) a(2)])
  with Cons.prems(2) have "nonce_of st1 (tx_source tx) \<noteq> None" by (auto simp: nonces_kept_def)
  from Cons.IH [OF a(1) this _ rest] Cons.prems(3) have 2: "ok st'" "kept st1 st'"
    "charges (v_curve V) tx ts ds first_balance sender_of (set (map (sc_asset \<circ> fst) ccs)) st1 st'" by auto
  from charges_union [OF 1 2(3)] Cons.prems(3) nonces_kept_trans [OF k 2(2)] 2(1) show ?case
    by (auto simp: image_comp)
qed

lemma pre_verify_spec:
  assumes st: "ok st" and run: "pre_verify V S tx h b st = (Inr r, st')"
  shows "ok st' \<and> tx_checked V tx \<and> tx_done V nonce_of first_nonce first_balance sender_of tx st st'"
proof -
  obtain u1 st1 n st2 u2 st3 ts ds st4 coms source config st5 tb st6 ps where
    fmt: "has_valid_version_format tx"
    and s1: "vs_pre_verify_tx S tx st = (Inr u1, st1)"
    and s2: "vs_get_account_nonce S (tx_source tx) st1 = (Inr (tx_nonce tx), st2)"
    and s3: "vs_update_account_nonce S (tx_source tx) (tx_nonce tx + 1) st2 = (Inr u2, st3)"
    and assets: "verify_commitment_assets tx"
    and s4: "verify_data V S tx st3 = (Inr (ts, ds), st4)"
    and coms: "decompress_commitments (v_curve V) (tx_source_commitments tx) = Inr coms"
    and source: "point_decompress (v_curve V) (tx_source tx) = Inr source"
    and sig: "let bytes = to_bytes (write_transaction (v_libs V)) tx in
      signature_verify (v_curve V) (tx_signature tx) (take (length bytes - SIGNATURE_SIZE) bytes) source"
    and s5: "vs_get_multisig_state S (tx_source tx) st4 = (Inr config, st5)"
    and s6: "afor (verify_commitment_step V S tx source ts ds) (zip (tx_source_commitments tx) coms)
      (prepare_transcript (tx_version tx) (tx_source tx) (tx_fee tx) (tx_nonce tx), b) st5 = (Inr tb, st6)"
    and s7: "verify_payload V S tx h source ts ds \<lparr>ps_transcript = fst tb, ps_values = [], ps_batch = snd tb\<rparr> st6 =
      (Inr ps, st')"
    using run
    by (auto simp: pre_verify_def result_simps Let_def split: if_splits)
  from keepingD [OF keep_laws(1) st s1] have 1: "ok st1" "kept st st1" "sender_of st1 = sender_of st" by blast+
  from get_nonce_law [OF 1(1) s2] have 2: "ok st2" "kept st1 st2" "sender_of st2 = sender_of st1"
    "nonce_of st2 (tx_source tx) = Some (tx_nonce tx)" by blast+
  note k2 = nonces_kept_trans [OF 1(2) 2(2)]
  note 3 = update_nonce_law [OF 2(1) s3]
  from keepingD [OF verify_data_keeps _ s4] 3 have 4: "ok st4" "kept st3 st4" "sender_of st4 = sender_of st3" by blast+
  from keepingD [OF keep_laws(5) 4(1) s5] have 5: "ok st5" "kept st4 st5" "sender_of st5 = sender_of st4" by blast+
  have n5: "nonce_of st5 (tx_source tx) \<noteq> None"
    using 3 4(2) 5(2) by (auto simp: nonces_kept_def)
  have "distinct (map (sc_asset \<circ> fst) (zip (tx_source_commitments tx) coms))"
    "set (map (sc_asset \<circ> fst) (zip (tx_source_commitments tx) coms)) = set (map sc_asset (tx_source_commitments tx))"
    using assets length_decompress_commitments [OF coms]
    by (simp_all add: verify_commitment_assets_def flip: map_map)
  from verify_commitments_spec [OF 5(1) n5 this(1) s6, unfolded this(2)] have 6: "ok st6" "kept st5 st6"
    "charges (v_curve V) tx ts ds first_balance sender_of (set (map sc_asset (tx_source_commitments tx))) st5 st6" by blast+
  from keepingD [OF verify_payload_keeps 6(1) s7] have 7: "ok st'" "kept st6 st'" "sender_of st' = sender_of st6" by blast+
  have "sender_of st5 = sender_of st" using 1(3) 2(3) 3 4(3) 5(3) by simp
  then have "charges (v_curve V) tx ts ds first_balance sender_of (set (map sc_asset (tx_source_commitments tx))) st st'"
    using 6(3) by (simp add: charges_same(1) [of sender_of st5 st] charges_same(2) [of sender_of st' st6, OF 7(3)])
  moreover have k3: "kept st3 st'"
    using 4(2) 5(2) 6(2) 7(2) nonces_kept_trans by metis
  moreover have "current_nonce nonce_of first_nonce st' k = Inr n"
    if k: "k \<noteq> tx_source tx" and n: "current_nonce nonce_of first_nonce st k = Inr n" for k n
  proof (rule nonces_kept_current [OF k3])
    show "current_nonce nonce_of first_nonce st3 k = Inr n"
      using nonces_kept_current [OF k2 n] 3 k by (simp add: current_nonce_def)
  qed
  moreover have "nonce_of st' (tx_source tx) = Some (tx_nonce tx + 1)" using k3 3 by (simp add: nonces_kept_def)
  ultimately have "tx_done V nonce_of first_nonce first_balance sender_of tx st st'"
    using nonces_kept_loaded [OF k2 2(4)] verify_data_opens [OF s4] by (auto simp: tx_done_def)
  with 7(1) fmt assets source sig show ?thesis by (auto simp: tx_checked_def)
qed

lemma prepare_batch_spec:
  "ok st \<Longrightarrow> prepare_batch V S txs b st = (Inr r, st') \<Longrightarrow>
     ok st' \<and> txs_done V nonce_of first_nonce first_balance sender_of (map fst txs) st st'"
proof (induction txs arbitrary: b st r)
  case (Cons th txs)
  obtain tx h where th: "th = (tx, h)" by (cases th)
  obtain x st1 y where 1: "pre_verify V S tx h b st = (Inr x, st1)"
    and 2: "prepare_batch V S txs (snd (snd x)) st1 = (Inr y, st')"
    using Cons.prems(2) by (auto simp: th result_simps)
  from pre_verify_spec [OF Cons.prems(1) 1] Cons.IH [OF _ 2] show ?case by (auto simp: th)
qed simp

lemma verify_batch_spec:
  "ok st \<Longrightarrow> verify_batch V S txs st = (Inr u, st') \<Longrightarrow>
     ok st' \<and> txs_done V nonce_of first_nonce first_balance sender_of (map fst txs) st st'"
  using prepare_batch_spec by (fastforce simp: verify_batch_def result_simps)

end

end
