(* ===== verification/State_Storage.thy ===== *)
theory State_Storage
  imports Tx_Accounts
begin

text \<open>
  What the states read from the storage and the functions they share (\<open>core/state/mod.rs\<close> of the
  daemon, \<open>estimate_required_tx_fees\<close> of \<open>core/blockchain.rs\<close>). The states are generic in the storage;
  its providers are the record \<open>tx_storage\<close>.
\<close>

section \<open>Providers\<close>

text \<open>The errors of the daemon that these functions raise; any other error of the storage is \<open>StorageError\<close>.\<close>

datatype blockchain_error =
  InvalidTxVersion
| InvalidTxFee u64 u64
| InvalidReferenceTopoheight topoheight topoheight
| NoPreviousBalanceFound
| AccountNotFound compressed_public_key
| NoTxSender compressed_public_key
| ContractAlreadyExists
| ContractNotFoundError hash
| DecompressionFailed decompression_error
| TxNotFound hash
| StorageError

record ('p, 'o) tx_storage =
  st_get_new_versioned_balance ::
    "compressed_public_key \<Rightarrow> hash \<Rightarrow> topoheight \<Rightarrow> blockchain_error + 'p versioned_balance \<times> bool"
  st_get_output_balance_in_range ::
    "compressed_public_key \<Rightarrow> hash \<Rightarrow> topoheight \<Rightarrow> topoheight \<Rightarrow>
     blockchain_error + (topoheight \<times> 'p versioned_balance) option"
  st_get_balance_at_maximum_topoheight ::
    "compressed_public_key \<Rightarrow> hash \<Rightarrow> topoheight \<Rightarrow> blockchain_error + (topoheight \<times> 'p versioned_balance) option"
  st_get_nonce_at_maximum_topoheight ::
    "compressed_public_key \<Rightarrow> topoheight \<Rightarrow> blockchain_error + (topoheight \<times> versioned_nonce) option"
  st_get_last_nonce :: "compressed_public_key \<Rightarrow> blockchain_error + topoheight \<times> versioned_nonce"
  st_get_multisig_at_maximum_topoheight_for ::
    "compressed_public_key \<Rightarrow> topoheight \<Rightarrow> blockchain_error + (topoheight \<times> multisig_payload option) option"
  st_get_contract_at_maximum_topoheight_for ::
    "hash \<Rightarrow> topoheight \<Rightarrow> blockchain_error + (topoheight \<times> 'o contract_module option) option"
  st_get_contract_balance_at_maximum_topoheight ::
    "hash \<Rightarrow> hash \<Rightarrow> topoheight \<Rightarrow> blockchain_error + (topoheight \<times> u64) option"
  st_is_block_topological_ordered :: "hash \<Rightarrow> bool"
  st_get_topo_height_for_hash :: "hash \<Rightarrow> blockchain_error + topoheight"
  st_get_pruned_topoheight :: "blockchain_error + topoheight option"
  st_is_account_registered_for_topoheight :: "compressed_public_key \<Rightarrow> topoheight \<Rightarrow> blockchain_error + bool"
  st_has_nonce :: "compressed_public_key \<Rightarrow> blockchain_error + bool"

section \<open>Fees and references\<close>

fun unregistered_keys ::
  "('p, 'o) tx_storage \<Rightarrow> topoheight \<Rightarrow> 's transfer_payload list \<Rightarrow> compressed_public_key list \<Rightarrow>
   blockchain_error + compressed_public_key list" where
  "unregistered_keys D topo [] keys = Inr keys"
| "unregistered_keys D topo (t # ts) keys =
     result_bind (st_is_account_registered_for_topoheight D (tr_destination t) topo) (\<lambda>registered.
       unregistered_keys D topo ts (if registered then keys else List.insert (tr_destination t) keys))"

definition estimate_required_tx_fees ::
  "('p, 's, 'r, 'o, 't) libs \<Rightarrow> ('p, 'o) tx_storage \<Rightarrow> topoheight \<Rightarrow> ('s, 'r, 'o) transaction \<Rightarrow>
   blockchain_error + u64" where
  "estimate_required_tx_fees L D topo tx =
     result_bind (case tx_data tx of
         Transfers ts \<Rightarrow> result_bind (unregistered_keys D topo ts []) (\<lambda>keys. Inr (length ts, length keys))
       | _ \<Rightarrow> Inr (0, 0)) (\<lambda>(outs, news).
     Inr (calculate_tx_fee (size_transaction L tx) outs news (get_multisig_count tx)))"

definition pre_verify_tx ::
  "('p, 's, 'r, 'o, 't) libs \<Rightarrow> ('p, 'o) tx_storage \<Rightarrow> ('s, 'r, 'o) transaction \<Rightarrow> topoheight \<Rightarrow> block_version \<Rightarrow>
   blockchain_error + unit" where
  "pre_verify_tx L D tx topo bv =
     (if \<not> is_tx_version_allowed_in_block_version (tx_version tx) bv then Inl InvalidTxVersion else
      result_bind (estimate_required_tx_fees L D topo tx) (\<lambda>required.
      if required > tx_fee tx then Inl (InvalidTxFee required (tx_fee tx))
      else if topo < ref_topoheight (tx_reference tx)
      then Inl (InvalidReferenceTopoheight (ref_topoheight (tx_reference tx)) topo)
      else Inr ()))"

text \<open>
  Which version of the sender's balance a transaction is verified against; the result tells whether
  the output balance is to be used and whether the version is new.
\<close>

definition reference_block_topo ::
  "('p, 'o) tx_storage \<Rightarrow> topoheight option \<Rightarrow> topoheight \<Rightarrow> reference \<Rightarrow> blockchain_error + topoheight" where
  "reference_block_topo D pruned current ref =
     (if st_is_block_topological_ordered D (ref_hash ref) then
        result_bind (st_get_topo_height_for_hash D (ref_hash ref)) (\<lambda>topo.
          Inr (if topo = ref_topoheight ref then topo
               else if ref_topoheight ref < current then ref_topoheight ref else current))
      else if (case pruned of Some v \<Rightarrow> v > ref_topoheight ref | None \<Rightarrow> False) then Inr (ref_topoheight ref)
      else Inr current)"

definition find_version ::
  "('p, 'o) tx_storage \<Rightarrow> compressed_public_key \<Rightarrow> hash \<Rightarrow> topoheight \<Rightarrow> topoheight \<Rightarrow>
   (topoheight \<times> 'p versioned_balance) option \<Rightarrow> blockchain_error + bool \<times> 'p versioned_balance option" where
  "find_version D key asset ref_topo block_topo last_output = (case last_output of
     Some (topo, v) \<Rightarrow>
       if ref_topo < topo \<or> block_topo < topo then Inr (True, Some v)
       else if topo < ref_topo \<or> topo < block_topo then
         result_bind (st_get_balance_at_maximum_topoheight D key asset (max topo block_topo)) (\<lambda>m.
           Inr (False, map_option snd m))
       else Inr (False, Some v)
   | None \<Rightarrow> result_bind (st_get_balance_at_maximum_topoheight D key asset block_topo) (\<lambda>m.
       Inr (False, map_option snd m)))"

definition search_versioned_balance_for_reference ::
  "('p, 'o) tx_storage \<Rightarrow> compressed_public_key \<Rightarrow> hash \<Rightarrow> topoheight \<Rightarrow> reference \<Rightarrow> bool \<Rightarrow>
   blockchain_error + bool \<times> bool \<times> 'p versioned_balance" where
  "search_versioned_balance_for_reference D key asset current ref no_new =
     result_bind (st_get_pruned_topoheight D) (\<lambda>pruned.
     result_bind (reference_block_topo D pruned current ref) (\<lambda>block_topo.
     result_bind (st_get_output_balance_in_range D key asset
       (min (min (ref_topoheight ref) block_topo) current) current) (\<lambda>last_output.
     result_bind (find_version D key asset (ref_topoheight ref) block_topo last_output) (\<lambda>(use_output, found).
     case found of
       Some v \<Rightarrow> Inr (use_output, False, v)
     | None \<Rightarrow> result_bind (st_get_new_versioned_balance D key asset current) (\<lambda>(v, fresh).
         if fresh \<and> no_new then Inl NoPreviousBalanceFound else Inr (use_output, True, v))))))"

text \<open>The output balance is used only when one was found above the reference.\<close>

lemma find_version_output:
  "find_version D key asset rt bt lo = Inr (True, found) \<Longrightarrow>
     \<exists>topo v. lo = Some (topo, v) \<and> found = Some v \<and> (rt < topo \<or> bt < topo)"
  by (auto simp: find_version_def result_simps split: option.splits if_splits)

lemma search_use_output:
  assumes "search_versioned_balance_for_reference D key asset current ref no_new = Inr (True, fresh, v)"
  shows "\<exists>topo min_topo. \<not> fresh \<and>
    st_get_output_balance_in_range D key asset min_topo current = Inr (Some (topo, v))"
proof -
  obtain bt lo found where "st_get_output_balance_in_range D key asset (min (min (ref_topoheight ref) bt) current) current = Inr lo"
    and f: "find_version D key asset (ref_topoheight ref) bt lo = Inr (True, found)"
    and v: "(case found of Some v \<Rightarrow> Inr (True, False, v)
       | None \<Rightarrow> result_bind (st_get_new_versioned_balance D key asset current) (\<lambda>(v, fresh).
           if fresh \<and> no_new then Inl NoPreviousBalanceFound else Inr (True, True, v))) = Inr (True, fresh, v)"
    using assms
    by (auto simp: search_versioned_balance_for_reference_def result_simps split: option.splits prod.splits if_splits)
  with find_version_output [OF f] show ?thesis by fastforce
qed

end
