(* ===== verification/Queue.thy ===== *)
theory Queue
  imports Xelis_Prelude "HOL-Library.Multiset"
begin

text \<open>
  The queue with constant-time lookup of \<open>xelis_common/src/queue.rs\<close>: a map from keys to values and
  the order in which the keys came. The map is an association list without a repeated key, whose
  order stands for the unspecified order of the hash map. The \<open>Arc\<close> around a key is shared by the
  two fields only, so unwrapping it succeeds once both have dropped it.

  The locale \<open>fifo_map\<close> is what the users of the queue rely on: it is a list of distinct keys with
  values, extended at the back, consumed at the front, and searched by key.
\<close>

section \<open>The queue\<close>

record ('k, 'v) queue =
  q_keys :: "('k \<times> 'v) list"
  q_order :: "'k list"

definition queue_new :: "('k, 'v) queue" where
  "queue_new = \<lparr>q_keys = [], q_order = []\<rparr>"

definition map_remove :: "'k \<Rightarrow> ('k \<times> 'v) list \<Rightarrow> ('k \<times> 'v) list" where
  "map_remove k m = filter (\<lambda>e. fst e \<noteq> k) m"

definition push_internal :: "'k \<Rightarrow> 'v \<Rightarrow> ('k, 'v) queue \<Rightarrow> ('k, 'v) queue" where
  "push_internal k v q = q\<lparr>q_keys := index_map_insert k v (q_keys q), q_order := q_order q @ [k]\<rparr>"

definition queue_push :: "'k \<Rightarrow> 'v \<Rightarrow> ('k, 'v) queue \<Rightarrow> bool \<times> ('k, 'v) queue" where
  "queue_push k v q =
     (if map_of (q_keys q) k \<noteq> None then (False, q) else (True, push_internal k v q))"

definition queue_pop :: "('k, 'v) queue \<Rightarrow> ('k \<times> 'v) option \<times> ('k, 'v) queue" where
  "queue_pop q = (case q_order q of [] \<Rightarrow> (None, q) | k # order' \<Rightarrow>
     let q' = q\<lparr>q_order := order'\<rparr> in
     (case map_of (q_keys q) k of None \<Rightarrow> (None, q')
      | Some v \<Rightarrow> (Some (k, v), q'\<lparr>q_keys := map_remove k (q_keys q)\<rparr>)))"

definition queue_has :: "'k \<Rightarrow> ('k, 'v) queue \<Rightarrow> bool" where
  "queue_has k q \<longleftrightarrow> map_of (q_keys q) k \<noteq> None"

definition remove_order_internal :: "'k \<Rightarrow> 'k list \<Rightarrow> 'k option \<times> 'k list" where
  "remove_order_internal k order =
     (if k \<in> set order then (Some k, remove1 k order) else (None, order))"

definition queue_remove_entry :: "'k \<Rightarrow> ('k, 'v) queue \<Rightarrow> ('k \<times> 'v) option \<times> ('k, 'v) queue" where
  "queue_remove_entry k q = (case map_of (q_keys q) k of None \<Rightarrow> (None, q)
   | Some v \<Rightarrow> (case remove_order_internal k (q_order q) of (found, order') \<Rightarrow>
       (map_option (\<lambda>k'. (k', v)) found,
        q\<lparr>q_keys := map_remove k (q_keys q), q_order := order'\<rparr>)))"

definition queue_remove :: "'k \<Rightarrow> ('k, 'v) queue \<Rightarrow> 'v option \<times> ('k, 'v) queue" where
  "queue_remove k q = (case map_of (q_keys q) k of None \<Rightarrow> (None, q)
   | Some v \<Rightarrow> (case remove_order_internal k (q_order q) of (found, order') \<Rightarrow>
       (map_option (\<lambda>_. v) found,
        q\<lparr>q_keys := map_remove k (q_keys q), q_order := order'\<rparr>)))"

definition queue_get :: "'k \<Rightarrow> ('k, 'v) queue \<Rightarrow> 'v option" where
  "queue_get k q = map_of (q_keys q) k"

text \<open>\<open>get_mut\<close> and \<open>peek_mut\<close> with the change that is made through the reference.\<close>

definition queue_update :: "'k \<Rightarrow> ('v \<Rightarrow> 'v) \<Rightarrow> ('k, 'v) queue \<Rightarrow> ('k, 'v) queue" where
  "queue_update k f q = q\<lparr>q_keys := map (\<lambda>(k', v). (k', if k' = k then f v else v)) (q_keys q)\<rparr>"

definition queue_get_index :: "nat \<Rightarrow> ('k, 'v) queue \<Rightarrow> 'k option" where
  "queue_get_index i q = (if i < length (q_order q) then Some (q_order q ! i) else None)"

definition queue_peek :: "('k, 'v) queue \<Rightarrow> 'v option" where
  "queue_peek q = (case q_order q of [] \<Rightarrow> None | k # _ \<Rightarrow> map_of (q_keys q) k)"

definition queue_peek_update :: "('v \<Rightarrow> 'v) \<Rightarrow> ('k, 'v) queue \<Rightarrow> ('k, 'v) queue" where
  "queue_peek_update f q = (case q_order q of [] \<Rightarrow> q | k # _ \<Rightarrow> queue_update k f q)"

definition queue_peek_key :: "('k, 'v) queue \<Rightarrow> 'k option" where
  "queue_peek_key q = (case q_order q of [] \<Rightarrow> None | k # _ \<Rightarrow> Some k)"

definition queue_len :: "('k, 'v) queue \<Rightarrow> nat" where
  "queue_len q = length (q_order q)"

definition queue_is_empty :: "('k, 'v) queue \<Rightarrow> bool" where
  "queue_is_empty q \<longleftrightarrow> q_order q = []"

definition queue_clear :: "('k, 'v) queue \<Rightarrow> ('k, 'v) queue" where
  "queue_clear q = q\<lparr>q_keys := [], q_order := []\<rparr>"

definition queue_values :: "('k, 'v) queue \<Rightarrow> 'v list" where
  "queue_values q = map snd (q_keys q)"

text \<open>\<open>extract_if\<close>, with the iterator consumed to its end.\<close>

fun extract_loop ::
  "('k \<Rightarrow> 'v \<Rightarrow> bool) \<Rightarrow> ('k \<times> 'v) list \<Rightarrow> ('k, 'v) queue \<Rightarrow> ('k \<times> 'v) list \<times> ('k, 'v) queue" where
  "extract_loop f [] q = ([], q)"
| "extract_loop f ((k, v) # tmp) q =
     (if f k v then
        (case remove_order_internal k (q_order q) of (found, order') \<Rightarrow>
          (case extract_loop f tmp (q\<lparr>q_order := order'\<rparr>) of (out, q') \<Rightarrow>
            ((case found of None \<Rightarrow> out | Some k' \<Rightarrow> (k', v) # out), q')))
      else extract_loop f tmp (q\<lparr>q_keys := index_map_insert k v (q_keys q)\<rparr>))"

definition extract_if ::
  "('k \<Rightarrow> 'v \<Rightarrow> bool) \<Rightarrow> ('k, 'v) queue \<Rightarrow> ('k \<times> 'v) list \<times> ('k, 'v) queue" where
  "extract_if f q = extract_loop f (q_keys q) (q\<lparr>q_keys := []\<rparr>)"

section \<open>The contract\<close>

definition queue_inv :: "('k, 'v) queue \<Rightarrow> bool" where
  "queue_inv q \<longleftrightarrow> distinct (map fst (q_keys q)) \<and> distinct (q_order q) \<and>
     set (q_order q) = fst ` set (q_keys q)"

definition queue_list :: "('k, 'v) queue \<Rightarrow> ('k \<times> 'v) list" where
  "queue_list q = map (\<lambda>k. (k, the (map_of (q_keys q) k))) (q_order q)"

fun drain :: "('q \<Rightarrow> 'e option \<times> 'q) \<Rightarrow> nat \<Rightarrow> 'q \<Rightarrow> 'e list" where
  "drain pop 0 q = []"
| "drain pop (Suc n) q = (case pop q of (None, _) \<Rightarrow> [] | (Some e, q') \<Rightarrow> e # drain pop n q')"

locale fifo_map =
  fixes inv :: "'q \<Rightarrow> bool" and to_list :: "'q \<Rightarrow> ('k \<times> 'v) list" and empty :: 'q
    and push :: "'k \<Rightarrow> 'v \<Rightarrow> 'q \<Rightarrow> bool \<times> 'q" and pop :: "'q \<Rightarrow> ('k \<times> 'v) option \<times> 'q"
    and look :: "'k \<Rightarrow> 'q \<Rightarrow> 'v option" and del :: "'k \<Rightarrow> 'q \<Rightarrow> 'v option \<times> 'q"
  assumes empty_law: "inv empty \<and> to_list empty = []"
    and distinct_keys: "inv q \<Longrightarrow> distinct (map fst (to_list q))"
    and look_law: "inv q \<Longrightarrow> look k q = map_of (to_list q) k"
    and push_law: "inv q \<Longrightarrow> push k v q = (fresh, q') \<Longrightarrow>
      inv q' \<and> (fresh \<longleftrightarrow> k \<notin> fst ` set (to_list q)) \<and>
      to_list q' = (if fresh then to_list q @ [(k, v)] else to_list q)"
    and pop_law: "inv q \<Longrightarrow> pop q = (m, q') \<Longrightarrow>
      inv q' \<and> (case to_list q of [] \<Rightarrow> m = None \<and> to_list q' = []
        | e # es \<Rightarrow> m = Some e \<and> to_list q' = es)"
    and del_law: "inv q \<Longrightarrow> del k q = (w, q') \<Longrightarrow>
      inv q' \<and> w = map_of (to_list q) k \<and> to_list q' = filter (\<lambda>e. fst e \<noteq> k) (to_list q)"
begin

text \<open>Every pushed element that is not removed comes out, in the order of the pushes.\<close>

lemma drain_to_list: "inv q \<Longrightarrow> drain pop n q = take n (to_list q)"
proof (induction n arbitrary: q)
  case (Suc n)
  obtain m q' where p: "pop q = (m, q')" by (cases "pop q")
  from pop_law [OF Suc.prems p] Suc.IH [of q'] show ?case
    by (cases "to_list q") (auto simp: p)
qed simp

lemma push_all:
  "inv q \<Longrightarrow> distinct (map fst (to_list q @ es)) \<Longrightarrow>
     inv (foldl (\<lambda>q e. snd (push (fst e) (snd e) q)) q es) \<and>
     to_list (foldl (\<lambda>q e. snd (push (fst e) (snd e) q)) q es) = to_list q @ es"
proof (induction es arbitrary: q)
  case (Cons e es)
  obtain fresh q' where p: "push (fst e) (snd e) q = (fresh, q')" by (cases "push (fst e) (snd e) q")
  from push_law [OF Cons.prems(1) p] Cons.prems have "inv q'" "to_list q' = to_list q @ [e]" by auto
  with Cons.IH [of q'] Cons.prems p show ?case by simp
qed simp

end

section \<open>The queue satisfies it\<close>

lemma map_of_map_remove: "map_of (map_remove k m) = (map_of m)(k := None)"
  by (induction m) (auto simp: map_remove_def fun_eq_iff)

lemma keys_map_remove: "fst ` set (map_remove k m) = fst ` set m - {k}"
  by (auto simp: map_remove_def)

lemma distinct_map_remove: "distinct (map fst m) \<Longrightarrow> distinct (map fst (map_remove k m))"
  by (induction m) (auto simp: map_remove_def)

lemma fst_queue_list [simp]: "map fst (queue_list q) = q_order q" "fst ` set (queue_list q) = set (q_order q)"
  by (simp_all add: queue_list_def comp_def image_image)

lemma queue_keys_iff: "queue_inv q \<Longrightarrow> map_of (q_keys q) k = None \<longleftrightarrow> k \<notin> set (q_order q)"
  by (simp add: queue_inv_def map_of_eq_None_iff)

lemma map_of_queue_list: "queue_inv q \<Longrightarrow> map_of (queue_list q) k = map_of (q_keys q) k"
proof -
  assume q: "queue_inv q"
  have "map_of (map (\<lambda>k. (k, the (map_of (q_keys q) k))) ks) k =
      (if k \<in> set ks then Some (the (map_of (q_keys q) k)) else None)" for ks
    by (induction ks) auto
  then show ?thesis
    using queue_keys_iff [OF q, of k] by (auto simp: queue_list_def)
qed

lemma queue_push_spec:
  assumes q: "queue_inv q" and p: "queue_push k v q = (fresh, q')"
  shows "queue_inv q' \<and> (fresh \<longleftrightarrow> k \<notin> set (q_order q)) \<and>
    queue_list q' = (if fresh then queue_list q @ [(k, v)] else queue_list q)"
proof (cases "map_of (q_keys q) k")
  case None
  then have k: "k \<notin> set (q_order q)" using queue_keys_iff [OF q] by blast
  then have k': "k \<notin> fst ` set (q_keys q)" using q by (simp add: queue_inv_def)
  have "fresh" "q' = q\<lparr>q_keys := q_keys q @ [(k, v)], q_order := q_order q @ [k]\<rparr>"
    using p None k' by (simp_all add: queue_push_def push_internal_def index_map_insert_new)
  moreover have "map_of (q_keys q @ [(k, v)]) k' = map_of (q_keys q) k'" if "k' \<in> set (q_order q)" for k'
    using that k by (auto simp: map_add_def split: option.splits)
  moreover have "map_of (q_keys q @ [(k, v)]) k = Some v"
    using None by (simp add: map_add_def)
  ultimately show ?thesis
    using q k k' by (simp add: queue_inv_def queue_list_def)
next
  case (Some w)
  then have "k \<in> set (q_order q)" using queue_keys_iff [OF q, of k] by auto
  with Some assms show ?thesis by (auto simp: queue_push_def)
qed

lemma queue_list_filter:
  assumes "\<And>k'. k' \<in> set (q_order q) \<Longrightarrow> P k' (the (map_of (q_keys q) k')) \<Longrightarrow>
    map_of m k' = map_of (q_keys q) k'"
  shows "queue_list (q\<lparr>q_keys := m, q_order := filter (\<lambda>k'. P k' (the (map_of (q_keys q) k'))) (q_order q)\<rparr>) =
    filter (\<lambda>(k', v). P k' v) (queue_list q)"
  using assms by (auto simp: queue_list_def filter_map comp_def)

lemma queue_drop_spec:
  assumes q: "queue_inv q"
  shows "queue_inv (q\<lparr>q_keys := map_remove k (q_keys q), q_order := remove1 k (q_order q)\<rparr>) \<and>
    queue_list (q\<lparr>q_keys := map_remove k (q_keys q), q_order := remove1 k (q_order q)\<rparr>) =
      filter (\<lambda>e. fst e \<noteq> k) (queue_list q)"
proof -
  have r: "remove1 k (q_order q) = filter (\<lambda>k'. k' \<noteq> k) (q_order q)"
    using q by (simp add: queue_inv_def distinct_remove1_removeAll removeAll_filter_not_eq)
       (metis)
  have "queue_list (q\<lparr>q_keys := map_remove k (q_keys q), q_order := remove1 k (q_order q)\<rparr>) =
      filter (\<lambda>e. fst e \<noteq> k) (queue_list q)"
    unfolding r using queue_list_filter [of q "\<lambda>k' v. k' \<noteq> k" "map_remove k (q_keys q)"]
    by (simp add: map_of_map_remove case_prod_unfold)
  then show ?thesis
    using q by (auto simp: r queue_inv_def keys_map_remove distinct_map_remove)
qed

lemma queue_pop_spec:
  assumes q: "queue_inv q" and p: "queue_pop q = (m, q')"
  shows "queue_inv q' \<and> (case queue_list q of [] \<Rightarrow> m = None \<and> queue_list q' = []
    | e # es \<Rightarrow> m = Some e \<and> queue_list q' = es)"
proof (cases "q_order q")
  case Nil
  then show ?thesis using assms by (auto simp: queue_pop_def queue_list_def)
next
  case (Cons k ks)
  then obtain v where v: "map_of (q_keys q) k = Some v"
    using queue_keys_iff [OF q, of k] by auto
  have ks: "k \<notin> set ks" using q Cons by (simp add: queue_inv_def)
  have q': "m = Some (k, v)"
    "q' = q\<lparr>q_keys := map_remove k (q_keys q), q_order := remove1 k (q_order q)\<rparr>"
    using p Cons v by (auto simp: queue_pop_def)
  have l: "queue_list q = (k, v) # map (\<lambda>k. (k, the (map_of (q_keys q) k))) ks"
    using Cons v by (simp add: queue_list_def)
  have "filter (\<lambda>e. fst e \<noteq> k) (queue_list q) = map (\<lambda>k. (k, the (map_of (q_keys q) k))) ks"
    using ks by (auto simp: l filter_id_conv)
  with queue_drop_spec [OF q, of k] Cons l q' show ?thesis by simp
qed

lemma queue_remove_spec:
  assumes q: "queue_inv q"
  shows "queue_remove k q = (w, q') \<Longrightarrow> queue_inv q' \<and> w = map_of (queue_list q) k \<and>
      queue_list q' = filter (\<lambda>e. fst e \<noteq> k) (queue_list q)"
    and "queue_remove_entry k q = (m, q') \<Longrightarrow> queue_inv q' \<and>
      m = map_option (\<lambda>v. (k, v)) (map_of (queue_list q) k) \<and>
      queue_list q' = filter (\<lambda>e. fst e \<noteq> k) (queue_list q)"
proof -
  have none: "filter (\<lambda>e. fst e \<noteq> k) (queue_list q) = queue_list q" if "k \<notin> set (q_order q)"
    using that by (auto simp: queue_list_def filter_id_conv)
  have "map_of (q_keys q) k = None \<longleftrightarrow> k \<notin> set (q_order q)" by (rule queue_keys_iff [OF q])
  note facts = this none q queue_drop_spec [OF q, of k] map_of_queue_list [OF q]
  show "queue_remove k q = (w, q') \<Longrightarrow> queue_inv q' \<and> w = map_of (queue_list q) k \<and>
      queue_list q' = filter (\<lambda>e. fst e \<noteq> k) (queue_list q)"
    using facts
    by (cases "k \<in> set (q_order q)")
       (auto simp: queue_remove_def remove_order_internal_def split: option.splits)
  show "queue_remove_entry k q = (m, q') \<Longrightarrow> queue_inv q' \<and>
      m = map_option (\<lambda>v. (k, v)) (map_of (queue_list q) k) \<and>
      queue_list q' = filter (\<lambda>e. fst e \<noteq> k) (queue_list q)"
    using facts
    by (cases "k \<in> set (q_order q)")
       (auto simp: queue_remove_entry_def remove_order_internal_def split: option.splits)
qed

interpretation queue: fifo_map queue_inv queue_list queue_new queue_push queue_pop queue_get
  queue_remove
proof
  show "queue_inv queue_new \<and> queue_list queue_new = []"
    by (simp add: queue_inv_def queue_list_def queue_new_def)
next
  fix q :: "('k, 'v) queue" and k v fresh q'
  assume "queue_inv q" "queue_push k v q = (fresh, q')"
  from queue_push_spec [OF this] show "queue_inv q' \<and> (fresh \<longleftrightarrow> k \<notin> fst ` set (queue_list q)) \<and>
      queue_list q' = (if fresh then queue_list q @ [(k, v)] else queue_list q)"
    by simp
qed (erule (1) queue_pop_spec queue_remove_spec(1) |
     simp add: queue_get_def map_of_queue_list | simp add: queue_inv_def)+

subsection \<open>Extraction\<close>

lemma extract_loop_spec:
  assumes "extract_loop f tmp q = (out, q')" "distinct (map fst (q_keys q @ tmp))"
    "distinct (q_order q)" "set (q_order q) = fst ` set (q_keys q @ tmp)"
  shows "out = filter (\<lambda>(k, v). f k v) tmp \<and>
    q_keys q' = q_keys q @ filter (\<lambda>(k, v). \<not> f k v) tmp \<and>
    q_order q' = filter (\<lambda>k. k \<notin> fst ` set out) (q_order q)"
  using assms
proof (induction f tmp q arbitrary: out q' rule: extract_loop.induct)
  case (2 f k v tmp q)
  show ?case
  proof (cases "f k v")
    case True
    have k: "k \<in> set (q_order q)" "k \<notin> fst ` set (q_keys q)" "k \<notin> fst ` set tmp" using "2.prems" by auto
    have r: "remove1 k (q_order q) = filter (\<lambda>k'. k' \<noteq> k) (q_order q)"
      using "2.prems"(3) by (simp add: distinct_remove1_removeAll removeAll_filter_not_eq) metis
    let ?q = "q\<lparr>q_order := remove1 k (q_order q)\<rparr>"
    obtain out' where l: "extract_loop f tmp ?q = (out', q')" and out: "out = (k, v) # out'"
      using "2.prems"(1) True k by (auto simp: remove_order_internal_def split: prod.splits)
    from "2.IH"(1) [OF True, of "Some k" "remove1 k (q_order q)", OF _ l] "2.prems"(2-) k
    have "out' = filter (\<lambda>(k, v). f k v) tmp \<and>
        q_keys q' = q_keys q @ filter (\<lambda>(k, v). \<not> f k v) tmp \<and>
        q_order q' = filter (\<lambda>k. k \<notin> fst ` set out') (remove1 k (q_order q))"
      by (auto simp: remove_order_internal_def r)
    moreover have "filter (\<lambda>k. k \<notin> fst ` set out') (remove1 k (q_order q)) =
        filter (\<lambda>k. k \<notin> fst ` set out) (q_order q)"
      by (simp add: r out conj_commute)
    ultimately show ?thesis using True out by simp
  next
    case False
    have k: "k \<notin> fst ` set (q_keys q)" using "2.prems" by auto
    with "2.prems" have l: "extract_loop f tmp (q\<lparr>q_keys := q_keys q @ [(k, v)]\<rparr>) = (out, q')"
      using False by (simp add: index_map_insert_new)
    from "2.IH"(2) [OF False] "2.prems"(2-) l k False show ?thesis
      by (simp add: index_map_insert_new)
  qed
qed auto

lemma distinct_mapD: "distinct (map f xs) \<Longrightarrow> distinct xs"
  by (simp add: distinct_map)

lemma mset_queue_list:
  assumes q: "queue_inv q"
  shows "mset (queue_list q) = mset (q_keys q)"
proof -
  have d: "distinct (q_keys q)" "distinct (queue_list q)"
    using q by (simp_all add: queue_inv_def distinct_mapD [where f = fst])
  have "set (queue_list q) = set (q_keys q)"
  proof
    show "set (q_keys q) \<subseteq> set (queue_list q)"
      using q by (force simp: queue_list_def queue_inv_def)
    show "set (queue_list q) \<subseteq> set (q_keys q)"
      using q by (auto simp: queue_list_def queue_inv_def)
  qed
  then show ?thesis using d by (simp add: set_eq_iff_mset_eq_distinct)
qed

lemma extract_if_spec:
  assumes q: "queue_inv q" and e: "extract_if f q = (out, q')"
  shows "queue_inv q' \<and> mset out = mset (filter (\<lambda>(k, v). f k v) (queue_list q)) \<and>
    queue_list q' = filter (\<lambda>(k, v). \<not> f k v) (queue_list q)"
proof -
  have s: "out = filter (\<lambda>(k, v). f k v) (q_keys q)" "q_keys q' = filter (\<lambda>(k, v). \<not> f k v) (q_keys q)"
    "q_order q' = filter (\<lambda>k. k \<notin> fst ` set out) (q_order q)"
    using extract_loop_spec [of f "q_keys q" "q\<lparr>q_keys := []\<rparr>" out q'] e q
    by (auto simp: extract_if_def queue_inv_def)
  have f: "k \<in> fst ` set out \<longleftrightarrow> f k (the (map_of (q_keys q) k))" if "k \<in> set (q_order q)" for k
  proof -
    obtain v where v: "map_of (q_keys q) k = Some v"
      using queue_keys_iff [OF q, of k] \<open>k \<in> set (q_order q)\<close> by auto
    moreover have "distinct (map fst (q_keys q))" using q by (simp add: queue_inv_def)
    ultimately have "(k, w) \<in> set (q_keys q) \<longleftrightarrow> w = v" for w
      using map_of_eq_Some_iff [of "q_keys q" k w] by auto
    then show ?thesis using v by (auto simp: s(1) image_iff)
  qed
  then have o: "q_order q' = filter (\<lambda>k. \<not> f k (the (map_of (q_keys q) k))) (q_order q)"
    unfolding s(3) by (intro filter_cong) auto
  have m: "map_of (q_keys q') k = map_of (q_keys q) k"
    if "k \<in> set (q_order q)" "\<not> f k (the (map_of (q_keys q) k))" for k
  proof -
    obtain v where v: "map_of (q_keys q) k = Some v"
      using queue_keys_iff [OF q, of k] \<open>k \<in> set (q_order q)\<close> by auto
    have "distinct (map fst (q_keys q'))"
      using q by (auto simp: s(2) queue_inv_def intro: distinct_map_filter)
    moreover have "(k, v) \<in> set (q_keys q')" using that(2) v map_of_SomeD [OF v] by (simp add: s(2))
    ultimately show ?thesis using v by simp
  qed
  have l: "queue_list q' = filter (\<lambda>(k, v). \<not> f k v) (queue_list q)"
    using queue_list_filter [of q "\<lambda>k v. \<not> f k v" "q_keys q'", OF m]
    by (simp add: o queue_list_def)
  moreover have "queue_inv q'"
  proof -
    have "set (q_order q') = fst ` set (queue_list q')" by simp
    also have "\<dots> = fst ` set (q_keys q')"
      using mset_eq_setD [OF mset_queue_list [OF q]] by (simp add: l s(2))
    finally show ?thesis
      using q by (simp add: queue_inv_def s(2) o distinct_map_filter)
  qed
  ultimately show ?thesis
    using mset_queue_list [OF q] by (simp add: s(1))
qed

section \<open>First in, first out\<close>

text \<open>
  C17: on a queue in a consistent state, each operation is the operation on the list of its entries
  in the order of their arrival: pushing appends exactly when the key is new and reports it, popping
  and peeking take the first, lookup and removal go by key, and extraction takes out the entries
  that satisfy the test and keeps the others in order. Every operation keeps the state consistent.
\<close>

theorem queue_refines_list:
  assumes "queue_inv q"
  shows "(\<forall>fresh q'. queue_push k v q = (fresh, q') \<longrightarrow> queue_inv q' \<and>
      (fresh \<longleftrightarrow> k \<notin> fst ` set (queue_list q)) \<and>
      queue_list q' = (if fresh then queue_list q @ [(k, v)] else queue_list q)) \<and>
    (\<forall>m q'. queue_pop q = (m, q') \<longrightarrow> queue_inv q' \<and>
      (case queue_list q of [] \<Rightarrow> m = None \<and> queue_list q' = []
       | e # es \<Rightarrow> m = Some e \<and> queue_list q' = es)) \<and>
    (\<forall>m q'. queue_remove_entry k q = (m, q') \<longrightarrow> queue_inv q' \<and>
      m = map_option (\<lambda>v. (k, v)) (map_of (queue_list q) k) \<and>
      queue_list q' = filter (\<lambda>e. fst e \<noteq> k) (queue_list q)) \<and>
    queue_get k q = map_of (queue_list q) k \<and>
    queue_has k q = (k \<in> fst ` set (queue_list q)) \<and>
    queue_peek q = (case queue_list q of [] \<Rightarrow> None | e # _ \<Rightarrow> Some (snd e)) \<and>
    queue_len q = length (queue_list q) \<and>
    (\<forall>f out q'. extract_if f q = (out, q') \<longrightarrow> queue_inv q' \<and>
      mset out = mset (filter (\<lambda>(k, v). f k v) (queue_list q)) \<and>
      queue_list q' = filter (\<lambda>(k, v). \<not> f k v) (queue_list q))"
proof (intro conjI)
  show "queue_peek q = (case queue_list q of [] \<Rightarrow> None | e # _ \<Rightarrow> Some (snd e))"
  proof (cases "q_order q")
    case (Cons k' ks)
    then obtain w where "map_of (q_keys q) k' = Some w"
      using queue_keys_iff [OF assms, of k'] by auto
    with Cons show ?thesis by (simp add: queue_peek_def queue_list_def)
  qed (simp add: queue_peek_def queue_list_def)
  show "queue_has k q = (k \<in> fst ` set (queue_list q))"
    using queue_keys_iff [OF assms, of k] by (simp add: queue_has_def)
qed ((intro allI impI)?, (rule queue.push_law queue.pop_law queue_remove_spec(2) queue.look_law
      extract_if_spec, (assumption | rule assms)+ | simp add: queue_len_def queue_list_def))+

theorem queue_refines_list_witness:
  "queue_list (snd (extract_if (\<lambda>k v. v) \<lparr>q_keys = [(1 :: nat, True), (2, False)], q_order = [2, 1]\<rparr>)) =
     [(2, False)]"
  using queue_refines_list [of "\<lparr>q_keys = [(1 :: nat, True), (2, False)], q_order = [2, 1]\<rparr>"]
  by (auto simp: queue_inv_def queue_list_def extract_if_def remove_order_internal_def)

end
