(* ===== verification/Mempool_State.thy ===== *)
theory Mempool_State
  imports State_Storage Queue
begin

text \<open>
  The state on which a transaction is verified before it enters the mempool
  (\<open>core/state/mempool_state.rs\<close> of the daemon) with the parts of the mempool it reads
  (\<open>core/mempool.rs\<close>). The maps of the sources are association lists without repeated keys.
\<close>

section \<open>The mempool\<close>

record ('s, 'r, 'o) sorted_tx =
  srt_tx :: "('s, 'r, 'o) transaction"
  srt_first_seen :: u64
  srt_size :: nat

record 'p account_cache =
  ac_min :: nonce
  ac_max :: nonce
  ac_txs :: "hash list"
  ac_balances :: "(hash \<times> 'p ciphertext) list"
  ac_multisig :: "multisig_payload option"

record ('p, 's, 'r, 'o) mempool =
  mp_txs :: "(hash \<times> ('s, 'r, 'o) sorted_tx) list"
  mp_caches :: "(compressed_public_key \<times> 'p account_cache) list"

definition get_cache_for :: "('p, 's, 'r, 'o) mempool \<Rightarrow> compressed_public_key \<Rightarrow> 'p account_cache option" where
  "get_cache_for M key = map_of (mp_caches M) key"

definition get_next_nonce :: "'p account_cache \<Rightarrow> nonce" where
  "get_next_nonce c = ac_max c + 1"

section \<open>The state\<close>

record 'p mempool_account =
  ma_nonce :: nonce
  ma_assets :: "(hash \<times> 'p ciphertext) list"
  ma_multisig :: "multisig_payload option"

text \<open>The parts that do not change are the record \<open>mempool_env\<close>.\<close>

record ('p, 's, 'r, 'o, 't, 'env) mempool_env =
  me_curve :: "('p, 's) curve"
  me_libs :: "('p, 's, 'r, 'o, 't) libs"
  me_mempool :: "('p, 's, 'r, 'o) mempool"
  me_storage :: "('p, 'o) tx_storage"
  me_environment :: 'env
  me_topoheight :: topoheight
  me_block_version :: block_version

record ('p, 'o) mempool_state =
  ms_receiver_balances :: "(compressed_public_key \<times> (hash \<times> 'p ciphertext) list) list"
  ms_accounts :: "(compressed_public_key \<times> 'p mempool_account) list"
  ms_contracts :: "(hash \<times> 'o contract_module) list"

definition mempool_state_new :: "('p, 'o) mempool_state" where
  "mempool_state_new = \<lparr>ms_receiver_balances = [], ms_accounts = [], ms_contracts = []\<rparr>"

definition get_sender_cache ::
  "compressed_public_key \<Rightarrow> ('p, 'o) mempool_state \<Rightarrow>
   ((hash \<times> 'p ciphertext) list \<times> multisig_payload option) option \<times> ('p, 'o) mempool_state" where
  "get_sender_cache key st = (case map_of (ms_accounts st) key of
     None \<Rightarrow> (None, st)
   | Some a \<Rightarrow> (Some (ma_assets a, ma_multisig a), st\<lparr>ms_accounts := map_remove key (ms_accounts st)\<rparr>))"

text \<open>The entry of a map in a map, with the inner map created when it is missing.\<close>

definition inner_map :: "('k \<times> ('a \<times> 'b) list) list \<Rightarrow> 'k \<Rightarrow> ('a \<times> 'b) list" where
  "inner_map m k = (case map_of m k of None \<Rightarrow> [] | Some i \<Rightarrow> i)"

definition take_ciphertext ::
  "('p, 's) curve \<Rightarrow> 'p ciphertext_cache \<Rightarrow> blockchain_error + 'p ciphertext" where
  "take_ciphertext cv c = map_err DecompressionFailed (cache_take_ciphertext cv c)"

definition mempool_get_receiver_balance ::
  "('p, 's, 'r, 'o, 't, 'env) mempool_env \<Rightarrow> compressed_public_key \<Rightarrow> hash \<Rightarrow>
   (('p, 'o) mempool_state, blockchain_error, 'p ciphertext) action" where
  "mempool_get_receiver_balance E key asset st =
     (let inner = inner_map (ms_receiver_balances st) key;
          st = st\<lparr>ms_receiver_balances := index_map_insert key inner (ms_receiver_balances st)\<rparr> in
      case map_of inner asset of
        Some ct \<Rightarrow> (Inr ct, st)
      | None \<Rightarrow> (case st_get_new_versioned_balance (me_storage E) key asset (me_topoheight E) of
            Inl e \<Rightarrow> (Inl e, st)
          | Inr (v, _) \<Rightarrow> (case take_ciphertext (me_curve E) (final_balance v) of
                Inl e \<Rightarrow> (Inl e, st)
              | Inr ct \<Rightarrow> (Inr ct, st\<lparr>ms_receiver_balances :=
                  index_map_insert key (index_map_insert asset ct inner) (ms_receiver_balances st)\<rparr>))))"

definition mempool_put_receiver_balance ::
  "compressed_public_key \<Rightarrow> hash \<Rightarrow> 'p ciphertext \<Rightarrow> ('p, 'o) mempool_state \<Rightarrow> ('p, 'o) mempool_state" where
  "mempool_put_receiver_balance key asset ct st = st\<lparr>ms_receiver_balances :=
     index_map_insert key (index_map_insert asset ct (inner_map (ms_receiver_balances st) key))
       (ms_receiver_balances st)\<rparr>"

definition get_versioned_balance_for_reference ::
  "('p, 's, 'r, 'o, 't, 'env) mempool_env \<Rightarrow> compressed_public_key \<Rightarrow> hash \<Rightarrow> reference \<Rightarrow>
   blockchain_error + 'p ciphertext" where
  "get_versioned_balance_for_reference E key asset ref =
     result_bind (search_versioned_balance_for_reference (me_storage E) key asset (me_topoheight E) ref False)
       (\<lambda>(use_output, _, v). take_ciphertext (me_curve E) (take_balance_with use_output v))"

definition storage_multisig ::
  "('p, 's, 'r, 'o, 't, 'env) mempool_env \<Rightarrow> compressed_public_key \<Rightarrow> blockchain_error + multisig_payload option" where
  "storage_multisig E key =
     result_bind (st_get_multisig_at_maximum_topoheight_for (me_storage E) key (me_topoheight E)) (\<lambda>m.
       Inr (case m of None \<Rightarrow> None | Some (_, p) \<Rightarrow> p))"

definition mempool_create_sender_account ::
  "('p, 's, 'r, 'o, 't, 'env) mempool_env \<Rightarrow> compressed_public_key \<Rightarrow> blockchain_error + 'p mempool_account" where
  "mempool_create_sender_account E key =
     result_bind (case get_cache_for (me_mempool E) key of
         Some cache \<Rightarrow> result_bind (case ac_multisig cache of Some m \<Rightarrow> Inr (Some m) | None \<Rightarrow> storage_multisig E key)
           (\<lambda>m. Inr (get_next_nonce cache, m))
       | None \<Rightarrow> result_bind (st_get_nonce_at_maximum_topoheight (me_storage E) key (me_topoheight E)) (\<lambda>n.
           result_bind (storage_multisig E key) (\<lambda>m.
           Inr ((case n of None \<Rightarrow> 0 | Some (_, v) \<Rightarrow> vn_nonce v), m))))
       (\<lambda>(n, m). Inr \<lparr>ma_nonce = n, ma_assets = [], ma_multisig = m\<rparr>)"

definition put_account ::
  "compressed_public_key \<Rightarrow> 'p mempool_account \<Rightarrow> ('p, 'o) mempool_state \<Rightarrow> ('p, 'o) mempool_state" where
  "put_account key a st = st\<lparr>ms_accounts := index_map_insert key a (ms_accounts st)\<rparr>"

definition mempool_get_sender_balance ::
  "('p, 's, 'r, 'o, 't, 'env) mempool_env \<Rightarrow> compressed_public_key \<Rightarrow> hash \<Rightarrow> reference \<Rightarrow>
   (('p, 'o) mempool_state, blockchain_error, 'p ciphertext) action" where
  "mempool_get_sender_balance E key asset ref st = (case map_of (ms_accounts st) key of
     Some a \<Rightarrow> (case map_of (ma_assets a) asset of
         Some ct \<Rightarrow> (Inr ct, st)
       | None \<Rightarrow> (case (case get_cache_for (me_mempool E) key of
             Some cache \<Rightarrow> (case map_of (ac_balances cache) asset of
                 Some ct \<Rightarrow> Inr ct | None \<Rightarrow> get_versioned_balance_for_reference E key asset ref)
           | None \<Rightarrow> get_versioned_balance_for_reference E key asset ref) of
             Inl e \<Rightarrow> (Inl e, st)
           | Inr ct \<Rightarrow> (Inr ct, put_account key (a\<lparr>ma_assets := index_map_insert asset ct (ma_assets a)\<rparr>) st)))
   | None \<Rightarrow> (case mempool_create_sender_account E key of
         Inl e \<Rightarrow> (Inl e, st)
       | Inr a \<Rightarrow> (let st = put_account key a st in
           case st_get_new_versioned_balance (me_storage E) key asset (me_topoheight E) of
             Inl e \<Rightarrow> (Inl e, st)
           | Inr (v, fresh) \<Rightarrow>
               if fresh then (Inl NoPreviousBalanceFound, st) else
               (case take_ciphertext (me_curve E) (final_balance v) of
                  Inl e \<Rightarrow> (Inl e, st)
                | Inr ct \<Rightarrow> (Inr ct, put_account key (a\<lparr>ma_assets := index_map_insert asset ct (ma_assets a)\<rparr>) st)))))"

definition mempool_put_sender_balance ::
  "compressed_public_key \<Rightarrow> hash \<Rightarrow> 'p ciphertext \<Rightarrow> ('p, 'o) mempool_state \<Rightarrow> ('p, 'o) mempool_state" where
  "mempool_put_sender_balance key asset ct st = (case map_of (ms_accounts st) key of
     None \<Rightarrow> st
   | Some a \<Rightarrow> put_account key (a\<lparr>ma_assets := index_map_insert asset ct (ma_assets a)\<rparr>) st)"

definition mempool_get_account_nonce ::
  "('p, 's, 'r, 'o, 't, 'env) mempool_env \<Rightarrow> compressed_public_key \<Rightarrow>
   (('p, 'o) mempool_state, blockchain_error, nonce) action" where
  "mempool_get_account_nonce E key st = (case map_of (ms_accounts st) key of
     Some a \<Rightarrow> (Inr (ma_nonce a), st)
   | None \<Rightarrow> (case mempool_create_sender_account E key of
         Inl e \<Rightarrow> (Inl e, st)
       | Inr a \<Rightarrow> (Inr (ma_nonce a), put_account key a st)))"

definition mempool_update_account_nonce ::
  "compressed_public_key \<Rightarrow> nonce \<Rightarrow> (('p, 'o) mempool_state, blockchain_error, unit) action" where
  "mempool_update_account_nonce key n st = (case map_of (ms_accounts st) key of
     None \<Rightarrow> (Inl (AccountNotFound key), st)
   | Some a \<Rightarrow> (Inr (), put_account key (a\<lparr>ma_nonce := n\<rparr>) st))"

definition mempool_set_multisig_state ::
  "compressed_public_key \<Rightarrow> multisig_payload \<Rightarrow> (('p, 'o) mempool_state, blockchain_error, unit) action" where
  "mempool_set_multisig_state key p st = (case map_of (ms_accounts st) key of
     None \<Rightarrow> (Inl (AccountNotFound key), st)
   | Some a \<Rightarrow> (Inr (), put_account key (a\<lparr>ma_multisig := (if is_delete p then None else Some p)\<rparr>) st))"

definition mempool_get_multisig_state ::
  "compressed_public_key \<Rightarrow> (('p, 'o) mempool_state, blockchain_error, multisig_payload option) action" where
  "mempool_get_multisig_state key st = (case map_of (ms_accounts st) key of
     None \<Rightarrow> (Inl (AccountNotFound key), st)
   | Some a \<Rightarrow> (Inr (ma_multisig a), st))"

definition mempool_set_contract_module ::
  "hash \<Rightarrow> 'o contract_module \<Rightarrow> (('p, 'o) mempool_state, blockchain_error, unit) action" where
  "mempool_set_contract_module h m st =
     (let st' = st\<lparr>ms_contracts := index_map_insert h m (ms_contracts st)\<rparr> in
      if map_of (ms_contracts st) h \<noteq> None then (Inl ContractAlreadyExists, st') else (Inr (), st'))"

definition mempool_load_contract_module ::
  "('p, 's, 'r, 'o, 't, 'env) mempool_env \<Rightarrow> hash \<Rightarrow> (('p, 'o) mempool_state, blockchain_error, bool) action" where
  "mempool_load_contract_module E h st = (case map_of (ms_contracts st) h of
     Some _ \<Rightarrow> (Inr True, st)
   | None \<Rightarrow> (case st_get_contract_at_maximum_topoheight_for (me_storage E) h (me_topoheight E) of
         Inl e \<Rightarrow> (Inl e, st)
       | Inr (Some (_, Some m)) \<Rightarrow> (Inr True, st\<lparr>ms_contracts := index_map_insert h m (ms_contracts st)\<rparr>)
       | Inr _ \<Rightarrow> (Inl (ContractNotFoundError h), st)))"

definition mempool_get_contract_module ::
  "('p, 's, 'r, 'o, 't, 'env) mempool_env \<Rightarrow> hash \<Rightarrow>
   (('p, 'o) mempool_state, blockchain_error, 'o contract_module \<times> 'env) action" where
  "mempool_get_contract_module E h st = (case map_of (ms_contracts st) h of
     None \<Rightarrow> (Inl (ContractNotFoundError h), st)
   | Some m \<Rightarrow> (Inr (m, me_environment E), st))"

text \<open>The implementation of the trait \<open>BlockchainVerificationState\<close>.\<close>

definition mempool_verification ::
  "('p, 's, 'r, 'o, 't, 'env) mempool_env \<Rightarrow>
   (('p, 'o) mempool_state, blockchain_error, 'p, 's, 'r, 'o, 'env) verification_state" where
  "mempool_verification E = \<lparr>
     vs_pre_verify_tx = (\<lambda>tx. alift (pre_verify_tx (me_libs E) (me_storage E) tx (me_topoheight E) (me_block_version E))),
     vs_get_receiver_balance = mempool_get_receiver_balance E,
     vs_put_receiver_balance = mempool_put_receiver_balance,
     vs_get_sender_balance = mempool_get_sender_balance E,
     vs_put_sender_balance = mempool_put_sender_balance,
     vs_add_sender_output = (\<lambda>_ _ _. areturn ()),
     vs_get_account_nonce = mempool_get_account_nonce E,
     vs_update_account_nonce = mempool_update_account_nonce,
     vs_set_multisig_state = mempool_set_multisig_state,
     vs_get_multisig_state = mempool_get_multisig_state,
     vs_get_environment = areturn (me_environment E),
     vs_set_contract_module = mempool_set_contract_module,
     vs_load_contract_module = mempool_load_contract_module E,
     vs_get_contract_module_with_environment = mempool_get_contract_module E\<rparr>"

section \<open>It satisfies the contract\<close>

definition mempool_nonce_of :: "('p, 'o) mempool_state \<Rightarrow> compressed_public_key \<Rightarrow> nonce option" where
  "mempool_nonce_of st key = map_option ma_nonce (map_of (ms_accounts st) key)"

definition mempool_sender_of ::
  "('p, 'o) mempool_state \<Rightarrow> compressed_public_key \<Rightarrow> hash \<Rightarrow> 'p ciphertext option" where
  "mempool_sender_of st key asset =
     (case map_of (ms_accounts st) key of None \<Rightarrow> None | Some a \<Rightarrow> map_of (ma_assets a) asset)"

lemma put_account_simps [simp]:
  "mempool_nonce_of (put_account k a st) k' = (if k' = k then Some (ma_nonce a) else mempool_nonce_of st k')"
  "mempool_sender_of (put_account k a st) k' asset =
     (if k' = k then map_of (ma_assets a) asset else mempool_sender_of st k' asset)"
  by (simp_all add: mempool_nonce_of_def mempool_sender_of_def put_account_def map_of_index_map_insert)

lemma mempool_of_account:
  "map_of (ms_accounts st) k = Some a \<Longrightarrow> mempool_nonce_of st k = Some (ma_nonce a)"
  "map_of (ms_accounts st) k = Some a \<Longrightarrow> mempool_sender_of st k = map_of (ma_assets a)"
  "map_of (ms_accounts st) k = None \<Longrightarrow> mempool_nonce_of st k = None"
  "map_of (ms_accounts st) k = None \<Longrightarrow> mempool_sender_of st k asset = None"
  by (simp_all add: mempool_nonce_of_def mempool_sender_of_def fun_eq_iff)

text \<open>What is loaded on the first access: the nonce, and the balance of an account that is in the state.\<close>

definition mempool_first_nonce ::
  "('p, 's, 'r, 'o, 't, 'env) mempool_env \<Rightarrow> compressed_public_key \<Rightarrow> blockchain_error + nonce" where
  "mempool_first_nonce E key = result_bind (mempool_create_sender_account E key) (\<lambda>a. Inr (ma_nonce a))"

definition mempool_first_balance ::
  "('p, 's, 'r, 'o, 't, 'env) mempool_env \<Rightarrow> compressed_public_key \<Rightarrow> hash \<Rightarrow> reference \<Rightarrow>
   blockchain_error + 'p ciphertext" where
  "mempool_first_balance E key asset ref =
     (case Option.bind (get_cache_for (me_mempool E) key) (\<lambda>cache. map_of (ac_balances cache) asset) of
        Some ct \<Rightarrow> Inr ct
      | None \<Rightarrow> get_versioned_balance_for_reference E key asset ref)"

abbreviation mempool_keeping ::
  "('p, 's, 'r, 'o, 't, 'env) mempool_env \<Rightarrow> (('p, 'o) mempool_state, 'e, 'x) action \<Rightarrow> bool" where
  "mempool_keeping E \<equiv> keeping (\<lambda>_. True) mempool_nonce_of (mempool_first_nonce E) mempool_sender_of"

lemma keeping_accounts:
  "(\<And>st x st'. m st = (Inr x, st') \<Longrightarrow> ms_accounts st' = ms_accounts st) \<Longrightarrow> mempool_keeping E m"
  by (simp add: keeping_def nonces_kept_def mempool_nonce_of_def mempool_sender_of_def fun_eq_iff)

lemma mempool_keeps:
  "mempool_keeping E (mempool_get_receiver_balance E k a)"
  "mempool_keeping E (aupdate (mempool_put_receiver_balance k a ct) :: (_, 'e, unit) action)"
  "mempool_keeping E (mempool_get_multisig_state k)"
  "mempool_keeping E (mempool_set_contract_module h m)"
  "mempool_keeping E (mempool_load_contract_module E h)"
  "mempool_keeping E (mempool_get_contract_module E h)"
  by (auto intro!: keeping_accounts simp: mempool_get_receiver_balance_def mempool_put_receiver_balance_def
      mempool_get_multisig_state_def mempool_set_contract_module_def mempool_load_contract_module_def
      mempool_get_contract_module_def Let_def split: option.splits sum.splits if_splits)

lemma mempool_set_multisig_keeps: "mempool_keeping E (mempool_set_multisig_state k p)"
  by (auto simp: keeping_def mempool_set_multisig_state_def nonces_kept_def mempool_of_account fun_eq_iff
      split: option.splits if_splits)

lemma created_account: "mempool_create_sender_account E k = Inr a \<Longrightarrow> ma_assets a = []"
  by (auto simp: mempool_create_sender_account_def result_simps)

lemma mempool_get_sender_law:
  assumes "mempool_get_sender_balance E k a r st = (Inr ct, st')"
  shows "nonces_kept mempool_nonce_of (mempool_first_nonce E) st st' \<and>
    (\<forall>k' a'. mempool_sender_of st' k' a' = (if k' = k \<and> a' = a then Some ct else mempool_sender_of st k' a')) \<and>
    (case mempool_sender_of st k a of Some b \<Rightarrow> ct = b
     | None \<Rightarrow> mempool_nonce_of st k \<noteq> None \<longrightarrow> mempool_first_balance E k a r = Inr ct)"
proof (cases "map_of (ms_accounts st) k")
  case None
  with assms show ?thesis
    by (auto simp: mempool_get_sender_balance_def nonces_kept_def mempool_of_account Let_def map_of_index_map_insert
        mempool_first_nonce_def dest: created_account split: sum.splits if_splits prod.splits)
next
  case (Some ac)
  with assms show ?thesis
    by (auto simp: mempool_get_sender_balance_def nonces_kept_def mempool_of_account map_of_index_map_insert
        mempool_first_balance_def split: option.splits sum.splits if_splits)
qed

interpretation mempool_accounts: account_state "mempool_verification E" "\<lambda>_. True"
  mempool_nonce_of "mempool_first_nonce E" "mempool_first_balance E" mempool_sender_of
  for E :: "('p, 's, 'r, 'o, 't, 'env) mempool_env"
proof (unfold_locales, goal_cases)
  case (11 st k n st')
  then show ?case
    by (cases "map_of (ms_accounts st) k")
       (auto simp: mempool_verification_def mempool_get_account_nonce_def nonces_kept_def mempool_of_account
         mempool_first_nonce_def fun_eq_iff dest: created_account split: sum.splits if_splits)
next
  case (12 st k n u st')
  then show ?case
    by (cases "map_of (ms_accounts st) k")
       (auto simp: mempool_verification_def mempool_update_account_nonce_def mempool_of_account fun_eq_iff)
next
  case (13 st k a r ct st')
  then show ?case using mempool_get_sender_law [of E k a r st ct st'] by (simp add: mempool_verification_def)
next
  case (14 st k a ct ct')
  then show ?case
    by (cases "map_of (ms_accounts st) k")
       (auto simp: mempool_verification_def mempool_put_sender_balance_def mempool_of_account map_of_index_map_insert
         fun_eq_iff)
qed (simp_all add: mempool_verification_def mempool_keeps mempool_set_multisig_keeps)

end
