(* ===== verification/Asset.thy ===== *)
theory Asset
  imports Account
begin

text \<open>
  Assets (\<open>xelis_common/src/asset.rs\<close>): the data registered with an asset and its serializer. What is
  written is read back, but the announced size leaves out the ticker and the owner.
\<close>

record asset_owner =
  ao_contract :: hash
  ao_id :: u64

definition write_asset_owner :: "asset_owner \<Rightarrow> u8 list" where
  "write_asset_owner x = write_hash (ao_contract x) @ write_u64 (ao_id x)"

definition read_asset_owner :: "asset_owner parser" where
  "read_asset_owner = rbind read_hash (\<lambda>c. rbind read_u64 (\<lambda>i. rreturn \<lparr>ao_contract = c, ao_id = i\<rparr>))"

definition size_asset_owner :: "asset_owner \<Rightarrow> nat" where
  "size_asset_owner x = size_hash (ao_contract x) + size_u64 (ao_id x)"

record asset_data =
  ad_decimals :: u8
  ad_name :: rust_string
  ad_ticker :: rust_string
  ad_max_supply :: "u64 option"
  ad_owner :: "asset_owner option"

definition write_asset_data :: "asset_data \<Rightarrow> u8 list" where
  "write_asset_data x = write_u8 (ad_decimals x) @ write_string (ad_name x) @ write_string (ad_ticker x) @
     write_option write_u64 (ad_max_supply x) @ write_option write_asset_owner (ad_owner x)"

definition read_asset_data :: "asset_data parser" where
  "read_asset_data = rbind read_u8 (\<lambda>d. rbind read_string (\<lambda>n. rbind read_string (\<lambda>t.
     rbind (read_option read_u64) (\<lambda>m. rbind (read_option read_asset_owner) (\<lambda>own.
     rreturn \<lparr>ad_decimals = d, ad_name = n, ad_ticker = t, ad_max_supply = m, ad_owner = own\<rparr>)))))"

definition size_asset_data :: "asset_data \<Rightarrow> nat" where
  "size_asset_data x = size_u8 (ad_decimals x) + size_string (ad_name x) + size_option size_u64 (ad_max_supply x)"

definition asset_owner_ok :: "asset_owner \<Rightarrow> bool" where
  "asset_owner_ok x \<longleftrightarrow> hash_ok (ao_contract x)"

definition asset_data_ok :: "asset_data \<Rightarrow> bool" where
  "asset_data_ok x \<longleftrightarrow> string_ok (ad_name x) \<and> string_ok (ad_ticker x) \<and> pred_option asset_owner_ok (ad_owner x)"

interpretation asset_owner_codec:
  canonical_codec write_asset_owner read_asset_owner size_asset_owner asset_owner_ok
  by unfold_locales
     (auto simp: read_asset_owner_def write_asset_owner_def size_asset_owner_def asset_owner_ok_def
        hash_codec.read_write hash_codec.read_at_iff hash_codec.size_write result_simps)

interpretation asset_owner_option: canonical_codec "write_option write_asset_owner"
  "read_option read_asset_owner" "size_option size_asset_owner" "pred_option asset_owner_ok"
  by (rule asset_owner_codec.option_canonical)

text \<open>With the size that the bytes have, the serializer meets the contract.\<close>

interpretation asset_data_codec: canonical_codec write_asset_data read_asset_data
  "\<lambda>x. size_asset_data x + size_string (ad_ticker x) + size_option size_asset_owner (ad_owner x)" asset_data_ok
  by unfold_locales
     (auto simp: read_asset_data_def write_asset_data_def size_asset_data_def asset_data_ok_def
        string_codec.read_write string_codec.read_at_iff string_codec.size_write
        asset_owner_option.read_write asset_owner_option.read_at_iff asset_owner_option.size_write size_u8_def result_simps)

end
