(* ===== verification/Chain_State.thy ===== *)
theory Chain_State
  imports Mempool_State Asset
begin

text \<open>
  The state on which the transactions of blocks are verified and executed
  (\<open>core/state/chain_state/mod.rs\<close> of the daemon). A sender has two balances: the one its proofs are
  verified against, which the reference of the transaction selects, and the one it will have. The
  record \<open>echange\<close> keeps the first together with the sum of what was spent, so that the second can be
  computed when the state is applied.
\<close>

section \<open>Sender changes\<close>

record 'p echange =
  ec_allow_output_balance :: bool
  ec_new_version :: bool
  ec_version :: "'p versioned_balance"
  ec_output_sum :: "'p ciphertext"
  ec_output_balance_used :: bool

definition echange_new :: "('p, 's) curve \<Rightarrow> bool \<Rightarrow> bool \<Rightarrow> 'p versioned_balance \<Rightarrow> 'p echange" where
  "echange_new cv allow new_version v = \<lparr>ec_allow_output_balance = allow, ec_new_version = new_version,
     ec_version = v, ec_output_sum = ciphertext_zero cv, ec_output_balance_used = False\<rparr>"

text \<open>
  \<open>get_balance\<close> returns a reference to one of the two balances of the version: the cache, with the
  flag that tells which one it is, and the change of the flags.
\<close>

definition echange_get_balance :: "'p echange \<Rightarrow> ('p ciphertext_cache \<times> bool) \<times> 'p echange" where
  "echange_get_balance e =
     (let output = ec_output_balance_used e \<or> ec_allow_output_balance e in
      case select_balance output (ec_version e) of (ct, used) \<Rightarrow>
        ((ct, used), if \<not> ec_output_balance_used e then e\<lparr>ec_output_balance_used := used\<rparr> else e))"

definition add_output_to_sum :: "('p, 's) curve \<Rightarrow> 'p ciphertext \<Rightarrow> 'p echange \<Rightarrow> 'p echange" where
  "add_output_to_sum cv out e = e\<lparr>ec_output_sum := ciphertext_add cv (ec_output_sum e) out\<rparr>"

text \<open>
  \<open>computable\<close> on the selected balance, and the write through the reference that it returns. A
  compressed cache has no such reference.
\<close>

definition echange_computable ::
  "('p, 's) curve \<Rightarrow> 'p echange \<Rightarrow> (decompression_error + 'p ciphertext) \<times> 'p echange" where
  "echange_computable cv e = (case echange_get_balance e of ((c, used), e') \<Rightarrow>
     (case cache_computable cv c of
        Inl er \<Rightarrow> (Inl er, e')
      | Inr (ct, put) \<Rightarrow> (Inr ct, e'\<lparr>ec_version := set_selected used (put ct) (ec_version e')\<rparr>)))"

fun cache_set :: "'p ciphertext \<Rightarrow> 'p ciphertext_cache \<Rightarrow> 'p ciphertext_cache" where
  "cache_set e (CacheCompressed c) = CacheCompressed c"
| "cache_set e (CacheDecompressed e0) = CacheDecompressed e"
| "cache_set e (CacheBoth c e0 dirty) = CacheBoth c e True"

definition echange_set :: "'p ciphertext \<Rightarrow> 'p echange \<Rightarrow> 'p echange" where
  "echange_set ct e = (case echange_get_balance e of ((c, used), e') \<Rightarrow>
     e'\<lparr>ec_version := set_selected used (cache_set ct c) (ec_version e')\<rparr>)"

section \<open>The state\<close>

record 'p chain_account =
  ca_nonce :: versioned_nonce
  ca_assets :: "(hash \<times> 'p echange) list"
  ca_multisig :: "(versioned_state \<times> multisig_payload option) option"

text \<open>The parts that do not change are the record \<open>chain_env\<close>.\<close>

record ('p, 's, 'r, 'o, 't, 'env) chain_env =
  ce_curve :: "('p, 's) curve"
  ce_libs :: "('p, 's, 'r, 'o, 't) libs"
  ce_storage :: "('p, 'o) tx_storage"
  ce_environment :: 'env
  ce_topoheight :: topoheight
  ce_block_version :: block_version

record ('p, 'o) chain_state =
  cs_receiver_balances :: "(compressed_public_key \<times> (hash \<times> 'p versioned_balance) list) list"
  cs_accounts :: "(compressed_public_key \<times> 'p chain_account) list"
  cs_contracts :: "(hash \<times> versioned_state \<times> 'o contract_module option) list"
  cs_gas_fee :: u64

definition chain_state_new :: "('p, 'o) chain_state" where
  "chain_state_new = \<lparr>cs_receiver_balances = [], cs_accounts = [], cs_contracts = [], cs_gas_fee = 0\<rparr>"

definition get_sender_balances ::
  "compressed_public_key \<Rightarrow> ('p, 'o, 'z) chain_state_scheme \<Rightarrow> (hash \<times> 'p versioned_balance) list option" where
  "get_sender_balances key st =
     map_option (\<lambda>a. map (\<lambda>(asset, e). (asset, ec_version e)) (ca_assets a)) (map_of (cs_accounts st) key)"

definition create_sender_echange ::
  "('p, 's, 'r, 'o, 't, 'env) chain_env \<Rightarrow> compressed_public_key \<Rightarrow> hash \<Rightarrow> reference \<Rightarrow>
   blockchain_error + 'p echange" where
  "create_sender_echange E key asset ref =
     result_bind (search_versioned_balance_for_reference (ce_storage E) key asset (ce_topoheight E) ref True)
       (\<lambda>(use_output, new_version, v). Inr (echange_new (ce_curve E) use_output new_version v))"

definition create_sender_account ::
  "('p, 's, 'r, 'o, 't, 'env) chain_env \<Rightarrow> compressed_public_key \<Rightarrow> blockchain_error + 'p chain_account" where
  "create_sender_account E key =
     result_bind (st_get_nonce_at_maximum_topoheight (ce_storage E) key (ce_topoheight E)) (\<lambda>n.
     result_bind (ok_or n (AccountNotFound key)) (\<lambda>(topo, v).
     result_bind (st_get_multisig_at_maximum_topoheight_for (ce_storage E) key (ce_topoheight E)) (\<lambda>m.
     Inr \<lparr>ca_nonce = v\<lparr>vn_previous_topoheight := Some topo\<rparr>, ca_assets = [],
       ca_multisig = (case m of Some (topo, Some p) \<Rightarrow> Some (VsFetchedAt topo, Some p) | _ \<Rightarrow> None)\<rparr>)))"

definition put_chain_account ::
  "compressed_public_key \<Rightarrow> 'p chain_account \<Rightarrow> ('p, 'o, 'z) chain_state_scheme \<Rightarrow> ('p, 'o, 'z) chain_state_scheme" where
  "put_chain_account key a st = st\<lparr>cs_accounts := index_map_insert key a (cs_accounts st)\<rparr>"

text \<open>The final balance of a version as a plain ciphertext, and the write through the reference.\<close>

definition version_computable ::
  "('p, 's) curve \<Rightarrow> 'p versioned_balance \<Rightarrow> (decompression_error + 'p ciphertext) \<times> 'p versioned_balance" where
  "version_computable cv v = (case cache_computable cv (final_balance v) of
     Inl e \<Rightarrow> (Inl e, v)
   | Inr (ct, put) \<Rightarrow> (Inr ct, v\<lparr>final_balance := put ct\<rparr>))"

definition put_receiver_version ::
  "compressed_public_key \<Rightarrow> hash \<Rightarrow> 'p versioned_balance \<Rightarrow> ('p, 'o, 'z) chain_state_scheme \<Rightarrow>
   ('p, 'o, 'z) chain_state_scheme" where
  "put_receiver_version key asset v st = st\<lparr>cs_receiver_balances :=
     index_map_insert key (index_map_insert asset v (inner_map (cs_receiver_balances st) key))
       (cs_receiver_balances st)\<rparr>"

definition chain_get_receiver_balance ::
  "('p, 's, 'r, 'o, 't, 'env) chain_env \<Rightarrow> compressed_public_key \<Rightarrow> hash \<Rightarrow>
   (('p, 'o, 'z) chain_state_scheme, blockchain_error, 'p ciphertext) action" where
  "chain_get_receiver_balance E key asset st =
     (let inner = inner_map (cs_receiver_balances st) key;
          st = st\<lparr>cs_receiver_balances := index_map_insert key inner (cs_receiver_balances st)\<rparr> in
      case (case map_of inner asset of Some v \<Rightarrow> Inr v
            | None \<Rightarrow> result_bind (st_get_new_versioned_balance (ce_storage E) key asset (ce_topoheight E))
                (\<lambda>(v, _). Inr v)) of
        Inl e \<Rightarrow> (Inl e, st)
      | Inr v \<Rightarrow> (case version_computable (ce_curve E) v of
            (r, v') \<Rightarrow> (map_err DecompressionFailed r, put_receiver_version key asset v' st)))"

definition chain_put_receiver_balance ::
  "compressed_public_key \<Rightarrow> hash \<Rightarrow> 'p ciphertext \<Rightarrow> ('p, 'o, 'z) chain_state_scheme \<Rightarrow>
   ('p, 'o, 'z) chain_state_scheme" where
  "chain_put_receiver_balance key asset ct st =
     (case map_of (inner_map (cs_receiver_balances st) key) asset of
        None \<Rightarrow> st
      | Some v \<Rightarrow> put_receiver_version key asset (v\<lparr>final_balance := cache_set ct (final_balance v)\<rparr>) st)"

definition put_echange ::
  "compressed_public_key \<Rightarrow> hash \<Rightarrow> 'p echange \<Rightarrow> 'p chain_account \<Rightarrow> ('p, 'o, 'z) chain_state_scheme \<Rightarrow>
   ('p, 'o, 'z) chain_state_scheme" where
  "put_echange key asset e a st =
     put_chain_account key (a\<lparr>ca_assets := index_map_insert asset e (ca_assets a)\<rparr>) st"

text \<open>\<open>get_sender_balance\<close>: the account and the change are created when they are missing.\<close>

definition chain_get_sender_balance ::
  "('p, 's, 'r, 'o, 't, 'env) chain_env \<Rightarrow> compressed_public_key \<Rightarrow> hash \<Rightarrow> reference \<Rightarrow>
   (('p, 'o, 'z) chain_state_scheme, blockchain_error, 'p ciphertext) action" where
  "chain_get_sender_balance E key asset ref st =
     (case (case map_of (cs_accounts st) key of
              Some a \<Rightarrow> (case map_of (ca_assets a) asset of
                  Some e \<Rightarrow> Inr (a, e)
                | None \<Rightarrow> result_bind (create_sender_echange E key asset ref) (\<lambda>e. Inr (a, e)))
            | None \<Rightarrow> result_bind (create_sender_account E key) (\<lambda>a.
                result_bind (create_sender_echange E key asset ref) (\<lambda>e. Inr (a, e)))) of
        Inl er \<Rightarrow> (Inl er, st)
      | Inr (a, e) \<Rightarrow> (case echange_computable (ce_curve E) e of
            (r, e') \<Rightarrow> (map_err DecompressionFailed r, put_echange key asset e' a st)))"

definition chain_put_sender_balance ::
  "compressed_public_key \<Rightarrow> hash \<Rightarrow> 'p ciphertext \<Rightarrow> ('p, 'o, 'z) chain_state_scheme \<Rightarrow>
   ('p, 'o, 'z) chain_state_scheme" where
  "chain_put_sender_balance key asset ct st = (case map_of (cs_accounts st) key of
     None \<Rightarrow> st
   | Some a \<Rightarrow> (case map_of (ca_assets a) asset of
       None \<Rightarrow> st
     | Some e \<Rightarrow> put_echange key asset (echange_set ct e) a st))"

definition chain_add_sender_output ::
  "('p, 's, 'r, 'o, 't, 'env) chain_env \<Rightarrow> compressed_public_key \<Rightarrow> hash \<Rightarrow> 'p ciphertext \<Rightarrow>
   (('p, 'o, 'z) chain_state_scheme, blockchain_error, unit) action" where
  "chain_add_sender_output E key asset out st =
     (case (case map_of (cs_accounts st) key of None \<Rightarrow> None
            | Some a \<Rightarrow> map_option (Pair a) (map_of (ca_assets a) asset)) of
        None \<Rightarrow> (Inl (NoTxSender key), st)
      | Some (a, e) \<Rightarrow> (Inr (), put_echange key asset (add_output_to_sum (ce_curve E) out e) a st))"

definition get_internal_account ::
  "('p, 's, 'r, 'o, 't, 'env) chain_env \<Rightarrow> compressed_public_key \<Rightarrow>
   (('p, 'o, 'z) chain_state_scheme, blockchain_error, 'p chain_account) action" where
  "get_internal_account E key st = (case map_of (cs_accounts st) key of
     Some a \<Rightarrow> (Inr a, st)
   | None \<Rightarrow> (case create_sender_account E key of
         Inl e \<Rightarrow> (Inl e, st)
       | Inr a \<Rightarrow> (Inr a, put_chain_account key a st)))"

definition chain_get_account_nonce ::
  "('p, 's, 'r, 'o, 't, 'env) chain_env \<Rightarrow> compressed_public_key \<Rightarrow>
   (('p, 'o, 'z) chain_state_scheme, blockchain_error, nonce) action" where
  "chain_get_account_nonce E key = abind (get_internal_account E key) (\<lambda>a. areturn (vn_nonce (ca_nonce a)))"

definition chain_update_account_nonce ::
  "('p, 's, 'r, 'o, 't, 'env) chain_env \<Rightarrow> compressed_public_key \<Rightarrow> nonce \<Rightarrow>
   (('p, 'o, 'z) chain_state_scheme, blockchain_error, unit) action" where
  "chain_update_account_nonce E key n = abind (get_internal_account E key) (\<lambda>a.
     aupdate (put_chain_account key (a\<lparr>ca_nonce := (ca_nonce a)\<lparr>vn_nonce := n\<rparr>\<rparr>)))"

definition chain_set_multisig_state ::
  "('p, 's, 'r, 'o, 't, 'env) chain_env \<Rightarrow> compressed_public_key \<Rightarrow> multisig_payload \<Rightarrow>
   (('p, 'o, 'z) chain_state_scheme, blockchain_error, unit) action" where
  "chain_set_multisig_state E key p = abind (get_internal_account E key) (\<lambda>a.
     (let m = (if is_delete p then None else Some p) in
      aupdate (put_chain_account key (a\<lparr>ca_multisig := Some (case ca_multisig a of
         Some (state, _) \<Rightarrow> (vs_mark_updated state, m) | None \<Rightarrow> (VsNew, m))\<rparr>))))"

definition chain_get_multisig_state ::
  "('p, 's, 'r, 'o, 't, 'env) chain_env \<Rightarrow> compressed_public_key \<Rightarrow>
   (('p, 'o, 'z) chain_state_scheme, blockchain_error, multisig_payload option) action" where
  "chain_get_multisig_state E key = abind (get_internal_account E key) (\<lambda>a.
     areturn (case ca_multisig a of None \<Rightarrow> None | Some (_, m) \<Rightarrow> m))"

definition internal_get_versioned_contract ::
  "('p, 's, 'r, 'o, 't, 'env) chain_env \<Rightarrow> hash \<Rightarrow>
   (('p, 'o, 'z) chain_state_scheme, blockchain_error, versioned_state \<times> 'o contract_module option) action" where
  "internal_get_versioned_contract E h st = (case map_of (cs_contracts st) h of
     Some c \<Rightarrow> (Inr c, st)
   | None \<Rightarrow> (case st_get_contract_at_maximum_topoheight_for (ce_storage E) h (ce_topoheight E) of
         Inl e \<Rightarrow> (Inl e, st)
       | Inr r \<Rightarrow> (let c = (case r of Some (topo, m) \<Rightarrow> (VsFetchedAt topo, m) | None \<Rightarrow> (VsNew, None)) in
           (Inr c, st\<lparr>cs_contracts := index_map_insert h c (cs_contracts st)\<rparr>))))"

definition chain_set_contract_module ::
  "('p, 's, 'r, 'o, 't, 'env) chain_env \<Rightarrow> hash \<Rightarrow> 'o contract_module \<Rightarrow>
   (('p, 'o, 'z) chain_state_scheme, blockchain_error, unit) action" where
  "chain_set_contract_module E h m = abind (internal_get_versioned_contract E h) (\<lambda>(state, _).
     if \<not> vs_is_new state then afail ContractAlreadyExists
     else aupdate (\<lambda>st. st\<lparr>cs_contracts := index_map_insert h (vs_mark_updated state, Some m) (cs_contracts st)\<rparr>))"

definition chain_load_contract_module ::
  "('p, 's, 'r, 'o, 't, 'env) chain_env \<Rightarrow> hash \<Rightarrow> (('p, 'o, 'z) chain_state_scheme, blockchain_error, bool) action" where
  "chain_load_contract_module E h =
     abind (internal_get_versioned_contract E h) (\<lambda>(_, m). areturn (m \<noteq> None))"

definition chain_get_contract_module ::
  "hash \<Rightarrow> ('p, 'o, 'z) chain_state_scheme \<Rightarrow> blockchain_error + 'o contract_module" where
  "chain_get_contract_module h st = (case map_of (cs_contracts st) h of
     Some (_, Some m) \<Rightarrow> Inr m | _ \<Rightarrow> Inl (ContractNotFoundError h))"

definition reward_miner ::
  "('p, 's, 'r, 'o, 't, 'env) chain_env \<Rightarrow> compressed_public_key \<Rightarrow> u64 \<Rightarrow>
   (('p, 'o, 'z) chain_state_scheme, blockchain_error, unit) action" where
  "reward_miner E key reward = abind (chain_get_receiver_balance E key XELIS_ASSET) (\<lambda>balance.
     aupdate (chain_put_receiver_balance key XELIS_ASSET (ciphertext_add_u64 (ce_curve E) balance reward)))"

text \<open>The implementation of the trait \<open>BlockchainVerificationState\<close>.\<close>

definition chain_verification ::
  "('p, 's, 'r, 'o, 't, 'env) chain_env \<Rightarrow>
   (('p, 'o, 'z) chain_state_scheme, blockchain_error, 'p, 's, 'r, 'o, 'env) verification_state" where
  "chain_verification E = \<lparr>
     vs_pre_verify_tx = (\<lambda>tx. alift (pre_verify_tx (ce_libs E) (ce_storage E) tx (ce_topoheight E) (ce_block_version E))),
     vs_get_receiver_balance = chain_get_receiver_balance E,
     vs_put_receiver_balance = chain_put_receiver_balance,
     vs_get_sender_balance = chain_get_sender_balance E,
     vs_put_sender_balance = chain_put_sender_balance,
     vs_add_sender_output = chain_add_sender_output E,
     vs_get_account_nonce = chain_get_account_nonce E,
     vs_update_account_nonce = chain_update_account_nonce E,
     vs_set_multisig_state = chain_set_multisig_state E,
     vs_get_multisig_state = chain_get_multisig_state E,
     vs_get_environment = areturn (ce_environment E),
     vs_set_contract_module = chain_set_contract_module E,
     vs_load_contract_module = chain_load_contract_module E,
     vs_get_contract_module_with_environment =
       (\<lambda>h st. (result_bind (chain_get_contract_module h st) (\<lambda>m. Inr (m, ce_environment E)), st))\<rparr>"

section \<open>It satisfies the contract\<close>

fun live_ciphertext :: "'p ciphertext_cache \<Rightarrow> 'p ciphertext option" where
  "live_ciphertext (CacheCompressed c) = None"
| "live_ciphertext (CacheDecompressed e) = Some e"
| "live_ciphertext (CacheBoth c e dirty) = Some e"

definition echange_balance :: "'p echange \<Rightarrow> 'p ciphertext option" where
  "echange_balance e = live_ciphertext (fst (fst (echange_get_balance e)))"

definition chain_nonce_of :: "('p, 'o, 'z) chain_state_scheme \<Rightarrow> compressed_public_key \<Rightarrow> nonce option" where
  "chain_nonce_of st key = map_option (\<lambda>a. vn_nonce (ca_nonce a)) (map_of (cs_accounts st) key)"

definition chain_echange_of ::
  "('p, 'o, 'z) chain_state_scheme \<Rightarrow> compressed_public_key \<Rightarrow> hash \<Rightarrow> 'p echange option" where
  "chain_echange_of st key asset =
     (case map_of (cs_accounts st) key of None \<Rightarrow> None | Some a \<Rightarrow> map_of (ca_assets a) asset)"

definition chain_sender_of ::
  "('p, 'o, 'z) chain_state_scheme \<Rightarrow> compressed_public_key \<Rightarrow> hash \<Rightarrow> 'p ciphertext option" where
  "chain_sender_of st key asset = (case chain_echange_of st key asset of None \<Rightarrow> None | Some e \<Rightarrow> echange_balance e)"

lemma cache_computable_live:
  "cache_computable cv c = Inr (ct, put) \<Longrightarrow> live_ciphertext (put ct') = Some ct'"
  "cache_computable cv c = Inr (ct, put) \<Longrightarrow> live_ciphertext c = Some e \<Longrightarrow> ct = e"
  by (cases c; auto simp: result_simps)+

lemma cache_set_live: "live_ciphertext c = Some e \<Longrightarrow> live_ciphertext (cache_set e' c) = Some e'"
  by (cases c) auto

text \<open>The choice between the two balances of a version does not change once it is made.\<close>

lemma echange_selected:
  assumes "echange_get_balance e = ((c, used), e')"
  shows "echange_get_balance (e'\<lparr>ec_version := set_selected used c' (ec_version e')\<rparr>) =
    ((c', used), e'\<lparr>ec_version := set_selected used c' (ec_version e')\<rparr>)" "ec_version e' = ec_version e"
  using assms
  by (auto simp: echange_get_balance_def select_balance_def set_selected_def Let_def split: option.splits if_splits)

lemma echange_computable_balance:
  assumes "echange_computable cv e = (Inr ct, e')"
  shows "echange_balance e' = Some ct \<and> (\<forall>b. echange_balance e = Some b \<longrightarrow> ct = b)"
proof -
  obtain c used e1 where g: "echange_get_balance e = ((c, used), e1)" by (metis surj_pair)
  then show ?thesis
    using assms echange_selected [OF g] cache_computable_live [of "cv" c]
    by (auto simp: echange_computable_def echange_balance_def split: sum.splits prod.splits)
qed

lemma echange_set_balance:
  assumes "echange_balance e = Some ct"
  shows "echange_balance (echange_set ct' e) = Some ct'"
proof -
  obtain c used e1 where g: "echange_get_balance e = ((c, used), e1)" by (metis surj_pair)
  with assms show ?thesis
    using echange_selected [OF g] by (simp add: echange_set_def echange_balance_def cache_set_live)
qed

lemma put_chain_account_simps [simp]:
  "chain_nonce_of (put_chain_account k a st) k' = (if k' = k then Some (vn_nonce (ca_nonce a)) else chain_nonce_of st k')"
  "chain_echange_of (put_chain_account k a st) k' = (if k' = k then map_of (ca_assets a) else chain_echange_of st k')"
  by (simp_all add: chain_nonce_of_def chain_echange_of_def put_chain_account_def map_of_index_map_insert fun_eq_iff)

lemma put_echange_simps [simp]:
  "chain_nonce_of (put_echange k a e ac st) k' = (if k' = k then Some (vn_nonce (ca_nonce ac)) else chain_nonce_of st k')"
  "chain_echange_of (put_echange k a e ac st) k' =
     (if k' = k then (map_of (ca_assets ac))(a \<mapsto> e) else chain_echange_of st k')"
  by (simp_all add: put_echange_def map_of_index_map_insert fun_eq_iff)

lemma chain_of_account:
  "map_of (cs_accounts st) k = Some a \<Longrightarrow> chain_nonce_of st k = Some (vn_nonce (ca_nonce a))"
  "map_of (cs_accounts st) k = Some a \<Longrightarrow> chain_echange_of st k = map_of (ca_assets a)"
  "map_of (cs_accounts st) k = None \<Longrightarrow> chain_nonce_of st k = None"
  "map_of (cs_accounts st) k = None \<Longrightarrow> chain_echange_of st k asset = None"
  by (simp_all add: chain_nonce_of_def chain_echange_of_def fun_eq_iff)

text \<open>What is loaded on the first access, and the states in which every balance that was loaded is decompressed.\<close>

definition chain_first_nonce ::
  "('p, 's, 'r, 'o, 't, 'env) chain_env \<Rightarrow> compressed_public_key \<Rightarrow> blockchain_error + nonce" where
  "chain_first_nonce E key = result_bind (create_sender_account E key) (\<lambda>a. Inr (vn_nonce (ca_nonce a)))"

definition chain_first_balance ::
  "('p, 's, 'r, 'o, 't, 'env) chain_env \<Rightarrow> compressed_public_key \<Rightarrow> hash \<Rightarrow> reference \<Rightarrow>
   blockchain_error + 'p ciphertext" where
  "chain_first_balance E key asset ref = result_bind (create_sender_echange E key asset ref) (\<lambda>e.
     map_err DecompressionFailed (fst (echange_computable (ce_curve E) e)))"

definition chain_loaded :: "('p, 'o, 'z) chain_state_scheme \<Rightarrow> bool" where
  "chain_loaded st \<longleftrightarrow> (\<forall>k a e. chain_echange_of st k a = Some e \<longrightarrow> echange_balance e \<noteq> None)"

text \<open>A state with the same accounts, up to new ones without balances.\<close>

definition same_senders ::
  "('p, 's, 'r, 'o, 't, 'env) chain_env \<Rightarrow> ('p, 'o, 'z) chain_state_scheme \<Rightarrow> ('p, 'o, 'z) chain_state_scheme \<Rightarrow> bool" where
  "same_senders E st st' \<longleftrightarrow> chain_echange_of st' = chain_echange_of st \<and>
     nonces_kept chain_nonce_of (chain_first_nonce E) st st'"

abbreviation chain_keeping ::
  "('p, 's, 'r, 'o, 't, 'env) chain_env \<Rightarrow> (('p, 'o, 'z) chain_state_scheme, 'e, 'x) action \<Rightarrow> bool" where
  "chain_keeping E \<equiv> keeping chain_loaded chain_nonce_of (chain_first_nonce E) chain_sender_of"

lemma same_accounts_senders: "cs_accounts st' = cs_accounts st \<Longrightarrow> same_senders E st st'"
  by (simp add: same_senders_def chain_nonce_of_def chain_echange_of_def nonces_kept_def fun_eq_iff)

lemma create_sender_account_empty: "create_sender_account E k = Inr a \<Longrightarrow> ca_assets a = []"
  by (auto simp: create_sender_account_def result_simps)

lemma get_internal_account_senders:
  assumes "get_internal_account E k st = (Inr a, st')"
  shows "same_senders E st st' \<and> map_of (cs_accounts st') k = Some a \<and>
    (\<forall>k'. k' \<noteq> k \<longrightarrow> chain_nonce_of st' k' = chain_nonce_of st k')"
  using assms
  by (auto simp: get_internal_account_def same_senders_def nonces_kept_def chain_of_account fun_eq_iff
      map_of_index_map_insert put_chain_account_def chain_echange_of_def chain_nonce_of_def chain_first_nonce_def
      dest: create_sender_account_empty split: option.splits sum.splits if_splits)

lemma keeping_senders:
  assumes "\<And>st x st'. m st = (Inr x, st') \<Longrightarrow> same_senders E st st'"
  shows "chain_keeping E m"
  unfolding keeping_def
proof (intro allI impI)
  fix st x st'
  assume "chain_loaded st" "m st = (Inr x, st')"
  then show "chain_loaded st' \<and> nonces_kept chain_nonce_of (chain_first_nonce E) st st' \<and>
      chain_sender_of st' = chain_sender_of st"
    using assms [of st x st'] by (simp add: same_senders_def chain_loaded_def chain_sender_of_def fun_eq_iff)
qed

lemma same_senders_put:
  assumes "map_of (cs_accounts st) k = Some a" "ca_assets a' = ca_assets a" "vn_nonce (ca_nonce a') = vn_nonce (ca_nonce a)"
  shows "same_senders E st (put_chain_account k a' st)"
  using assms by (auto simp: same_senders_def nonces_kept_def chain_of_account fun_eq_iff split: if_splits)

lemma same_senders_trans: "same_senders E st st1 \<Longrightarrow> same_senders E st1 st2 \<Longrightarrow> same_senders E st st2"
  using nonces_kept_trans by (auto simp: same_senders_def)

lemma contract_accounts:
  "internal_get_versioned_contract E h st = (r, st') \<Longrightarrow> cs_accounts st' = cs_accounts st"
  by (auto simp: internal_get_versioned_contract_def Let_def split: option.splits sum.splits)

lemma receiver_accounts:
  "chain_get_receiver_balance E k a st = (r, st') \<Longrightarrow> cs_accounts st' = cs_accounts st"
  "cs_accounts (chain_put_receiver_balance k a ct st) = cs_accounts st"
  by (auto simp: chain_get_receiver_balance_def chain_put_receiver_balance_def put_receiver_version_def Let_def
      split: option.splits sum.splits prod.splits)

lemma chain_keeps:
  "chain_keeping E (chain_get_receiver_balance E k a)"
  "chain_keeping E (aupdate (chain_put_receiver_balance k a ct) :: (_, 'e, unit) action)"
  "chain_keeping E (chain_get_multisig_state E k)"
  "chain_keeping E (chain_set_contract_module E h m)"
  "chain_keeping E (chain_load_contract_module E h)"
  by (rule keeping_senders,
      force intro: same_accounts_senders dest: contract_accounts receiver_accounts(1) get_internal_account_senders
        simp: receiver_accounts(2) chain_get_multisig_state_def chain_set_contract_module_def chain_load_contract_module_def
          result_simps split: if_splits)+

lemma chain_set_multisig_keeps: "chain_keeping E (chain_set_multisig_state E k p)"
proof (rule keeping_senders)
  fix st x st'
  assume "chain_set_multisig_state E k p st = (Inr x, st')"
  then obtain a st1 m where "get_internal_account E k st = (Inr a, st1)"
    and st': "st' = put_chain_account k (a\<lparr>ca_multisig := m\<rparr>) st1"
    by (auto simp: chain_set_multisig_state_def result_simps Let_def)
  from get_internal_account_senders [OF this(1)] have 1: "same_senders E st st1" "map_of (cs_accounts st1) k = Some a" by blast+
  from same_senders_put [OF 1(2), of "a\<lparr>ca_multisig := m\<rparr>" E] have "same_senders E st1 st'" by (simp add: st')
  with 1(1) same_senders_trans show "same_senders E st st'" by blast
qed

lemma chain_get_sender_cases:
  assumes "chain_get_sender_balance E k a r st = (Inr ct, st')"
  obtains ac e e' where "echange_computable (ce_curve E) e = (Inr ct, e')" "st' = put_echange k a e' ac st"
    "map_of (cs_accounts st) k = Some ac \<or> map_of (cs_accounts st) k = None \<and> ca_assets ac = []"
    "chain_echange_of st k a = Some e \<or> chain_echange_of st k a = None \<and> create_sender_echange E k a r = Inr e"
  using assms
  by (cases "map_of (cs_accounts st) k")
     (auto simp: chain_get_sender_balance_def result_simps chain_echange_of_def dest!: create_sender_account_empty
       split: sum.splits prod.splits option.splits)

lemma chain_get_sender_law:
  assumes "chain_get_sender_balance E k a r st = (Inr ct, st')"
  shows "extends chain_nonce_of chain_sender_of st st' \<and> chain_sender_of st' k a = Some ct"
proof -
  obtain ac e e' where e: "echange_computable (ce_curve E) e = (Inr ct, e')" "st' = put_echange k a e' ac st"
    "map_of (cs_accounts st) k = Some ac \<or> map_of (cs_accounts st) k = None \<and> ca_assets ac = []"
    "chain_echange_of st k a = Some e \<or> chain_echange_of st k a = None \<and> create_sender_echange E k a r = Inr e"
    using assms by (rule chain_get_sender_cases)
  with echange_computable_balance [OF e(1)] show ?thesis
    by (auto simp: extends_def chain_sender_of_def chain_of_account split: option.splits)
qed

lemma chain_loadedD: "chain_loaded st \<Longrightarrow> chain_echange_of st k a = Some e \<Longrightarrow> echange_balance e \<noteq> None"
  unfolding chain_loaded_def by blast

lemma chain_loaded_put:
  assumes st: "chain_loaded st" and ac: "map_of (cs_accounts st) k = Some ac \<or> ca_assets ac = []"
    and e: "echange_balance e \<noteq> None"
  shows "chain_loaded (put_echange k a e ac st)"
  unfolding chain_loaded_def
proof (intro allI impI)
  fix k' a' e'
  assume e': "chain_echange_of (put_echange k a e ac st) k' a' = Some e'"
  show "echange_balance e' \<noteq> None"
  proof (cases "k' = k \<and> a' = a")
    case False
    then have "chain_echange_of st k' a' = Some e'"
      using e' ac by (auto simp: chain_of_account split: if_splits)
    with st show ?thesis unfolding chain_loaded_def by blast
  qed (use e e' in simp)
qed

lemma chain_get_sender_loads:
  assumes get: "chain_get_sender_balance E k a r st = (Inr ct, st')" and st: "chain_loaded st"
  shows "chain_loaded st' \<and> nonces_kept chain_nonce_of (chain_first_nonce E) st st' \<and>
    (\<forall>k' a'. chain_sender_of st' k' a' = (if k' = k \<and> a' = a then Some ct else chain_sender_of st k' a')) \<and>
    (case chain_sender_of st k a of Some b \<Rightarrow> ct = b
     | None \<Rightarrow> chain_nonce_of st k \<noteq> None \<longrightarrow> chain_first_balance E k a r = Inr ct)"
proof -
  obtain ac e e' where e: "echange_computable (ce_curve E) e = (Inr ct, e')" "st' = put_echange k a e' ac st"
    and ac: "map_of (cs_accounts st) k = Some ac \<or>
      map_of (cs_accounts st) k = None \<and> ca_assets ac = [] \<and> create_sender_account E k = Inr ac"
    and ce: "chain_echange_of st k a = Some e \<or> chain_echange_of st k a = None \<and> create_sender_echange E k a r = Inr e"
    using get
    by (cases "map_of (cs_accounts st) k")
       (auto simp: chain_get_sender_balance_def result_simps chain_echange_of_def dest: create_sender_account_empty
         split: sum.splits prod.splits option.splits)
  note b = echange_computable_balance [OF e(1)]
  have s: "chain_sender_of st' k' a' = (if k' = k \<and> a' = a then Some ct else chain_sender_of st k' a')" for k' a'
    using ac b by (auto simp: e(2) chain_sender_of_def chain_of_account)
  moreover have "chain_loaded st'"
    unfolding e(2) using ac b by (intro chain_loaded_put [OF st]) auto
  moreover have "nonces_kept chain_nonce_of (chain_first_nonce E) st st'"
    using ac by (auto simp: e(2) nonces_kept_def chain_of_account chain_first_nonce_def split: if_splits)
  moreover have "case chain_sender_of st k a of Some b \<Rightarrow> ct = b
     | None \<Rightarrow> chain_nonce_of st k \<noteq> None \<longrightarrow> chain_first_balance E k a r = Inr ct"
    using ce b e(1) chain_loadedD [OF st, of k a e] by (auto simp: chain_sender_of_def chain_first_balance_def split: option.splits)
  ultimately show ?thesis by blast
qed

interpretation chain_accounts: account_state "chain_verification E" chain_loaded
  chain_nonce_of "chain_first_nonce E" "chain_first_balance E" chain_sender_of
  for E :: "('p, 's, 'r, 'o, 't, 'env) chain_env"
proof (unfold_locales, goal_cases)
  case (3 k a ct)
  have b: "echange_balance (add_output_to_sum (ce_curve E) ct e) = echange_balance e" for e :: "'p echange"
    by (simp add: add_output_to_sum_def echange_balance_def echange_get_balance_def Let_def split: prod.splits)
  have "chain_loaded st \<Longrightarrow> map_of (cs_accounts st) k = Some ac \<Longrightarrow> map_of (ca_assets ac) a = Some e \<Longrightarrow>
      chain_loaded (put_echange k a (add_output_to_sum (ce_curve E) ct e) ac st)" for st :: "('p, 'o, 'b) chain_state_scheme" and ac e
    using chain_loadedD [of st k a e] by (intro chain_loaded_put) (simp_all add: b chain_of_account)
  then show ?case
    by (auto simp: chain_verification_def keeping_def chain_add_sender_output_def nonces_kept_def chain_sender_of_def
        chain_of_account b fun_eq_iff split: option.splits prod.splits if_splits)
next
  case (11 st k n st')
  then obtain a where "get_internal_account E k st = (Inr a, st')" "n = vn_nonce (ca_nonce a)"
    by (auto simp: chain_verification_def chain_get_account_nonce_def result_simps)
  with get_internal_account_senders [OF this(1)] 11(1) show ?case
    by (auto simp: same_senders_def chain_loaded_def chain_sender_of_def chain_of_account fun_eq_iff)
next
  case (12 st k n u st')
  then obtain a st1 where "get_internal_account E k st = (Inr a, st1)"
    and st': "st' = put_chain_account k (a\<lparr>ca_nonce := (ca_nonce a)\<lparr>vn_nonce := n\<rparr>\<rparr>) st1"
    by (auto simp: chain_verification_def chain_update_account_nonce_def result_simps)
  from get_internal_account_senders [OF this(1)] have 1: "same_senders E st st1" "map_of (cs_accounts st1) k = Some a"
    "\<forall>k'. k' \<noteq> k \<longrightarrow> chain_nonce_of st1 k' = chain_nonce_of st k'" by blast+
  from chain_of_account(2) [OF 1(2)] have e: "chain_echange_of st' = chain_echange_of st1"
    by (simp add: st' fun_eq_iff)
  with 1 12(1) show ?case
    by (simp add: st' same_senders_def chain_loaded_def chain_sender_of_def fun_eq_iff)
next
  case (13 st k a r ct st')
  then show ?case using chain_get_sender_loads [of E k a r st ct st'] by (simp add: chain_verification_def)
next
  case (14 st k a ct ct')
  then obtain ac e where "map_of (cs_accounts st) k = Some ac" "map_of (ca_assets ac) a = Some e" "echange_balance e = Some ct"
    by (cases "map_of (cs_accounts st) k") (auto simp: chain_sender_of_def chain_of_account split: option.splits)
  with chain_loaded_put [OF 14(1), of k ac "echange_set ct' e" a] show ?case
    by (auto simp: chain_verification_def chain_put_sender_balance_def chain_sender_of_def chain_of_account
         echange_set_balance fun_eq_iff split: if_splits)
qed (simp_all add: chain_verification_def chain_keeps chain_set_multisig_keeps,
    auto simp: keeping_def)

end
