(* ===== verification/Chain_Apply.thy ===== *)
theory Chain_Apply
  imports Chain_State
begin

text \<open>
  The state that executes the transactions of a block and is then written to the storage
  (\<open>core/state/chain_state/apply.rs\<close> of the daemon, the caches of contracts in
  \<open>xelis_common/src/contract\<close>). It extends the state of verification, so every operation of
  \<open>Chain_State\<close> works on it.
\<close>

section \<open>What contracts change\<close>

record 'o contract_cache =
  cc_storage :: "('o value_cell \<times> versioned_state \<times> 'o value_cell option) list"
  cc_balances :: "(hash \<times> (versioned_state \<times> u64) option) list"
  cc_memory :: "('o value_cell \<times> 'o value_cell) list"
  cc_events :: "(u64 \<times> 'o value_cell list) list"

definition contract_cache_new :: "'o contract_cache" where
  "contract_cache_new = \<lparr>cc_storage = [], cc_balances = [], cc_memory = [], cc_events = []\<rparr>"

record asset_changes =
  ach_data :: "versioned_state \<times> asset_data"
  ach_supply :: "(versioned_state \<times> u64) option"

record event_tracker =
  tk_transfers :: "(compressed_public_key \<times> (hash \<times> u64) list) list"
  tk_assets_created :: "hash list"

text \<open>
  The \<open>ChainState\<close> that a contract runs on. The block, the network and the debug flag are the same for
  every call and belong to the virtual machine, a parameter; the module that is run is kept here.
\<close>

record ('s, 'o) contract_state =
  ct_module :: "'o contract_module"
  ct_contract :: hash
  ct_topoheight :: topoheight
  ct_block_hash :: hash
  ct_tx_hash :: hash
  ct_deposits :: "'s deposits"
  ct_cache :: "'o contract_cache"
  ct_outputs :: "contract_output list"
  ct_tracker :: event_tracker
  ct_global_caches :: "(hash \<times> 'o contract_cache) list"
  ct_assets :: "(hash \<times> asset_changes option) list"

record ('p, 'o) applicable_state = "('p, 'o) chain_state" +
  ap_block_hash :: hash
  ap_outputs :: "(hash \<times> contract_output list) list"
  ap_caches :: "(hash \<times> 'o contract_cache) list"
  ap_assets :: "(hash \<times> asset_changes option) list"
  ap_tracker :: event_tracker
  ap_burned_supply :: u64

definition applicable_new :: "u64 \<Rightarrow> hash \<Rightarrow> ('p, 'o) applicable_state" where
  "applicable_new burned_supply h = \<lparr>cs_receiver_balances = [], cs_accounts = [], cs_contracts = [],
     cs_gas_fee = 0, ap_block_hash = h, ap_outputs = [], ap_caches = [], ap_assets = [],
     ap_tracker = \<lparr>tk_transfers = [], tk_assets_created = []\<rparr>, ap_burned_supply = burned_supply\<rparr>"

section \<open>Execution\<close>

definition add_burned_coins :: "u64 \<Rightarrow> (('p, 'o) applicable_state, blockchain_error, unit) action" where
  "add_burned_coins n = aupdate (\<lambda>st. st\<lparr>ap_burned_supply := ap_burned_supply st + n\<rparr>)"

definition add_gas_fee :: "u64 \<Rightarrow> (('p, 'o) applicable_state, blockchain_error, unit) action" where
  "add_gas_fee n = aupdate (\<lambda>st. st\<lparr>cs_gas_fee := cs_gas_fee st + n\<rparr>)"

definition set_contract_outputs ::
  "hash \<Rightarrow> contract_output list \<Rightarrow> (('p, 'o) applicable_state, blockchain_error, unit) action" where
  "set_contract_outputs h outs = aupdate (\<lambda>st. st\<lparr>ap_outputs := index_map_insert h
     (case map_of (ap_outputs st) h of Some old \<Rightarrow> old @ outs | None \<Rightarrow> outs) (ap_outputs st)\<rparr>)"

text \<open>
  The deposits go to the balances of the contract. A balance that is in the cache already keeps its
  state: \<open>mark_updated\<close> is called on a copy. Private deposits are not added.
\<close>

fun add_deposits ::
  "('p, 's, 'r, 'o, 't, 'env) chain_env \<Rightarrow> hash \<Rightarrow> 's deposits \<Rightarrow> 'o contract_cache \<Rightarrow>
   blockchain_error + 'o contract_cache" where
  "add_deposits E contract [] cache = Inr cache"
| "add_deposits E contract ((asset, DepositPublic n) # ds) cache =
     result_bind (case map_of (cc_balances cache) asset of
         Some (Some (state, balance)) \<Rightarrow> Inr (state, balance + n)
       | Some None \<Rightarrow> Inr (VsNew, n)
       | None \<Rightarrow> result_bind (st_get_contract_balance_at_maximum_topoheight (ce_storage E) contract asset (ce_topoheight E))
           (\<lambda>r. case (case r of Some (topo, balance) \<Rightarrow> (VsFetchedAt topo, balance) | None \<Rightarrow> (VsNew, 0)) of
              (state, balance) \<Rightarrow> Inr (vs_mark_updated state, balance + n)))
       (\<lambda>b. add_deposits E contract ds
          (cache\<lparr>cc_balances := index_map_insert asset (Some b) (cc_balances cache)\<rparr>))"
| "add_deposits E contract ((asset, DepositPrivate _ _ _ _) # ds) cache = add_deposits E contract ds cache"

definition get_contract_environment_for ::
  "('p, 's, 'r, 'o, 't, 'env) chain_env \<Rightarrow> hash \<Rightarrow> 's deposits \<Rightarrow> hash \<Rightarrow>
   (('p, 'o) applicable_state, blockchain_error, ('s, 'o) contract_state) action" where
  "get_contract_environment_for E contract deposits tx_hash st =
     (result_bind (chain_get_contract_module contract st) (\<lambda>md.
      result_bind (add_deposits E contract deposits
        (case map_of (ap_caches st) contract of Some c \<Rightarrow> c | None \<Rightarrow> contract_cache_new)) (\<lambda>cache.
      Inr \<lparr>ct_module = md, ct_contract = contract, ct_topoheight = ce_topoheight E, ct_block_hash = ap_block_hash st,
        ct_tx_hash = tx_hash, ct_deposits = deposits, ct_cache = cache, ct_outputs = [],
        ct_tracker = ap_tracker st, ct_global_caches = ap_caches st, ct_assets = ap_assets st\<rparr>)), st)"

definition merge_contract_changes ::
  "hash \<Rightarrow> ('s, 'o) contract_state \<Rightarrow> (('p, 'o) applicable_state, blockchain_error, unit) action" where
  "merge_contract_changes h cs = aupdate (\<lambda>st. st\<lparr>ap_caches := index_map_insert h (ct_cache cs) (ap_caches st),
     ap_tracker := ct_tracker cs, ap_assets := ct_assets cs\<rparr>)"

definition remove_contract_module ::
  "hash \<Rightarrow> (('p, 'o) applicable_state, blockchain_error, unit) action" where
  "remove_contract_module h st = (case map_of (cs_contracts st) h of
     None \<Rightarrow> (Inl (ContractNotFoundError h), st)
   | Some (state, _) \<Rightarrow>
       (Inr (), st\<lparr>cs_contracts := index_map_insert h (vs_mark_updated state, None) (cs_contracts st)\<rparr>))"

text \<open>The implementation of the trait \<open>BlockchainApplyState\<close>.\<close>

definition chain_application ::
  "('p, 's, 'r, 'o, 't, 'env) chain_env \<Rightarrow>
   (('p, 'o) applicable_state, blockchain_error, 'p, 's, 'r, 'o, 'env, ('s, 'o) contract_state) apply_state" where
  "chain_application E = verification_state.extend (chain_verification E)
     (apply_state.fields add_burned_coins add_gas_fee set_contract_outputs (get_contract_environment_for E)
        merge_contract_changes remove_contract_module)"

section \<open>Writing to the storage\<close>

text \<open>
  The writes that \<open>apply_changes\<close> makes; \<open>prev\<close> is the topoheight of the version before. The storage is
  any state \<open>'d\<close>: \<open>rd\<close> gives what is read in it and \<open>wr\<close> performs a write, which may fail.
\<close>

datatype ('p, 'o) storage_write =
  SetLastNonce compressed_public_key topoheight versioned_nonce
| SetLastMultisig compressed_public_key topoheight "multisig_payload option" "topoheight option"
| AddAsset hash topoheight asset_data "topoheight option"
| SetLastSupply hash topoheight u64 "topoheight option"
| SetLastContractData hash "'o value_cell" topoheight "'o value_cell option" "topoheight option"
| SetLastContractBalance hash hash topoheight u64 "topoheight option"
| SetLastContract hash topoheight "'o contract_module option" "topoheight option"
| SetContractOutputs hash "contract_output list"
| SetLastBalance compressed_public_key hash topoheight "'p versioned_balance"
| SetAccountRegistration compressed_public_key topoheight
| SetBurnedSupply topoheight u64

definition version_sub ::
  "('p, 's) curve \<Rightarrow> 'p ciphertext \<Rightarrow> 'p versioned_balance \<Rightarrow> blockchain_error + 'p versioned_balance" where
  "version_sub cv out v = map_err DecompressionFailed (result_bind (cache_computable cv (final_balance v))
     (\<lambda>(ct, put). Inr (v\<lparr>final_balance := put (ciphertext_sub cv ct out)\<rparr>)))"

text \<open>The version that is stored for a sender: with what it received, or from the last version.\<close>

definition merge_echange ::
  "('p, 's, 'r, 'o, 't, 'env) chain_env \<Rightarrow> ('p, 'o) tx_storage \<Rightarrow> compressed_public_key \<Rightarrow>
   hash \<times> 'p echange \<Rightarrow> (hash \<times> 'p versioned_balance) list \<Rightarrow>
   blockchain_error + (hash \<times> 'p versioned_balance) list" where
  "merge_echange E D key ae balances = (case ae of (asset, e) \<Rightarrow>
     (let output_balance' = take_balance_with (ec_output_balance_used e) (ec_version e) in
      result_bind (case map_of balances asset of
          Some v \<Rightarrow> version_sub (ce_curve E) (ec_output_sum e)
            (v\<lparr>balance_type := BalanceBoth, output_balance := Some output_balance'\<rparr>)
        | None \<Rightarrow>
            if ec_output_balance_used e \<or> \<not> ec_new_version e then
              result_bind (st_get_new_versioned_balance D key asset (ce_topoheight E)) (\<lambda>(v, _).
              result_bind (version_sub (ce_curve E) (ec_output_sum e) v) (\<lambda>v.
              Inr (if ce_block_version E = BlockV0 then v\<lparr>balance_type := BalanceOutput\<rparr>
                   else v\<lparr>output_balance := Some output_balance', balance_type := BalanceBoth\<rparr>)))
            else Inr ((ec_version e)\<lparr>balance_type := BalanceOutput\<rparr>))
        (\<lambda>v. Inr (index_map_insert asset v balances))))"

fun merge_echanges ::
  "('p, 's, 'r, 'o, 't, 'env) chain_env \<Rightarrow> ('p, 'o) tx_storage \<Rightarrow> compressed_public_key \<Rightarrow>
   (hash \<times> 'p echange) list \<Rightarrow> (hash \<times> 'p versioned_balance) list \<Rightarrow>
   blockchain_error + (hash \<times> 'p versioned_balance) list" where
  "merge_echanges E D key [] balances = Inr balances"
| "merge_echanges E D key (ae # es) balances =
     result_bind (merge_echange E D key ae balances) (merge_echanges E D key es)"

definition when_stored :: "versioned_state \<Rightarrow> ('d, blockchain_error, unit) action \<Rightarrow> ('d, blockchain_error, unit) action" where
  "when_stored state m = (if vs_should_be_stored state then m else areturn ())"

definition apply_sender ::
  "('p, 's, 'r, 'o, 't, 'env) chain_env \<Rightarrow> ('d \<Rightarrow> ('p, 'o) tx_storage) \<Rightarrow>
   (('p, 'o) storage_write \<Rightarrow> ('d, blockchain_error, unit) action) \<Rightarrow> compressed_public_key \<times> 'p chain_account \<Rightarrow>
   (compressed_public_key \<times> (hash \<times> 'p versioned_balance) list) list \<Rightarrow>
   ('d, blockchain_error, (compressed_public_key \<times> (hash \<times> 'p versioned_balance) list) list) action" where
  "apply_sender E rd wr ka rb = (case ka of (key, a) \<Rightarrow>
     abind (wr (SetLastNonce key (ce_topoheight E) (ca_nonce a))) (\<lambda>_.
     abind (case ca_multisig a of None \<Rightarrow> areturn ()
       | Some (state, m) \<Rightarrow> when_stored state (wr (SetLastMultisig key (ce_topoheight E) m (vs_get_topoheight state)))) (\<lambda>_.
     abind (\<lambda>d. (merge_echanges E (rd d) key (ca_assets a) (inner_map rb key), d)) (\<lambda>balances.
     areturn (index_map_insert key balances rb)))))"

definition apply_asset ::
  "('p, 's, 'r, 'o, 't, 'env) chain_env \<Rightarrow> (('p, 'o) storage_write \<Rightarrow> ('d, blockchain_error, unit) action) \<Rightarrow>
   hash \<times> asset_changes option \<Rightarrow> unit \<Rightarrow> ('d, blockchain_error, unit) action" where
  "apply_asset E wr ac _ = (case ac of
     (asset, Some c) \<Rightarrow> (case ach_data c of (state, data) \<Rightarrow>
       abind (when_stored state (wr (AddAsset asset (ce_topoheight E) data (vs_get_topoheight state)))) (\<lambda>_.
       case ach_supply c of None \<Rightarrow> areturn ()
       | Some (state, supply) \<Rightarrow>
           when_stored state (wr (SetLastSupply asset (ce_topoheight E) supply (vs_get_topoheight state)))))
   | (asset, None) \<Rightarrow> areturn ())"

definition apply_contract_cache ::
  "('p, 's, 'r, 'o, 't, 'env) chain_env \<Rightarrow> (('p, 'o) storage_write \<Rightarrow> ('d, blockchain_error, unit) action) \<Rightarrow>
   hash \<times> 'o contract_cache \<Rightarrow> unit \<Rightarrow> ('d, blockchain_error, unit) action" where
  "apply_contract_cache E wr cc _ = (case cc of (contract, cache) \<Rightarrow>
     abind (afor (\<lambda>(key, state, v) _.
       when_stored state (wr (SetLastContractData contract key (ce_topoheight E) v (vs_get_topoheight state))))
       (cc_storage cache) ()) (\<lambda>_.
     afor (\<lambda>(asset, b) _. case b of None \<Rightarrow> areturn ()
       | Some (state, balance) \<Rightarrow>
           when_stored state (wr (SetLastContractBalance contract asset (ce_topoheight E) balance (vs_get_topoheight state))))
       (cc_balances cache) ()))"

text \<open>What contracts transfer to accounts, added to the balances of the receivers.\<close>

definition transfer_to ::
  "('p, 's, 'r, 'o, 't, 'env) chain_env \<Rightarrow> compressed_public_key \<Rightarrow> hash \<times> u64 \<Rightarrow>
   (('p, 'o) applicable_state, blockchain_error, unit) action" where
  "transfer_to E key an = (case an of (asset, n) \<Rightarrow> abind (chain_get_receiver_balance E key asset) (\<lambda>balance.
     aupdate (chain_put_receiver_balance key asset (ciphertext_add_u64 (ce_curve E) balance n))))"

definition apply_transfers ::
  "('p, 's, 'r, 'o, 't, 'env) chain_env \<Rightarrow> ('d \<Rightarrow> ('p, 'o) tx_storage) \<Rightarrow>
   compressed_public_key \<times> (hash \<times> u64) list \<Rightarrow> ('p, 'o) applicable_state \<Rightarrow>
   ('d, blockchain_error, ('p, 'o) applicable_state) action" where
  "apply_transfers E rd ts st d = (case ts of (key, assets) \<Rightarrow>
     (case afor (\<lambda>an _. transfer_to (E\<lparr>ce_storage := rd d\<rparr>) key an) assets () st of
        (Inl e, _) \<Rightarrow> (Inl e, d) | (Inr _, st') \<Rightarrow> (Inr st', d)))"

definition apply_account_balances ::
  "('p, 's, 'r, 'o, 't, 'env) chain_env \<Rightarrow> ('d \<Rightarrow> ('p, 'o) tx_storage) \<Rightarrow>
   (('p, 'o) storage_write \<Rightarrow> ('d, blockchain_error, unit) action) \<Rightarrow> ('p, 'o) applicable_state \<Rightarrow>
   compressed_public_key \<times> (hash \<times> 'p versioned_balance) list \<Rightarrow> unit \<Rightarrow> ('d, blockchain_error, unit) action" where
  "apply_account_balances E rd wr st kb _ = (case kb of (key, balances) \<Rightarrow>
     abind (afor (\<lambda>(asset, v) _. wr (SetLastBalance key asset (ce_topoheight E) v)) balances ()) (\<lambda>_.
     abind (if map_of (cs_accounts st) key = None then
         abind (\<lambda>d. (st_has_nonce (rd d) key, d)) (\<lambda>has.
         if has then areturn () else wr (SetLastNonce key (ce_topoheight E) \<lparr>vn_nonce = 0, vn_previous_topoheight = None\<rparr>))
       else areturn ()) (\<lambda>_.
     abind (\<lambda>d. (st_is_account_registered_for_topoheight (rd d) key (ce_topoheight E), d)) (\<lambda>registered.
     if registered then areturn () else wr (SetAccountRegistration key (ce_topoheight E))))))"

definition apply_changes ::
  "('p, 's, 'r, 'o, 't, 'env) chain_env \<Rightarrow> ('d \<Rightarrow> ('p, 'o) tx_storage) \<Rightarrow>
   (('p, 'o) storage_write \<Rightarrow> ('d, blockchain_error, unit) action) \<Rightarrow> ('p, 'o) applicable_state \<Rightarrow>
   ('d, blockchain_error, unit) action" where
  "apply_changes E rd wr st =
     abind (afor (apply_sender E rd wr) (cs_accounts st) (cs_receiver_balances st)) (\<lambda>rb.
     abind (afor (apply_asset E wr) (ap_assets st) ()) (\<lambda>_.
     abind (afor (apply_contract_cache E wr) (ap_caches st) ()) (\<lambda>_.
     abind (afor (apply_transfers E rd) (tk_transfers (ap_tracker st)) (st\<lparr>cs_receiver_balances := rb\<rparr>)) (\<lambda>st.
     abind (afor (\<lambda>(h, state, m) _. when_stored state (wr (SetLastContract h (ce_topoheight E) m (vs_get_topoheight state))))
       (cs_contracts st) ()) (\<lambda>_.
     abind (afor (\<lambda>(h, outs) _. wr (SetContractOutputs h outs)) (ap_outputs st) ()) (\<lambda>_.
     abind (afor (apply_account_balances E rd wr st) (cs_receiver_balances st) ()) (\<lambda>_.
     wr (SetBurnedSupply (ce_topoheight E) (ap_burned_supply st)))))))))"

end
