(* ===== verification/Mempool.thy ===== *)
theory Mempool
  imports Mempool_State
begin

text \<open>
  The mempool (\<open>core/mempool.rs\<close> of the daemon) and the entry of a transaction into it
  (\<open>add_tx_to_mempool_with_storage_and_hash\<close> of \<open>core/blockchain.rs\<close>). The transactions of a sender
  are a run of consecutive nonces; the invariant \<open>mempool_inv\<close> says so, and every operation the daemon
  performs keeps it. \<open>remove_tx\<close>, which the daemon does not call, keeps it at the ends of the run only.
\<close>

section \<open>Fee rates\<close>

text \<open>\<open>None\<close> is the panic on a division by zero.\<close>

definition get_fee_rate_per_kb :: "('s, 'r, 'o) sorted_tx \<Rightarrow> u64 option" where
  "get_fee_rate_per_kb t =
     (let kb = of_nat (srt_size t) div of_nat BYTES_PER_KB :: u64 in
      if kb = 0 then None else Some (tx_fee (srt_tx t) div kb))"

record fee_rates =
  fr_low :: u64
  fr_medium :: u64
  fr_high :: u64
  fr_default :: u64

definition average :: "u64 list \<Rightarrow> u64" where
  "average xs = sum_list xs div of_nat (length xs)"

definition internal_estimate_fee_rates :: "u64 list \<Rightarrow> fee_rates" where
  "internal_estimate_fee_rates rates =
     (let len = length rates;
          high_count = len * 30 div 100;
          normal_count = len * 40 div 100 in
      if len = 0 \<or> high_count = 0 \<or> normal_count = 0 then
        \<lparr>fr_low = FEE_PER_KB, fr_medium = FEE_PER_KB, fr_high = FEE_PER_KB, fr_default = FEE_PER_KB\<rparr>
      else
        (let rates = rev (sort rates) in
         \<lparr>fr_low = average (drop (high_count + normal_count) rates),
          fr_medium = average (take normal_count (drop high_count rates)),
          fr_high = average (take high_count rates), fr_default = FEE_PER_KB\<rparr>))"

definition estimate_fee_rates :: "('p, 's, 'r, 'o) mempool \<Rightarrow> fee_rates option" where
  "estimate_fee_rates M = map_option internal_estimate_fee_rates
     (those (map (\<lambda>e. get_fee_rate_per_kb (snd e)) (mp_txs M)))"

section \<open>Account caches\<close>

definition update_nonce_range :: "nonce \<Rightarrow> 'p account_cache \<Rightarrow> 'p account_cache" where
  "update_nonce_range n c =
     (let c = (if n < ac_min c then c\<lparr>ac_min := n\<rparr> else c) in
      if n > ac_max c then c\<lparr>ac_max := n\<rparr> else c)"

definition cache_update :: "nonce \<Rightarrow> hash \<Rightarrow> 'p account_cache \<Rightarrow> 'p account_cache" where
  "cache_update n h c =
     (let c = update_nonce_range n c in c\<lparr>ac_txs := snd (index_set_insert h (ac_txs c))\<rparr>)"

text \<open>The index of a nonce; \<open>None\<close> is the panic of the remainder when the range is all of \<open>u64\<close>.\<close>

definition nonce_index :: "nonce \<Rightarrow> 'p account_cache \<Rightarrow> nat option" where
  "nonce_index n c = (let range = ac_max c + 1 - ac_min c in
     if range = 0 then None else Some (unat ((n - ac_min c) mod range)))"

definition has_tx_with_same_nonce :: "nonce \<Rightarrow> 'p account_cache \<Rightarrow> hash option option" where
  "has_tx_with_same_nonce n c =
     (if n < ac_min c \<or> n > ac_max c \<or> ac_txs c = [] then Some None
      else map_option (\<lambda>i. if i < length (ac_txs c) then Some (ac_txs c ! i) else None) (nonce_index n c))"

definition swap_remove_index :: "nat \<Rightarrow> 'a list \<Rightarrow> 'a option \<times> 'a list" where
  "swap_remove_index i xs =
     (if i < length xs then (Some (xs ! i), butlast (xs[i := last xs])) else (None, xs))"

section \<open>The mempool\<close>

definition mempool_new :: "('p, 's, 'r, 'o) mempool" where
  "mempool_new = \<lparr>mp_txs = [], mp_caches = []\<rparr>"

definition contains_tx :: "hash \<Rightarrow> ('p, 's, 'r, 'o) mempool \<Rightarrow> bool" where
  "contains_tx h M \<longleftrightarrow> map_of (mp_txs M) h \<noteq> None"

definition get_sorted_tx :: "hash \<Rightarrow> ('p, 's, 'r, 'o) mempool \<Rightarrow> blockchain_error + ('s, 'r, 'o) sorted_tx" where
  "get_sorted_tx h M = ok_or (map_of (mp_txs M) h) (TxNotFound h)"

definition view_tx :: "hash \<Rightarrow> ('p, 's, 'r, 'o) mempool \<Rightarrow> blockchain_error + ('s, 'r, 'o) transaction" where
  "view_tx h M = (case map_of (mp_txs M) h of Some t \<Rightarrow> Inr (srt_tx t) | None \<Rightarrow> Inl (TxNotFound h))"

definition is_nonce_used :: "compressed_public_key \<Rightarrow> nonce \<Rightarrow> ('p, 's, 'r, 'o) mempool \<Rightarrow> bool option" where
  "is_nonce_used key n M = (case map_of (mp_caches M) key of
     Some c \<Rightarrow> if n \<ge> ac_min c \<and> n \<le> ac_max c
       then map_option (\<lambda>m. m \<noteq> None) (has_tx_with_same_nonce n c) else Some False
   | None \<Rightarrow> Some False)"

definition mempool_size :: "('p, 's, 'r, 'o) mempool \<Rightarrow> nat" where
  "mempool_size M = length (mp_txs M)"

definition mempool_clear :: "('p, 's, 'r, 'o) mempool \<Rightarrow> ('p, 's, 'r, 'o) mempool" where
  "mempool_clear M = M\<lparr>mp_txs := [], mp_caches := []\<rparr>"

definition mempool_drain ::
  "('p, 's, 'r, 'o) mempool \<Rightarrow> (hash \<times> ('s, 'r, 'o) transaction) list \<times> ('p, 's, 'r, 'o) mempool" where
  "mempool_drain M = (map (\<lambda>(h, t). (h, srt_tx t)) (mp_txs M), M\<lparr>mp_txs := [], mp_caches := []\<rparr>)"

datatype mempool_error =
  Verification "blockchain_error verification_error"
| Blockchain blockchain_error
| TxTooBig nat
| TxAlreadyInMempool hash
| TxAlreadyInBlockchain hash
| TxNonceAlreadyUsed nonce hash
| InvalidTxNonceMempoolCache nonce nonce nonce

definition env_of ::
  "('p, 's, 'r, 'o, 't, 'env) verifier \<Rightarrow> ('p, 'o) tx_storage \<Rightarrow> 'env \<Rightarrow> topoheight \<Rightarrow> block_version \<Rightarrow>
   ('p, 's, 'r, 'o) mempool \<Rightarrow> ('p, 's, 'r, 'o, 't, 'env) mempool_env" where
  "env_of V D env topo bv M = \<lparr>me_curve = v_curve V, me_libs = v_libs V, me_mempool = M, me_storage = D,
     me_environment = env, me_topoheight = topo, me_block_version = bv\<rparr>"

text \<open>
  The update of a sender's cache in \<open>add_tx\<close>, with the transactions of the mempool, from which a
  replaced one is removed. \<open>None\<close> is the panic of the index computation.
\<close>

definition add_to_cache ::
  "nonce \<Rightarrow> hash \<Rightarrow> (hash \<times> ('s, 'r, 'o) sorted_tx) list \<Rightarrow> 'p account_cache \<Rightarrow>
   ('p account_cache \<times> (hash \<times> ('s, 'r, 'o) sorted_tx) list) option" where
  "add_to_cache n h txs c =
     (if n \<ge> ac_min c \<and> n \<le> ac_max c then
        map_option (\<lambda>i. (case swap_remove_index i (snd (index_set_insert h (ac_txs c))) of (old, hs) \<Rightarrow>
          (c\<lparr>ac_txs := hs\<rparr>, case old of None \<Rightarrow> txs | Some x \<Rightarrow> map_remove x txs))) (nonce_index n c)
      else Some (cache_update n h c, txs))"

definition add_tx ::
  "('p, 's, 'r, 'o, 't, 'env) verifier \<Rightarrow> ('p, 'o) tx_storage \<Rightarrow> 'env \<Rightarrow> topoheight \<Rightarrow> block_version \<Rightarrow> u64 \<Rightarrow>
   hash \<Rightarrow> ('s, 'r, 'o) transaction \<Rightarrow> nat \<Rightarrow> ('p, 's, 'r, 'o) mempool \<Rightarrow>
   (mempool_error + ('p, 's, 'r, 'o) mempool) option" where
  "add_tx V D env topo bv now h tx sz M =
     (case verify_tx V (mempool_verification (env_of V D env topo bv M)) tx h mempool_state_new of
        (Inl e, _) \<Rightarrow> Some (Inl (Verification e))
      | (Inr _, st) \<Rightarrow>
          (case get_sender_cache (tx_source tx) st of
             (None, _) \<Rightarrow> Some (Inl (Blockchain (AccountNotFound (tx_source tx))))
           | (Some (balances, ms), _) \<Rightarrow>
               map_option (\<lambda>(c, txs). Inr (M\<lparr>
                   mp_caches := index_map_insert (tx_source tx) (c\<lparr>ac_balances := balances, ac_multisig := ms\<rparr>) (mp_caches M),
                   mp_txs := index_map_insert h \<lparr>srt_tx = tx, srt_first_seen = now, srt_size = sz\<rparr> txs\<rparr>))
                 (case map_of (mp_caches M) (tx_source tx) of
                    Some c \<Rightarrow> add_to_cache (tx_nonce tx) h (mp_txs M) c
                  | None \<Rightarrow> Some (\<lparr>ac_min = tx_nonce tx, ac_max = tx_nonce tx, ac_txs = [h],
                      ac_balances = balances, ac_multisig = ms\<rparr>, mp_txs M))))"

text \<open>\<open>executed\<close> is the storage's answer whether the transaction is in a block.\<close>

definition add_tx_to_mempool ::
  "('p, 's, 'r, 'o, 't, 'env) verifier \<Rightarrow> ('p, 'o) tx_storage \<Rightarrow> (hash \<Rightarrow> blockchain_error + bool) \<Rightarrow> 'env \<Rightarrow>
   topoheight \<Rightarrow> block_version \<Rightarrow> u64 \<Rightarrow> hash \<Rightarrow> ('s, 'r, 'o) transaction \<Rightarrow> ('p, 's, 'r, 'o) mempool \<Rightarrow>
   (mempool_error + ('p, 's, 'r, 'o) mempool) option" where
  "add_tx_to_mempool V D executed env topo bv now h tx M =
     (let sz = size_transaction (v_libs V) tx in
      if sz > MAX_TRANSACTION_SIZE then Some (Inl (TxTooBig sz))
      else if contains_tx h M then Some (Inl (TxAlreadyInMempool h))
      else (case executed h of
          Inl e \<Rightarrow> Some (Inl (Blockchain e))
        | Inr True \<Rightarrow> Some (Inl (TxAlreadyInBlockchain h))
        | Inr False \<Rightarrow>
            (case get_cache_for M (tx_source tx) of
               None \<Rightarrow> add_tx V D env topo bv now h tx sz M
             | Some c \<Rightarrow> (case has_tx_with_same_nonce (tx_nonce tx) c of
                 None \<Rightarrow> None
               | Some (Some old) \<Rightarrow> Some (Inl (TxNonceAlreadyUsed (tx_nonce tx) old))
               | Some None \<Rightarrow>
                   if \<not> (tx_nonce tx \<le> ac_max c + 1 \<and> tx_nonce tx \<ge> ac_min c)
                   then Some (Inl (InvalidTxNonceMempoolCache (tx_nonce tx) (ac_min c) (ac_max c)))
                   else add_tx V D env topo bv now h tx sz M))))"

text \<open>The bounds of a list of nonces, as the loops of \<open>remove_tx\<close> and \<open>clean_up\<close> compute them.\<close>

definition nonce_bounds :: "nonce list \<Rightarrow> (nonce \<times> nonce) option" where
  "nonce_bounds ns = fold (\<lambda>n b. Some (case b of None \<Rightarrow> (n, n)
     | Some (lo, hi) \<Rightarrow> (if lo > n then n else lo, if hi < n then n else hi))) ns None"

fun nonces_of ::
  "(hash \<times> ('s, 'r, 'o) sorted_tx) list \<Rightarrow> hash list \<Rightarrow> nonce list option" where
  "nonces_of txs [] = Some []"
| "nonces_of txs (h # hs) = (case map_of txs h of None \<Rightarrow> None
     | Some t \<Rightarrow> map_option (\<lambda>ns. tx_nonce (srt_tx t) # ns) (nonces_of txs hs))"

definition set_bounds :: "(nonce \<times> nonce) option \<Rightarrow> 'p account_cache \<Rightarrow> 'p account_cache" where
  "set_bounds b c = (case b of None \<Rightarrow> c | Some (lo, hi) \<Rightarrow> c\<lparr>ac_min := lo, ac_max := hi\<rparr>)"

text \<open>An error leaves the mempool changed: the transaction is already gone.\<close>

definition remove_tx ::
  "hash \<Rightarrow> ('p, 's, 'r, 'o) mempool \<Rightarrow> (blockchain_error + unit) \<times> ('p, 's, 'r, 'o) mempool" where
  "remove_tx h M = (case map_of (mp_txs M) h of
     None \<Rightarrow> (Inl (TxNotFound h), M)
   | Some t \<Rightarrow>
       (let key = tx_source (srt_tx t); M = M\<lparr>mp_txs := map_remove h (mp_txs M)\<rparr> in
        case map_of (mp_caches M) key of
          None \<Rightarrow> (Inr (), M)
        | Some c \<Rightarrow>
            if h \<notin> set (ac_txs c) then (Inr (), M) else
            (let c = c\<lparr>ac_txs := remove1 h (ac_txs c)\<rparr> in
             if ac_txs c = [] then (Inr (), M\<lparr>mp_caches := map_remove key (mp_caches M)\<rparr>)
             else (case nonces_of (mp_txs M) (ac_txs c) of
                 None \<Rightarrow> (Inl (TxNotFound h), M\<lparr>mp_caches := index_map_insert key c (mp_caches M)\<rparr>)
               | Some ns \<Rightarrow> (Inr (), M\<lparr>mp_caches :=
                   index_map_insert key (set_bounds (nonce_bounds ns) c) (mp_caches M)\<rparr>)))))"

section \<open>Cleaning up after a new block\<close>

text \<open>Removing hashes from the mempool, with those that were there.\<close>

fun delete_txs ::
  "hash list \<Rightarrow> (hash \<times> ('s, 'r, 'o) sorted_tx) list \<Rightarrow>
   (hash \<times> ('s, 'r, 'o) sorted_tx) list \<times> (hash \<times> ('s, 'r, 'o) sorted_tx) list" where
  "delete_txs [] txs = ([], txs)"
| "delete_txs (h # hs) txs = (case map_of txs h of
     None \<Rightarrow> delete_txs hs txs
   | Some t \<Rightarrow> (case delete_txs hs (map_remove h txs) of (del, txs') \<Rightarrow> ((h, t) # del, txs')))"

fun collect_txs ::
  "(hash \<times> ('s, 'r, 'o) sorted_tx) list \<Rightarrow> hash list \<Rightarrow> (('s, 'r, 'o) transaction \<times> hash) list option" where
  "collect_txs txs [] = Some []"
| "collect_txs txs (h # hs) = (case map_of txs h of None \<Rightarrow> None
     | Some t \<Rightarrow> map_option (\<lambda>r. (srt_tx t, h) # r) (collect_txs txs hs))"

definition still_valid :: "(hash \<times> ('s, 'r, 'o) sorted_tx) list \<Rightarrow> nonce \<Rightarrow> hash \<Rightarrow> bool" where
  "still_valid txs n h = (case map_of txs h of None \<Rightarrow> False | Some t \<Rightarrow> tx_nonce (srt_tx t) \<ge> n)"

text \<open>
  The verification of what is left of a cache: the cache with the new balances, or \<open>None\<close> when it is
  to be deleted.
\<close>

definition reverify_cache ::
  "('p, 's, 'r, 'o, 't, 'env) verifier \<Rightarrow> ('p, 's, 'r, 'o, 't, 'env) mempool_env \<Rightarrow> compressed_public_key \<Rightarrow>
   (('s, 'r, 'o) transaction \<times> hash) list \<Rightarrow> 'p account_cache \<Rightarrow> 'p account_cache option" where
  "reverify_cache V E key txs c =
     (case verify_batch V (mempool_verification E) txs mempool_state_new of
        (Inl e, _) \<Rightarrow> None
      | (Inr _, st) \<Rightarrow> (case get_sender_cache key st of
            (None, _) \<Rightarrow> Some c
          | (Some (balances, ms), _) \<Rightarrow> Some (c\<lparr>ac_balances := balances, ac_multisig := ms\<rparr>)))"

definition clean_cache ::
  "('p, 's, 'r, 'o, 't, 'env) verifier \<Rightarrow> ('p, 'o) tx_storage \<Rightarrow> 'env \<Rightarrow> topoheight \<Rightarrow> block_version \<Rightarrow>
   compressed_public_key \<times> 'p account_cache \<Rightarrow>
   ('p, 's, 'r, 'o) mempool \<times> (hash \<times> ('s, 'r, 'o) sorted_tx) list \<Rightarrow>
   ('p, 's, 'r, 'o) mempool \<times> (hash \<times> ('s, 'r, 'o) sorted_tx) list" where
  "clean_cache V D env topo bv kc acc = (case kc of (key, c) \<Rightarrow> case acc of (M, deleted) \<Rightarrow>
     (case st_get_last_nonce D key of
        Inl e \<Rightarrow> (case delete_txs (ac_txs c) (mp_txs M) of (del, txs) \<Rightarrow> (M\<lparr>mp_txs := txs\<rparr>, deleted @ del))
      | Inr (_, vn) \<Rightarrow> (let n = vn_nonce vn in
          if ac_min c > n then
            (case delete_txs (ac_txs c) (mp_txs M) of (del, txs) \<Rightarrow> (M\<lparr>mp_txs := txs\<rparr>, deleted @ del))
          else
            (let hashes = filter (\<lambda>h. \<not> still_valid (mp_txs M) n h) (ac_txs c);
                 c = c\<lparr>ac_txs := filter (still_valid (mp_txs M) n) (ac_txs c)\<rparr>;
                 c = set_bounds (case nonces_of (mp_txs M) (ac_txs c) of None \<Rightarrow> None | Some ns \<Rightarrow> nonce_bounds ns) c;
                 kept = (if ac_txs c = [] then None else
                   (case collect_txs (mp_txs M) (ac_txs c) of
                      None \<Rightarrow> None
                    | Some txs \<Rightarrow> if hashes = [] then Some c
                        else reverify_cache V (env_of V D env topo bv M) key txs c)) in
             (case delete_txs (hashes @ (case kept of None \<Rightarrow> ac_txs c | Some _ \<Rightarrow> [])) (mp_txs M) of (del, txs) \<Rightarrow>
               (M\<lparr>mp_txs := txs,
                  mp_caches := (case kept of None \<Rightarrow> mp_caches M
                    | Some c' \<Rightarrow> index_map_insert key c' (mp_caches M))\<rparr>, deleted @ del))))))"

definition clean_up ::
  "('p, 's, 'r, 'o, 't, 'env) verifier \<Rightarrow> ('p, 'o) tx_storage \<Rightarrow> 'env \<Rightarrow> topoheight \<Rightarrow> block_version \<Rightarrow>
   ('p, 's, 'r, 'o) mempool \<Rightarrow> (hash \<times> ('s, 'r, 'o) sorted_tx) list \<times> ('p, 's, 'r, 'o) mempool" where
  "clean_up V D env topo bv M =
     (case fold (clean_cache V D env topo bv) (mp_caches M) (M\<lparr>mp_caches := []\<rparr>, []) of
        (M', deleted) \<Rightarrow> (deleted, M'))"

section \<open>The invariant\<close>

text \<open>
  A cache holds a run of consecutive nonces: the transaction at index \<open>i\<close> has the nonce \<open>min + i\<close>, the
  last one the nonce \<open>max\<close>, and the next nonce does not wrap.
\<close>

definition nonce_at ::
  "(hash \<times> ('s, 'r, 'o) sorted_tx) list \<Rightarrow> compressed_public_key \<Rightarrow> hash \<Rightarrow> nat \<Rightarrow> bool" where
  "nonce_at txs key h n \<longleftrightarrow> (\<exists>t. map_of txs h = Some t \<and> tx_source (srt_tx t) = key \<and> unat (tx_nonce (srt_tx t)) = n)"

definition cache_inv ::
  "(hash \<times> ('s, 'r, 'o) sorted_tx) list \<Rightarrow> compressed_public_key \<Rightarrow> 'p account_cache \<Rightarrow> bool" where
  "cache_inv txs key c \<longleftrightarrow> ac_txs c \<noteq> [] \<and> distinct (ac_txs c) \<and>
     (\<forall>i < length (ac_txs c). nonce_at txs key (ac_txs c ! i) (unat (ac_min c) + i)) \<and>
     unat (ac_max c) + 1 = unat (ac_min c) + length (ac_txs c) \<and> unat (ac_max c) + 1 < 2 ^ 64"

definition mempool_inv :: "('p, 's, 'r, 'o) mempool \<Rightarrow> bool" where
  "mempool_inv M \<longleftrightarrow> distinct (map fst (mp_caches M)) \<and> distinct (map fst (mp_txs M)) \<and>
     (\<forall>key c. map_of (mp_caches M) key = Some c \<longrightarrow> cache_inv (mp_txs M) key c) \<and>
     (\<forall>h t. map_of (mp_txs M) h = Some t \<longrightarrow>
        (\<exists>c. map_of (mp_caches M) (tx_source (srt_tx t)) = Some c \<and> h \<in> set (ac_txs c)))"

text \<open>Under the invariant the index computation finds the transaction with a nonce.\<close>

lemma nonce_index_inv:
  assumes c: "cache_inv txs key c" and n: "ac_min c \<le> n" "n \<le> ac_max c"
  shows "nonce_index n c = Some (unat n - unat (ac_min c))" "unat n - unat (ac_min c) < length (ac_txs c)"
proof -
  have le: "unat (ac_min c) \<le> unat n" "unat n \<le> unat (ac_max c)"
    using n by (simp_all add: word_le_nat_alt)
  have max: "unat (ac_max c) + 1 = unat (ac_min c) + length (ac_txs c)" "unat (ac_max c) + 1 < 2 ^ 64"
    using c by (simp_all add: cache_inv_def)
  then show len: "unat n - unat (ac_min c) < length (ac_txs c)"
    using le by linarith
  have "unat (ac_max c + 1) = unat (ac_max c) + 1"
    using max(2) by (simp add: unat_word_ariths)
  then have range: "unat (ac_max c + 1 - ac_min c) = length (ac_txs c)"
    using max le by (subst unat_sub) (simp_all add: word_le_nat_alt)
  have "unat (n - ac_min c) = unat n - unat (ac_min c)"
    using n(1) by (simp add: unat_sub)
  then have "unat ((n - ac_min c) mod (ac_max c + 1 - ac_min c)) = unat n - unat (ac_min c)"
    using len by (simp add: unat_mod range)
  moreover have "ac_max c + 1 - ac_min c \<noteq> 0"
    using range c by (auto simp: cache_inv_def simp flip: unat_eq_0)
  ultimately show "nonce_index n c = Some (unat n - unat (ac_min c))"
    by (simp add: nonce_index_def Let_def)
qed

lemma has_tx_with_same_nonce_inv:
  assumes c: "cache_inv txs key c"
  shows "has_tx_with_same_nonce n c = Some (if ac_min c \<le> n \<and> n \<le> ac_max c
    then Some (ac_txs c ! (unat n - unat (ac_min c))) else None)"
  using nonce_index_inv [OF c, of n] c by (auto simp: has_tx_with_same_nonce_def cache_inv_def not_less)

lemma cache_hash_inv:
  "cache_inv txs key c \<Longrightarrow> h \<in> set (ac_txs c) \<Longrightarrow> \<exists>t. map_of txs h = Some t \<and> tx_source (srt_tx t) = key"
  by (auto simp: cache_inv_def in_set_conv_nth nonce_at_def)

lemma is_nonce_used_inv:
  assumes M: "mempool_inv M"
  shows "is_nonce_used key n M = Some (\<exists>h t. map_of (mp_txs M) h = Some t \<and>
    tx_source (srt_tx t) = key \<and> tx_nonce (srt_tx t) = n)"
proof (cases "map_of (mp_caches M) key")
  case None
  with M show ?thesis by (auto simp: is_nonce_used_def mempool_inv_def) fastforce
next
  case (Some c)
  then have c: "cache_inv (mp_txs M) key c" using M by (simp add: mempool_inv_def)
  have "(ac_min c \<le> n \<and> n \<le> ac_max c) \<longleftrightarrow>
      (\<exists>h t. map_of (mp_txs M) h = Some t \<and> tx_source (srt_tx t) = key \<and> tx_nonce (srt_tx t) = n)"
  proof
    assume n: "ac_min c \<le> n \<and> n \<le> ac_max c"
    note i = nonce_index_inv(2) [OF c, of n]
    from n have "unat (ac_min c) \<le> unat n" by (simp add: word_le_nat_alt)
    with c i n have "nonce_at (mp_txs M) key (ac_txs c ! (unat n - unat (ac_min c))) (unat n)"
      unfolding cache_inv_def by (metis le_add_diff_inverse)
    then show "\<exists>h t. map_of (mp_txs M) h = Some t \<and> tx_source (srt_tx t) = key \<and> tx_nonce (srt_tx t) = n"
      unfolding nonce_at_def by (metis word_unat_eq_iff)
  next
    assume "\<exists>h t. map_of (mp_txs M) h = Some t \<and> tx_source (srt_tx t) = key \<and> tx_nonce (srt_tx t) = n"
    then obtain h t where t: "map_of (mp_txs M) h = Some t" "tx_source (srt_tx t) = key" "tx_nonce (srt_tx t) = n"
      by blast
    with M Some have "h \<in> set (ac_txs c)" by (fastforce simp: mempool_inv_def)
    then obtain i where i: "i < length (ac_txs c)" "ac_txs c ! i = h" by (auto simp: in_set_conv_nth)
    with c t have "unat n = unat (ac_min c) + i" unfolding cache_inv_def nonce_at_def by fastforce
    with c i(1) show "ac_min c \<le> n \<and> n \<le> ac_max c" by (auto simp: cache_inv_def word_le_nat_alt)
  qed
  then show ?thesis
    using Some c has_tx_with_same_nonce_inv [OF c, of n] by (simp add: is_nonce_used_def)
qed

lemma same_nonce_exact:
  assumes M: "mempool_inv M" and key: "map_of (mp_caches M) key = Some c"
  shows "\<exists>m. has_tx_with_same_nonce n c = Some m \<and> (\<forall>h. m = Some h \<longleftrightarrow>
    (\<exists>t. map_of (mp_txs M) h = Some t \<and> tx_source (srt_tx t) = key \<and> tx_nonce (srt_tx t) = n))"
proof -
  have c: "cache_inv (mp_txs M) key c" using M key by (simp add: mempool_inv_def)
  let ?i = "unat n - unat (ac_min c)"
  have at: "nonce_at (mp_txs M) key (ac_txs c ! i) (unat (ac_min c) + i)" if "i < length (ac_txs c)" for i
    using c that by (simp add: cache_inv_def)
  have max: "unat (ac_max c) + 1 = unat (ac_min c) + length (ac_txs c)" using c by (simp add: cache_inv_def)
  have iff: "ac_min c \<le> n \<and> n \<le> ac_max c \<and> h = ac_txs c ! ?i \<longleftrightarrow>
      (\<exists>t. map_of (mp_txs M) h = Some t \<and> tx_source (srt_tx t) = key \<and> tx_nonce (srt_tx t) = n)" for h
  proof
    assume n: "ac_min c \<le> n \<and> n \<le> ac_max c \<and> h = ac_txs c ! ?i"
    then have "unat (ac_min c) + ?i = unat n" by (simp add: word_le_nat_alt)
    with at [of ?i] nonce_index_inv(2) [OF c, of n] n
    show "\<exists>t. map_of (mp_txs M) h = Some t \<and> tx_source (srt_tx t) = key \<and> tx_nonce (srt_tx t) = n"
      unfolding nonce_at_def by (metis word_unat_eq_iff)
  next
    assume "\<exists>t. map_of (mp_txs M) h = Some t \<and> tx_source (srt_tx t) = key \<and> tx_nonce (srt_tx t) = n"
    then obtain t where t: "map_of (mp_txs M) h = Some t" "tx_source (srt_tx t) = key" "tx_nonce (srt_tx t) = n" by blast
    then have "h \<in> set (ac_txs c)" using M key by (fastforce simp: mempool_inv_def)
    then obtain i where i: "i < length (ac_txs c)" "h = ac_txs c ! i" by (metis in_set_conv_nth)
    with at [OF i(1)] t have "unat n = unat (ac_min c) + i" by (simp add: nonce_at_def)
    with i max show "ac_min c \<le> n \<and> n \<le> ac_max c \<and> h = ac_txs c ! ?i" by (simp add: word_le_nat_alt)
  qed
  show ?thesis
    unfolding has_tx_with_same_nonce_inv [OF c] iff [symmetric] by (auto split: if_splits)
qed

section \<open>Adding a transaction\<close>

lemma verified_nonce:
  assumes ok: "verify_tx V (mempool_verification E) tx h mempool_state_new = (Inr (), st)"
  shows "\<exists>a. mempool_create_sender_account E (tx_source tx) = Inr a \<and> ma_nonce a = tx_nonce tx"
proof -
  from verify_tx_pre_verify [OF ok] pre_verify_nonce obtain st1 st2 where
    1: "vs_pre_verify_tx (mempool_verification E) tx mempool_state_new = (Inr (), st1)" and
    2: "vs_get_account_nonce (mempool_verification E) (tx_source tx) st1 = (Inr (tx_nonce tx), st2)"
    by metis
  from 1 have "st1 = mempool_state_new" by (auto simp: mempool_verification_def)
  with 2 show ?thesis
    by (auto simp: mempool_verification_def mempool_get_account_nonce_def mempool_state_new_def split: sum.splits)
qed

lemma verified_next_nonce:
  assumes "verify_tx V (mempool_verification (env_of V D env topo bv M)) tx h mempool_state_new = (Inr (), st)"
    and "map_of (mp_caches M) (tx_source tx) = Some c"
  shows "tx_nonce tx = ac_max c + 1"
  using verified_nonce [OF assms(1)] assms(2)
  by (auto simp: mempool_create_sender_account_def env_of_def get_cache_for_def get_next_nonce_def result_simps)

lemma verified_sender_cache:
  assumes "verify_tx V (mempool_verification E) tx h mempool_state_new = (Inr (), st)"
  shows "\<exists>balances ms st'. get_sender_cache (tx_source tx) st = (Some (balances, ms), st')"
proof -
  obtain r where "pre_verify V (mempool_verification E) tx h (batch_default (v_curve V)) mempool_state_new = (Inr r, st)"
    using verify_tx_pre_verify [OF assms] by blast
  from mempool_accounts.pre_verify_spec [OF TrueI this]
  have "mempool_nonce_of st (tx_source tx) \<noteq> None" by (simp add: tx_done_def)
  then show ?thesis by (auto simp: mempool_nonce_of_def get_sender_cache_def)
qed

text \<open>A new transaction extends the run of its sender.\<close>

lemma nonce_at_insert:
  "map_of txs h = None \<Longrightarrow> nonce_at txs key h' n \<Longrightarrow> nonce_at (index_map_insert h t txs) key h' n"
  by (auto simp: nonce_at_def map_of_index_map_insert)

lemma cache_inv_insert:
  "map_of txs h = None \<Longrightarrow> cache_inv txs key c \<Longrightarrow> cache_inv (index_map_insert h t txs) key c"
  by (simp add: cache_inv_def nonce_at_insert)

lemma next_nonce_bound:
  fixes n :: nonce
  assumes "n \<noteq> - 1"
  shows "unat n + 1 < 2 ^ 64"
proof -
  have "unat (- 1 :: nonce) = 2 ^ 64 - 1" by (simp add: unsigned_minus_1_eq_mask mask_eq_exp_minus_1)
  with assms have "unat n \<noteq> 2 ^ 64 - 1" by (metis word_unat_eq_iff)
  moreover have "unat n < 2 ^ 64" using unsigned_less [of n, where ?'a = nat] by simp
  ultimately show ?thesis by simp
qed

lemma cache_inv_update:
  assumes c: "cache_inv txs key c" and h: "map_of txs h = None"
    and t: "tx_source (srt_tx t) = key" "tx_nonce (srt_tx t) = ac_max c + 1" "tx_nonce (srt_tx t) \<noteq> - 1"
  shows "cache_inv (index_map_insert h t txs) key (cache_update (ac_max c + 1) h c)"
    "add_to_cache (ac_max c + 1) h txs c = Some (cache_update (ac_max c + 1) h c, txs)"
    "set (ac_txs (cache_update (ac_max c + 1) h c)) = insert h (set (ac_txs c))"
proof -
  have max: "unat (ac_max c) + 1 = unat (ac_min c) + length (ac_txs c)" "unat (ac_max c) + 1 < 2 ^ 64" "ac_txs c \<noteq> []"
    using c by (simp_all add: cache_inv_def)
  then have n: "unat (ac_max c + 1) = unat (ac_max c) + 1" by (simp add: unat_word_ariths)
  have new: "h \<notin> set (ac_txs c)" using cache_hash_inv [OF c] h by force
  have "ac_min c \<le> ac_max c + 1" "ac_max c < ac_max c + 1"
    using n max by (simp_all add: word_le_nat_alt word_less_nat_alt)
  then have u: "cache_update (ac_max c + 1) h c = c\<lparr>ac_max := ac_max c + 1, ac_txs := ac_txs c @ [h]\<rparr>"
    using new by (simp add: cache_update_def update_nonce_range_def Let_def index_set_insert_def not_less)
  have "unat (ac_max c + 1) + 1 < 2 ^ 64"
    using t(2,3) next_nonce_bound [of "ac_max c + 1"] by simp
  then show "cache_inv (index_map_insert h t txs) key (cache_update (ac_max c + 1) h c)"
    using c new t max n
    by (auto simp: u cache_inv_def nth_append nonce_at_insert [OF h] nonce_at_def map_of_index_map_insert less_Suc_eq)
  show "add_to_cache (ac_max c + 1) h txs c = Some (cache_update (ac_max c + 1) h c, txs)"
    using \<open>ac_max c < ac_max c + 1\<close> by (auto simp: add_to_cache_def)
  show "set (ac_txs (cache_update (ac_max c + 1) h c)) = insert h (set (ac_txs c))" by (simp add: u)
qed

lemma cache_inv_single:
  assumes "tx_source (srt_tx t) = key" "tx_nonce (srt_tx t) = n" "n \<noteq> - 1"
  shows "cache_inv (index_map_insert h t txs) key \<lparr>ac_min = n, ac_max = n, ac_txs = [h], ac_balances = b, ac_multisig = ms\<rparr>"
  using assms next_nonce_bound [OF assms(3)] by (simp add: cache_inv_def nonce_at_def map_of_index_map_insert)

lemma cache_inv_balances [simp]:
  "cache_inv txs key (c\<lparr>ac_balances := b, ac_multisig := ms\<rparr>) \<longleftrightarrow> cache_inv txs key c"
  by (simp add: cache_inv_def)

lemma mempool_inv_insert:
  assumes M: "mempool_inv M" and h: "map_of (mp_txs M) h = None"
    and c: "cache_inv (index_map_insert h t (mp_txs M)) (tx_source (srt_tx t)) c"
    and hs: "set (ac_txs c) = insert h (case map_of (mp_caches M) (tx_source (srt_tx t)) of None \<Rightarrow> {} | Some c' \<Rightarrow> set (ac_txs c'))"
  shows "mempool_inv (M\<lparr>mp_caches := index_map_insert (tx_source (srt_tx t)) c (mp_caches M),
    mp_txs := index_map_insert h t (mp_txs M)\<rparr>)"
  unfolding mempool_inv_def
proof (intro conjI allI impI, goal_cases)
  case (3 key c')
  show ?case
  proof (cases "key = tx_source (srt_tx t)")
    case False
    with 3 have "map_of (mp_caches M) key = Some c'" by (simp add: map_of_index_map_insert)
    with M have "cache_inv (mp_txs M) key c'" unfolding mempool_inv_def by blast
    with cache_inv_insert [OF h] show ?thesis by simp
  qed (use 3 c in \<open>simp add: map_of_index_map_insert\<close>)
next
  case (4 h' t')
  show ?case
  proof (cases "h' = h")
    case True
    with 4 hs show ?thesis by (simp add: map_of_index_map_insert)
  next
    case False
    with 4 have "map_of (mp_txs M) h' = Some t'" by (simp add: map_of_index_map_insert)
    with M obtain c' where "map_of (mp_caches M) (tx_source (srt_tx t')) = Some c'" "h' \<in> set (ac_txs c')"
      unfolding mempool_inv_def by blast
    with hs show ?thesis by (cases "tx_source (srt_tx t') = tx_source (srt_tx t)") (simp_all add: map_of_index_map_insert)
  qed
next
  case 1
  from M have "distinct (map fst (mp_caches M))" unfolding mempool_inv_def by blast
  then show ?case by (simp add: distinct_index_map_insert)
next
  case 2
  from M have "distinct (map fst (mp_txs M))" unfolding mempool_inv_def by blast
  then show ?case by (simp add: distinct_index_map_insert)
qed

text \<open>What the entry of a transaction does; no step of it panics.\<close>

definition tx_entered ::
  "('p, 's, 'r, 'o, 't, 'env) verifier \<Rightarrow> ('p, 'o) tx_storage \<Rightarrow> topoheight \<Rightarrow> hash \<Rightarrow> ('s, 'r, 'o) sorted_tx \<Rightarrow>
   ('p, 's, 'r, 'o) mempool \<Rightarrow> ('p, 's, 'r, 'o) mempool \<Rightarrow> bool" where
  "tx_entered V D topo h t M M' \<longleftrightarrow> (let tx = srt_tx t in
     tx_checked V tx \<and> map_of (mp_txs M') = (map_of (mp_txs M))(h \<mapsto> t) \<and>
     (case map_of (mp_caches M) (tx_source tx) of
        Some c \<Rightarrow> tx_nonce tx = ac_max c + 1
      | None \<Rightarrow> (\<exists>r. st_get_nonce_at_maximum_topoheight D (tx_source tx) topo = Inr r \<and>
          tx_nonce tx = (case r of None \<Rightarrow> 0 | Some (_, v) \<Rightarrow> vn_nonce v))))"

lemma action_cases:
  fixes x :: "('e + unit) \<times> 'st"
  assumes "\<nexists>st. x = (Inr (), st)"
  obtains e st where "x = (Inl e, st)"
  using assms by (metis old.unit.exhaust sum.exhaust surj_pair)

lemma verified_first_nonce:
  assumes "verify_tx V (mempool_verification (env_of V D env topo bv M)) tx h mempool_state_new = (Inr (), st)"
    and "map_of (mp_caches M) (tx_source tx) = None"
  shows "\<exists>r. st_get_nonce_at_maximum_topoheight D (tx_source tx) topo = Inr r \<and>
    tx_nonce tx = (case r of None \<Rightarrow> 0 | Some (_, v) \<Rightarrow> vn_nonce v)"
  using verified_nonce [OF assms(1)] assms(2)
  by (auto simp: mempool_create_sender_account_def env_of_def get_cache_for_def result_simps)

lemma verified_checked:
  assumes "verify_tx V (mempool_verification E) tx h mempool_state_new = (Inr (), st)"
  shows "tx_checked V tx"
  using verify_tx_pre_verify [OF assms] mempool_accounts.pre_verify_spec [OF TrueI] by blast

lemma add_tx_spec:
  assumes M: "mempool_inv M" and h: "map_of (mp_txs M) h = None" and n: "tx_nonce tx \<noteq> - 1"
  shows "\<exists>r. add_tx V D env topo bv now h tx sz M = Some r \<and>
    (\<forall>M'. r = Inr M' \<longrightarrow> mempool_inv M' \<and>
       tx_entered V D topo h \<lparr>srt_tx = tx, srt_first_seen = now, srt_size = sz\<rparr> M M')"
proof (cases "\<exists>st. verify_tx V (mempool_verification (env_of V D env topo bv M)) tx h mempool_state_new = (Inr (), st)")
  case False
  then obtain e st where "verify_tx V (mempool_verification (env_of V D env topo bv M)) tx h mempool_state_new = (Inl e, st)"
    by (rule action_cases)
  then show ?thesis by (simp add: add_tx_def)
next
  case True
  then obtain st where st: "verify_tx V (mempool_verification (env_of V D env topo bv M)) tx h mempool_state_new = (Inr (), st)" ..
  obtain bal ms st' where sc: "get_sender_cache (tx_source tx) st = (Some (bal, ms), st')"
    using verified_sender_cache [OF st] by blast
  let ?t = "\<lparr>srt_tx = tx, srt_first_seen = now, srt_size = sz\<rparr>"
  let ?M' = "\<lambda>c. M\<lparr>mp_caches := index_map_insert (tx_source tx) c (mp_caches M), mp_txs := index_map_insert h ?t (mp_txs M)\<rparr>"
  have txs: "map_of (mp_txs (?M' c)) = (map_of (mp_txs M))(h \<mapsto> ?t)" for c
    by (simp add: map_of_index_map_insert fun_eq_iff)
  show ?thesis
  proof (cases "map_of (mp_caches M) (tx_source tx)")
    case None
    let ?c = "\<lparr>ac_min = tx_nonce tx, ac_max = tx_nonce tx, ac_txs = [h], ac_balances = bal, ac_multisig = ms\<rparr>"
    have "add_tx V D env topo bv now h tx sz M = Some (Inr (?M' ?c))"
      by (simp add: add_tx_def st sc None)
    moreover have "mempool_inv (?M' ?c)"
      using mempool_inv_insert [OF M h, of ?t ?c]
        cache_inv_single [of ?t "tx_source tx" "tx_nonce tx" h "mp_txs M" bal ms] n None by simp
    moreover have "tx_entered V D topo h ?t M (?M' ?c)"
      using verified_first_nonce [OF st None] verified_checked [OF st] txs None by (simp add: tx_entered_def)
    ultimately show ?thesis by blast
  next
    case (Some c)
    note nx = verified_next_nonce [OF st Some]
    have c: "cache_inv (mp_txs M) (tx_source tx) c" using M Some unfolding mempool_inv_def by blast
    from nx n have t: "tx_source (srt_tx ?t) = tx_source tx" "tx_nonce (srt_tx ?t) = ac_max c + 1" "tx_nonce (srt_tx ?t) \<noteq> - 1"
      by simp_all
    note u = cache_inv_update [OF c h t]
    let ?c = "cache_update (ac_max c + 1) h c\<lparr>ac_balances := bal, ac_multisig := ms\<rparr>"
    have "add_tx V D env topo bv now h tx sz M = Some (Inr (?M' ?c))"
      using u(2) by (simp add: add_tx_def st sc Some nx)
    moreover have "mempool_inv (?M' ?c)"
      using mempool_inv_insert [OF M h, of ?t ?c] u(1,3) Some by simp
    moreover have "tx_entered V D topo h ?t M (?M' ?c)"
      using nx verified_checked [OF st] txs Some by (simp add: tx_entered_def)
    ultimately show ?thesis by blast
  qed
qed

lemma add_tx_to_mempool_spec:
  assumes M: "mempool_inv M" and n: "tx_nonce tx \<noteq> - 1"
  shows "\<exists>r. add_tx_to_mempool V D executed env topo bv now h tx M = Some r \<and>
    (\<forall>M'. r = Inr M' \<longrightarrow> mempool_inv M' \<and> map_of (mp_txs M) h = None \<and> executed h = Inr False \<and>
       size_transaction (v_libs V) tx \<le> MAX_TRANSACTION_SIZE \<and>
       tx_entered V D topo h \<lparr>srt_tx = tx, srt_first_seen = now, srt_size = size_transaction (v_libs V) tx\<rparr> M M')"
proof -
  have same: "\<exists>m. has_tx_with_same_nonce (tx_nonce tx) c = Some m" if "map_of (mp_caches M) (tx_source tx) = Some c" for c
    using has_tx_with_same_nonce_inv M that unfolding mempool_inv_def by blast
  show ?thesis
  proof (cases "size_transaction (v_libs V) tx > MAX_TRANSACTION_SIZE \<or> contains_tx h M \<or> executed h \<noteq> Inr False")
    case True
    then show ?thesis by (auto simp: add_tx_to_mempool_def Let_def split: sum.splits bool.splits)
  next
    case False
    then have h: "map_of (mp_txs M) h = None" by (simp add: contains_tx_def)
    from False add_tx_spec [OF M h n, of V D env topo bv now "size_transaction (v_libs V) tx"] same show ?thesis
      by (auto simp: add_tx_to_mempool_def Let_def h get_cache_for_def split: option.splits)
  qed
qed

section \<open>Cleaning up keeps the invariant\<close>

lemma mset_map_remove:
  "distinct (map fst txs) \<Longrightarrow> map_of txs h = Some t \<Longrightarrow> mset txs = add_mset (h, t) (mset (map_remove h txs))"
proof (induction txs)
  case (Cons e txs)
  obtain h' t' where e: "e = (h', t')" by (cases e)
  show ?case
  proof (cases "h' = h")
    case True
    with Cons.prems e have "map_remove h txs = txs" by (auto simp: map_remove_def intro!: filter_True)
    with True Cons.prems e show ?thesis by (simp add: map_remove_def)
  next
    case False
    with Cons e show ?thesis by (simp add: map_remove_def add_mset_commute)
  qed
qed simp

lemma delete_txs_spec:
  assumes "distinct (map fst txs)" "delete_txs hs txs = (del, txs')"
  shows "txs' = filter (\<lambda>e. fst e \<notin> set hs) txs \<and> mset txs = mset del + mset txs'"
  using assms
proof (induction hs arbitrary: txs del txs')
  case (Cons h hs)
  show ?case
  proof (cases "map_of txs h")
    case None
    then have "fst e \<noteq> h" if "e \<in> set txs" for e using that by (auto simp: map_of_eq_None_iff)
    then have "filter (\<lambda>e. fst e \<notin> set (h # hs)) txs = filter (\<lambda>e. fst e \<notin> set hs) txs"
      by (intro filter_cong) auto
    with Cons None show ?thesis by simp
  next
    case (Some t)
    obtain del1 where d: "delete_txs hs (map_remove h txs) = (del1, txs')" "del = (h, t) # del1"
      using Cons.prems(2) Some by (auto split: prod.splits)
    have "filter (\<lambda>e. fst e \<notin> set (h # hs)) txs = filter (\<lambda>e. fst e \<notin> set hs) (map_remove h txs)"
      by (auto simp: map_remove_def intro: filter_cong)
    moreover note Cons.IH [OF distinct_map_remove [OF Cons.prems(1)] d(1)]
    moreover note mset_map_remove [OF Cons.prems(1) Some]
    ultimately show ?thesis unfolding d(2) by (metis mset.simps(2) union_mset_add_mset_left)
  qed
qed simp

lemma map_of_filter_keys: "map_of (filter (\<lambda>e. fst e \<notin> H) txs) h = (if h \<in> H then None else map_of txs h)"
  by (induction txs) auto

lemma filter_eq_drop:
  assumes "\<And>i. i < length xs \<Longrightarrow> P (xs ! i) \<longleftrightarrow> k \<le> i"
  shows "filter P xs = drop k xs" "filter (\<lambda>x. \<not> P x) xs = take k xs"
proof -
  have t: "\<not> P x" if "x \<in> set (take k xs)" for x
    using that assms by (auto simp: in_set_conv_nth)
  have d: "P x" if "x \<in> set (drop k xs)" for x
    using that assms by (auto simp: in_set_conv_nth)
  from t d show "filter P xs = drop k xs"
    by (subst append_take_drop_id [of k, symmetric], subst filter_append) (simp add: filter_False)
  from t d show "filter (\<lambda>x. \<not> P x) xs = take k xs"
    by (subst append_take_drop_id [of k, symmetric], subst filter_append) (simp add: filter_False)
qed

lemma nonce_bounds_sorted: "sorted ns \<Longrightarrow> ns \<noteq> [] \<Longrightarrow> nonce_bounds ns = Some (hd ns, last ns)"
proof (induction ns rule: rev_induct)
  case (snoc n ns)
  show ?case
  proof (cases ns)
    case Nil
    then show ?thesis by (simp add: nonce_bounds_def)
  next
    case (Cons m ms)
    with snoc have "nonce_bounds ns = Some (hd ns, last ns)" by (simp add: sorted_append)
    moreover have "hd ns \<le> n" "last ns \<le> n" using snoc.prems(1) Cons by (auto simp: sorted_append)
    ultimately show ?thesis using Cons by (auto simp: nonce_bounds_def)
  qed
qed simp

lemma nonces_of_run:
  assumes "\<And>i. i < length hs \<Longrightarrow> nonce_at txs key (hs ! i) (m + i)"
  shows "\<exists>ns. nonces_of txs hs = Some ns \<and> map unat ns = [m ..< m + length hs]"
    "\<exists>r. collect_txs txs hs = Some r \<and> map snd r = hs"
  using assms
proof (induction hs arbitrary: m)
  case (Cons h hs)
  {
    case 1
    from 1 [of 0] obtain t where t: "map_of txs h = Some t" "unat (tx_nonce (srt_tx t)) = m" by (auto simp: nonce_at_def)
    have "nonce_at txs key (hs ! i) (Suc m + i)" if "i < length hs" for i using 1 [of "Suc i"] that by simp
    from Cons.IH(1) [OF this] obtain ns where "nonces_of txs hs = Some ns" "map unat ns = [Suc m ..< Suc m + length hs]" by blast
    with t show ?case by (simp add: upt_conv_Cons del: upt_Suc)
  next
    case 2
    from 2 [of 0] obtain t where t: "map_of txs h = Some t" by (auto simp: nonce_at_def)
    have "nonce_at txs key (hs ! i) (Suc m + i)" if "i < length hs" for i using 2 [of "Suc i"] that by simp
    from Cons.IH(2) [OF this] t show ?case by auto
  }
qed simp_all

text \<open>Taking transactions of one sender out of the mempool, with the cache \<open>kept\<close> for the rest of them.\<close>

lemma nonce_at_filter: "h \<notin> H \<Longrightarrow> nonce_at (filter (\<lambda>e. fst e \<notin> H) txs) key h n \<longleftrightarrow> nonce_at txs key h n"
  by (simp add: nonce_at_def map_of_filter_keys)

lemma cache_inv_filter:
  assumes "cache_inv txs key c" "set (ac_txs c) \<inter> H = {}"
  shows "cache_inv (filter (\<lambda>e. fst e \<notin> H) txs) key c"
  using assms by (auto simp: cache_inv_def nonce_at_filter disjoint_iff)

lemma mempool_inv_shrink:
  assumes M: "mempool_inv M" and c: "map_of (mp_caches M) key = Some c" and H: "H \<subseteq> set (ac_txs c)"
    and cs: "distinct (map fst cs)" "map_of cs = (map_of (mp_caches M))(key := kept)"
    and kept: "case kept of None \<Rightarrow> H = set (ac_txs c)
      | Some c' \<Rightarrow> cache_inv (mp_txs M) key c' \<and> set (ac_txs c') = set (ac_txs c) - H"
  shows "mempool_inv (M\<lparr>mp_txs := filter (\<lambda>e. fst e \<notin> H) (mp_txs M), mp_caches := cs\<rparr>)"
  unfolding mempool_inv_def
proof (intro conjI allI impI, goal_cases)
  case 2
  have "distinct (map fst (mp_txs M))" using M unfolding mempool_inv_def by blast
  then show ?case by (simp add: distinct_map_filter)
next
  case (3 key' c')
  have src: "tx_source (srt_tx t) = key" if "h \<in> H" "map_of (mp_txs M) h = Some t" for h t
  proof -
    from M c have "cache_inv (mp_txs M) key c" unfolding mempool_inv_def by blast
    from cache_hash_inv [OF this, of h] H that show ?thesis by auto
  qed
  show ?case
  proof (cases "key' = key")
    case True
    with 3 cs kept show ?thesis by (auto intro: cache_inv_filter)
  next
    case False
    with 3 cs have "map_of (mp_caches M) key' = Some c'" by simp
    with M have c': "cache_inv (mp_txs M) key' c'" unfolding mempool_inv_def by blast
    have "set (ac_txs c') \<inter> H = {}"
      using cache_hash_inv [OF c'] src False by fastforce
    with c' show ?thesis by (auto intro: cache_inv_filter)
  qed
next
  case (4 h t)
  then have t: "map_of (mp_txs M) h = Some t" "h \<notin> H" by (auto simp: map_of_filter_keys split: if_splits)
  with M obtain c' where c': "map_of (mp_caches M) (tx_source (srt_tx t)) = Some c'" "h \<in> set (ac_txs c')"
    unfolding mempool_inv_def by blast
  show ?case
  proof (cases "tx_source (srt_tx t) = key")
    case True
    with c c' t(2) kept cs(2) show ?thesis by (cases kept) auto
  next
    case False
    with c' cs(2) show ?thesis by simp
  qed
qed (simp add: cs)

text \<open>What is left of a run when the account has the nonce \<open>n\<close>.\<close>

lemma run_bounds:
  fixes lo hi :: nonce
  assumes "map unat ns = [unat lo ..< unat hi + 1]" "ns \<noteq> []"
  shows "nonce_bounds ns = Some (lo, hi)"
proof -
  have "sorted (map unat ns)" by (simp add: assms(1) del: upt_Suc)
  then have "sorted ns" unfolding sorted_map by (simp add: word_le_nat_alt [abs_def])
  moreover have "unat lo < unat hi + 1"
    using assms by (metis map_is_Nil_conv upt_eq_Nil_conv not_less)
  then have "unat (hd ns) = unat lo" "unat (last ns) = unat hi"
    using assms(2) arg_cong [OF assms(1), of hd] arg_cong [OF assms(1), of last]
    by (simp_all add: hd_map last_map hd_upt last_upt del: upt_Suc)
  ultimately show ?thesis using nonce_bounds_sorted assms(2) by (simp add: word_unat_eq_iff)
qed

lemma clean_run:
  fixes n :: nonce
  assumes c: "cache_inv txs key c" and n: "\<not> n < ac_min c"
  defines "k \<equiv> unat n - unat (ac_min c)"
  shows "filter (still_valid txs n) (ac_txs c) = drop k (ac_txs c)"
    "filter (\<lambda>h. \<not> still_valid txs n h) (ac_txs c) = take k (ac_txs c)"
    "drop k (ac_txs c) \<noteq> [] \<Longrightarrow> \<exists>ns. nonces_of txs (drop k (ac_txs c)) = Some ns \<and> nonce_bounds ns = Some (n, ac_max c)"
    "\<exists>r. collect_txs txs (drop k (ac_txs c)) = Some r \<and> map snd r = drop k (ac_txs c)"
    "drop k (ac_txs c) \<noteq> [] \<Longrightarrow> cache_inv txs key (c\<lparr>ac_txs := drop k (ac_txs c), ac_min := n, ac_max := ac_max c\<rparr>)"
proof -
  have lo: "unat n = unat (ac_min c) + k"
    using n by (simp add: k_def word_less_nat_alt)
  have at: "nonce_at txs key (ac_txs c ! i) (unat (ac_min c) + i)" if "i < length (ac_txs c)" for i
    using c that by (simp add: cache_inv_def)
  have max: "unat (ac_max c) + 1 = unat (ac_min c) + length (ac_txs c)" "unat (ac_max c) + 1 < 2 ^ 64"
    using c by (simp_all add: cache_inv_def)
  have valid: "still_valid txs n (ac_txs c ! i) \<longleftrightarrow> k \<le> i" if "i < length (ac_txs c)" for i
    using at [OF that] lo by (auto simp: nonce_at_def still_valid_def word_le_nat_alt)
  show "filter (still_valid txs n) (ac_txs c) = drop k (ac_txs c)"
    "filter (\<lambda>h. \<not> still_valid txs n h) (ac_txs c) = take k (ac_txs c)"
    using filter_eq_drop [of "ac_txs c" "still_valid txs n" k] valid by blast+
  have run: "nonce_at txs key (drop k (ac_txs c) ! i) (unat n + i)" if "i < length (drop k (ac_txs c))" for i
    using at [of "k + i"] that lo by (simp add: add.assoc)
  note r = nonces_of_run [OF run]
  show "\<exists>r. collect_txs txs (drop k (ac_txs c)) = Some r \<and> map snd r = drop k (ac_txs c)" by (rule r(2))
  assume ne: "drop k (ac_txs c) \<noteq> []"
  then have up: "unat n + length (drop k (ac_txs c)) = unat (ac_max c) + 1" using max lo by simp
  from r(1) obtain ns where ns: "nonces_of txs (drop k (ac_txs c)) = Some ns"
    "map unat ns = [unat n ..< unat (ac_max c) + 1]" unfolding up by blast
  moreover have "ns \<noteq> []" using ns(2) ne up by (metis length_map length_upt add_diff_cancel_left' length_0_conv)
  ultimately show "\<exists>ns. nonces_of txs (drop k (ac_txs c)) = Some ns \<and> nonce_bounds ns = Some (n, ac_max c)"
    using run_bounds by blast
  show "cache_inv txs key (c\<lparr>ac_txs := drop k (ac_txs c), ac_min := n, ac_max := ac_max c\<rparr>)"
    using c ne up run max(2) by (simp add: cache_inv_def)
qed

text \<open>
  One cache of the loop, with the caches that are still to come: \<open>rest\<close> are those that the loop has not
  reached and that are no longer in the mempool.
\<close>

abbreviation with_rest ::
  "(compressed_public_key \<times> 'p account_cache) list \<Rightarrow> ('p, 's, 'r, 'o) mempool \<Rightarrow> ('p, 's, 'r, 'o) mempool" where
  "with_rest rest M \<equiv> M\<lparr>mp_caches := rest @ mp_caches M\<rparr>"

definition up_to_date :: "('p, 'o) tx_storage \<Rightarrow> ('p, 's, 'r, 'o) mempool \<Rightarrow> bool" where
  "up_to_date D M \<longleftrightarrow> list_all (\<lambda>(key, c). case st_get_last_nonce D key of
     Inl _ \<Rightarrow> False | Inr (_, v) \<Rightarrow> ac_min c = vn_nonce v) (mp_caches M)"

lemma shrink_with_rest:
  assumes M: "mempool_inv (with_rest ((key, c) # rest) M)" and up: "up_to_date D M" and H: "set hs \<subseteq> set (ac_txs c)"
    and del: "delete_txs hs (mp_txs M) = (del, txs)"
    and kept: "case kept of None \<Rightarrow> set hs = set (ac_txs c)
      | Some c' \<Rightarrow> cache_inv (mp_txs M) key c' \<and> set (ac_txs c') = set (ac_txs c) - set hs \<and>
          (\<exists>topo v. st_get_last_nonce D key = Inr (topo, v) \<and> ac_min c' = vn_nonce v)"
    and M': "M' = M\<lparr>mp_txs := txs, mp_caches := (case kept of None \<Rightarrow> mp_caches M
      | Some c' \<Rightarrow> index_map_insert key c' (mp_caches M))\<rparr>"
  shows "mempool_inv (with_rest rest M') \<and> up_to_date D M' \<and> mset (mp_txs M) = mset del + mset (mp_txs M')"
proof -
  have d: "distinct (map fst (((key, c) # rest) @ mp_caches M))" "distinct (map fst (mp_txs M))"
    using M unfolding mempool_inv_def by simp_all
  have new: "key \<notin> fst ` set (mp_caches M)" using d(1) by auto
  from delete_txs_spec [OF d(2) del] have txs: "txs = filter (\<lambda>e. fst e \<notin> set hs) (mp_txs M)"
    "mset (mp_txs M) = mset del + mset txs" by blast+
  define cs where "cs = rest @ mp_caches M'"
  have ins: "index_map_insert key c' (mp_caches M) = mp_caches M @ [(key, c')]" for c'
    using new by (intro index_map_insert_new)
  have "distinct (map fst cs)"
    using d(1) by (cases kept) (auto simp: cs_def M' ins)
  moreover have "map_of cs = (map_of (mp_caches (with_rest ((key, c) # rest) M)))(key := kept)"
  proof
    fix x
    have "map_of (mp_caches M) key = None" "map_of rest key = None"
      using d(1) by (auto simp: map_of_eq_None_iff)
    then show "map_of cs x = ((map_of (mp_caches (with_rest ((key, c) # rest) M)))(key := kept)) x"
      by (cases kept; cases "x = key") (simp_all add: cs_def M' ins map_add_def split: option.split)
  qed
  ultimately have "mempool_inv (with_rest ((key, c) # rest) M
      \<lparr>mp_txs := filter (\<lambda>e. fst e \<notin> set hs) (mp_txs (with_rest ((key, c) # rest) M)), mp_caches := cs\<rparr>)"
    by (intro mempool_inv_shrink [OF M, of key c "set hs" cs kept]) (use H kept in \<open>auto split: option.splits\<close>)
  then have "mempool_inv (with_rest rest M')" by (simp add: cs_def M' txs)
  moreover have "up_to_date D M'"
    using up kept by (cases kept) (auto simp: up_to_date_def M' ins)
  ultimately show ?thesis using txs(2) by (simp add: M')
qed

lemma reverify_cache_bounds:
  assumes "reverify_cache V E key txs c = Some c'"
  shows "\<exists>b ms. c' = c\<lparr>ac_balances := b, ac_multisig := ms\<rparr>"
proof -
  have "\<exists>b ms. c = c\<lparr>ac_balances := b, ac_multisig := ms\<rparr>"
    by (intro exI [of _ "ac_balances c"] exI [of _ "ac_multisig c"]) simp
  with assms show ?thesis
    unfolding reverify_cache_def by (auto split: prod.splits sum.splits option.splits)
qed

text \<open>The hashes that one round of the loop deletes and the cache that it keeps.\<close>

lemma clean_cache_kept:
  assumes c: "cache_inv (mp_txs M) key c" and v: "st_get_last_nonce D key = Inr (t, v)" and n: "\<not> vn_nonce v < ac_min c"
  obtains hs kept where "set hs \<subseteq> set (ac_txs c)"
    "case kept of None \<Rightarrow> set hs = set (ac_txs c)
      | Some c' \<Rightarrow> cache_inv (mp_txs M) key c' \<and> set (ac_txs c') = set (ac_txs c) - set hs \<and> ac_min c' = vn_nonce v"
    "clean_cache V D env topo bv (key, c) (M, deleted) = (case delete_txs hs (mp_txs M) of (del, txs) \<Rightarrow>
       (M\<lparr>mp_txs := txs, mp_caches := (case kept of None \<Rightarrow> mp_caches M
         | Some c' \<Rightarrow> index_map_insert key c' (mp_caches M))\<rparr>, deleted @ del))"
proof -
  define k where "k = unat (vn_nonce v) - unat (ac_min c)"
  note r = clean_run [OF c n, folded k_def]
  note def = clean_cache_def v sum.case prod.case Let_def n if_False r(1,2)
  have all: "set (take k (ac_txs c)) \<union> set (drop k (ac_txs c)) = set (ac_txs c)"
    by (metis append_take_drop_id set_append)
  show thesis
  proof (cases "drop k (ac_txs c) = []")
    case True
    then show thesis
      using that [of "take k (ac_txs c)" None] all by (simp add: def set_bounds_def nonce_bounds_def)
  next
    case False
    from r(3) [OF False] obtain ns where ns: "nonces_of (mp_txs M) (drop k (ac_txs c)) = Some ns"
      "nonce_bounds ns = Some (vn_nonce v, ac_max c)" by blast
    from r(4) obtain txs where txs: "collect_txs (mp_txs M) (drop k (ac_txs c)) = Some txs" by blast
    let ?c = "c\<lparr>ac_txs := drop k (ac_txs c), ac_min := vn_nonce v, ac_max := ac_max c\<rparr>"
    define kept where "kept = (if take k (ac_txs c) = [] then Some ?c
      else reverify_cache V (env_of V D env topo bv M) key txs ?c)"
    have eq: "clean_cache V D env topo bv (key, c) (M, deleted) =
        (case delete_txs (take k (ac_txs c) @ (case kept of None \<Rightarrow> drop k (ac_txs c) | Some _ \<Rightarrow> [])) (mp_txs M) of (del, txs) \<Rightarrow>
          (M\<lparr>mp_txs := txs, mp_caches := (case kept of None \<Rightarrow> mp_caches M
            | Some c' \<Rightarrow> index_map_insert key c' (mp_caches M))\<rparr>, deleted @ del))"
      using False by (simp add: def ns txs set_bounds_def kept_def del: take_eq_Nil cong: option.case_cong)
    have "distinct (ac_txs c)" using c by (simp add: cache_inv_def)
    then have diff: "set (drop k (ac_txs c)) = set (ac_txs c) - set (take k (ac_txs c))"
      using all set_take_disj_set_drop_if_distinct [of "ac_txs c" k k] by blast
    have "cache_inv (mp_txs M) key c' \<and> set (ac_txs c') = set (ac_txs c) - set (take k (ac_txs c)) \<and> ac_min c' = vn_nonce v"
      if "kept = Some c'" for c'
      using that reverify_cache_bounds r(5) [OF False] diff unfolding kept_def by (fastforce split: if_splits)
    with all eq show thesis
      by (intro that [OF _ _ eq]) (auto split: option.splits)
  qed
qed

lemma clean_cache_spec:
  assumes M: "mempool_inv (with_rest ((key, c) # rest) M)" and up: "up_to_date D M"
    and step: "clean_cache V D env topo bv (key, c) (M, deleted) = (M', deleted')"
  shows "\<exists>del. deleted' = deleted @ del \<and> mempool_inv (with_rest rest M') \<and> up_to_date D M' \<and>
    mset (mp_txs M) = mset del + mset (mp_txs M')"
proof -
  have c: "cache_inv (mp_txs M) key c" using M unfolding mempool_inv_def by simp
  obtain hs kept del txs where hs: "set hs \<subseteq> set (ac_txs c)" "delete_txs hs (mp_txs M) = (del, txs)" "deleted' = deleted @ del"
    and kept: "case kept of None \<Rightarrow> set hs = set (ac_txs c)
      | Some c' \<Rightarrow> cache_inv (mp_txs M) key c' \<and> set (ac_txs c') = set (ac_txs c) - set hs \<and>
          (\<exists>topo v. st_get_last_nonce D key = Inr (topo, v) \<and> ac_min c' = vn_nonce v)"
    and M': "M' = M\<lparr>mp_txs := txs, mp_caches := (case kept of None \<Rightarrow> mp_caches M
      | Some c' \<Rightarrow> index_map_insert key c' (mp_caches M))\<rparr>"
  proof (cases "st_get_last_nonce D key")
    case (Inl e)
    with step show thesis
      by (intro that [of "ac_txs c" "fst (delete_txs (ac_txs c) (mp_txs M))" "snd (delete_txs (ac_txs c) (mp_txs M))" None])
         (auto simp: clean_cache_def split: prod.splits)
  next
    case (Inr tv)
    obtain t v where v: "st_get_last_nonce D key = Inr (t, v)" using Inr by (cases tv) simp
    show thesis
    proof (cases "vn_nonce v < ac_min c")
      case True
      with step v show thesis
        by (intro that [of "ac_txs c" "fst (delete_txs (ac_txs c) (mp_txs M))" "snd (delete_txs (ac_txs c) (mp_txs M))" None])
           (auto simp: clean_cache_def split: prod.splits)
    next
      case False
      obtain hs kept where k: "set hs \<subseteq> set (ac_txs c)"
        "case kept of None \<Rightarrow> set hs = set (ac_txs c)
          | Some c' \<Rightarrow> cache_inv (mp_txs M) key c' \<and> set (ac_txs c') = set (ac_txs c) - set hs \<and> ac_min c' = vn_nonce v"
        "clean_cache V D env topo bv (key, c) (M, deleted) = (case delete_txs hs (mp_txs M) of (del, txs) \<Rightarrow>
           (M\<lparr>mp_txs := txs, mp_caches := (case kept of None \<Rightarrow> mp_caches M
             | Some c' \<Rightarrow> index_map_insert key c' (mp_caches M))\<rparr>, deleted @ del))"
        by (rule clean_cache_kept [OF c v False])
      obtain del txs where d: "delete_txs hs (mp_txs M) = (del, txs)" by (metis surj_pair)
      from step k(3) d have "deleted' = deleted @ del" "M' = M\<lparr>mp_txs := txs, mp_caches := (case kept of None \<Rightarrow> mp_caches M
             | Some c' \<Rightarrow> index_map_insert key c' (mp_caches M))\<rparr>" by simp_all
      with that [OF k(1) d, of kept] k(2) v show thesis by (auto split: option.splits)
    qed
  qed
  from shrink_with_rest [OF M up hs(1,2) kept M'] hs(3) show ?thesis by blast
qed

lemma clean_caches_spec:
  assumes "mempool_inv (with_rest cs M)" "up_to_date D M"
    and "fold (clean_cache V D env topo bv) cs (M, deleted) = (M', deleted')"
  shows "\<exists>del. deleted' = deleted @ del \<and> mempool_inv M' \<and> up_to_date D M' \<and>
    mset (mp_txs M) = mset del + mset (mp_txs M')"
  using assms
proof (induction cs arbitrary: M deleted)
  case (Cons kc cs)
  obtain key c M1 deleted1 where kc: "kc = (key, c)"
    and step: "clean_cache V D env topo bv (key, c) (M, deleted) = (M1, deleted1)"
    by (metis surj_pair)
  from clean_cache_spec [OF Cons.prems(1) [unfolded kc] Cons.prems(2) step] obtain del1 where
    1: "deleted1 = deleted @ del1" "mempool_inv (with_rest cs M1)" "up_to_date D M1" "mset (mp_txs M) = mset del1 + mset (mp_txs M1)"
    by blast
  from Cons.prems(3) have "fold (clean_cache V D env topo bv) cs (M1, deleted1) = (M', deleted')" by (simp add: kc step)
  from Cons.IH [OF 1(2,3) this] obtain del2 where
    "deleted' = deleted1 @ del2" "mempool_inv M'" "up_to_date D M'" "mset (mp_txs M1) = mset del2 + mset (mp_txs M')"
    by blast
  with 1(1,4) show ?case by (intro exI [of _ "del1 @ del2"]) simp
qed simp

lemma clean_up_spec:
  assumes "mempool_inv M" and "clean_up V D env topo bv M = (deleted, M')"
  shows "mempool_inv M' \<and> up_to_date D M' \<and> mset (mp_txs M) = mset deleted + mset (mp_txs M')"
proof -
  have "fold (clean_cache V D env topo bv) (mp_caches M) (M\<lparr>mp_caches := []\<rparr>, []) = (M', deleted)"
    using assms(2) by (auto simp: clean_up_def split: prod.splits)
  from clean_caches_spec [OF _ _ this] assms(1) show ?thesis by (simp add: up_to_date_def)
qed

section \<open>Properties\<close>

text \<open>
  A verifier, a storage in which every account has the nonce \<open>n\<close> and an empty balance, and a
  transaction that burns one unit, with an honest proof.
\<close>

definition sample_verifier :: "(bool, bool, u8 list, hash, nat, unit) verifier" where
  "sample_verifier = \<lparr>v_libs = sample_libs, v_merlin = sample_merlin,
     v_range = \<lparr>prove_single = (\<lambda>t v r n. None), verify_single = (\<lambda>p t c n. None),
       verify_multiple = (\<lambda>p t cs n. True), range_verify_batch = (\<lambda>vs. True)\<rparr>,
     v_batch_factor = (\<lambda>t. True), v_hash = (\<lambda>bs. hash_zero), v_key_from_hash = (\<lambda>h. True),
     v_is_entry_chunk = (\<lambda>m i. True), v_chunk_id_of_hook = (\<lambda>m i. None),
     v_module_ok = (\<lambda>m e. True), v_constant_ok = (\<lambda>m e c. True)\<rparr>"

definition sample_storage :: "nonce \<Rightarrow> (bool, hash) tx_storage" where
  "sample_storage n = \<lparr>
     st_get_new_versioned_balance = (\<lambda>k a t. Inr (versioned_balance_zero two_curve, True)),
     st_get_output_balance_in_range = (\<lambda>k a t t'. Inr None),
     st_get_balance_at_maximum_topoheight = (\<lambda>k a t. Inr (Some (0, versioned_balance_zero two_curve))),
     st_get_nonce_at_maximum_topoheight = (\<lambda>k t. Inr (Some (0, \<lparr>vn_nonce = n, vn_previous_topoheight = None\<rparr>))),
     st_get_last_nonce = (\<lambda>k. Inr (0, \<lparr>vn_nonce = n, vn_previous_topoheight = None\<rparr>)),
     st_get_multisig_at_maximum_topoheight_for = (\<lambda>k t. Inr None),
     st_get_contract_at_maximum_topoheight_for = (\<lambda>h t. Inr None),
     st_get_contract_balance_at_maximum_topoheight = (\<lambda>h a t. Inr None),
     st_is_block_topological_ordered = (\<lambda>h. False), st_get_topo_height_for_hash = (\<lambda>h. Inl StorageError),
     st_get_pruned_topoheight = Inr None,
     st_is_account_registered_for_topoheight = (\<lambda>k t. Inr True), st_has_nonce = (\<lambda>k. Inr True)\<rparr>"

definition sample_burn :: "nonce \<Rightarrow> (bool, u8 list, hash) transaction" where
  "sample_burn n = \<lparr>tx_version = TxV1, tx_source = replicate 32 1,
     tx_data = Burn \<lparr>burn_asset = hash_zero, burn_amount = 1\<rparr>, tx_fee = 1000000, tx_nonce = n,
     tx_source_commitments = [\<lparr>sc_commitment = p_compress two_curve (gens_commit two_curve True True),
       sc_proof = sample_eq_proof, sc_asset = hash_zero\<rparr>],
     tx_range_proof = replicate 288 0,
     tx_reference = \<lparr>ref_hash = hash_zero, ref_topoheight = 5\<rparr>,
     tx_multisig = None, tx_signature = \<lparr>sig_s = True, sig_e = False\<rparr>\<rparr>"

lemma sample_burn_ok: "transaction_ok sample_libs (sample_burn n)"
  by (simp add: transaction_ok_def sample_burn_def sample_libs_def point_ok_def sample_eq_proof_def
      eq_proof_new_with_scalar_def Let_def two_curve_def
      RISTRETTO_COMPRESSED_SIZE_def MAX_TRANSFER_COUNT_def source_commitment_ok_def eq_proof_ok_def range_proof_ok_def
      range_proof_sizes hash_ok_def hash_zero_def split: prod.splits)

lemma sample_burn_size: "size_transaction sample_libs (sample_burn n) = 742"
  by (simp add: size_transaction_def sample_burn_def sample_libs_def size_source_commitment_def size_point_def
      RISTRETTO_COMPRESSED_SIZE_def size_burn_payload_def size_hash_def HASH_SIZE_def size_u64_def
      size_commitment_eq_proof_def SCALAR_SIZE_def size_range_proof_def size_reference_def size_signature_def
      SIGNATURE_SIZE_def size_option_def)

lemma sample_burn_bytes: "length (to_bytes (write_transaction sample_libs) (sample_burn n)) = 742"
  using size_transaction_write [OF sample_libs_laws sample_burn_ok, of n] sample_burn_size [of n]
  by (simp add: to_bytes_def write_bytes_def writer_new_def deletes_multisig_def sample_burn_def)

lemma sample_burn_signature:
  "let bytes = to_bytes (write_transaction sample_libs) (sample_burn n) in
   signature_verify two_curve (tx_signature (sample_burn n)) (take (length bytes - SIGNATURE_SIZE) bytes) True"
  unfolding Let_def sample_burn_bytes
  by (simp add: signature_verify_def sample_burn_def hash_and_point_to_scalar_def two_curve_def SIGNATURE_SIZE_def
      SCALAR_SIZE_def sample_burn_bytes [unfolded sample_burn_def two_curve_def, simplified])

lemma sample_eq_proof_eq:
  "sample_eq_proof = \<lparr>eq_Y_0 = replicate 32 1, eq_Y_1 = replicate 32 1, eq_Y_2 = replicate 32 1,
     eq_z_s = False, eq_z_x = False, eq_z_r = True\<rparr>"
  by (simp add: sample_eq_proof_def eq_proof_new_with_scalar_def Let_def two_curve_def sample_merlin_def
      challenge_scalar_def sample_ct_def encrypt_with_opening_def decrypt_handle_def split: prod.splits)

lemma sample_eq_verify:
  "\<exists>t'. eq_proof_pre_verify two_curve sample_merlin True sample_eq_proof True
     \<lparr>commitment = True, handle = False\<rparr> False t (batch_default two_curve) =
   Inr (t', \<lparr>dynamic_scalars = [False, True, False, True, True, True, True],
     dynamic_points = [True, True, False, True, True, False, True], g_scalar = False, h_scalar = False\<rparr>)"
  using replicate_32_neq
  by (simp add: sample_eq_proof_eq eq_proof_pre_verify_def Let_def eq_points_def is_identity_def
      validate_and_append_point_def challenge_scalar_def sample_merlin_def decompress_or_def two_curve_def
      batch_extend_def batch_default_def s_neg_def split: prod.splits)

abbreviation sample_env :: "nonce \<Rightarrow> (bool, bool, u8 list, hash, nat, unit) mempool_env" where
  "sample_env n \<equiv> env_of sample_verifier (sample_storage n) () 10 BlockV2 mempool_new"

definition sample_account :: "nonce \<Rightarrow> (hash \<times> bool ciphertext) list \<Rightarrow> (bool, hash) mempool_state" where
  "sample_account n assets = mempool_state_new\<lparr>ms_accounts :=
     [(replicate 32 1, \<lparr>ma_nonce = n, ma_assets = assets, ma_multisig = None\<rparr>)]\<rparr>"

lemma sample_burn_simps:
  "tx_version (sample_burn n) = TxV1" "tx_source (sample_burn n) = replicate 32 1"
  "tx_data (sample_burn n) = Burn \<lparr>burn_asset = hash_zero, burn_amount = 1\<rparr>"
  "tx_fee (sample_burn n) = 1000000" "tx_nonce (sample_burn n) = n"
  "tx_source_commitments (sample_burn n) = [\<lparr>sc_commitment = replicate 32 0,
     sc_proof = sample_eq_proof, sc_asset = hash_zero\<rparr>]"
  "tx_reference (sample_burn n) = \<lparr>ref_hash = hash_zero, ref_topoheight = 5\<rparr>" "tx_multisig (sample_burn n) = None"
  by (simp_all add: sample_burn_def two_curve_def)

lemma sample_pre_verify_tx:
  "pre_verify_tx sample_libs (sample_storage n) (sample_burn n) 10 BlockV2 = Inr ()"
  by (simp add: sample_burn_size pre_verify_tx_def estimate_required_tx_fees_def sample_burn_simps calculate_tx_fee_def Let_def
      FEE_PER_KB_def get_multisig_count_def is_tx_version_allowed_in_block_version_def BYTES_PER_KB_def)

lemma sample_nonce:
  "mempool_get_account_nonce (sample_env n) (replicate 32 1) mempool_state_new = (Inr n, sample_account n [])"
  by (simp add: mempool_get_account_nonce_def mempool_state_new_def mempool_create_sender_account_def env_of_def
      get_cache_for_def mempool_new_def sample_storage_def storage_multisig_def put_account_def sample_account_def)

lemma sample_balance:
  "mempool_get_sender_balance (sample_env n) (replicate 32 1) hash_zero \<lparr>ref_hash = hash_zero, ref_topoheight = 5\<rparr>
     (sample_account (n + 1) []) = (Inr (ciphertext_zero two_curve), sample_account (n + 1) [(hash_zero, ciphertext_zero two_curve)])"
  by (simp add: mempool_get_sender_balance_def sample_account_def env_of_def mempool_state_new_def
      get_cache_for_def mempool_new_def sample_storage_def get_versioned_balance_for_reference_def put_account_def
      search_versioned_balance_for_reference_def reference_block_topo_def find_version_def take_ciphertext_def
      versioned_balance_zero_def versioned_balance_new_def take_balance_with_def
      sample_verifier_def sample_libs_def)

lemma sample_operations:
  defines "S n \<equiv> mempool_verification (sample_env n)"
  shows "vs_pre_verify_tx (S n) (sample_burn n) st = (Inr (), st)"
    "vs_get_account_nonce (S n) (replicate 32 1) mempool_state_new = (Inr n, sample_account n [])"
    "vs_update_account_nonce (S n) (replicate 32 1) (n + 1) (sample_account n []) = (Inr (), sample_account (n + 1) [])"
    "vs_get_multisig_state (S n) (replicate 32 1) (sample_account m as) = (Inr None, sample_account m as)"
    "vs_get_sender_balance (S n) (replicate 32 1) hash_zero \<lparr>ref_hash = hash_zero, ref_topoheight = 5\<rparr>
       (sample_account (n + 1) []) = (Inr (ciphertext_zero two_curve), sample_account (n + 1) [(hash_zero, ciphertext_zero two_curve)])"
    "vs_add_sender_output (S n) k a ct st = (Inr (), st)"
    "\<exists>st. vs_put_sender_balance (S n) (replicate 32 1) hash_zero ct
       (sample_account (n + 1) [(hash_zero, ciphertext_zero two_curve)]) = st"
    "verify_data sample_verifier (S n) (sample_burn n) st = (Inr ([], []), st)"
  using sample_pre_verify_tx [of n] sample_nonce [of n] sample_balance [of n]
  by (simp_all add: S_def mempool_verification_def mempool_update_account_nonce_def sample_account_def
      mempool_get_multisig_state_def put_account_def verify_data_def sample_burn_simps env_of_def sample_verifier_def)

lemma sample_output:
  "get_sender_output_ct two_curve (sample_burn n) hash_zero [] [] = Inr \<lparr>commitment = True, handle = False\<rparr>"
  by (simp add: get_sender_output_ct_def sample_burn_simps add_native_def XELIS_ASSET_def ciphertext_add_scalar_def
      commitment_add_scalar_def ciphertext_zero_def two_curve_def)

lemma sample_new_balance:
  "ciphertext_sub two_curve (ciphertext_zero two_curve) \<lparr>commitment = True, handle = False\<rparr> = \<lparr>commitment = True, handle = False\<rparr>"
  by (simp add: ciphertext_sub_def ciphertext_zero_def two_curve_def)

lemma sample_verified:
  "\<exists>st. verify_tx sample_verifier (mempool_verification (sample_env n)) (sample_burn n) h mempool_state_new = (Inr (), st)"
proof -
  let ?S = "mempool_verification (sample_env n)" and ?tx = "sample_burn n"
  have V: "lib_curve sample_libs = two_curve" "v_libs sample_verifier = sample_libs" "v_merlin sample_verifier = sample_merlin"
    "v_batch_factor sample_verifier t = True" for t
    by (simp_all add: sample_verifier_def sample_libs_def)
  have pt: "point_decompress two_curve (replicate 32 1) = Inr True" "point_decompress two_curve (replicate 32 0) = Inr False"
    using replicate_32_neq by (simp_all add: point_decompress_def two_curve_def)
  have fmt: "has_valid_version_format ?tx" "verify_commitment_assets ?tx"
    by (simp_all add: has_valid_version_format_def sample_burn_simps verify_commitment_assets_def
        has_commitment_for_asset_def XELIS_ASSET_def)
  let ?b = "\<lparr>dynamic_scalars = [False, True, False, True, True, True, True],
     dynamic_points = [True, True, False, True, True, False, True], g_scalar = False, h_scalar = False\<rparr>"
  have commit: "\<exists>t' st'. verify_commitment_step sample_verifier ?S ?tx True [] []
      (\<lparr>sc_commitment = replicate 32 0, sc_proof = sample_eq_proof, sc_asset = hash_zero\<rparr>, False)
      (t, batch_default two_curve) (sample_account (n + 1) []) = (Inr (t', ?b), st')" for t
    using sample_eq_verify
    by (simp add: verify_commitment_step_def verify_source_commitment_def result_simps V sample_output sample_burn_simps
        sample_operations Let_def sample_new_balance)
  obtain t' st' where step: "verify_commitment_step sample_verifier ?S ?tx True [] []
      (\<lparr>sc_commitment = replicate 32 0, sc_proof = sample_eq_proof, sc_asset = hash_zero\<rparr>, False)
      (prepare_transcript TxV1 (replicate 32 1) 1000000 n, batch_default two_curve)
      (sample_account (n + 1) []) = (Inr (t', ?b), st')"
    using commit by blast
  have "\<exists>t cs st. pre_verify sample_verifier ?S ?tx h (batch_default two_curve) mempool_state_new = (Inr (t, cs, ?b), st)"
    using sample_burn_signature [of n]
    by (simp add: pre_verify_def result_simps fmt sample_operations sample_burn_simps V pt Let_def verify_multisig_def
        verify_payload_def on_transcript_def) (use step in blast)
  moreover have "batch_verify two_curve ?b = Some True"
    by (simp add: batch_verify_def multiscalar_mul_def two_curve_def)
  moreover have "verify_multiple (v_range sample_verifier) p t cs k" for p t cs k
    by (simp add: sample_verifier_def)
  ultimately show ?thesis by (simp add: verify_tx_def result_simps V) blast
qed

text \<open>
  C18: the entry of a transaction into the mempool. No input makes it panic, neither the nonce index of
  a cache nor the range check, and when a transaction is accepted, it was not in the mempool nor in a
  block, it is not too big, it is correctly signed and covered by its source commitments, and its
  nonce is the next one of its sender: one above the highest in the mempool, or that of the chain.
  The mempool then holds it, and the transactions of every sender are still a run of consecutive
  nonces. The nonce 2^64 - 1 is excluded: it would leave no next nonce.
\<close>

theorem mempool_admission:
  assumes "mempool_inv M" "tx_nonce tx \<noteq> - 1"
  shows "\<exists>r. add_tx_to_mempool V D executed env topo bv now h tx M = Some r \<and>
    (\<forall>M'. r = Inr M' \<longrightarrow> mempool_inv M' \<and> map_of (mp_txs M) h = None \<and> executed h = Inr False \<and>
       size_transaction (v_libs V) tx \<le> MAX_TRANSACTION_SIZE \<and>
       tx_entered V D topo h \<lparr>srt_tx = tx, srt_first_seen = now, srt_size = size_transaction (v_libs V) tx\<rparr> M M')"
  by (rule add_tx_to_mempool_spec [OF assms])

lemma mempool_new_inv: "mempool_inv mempool_new"
  by (simp add: mempool_inv_def mempool_new_def)

theorem mempool_admission_witness:
  "\<exists>M'. add_tx_to_mempool sample_verifier (sample_storage 7) (\<lambda>_. Inr False) () 10 BlockV2 0 hash_zero
     (sample_burn 7) mempool_new = Some (Inr M') \<and> mempool_inv M' \<and> contains_tx hash_zero M'"
proof -
  have size: "\<not> MAX_TRANSACTION_SIZE < size_transaction (v_libs sample_verifier) (sample_burn 7)"
    by (simp add: sample_burn_size MAX_TRANSACTION_SIZE_def sample_verifier_def BYTES_PER_KB_def)
  obtain st where st: "verify_tx sample_verifier (mempool_verification (sample_env 7)) (sample_burn 7) hash_zero
      mempool_state_new = (Inr (), st)" using sample_verified by blast
  obtain M' where "add_tx_to_mempool sample_verifier (sample_storage 7) (\<lambda>_. Inr False) () 10 BlockV2 0 hash_zero
      (sample_burn 7) mempool_new = Some (Inr M')"
    using st verified_sender_cache [OF st] size
    by (auto simp: add_tx_to_mempool_def add_tx_def contains_tx_def mempool_new_def get_cache_for_def)
  with mempool_admission [OF mempool_new_inv, of "sample_burn 7" sample_verifier "sample_storage 7" "\<lambda>_. Inr False"
      "()" 10 BlockV2 0 hash_zero]
  show ?thesis by (auto simp: sample_burn_simps tx_entered_def contains_tx_def Let_def)
qed

text \<open>
  C19: the verification of a batch on the state of the mempool. Each transaction of a verified batch is
  well formed, covered by its source commitments and signed; one after the other they charge to their
  senders what the ciphertexts they carry say, on the balances that the transactions before them have
  left (on the first access the one of the mempool or of the storage for the reference of the
  transaction), and change no other balance; and the nonces of each sender are consecutive, from the
  current one on.
\<close>

theorem verified_batch_charges:
  assumes "verify_batch V (mempool_verification E) txs st = (Inr (), st')"
  shows "txs_done V mempool_nonce_of (mempool_first_nonce E) (mempool_first_balance E) mempool_sender_of
      (map fst txs) st st' \<and>
    (\<forall>key n. current_nonce mempool_nonce_of (mempool_first_nonce E) st key = Inr n \<longrightarrow>
       nonce_run (map fst txs) key n)"
proof -
  from mempool_accounts.verify_batch_spec [OF TrueI assms]
  have "txs_done V mempool_nonce_of (mempool_first_nonce E) (mempool_first_balance E) mempool_sender_of
      (map fst txs) st st'" by blast
  with txs_done_run [OF this] show ?thesis by blast
qed

theorem verified_batch_charges_witness:
  "\<exists>st'. verify_batch sample_verifier (mempool_verification (sample_env 7)) [(sample_burn 7, hash_zero)]
     mempool_state_new = (Inr (), st') \<and>
   txs_done sample_verifier mempool_nonce_of (mempool_first_nonce (sample_env 7)) (mempool_first_balance (sample_env 7))
     mempool_sender_of [sample_burn 7] mempool_state_new st' \<and>
   nonce_run [sample_burn 7] (replicate 32 1) 7"
proof -
  obtain st' where st': "verify_batch sample_verifier (mempool_verification (sample_env 7)) [(sample_burn 7, hash_zero)]
      mempool_state_new = (Inr (), st')"
    using sample_verified [of 7 hash_zero]
    by (auto simp: verify_batch_def verify_tx_def result_simps) (auto simp: sample_verifier_def)
  note d = verified_batch_charges [OF this]
  then have "nonce_run [sample_burn 7] (replicate 32 1) 7"
    by (simp add: tx_done_def sample_burn_simps)
  with d st' show ?thesis by simp
qed

text \<open>
  C24: cleaning up the mempool after a change of the chain. Whatever the storage answers and whichever
  of the remaining transactions fail their new verification, the mempool stays well formed, the first
  nonce of every sender that remains is the nonce of the account, and every transaction is either
  still in the mempool or reported as deleted, exactly once.
\<close>

theorem mempool_clean_up:
  assumes "mempool_inv M" and "clean_up V D env topo bv M = (deleted, M')"
  shows "mempool_inv M' \<and> up_to_date D M' \<and> mset (mp_txs M) = mset deleted + mset (mp_txs M')"
  by (rule clean_up_spec [OF assms])

text \<open>Two transactions of one sender, with the nonces 7 and 8.\<close>

definition sample_mempool :: "(bool, bool, u8 list, hash) mempool" where
  "sample_mempool = \<lparr>
     mp_txs = [(hash_zero, \<lparr>srt_tx = sample_burn 7, srt_first_seen = 0, srt_size = 742\<rparr>),
       (replicate 32 1, \<lparr>srt_tx = sample_burn 8, srt_first_seen = 1, srt_size = 742\<rparr>)],
     mp_caches = [(replicate 32 1, \<lparr>ac_min = 7, ac_max = 8, ac_txs = [hash_zero, replicate 32 1],
       ac_balances = [], ac_multisig = None\<rparr>)]\<rparr>"

lemma sample_mempool_inv: "mempool_inv sample_mempool"
  using replicate_32_neq
  by (auto simp: mempool_inv_def sample_mempool_def cache_inv_def nonce_at_def sample_burn_simps hash_zero_def
      less_Suc_eq nth_Cons')

theorem mempool_clean_up_witness:
  "mempool_inv sample_mempool \<and>
   (\<exists>M' deleted. clean_up sample_verifier (sample_storage 9) () 10 BlockV2 sample_mempool = (deleted, M') \<and>
     length deleted = 2 \<and> mempool_inv M' \<and> mset (mp_txs sample_mempool) = mset deleted + mset (mp_txs M'))"
proof -
  have "length (fst (clean_up sample_verifier (sample_storage 9) () 10 BlockV2 sample_mempool)) = 2"
    using replicate_32_neq
    by (simp add: clean_up_def sample_mempool_def clean_cache_def sample_storage_def Let_def still_valid_def
        sample_burn_simps hash_zero_def set_bounds_def nonce_bounds_def map_remove_def)
  with mempool_clean_up [OF sample_mempool_inv prod.collapse [symmetric]] sample_mempool_inv show ?thesis
    by (metis prod.collapse)
qed

text \<open>
  C25: the query for a nonce computes the position of the nonce in the cache of the sender. Under the
  invariant of the mempool it does not panic, what is found at this position is exactly the
  transaction of this sender with this nonce, and the query whether a nonce is used answers whether
  the mempool holds such a transaction.
\<close>

theorem is_nonce_used_iff:
  assumes "mempool_inv M"
  shows "is_nonce_used key n M = Some (\<exists>h t. map_of (mp_txs M) h = Some t \<and>
      tx_source (srt_tx t) = key \<and> tx_nonce (srt_tx t) = n) \<and>
    (\<forall>c. map_of (mp_caches M) key = Some c \<longrightarrow>
       (\<exists>m. has_tx_with_same_nonce n c = Some m \<and> (\<forall>h. m = Some h \<longleftrightarrow>
          (\<exists>t. map_of (mp_txs M) h = Some t \<and> tx_source (srt_tx t) = key \<and> tx_nonce (srt_tx t) = n))))"
  using is_nonce_used_inv [OF assms] same_nonce_exact [OF assms] by blast

theorem is_nonce_used_iff_witness:
  "is_nonce_used (replicate 32 1) 8 sample_mempool = Some True \<and>
   is_nonce_used (replicate 32 1) 9 sample_mempool = Some False \<and>
   (\<exists>c. map_of (mp_caches sample_mempool) (replicate 32 1) = Some c \<and>
      has_tx_with_same_nonce 8 c = Some (Some (replicate 32 1)))"
proof -
  have t: "(\<exists>t. map_of (mp_txs sample_mempool) (replicate 32 1) = Some t \<and> tx_source (srt_tx t) = replicate 32 1 \<and>
      tx_nonce (srt_tx t) = 8)"
    using replicate_32_neq by (simp add: sample_mempool_def sample_burn_simps hash_zero_def)
  obtain c where c: "map_of (mp_caches sample_mempool) (replicate 32 1) = Some c"
    by (simp add: sample_mempool_def)
  from is_nonce_used_iff [OF sample_mempool_inv, of "replicate 32 1" 8, THEN conjunct2, rule_format, OF c]
  obtain m where m: "has_tx_with_same_nonce 8 c = Some m" "m = Some (replicate 32 1)" using t by blast
  moreover have "is_nonce_used (replicate 32 1) 8 sample_mempool = Some True"
    using is_nonce_used_iff [OF sample_mempool_inv, of "replicate 32 1" 8] t by auto
  moreover have "is_nonce_used (replicate 32 1) 9 sample_mempool = Some False"
    using is_nonce_used_iff [OF sample_mempool_inv, of "replicate 32 1" 9, THEN conjunct1] replicate_32_neq
    by (auto simp: sample_mempool_def sample_burn_simps hash_zero_def split: if_splits)
  ultimately show ?thesis using c by blast
qed

end
