(* ===== verification/Chain_Ledger.thy ===== *)
theory Chain_Ledger
  imports Chain_Apply Mempool
begin

text \<open>
  The ledger that a state stands for. The state that executes a block keeps what accounts receive and
  what they spend apart: a receiver has a version of its balance, a sender the balance its proofs were
  checked against and the sum of its outputs. The balance of an account is the first less the second.
  Executing a transaction moves this balance, whichever of the caches hold it, and the versions that
  \<open>apply_changes\<close> writes are this balance.
\<close>

section \<open>The ledger\<close>

text \<open>The ciphertext that a stored version stands for, if it decompresses.\<close>

definition version_value :: "('p, 's) curve \<Rightarrow> 'p versioned_balance \<Rightarrow> 'p ciphertext option" where
  "version_value cv v = (case cache_take_ciphertext cv (final_balance v) of Inl _ \<Rightarrow> None | Inr ct \<Rightarrow> Some ct)"

definition last_balance ::
  "('p, 's, 'r, 'o, 't, 'env) chain_env \<Rightarrow> compressed_public_key \<Rightarrow> hash \<Rightarrow> 'p ciphertext option" where
  "last_balance E key asset = (case st_get_new_versioned_balance (ce_storage E) key asset (ce_topoheight E) of
     Inl _ \<Rightarrow> None | Inr (v, _) \<Rightarrow> version_value (ce_curve E) v)"

definition receiver_of ::
  "('p, 'o, 'z) chain_state_scheme \<Rightarrow> compressed_public_key \<Rightarrow> hash \<Rightarrow> 'p versioned_balance option" where
  "receiver_of st key asset = map_of (inner_map (cs_receiver_balances st) key) asset"

definition income_of ::
  "('p, 's, 'r, 'o, 't, 'env) chain_env \<Rightarrow> ('p, 'o, 'z) chain_state_scheme \<Rightarrow> compressed_public_key \<Rightarrow> hash \<Rightarrow>
   'p ciphertext option" where
  "income_of E st key asset = (case receiver_of st key asset of
     Some v \<Rightarrow> version_value (ce_curve E) v | None \<Rightarrow> last_balance E key asset)"

definition spent_by ::
  "('p, 's, 'r, 'o, 't, 'env) chain_env \<Rightarrow> ('p, 'o, 'z) chain_state_scheme \<Rightarrow> compressed_public_key \<Rightarrow> hash \<Rightarrow>
   'p ciphertext" where
  "spent_by E st key asset = (case chain_echange_of st key asset of
     Some e \<Rightarrow> ec_output_sum e | None \<Rightarrow> ciphertext_zero (ce_curve E))"

definition ledger ::
  "('p, 's, 'r, 'o, 't, 'env) chain_env \<Rightarrow> ('p, 'o, 'z) chain_state_scheme \<Rightarrow> compressed_public_key \<Rightarrow> hash \<Rightarrow>
   'p ciphertext option" where
  "ledger E st key asset =
     map_option (\<lambda>b. ciphertext_sub (ce_curve E) b (spent_by E st key asset)) (income_of E st key asset)"

text \<open>
  A version that was created for this topoheight starts from the last balance; it was never the output
  balance that was spent from, and its balance is the last one less the sum of the outputs.
\<close>

definition echange_ok ::
  "('p, 's, 'r, 'o, 't, 'env) chain_env \<Rightarrow> compressed_public_key \<Rightarrow> hash \<Rightarrow> 'p echange \<Rightarrow> bool" where
  "echange_ok E key asset e \<longleftrightarrow> (ec_new_version e \<longrightarrow> \<not> ec_allow_output_balance e \<and> \<not> ec_output_balance_used e \<and>
     version_value (ce_curve E) (ec_version e) =
       map_option (\<lambda>b. ciphertext_sub (ce_curve E) b (ec_output_sum e)) (last_balance E key asset))"

definition chain_inv :: "('p, 's, 'r, 'o, 't, 'env) chain_env \<Rightarrow> ('p, 'o, 'z) chain_state_scheme \<Rightarrow> bool" where
  "chain_inv E st \<longleftrightarrow> distinct (map fst (cs_accounts st)) \<and> distinct (map fst (cs_receiver_balances st)) \<and>
     (\<forall>key a. map_of (cs_accounts st) key = Some a \<longrightarrow> distinct (map fst (ca_assets a))) \<and>
     (\<forall>key bs. map_of (cs_receiver_balances st) key = Some bs \<longrightarrow> distinct (map fst bs)) \<and>
     (\<forall>key asset e. chain_echange_of st key asset = Some e \<longrightarrow> echange_ok E key asset e)"

lemma ct_sub_rules:
  assumes "curve_laws cv"
  shows "ciphertext_sub cv a (ciphertext_zero cv) = a"
    and "ciphertext_sub cv (ciphertext_sub cv a b) c = ciphertext_sub cv a (ciphertext_add cv b c)"
    and "ciphertext_sub cv (ciphertext_add cv a c) b = ciphertext_add cv (ciphertext_sub cv a b) c"
proof -
  have "p_sub cv (p_sub cv x y) z = p_sub cv x (p_add cv y z)" for x y z
  proof -
    have "x = p_add cv (p_add cv (p_sub cv (p_sub cv x y) z) z) y"
      by (simp only: curve_rules(4) [OF assms])
    also have "\<dots> = p_add cv (p_sub cv (p_sub cv x y) z) (p_add cv y z)"
      using assms by (simp only: p_ac)
    finally show ?thesis using p_sub_eq_iff [OF assms, of x "p_add cv y z"] by metis
  qed
  then show "ciphertext_sub cv (ciphertext_sub cv a b) c = ciphertext_sub cv a (ciphertext_add cv b c)"
    by (simp add: ciphertext_sub_def ciphertext_add_def)
  show "ciphertext_sub cv a (ciphertext_zero cv) = a"
    by (simp add: ciphertext_sub_def ciphertext_zero_def p_sub_identity [OF assms])
  show "ciphertext_sub cv (ciphertext_add cv a c) b = ciphertext_add cv (ciphertext_sub cv a b) c"
    by (simp add: ciphertext_sub_def ciphertext_add_def p_sub_swap [OF assms])
qed

section \<open>The change of one sender\<close>

lemma version_value_live: "live_ciphertext (final_balance v) = Some ct \<Longrightarrow> version_value cv v = Some ct"
  by (cases "final_balance v") (simp_all add: version_value_def)

lemma cache_computable_value:
  "cache_computable cv c = Inr (ct, put) \<Longrightarrow> cache_take_ciphertext cv c = Inr ct"
  by (cases c) (auto simp: result_simps)

lemma search_new_version:
  assumes "search_versioned_balance_for_reference D key asset current ref no_new = Inr (use, True, v)"
  shows "\<not> use \<and> (\<exists>fresh. st_get_new_versioned_balance D key asset current = Inr (v, fresh))"
proof -
  have "\<not> use" using assms search_use_output [of D key asset current ref no_new True v] by (cases use) simp_all
  with assms show ?thesis
    by (auto simp: search_versioned_balance_for_reference_def result_simps split: option.splits if_splits)
qed

lemma echange_new_ok:
  assumes "curve_laws (ce_curve E)" "create_sender_echange E key asset ref = Inr e"
  shows "echange_ok E key asset e"
proof -
  obtain use fresh v where s: "search_versioned_balance_for_reference (ce_storage E) key asset (ce_topoheight E) ref True
      = Inr (use, fresh, v)" and e: "e = echange_new (ce_curve E) use fresh v"
    using assms(2) by (auto simp: create_sender_echange_def result_simps)
  show ?thesis
  proof (cases fresh)
    case True
    with search_new_version s have "\<not> use" "last_balance E key asset = version_value (ce_curve E) v"
      by (fastforce simp: last_balance_def)+
    then show ?thesis
      by (simp add: e echange_ok_def echange_new_def ct_sub_rules [OF assms(1)] option.map_ident)
  qed (simp add: e echange_ok_def echange_new_def)
qed

text \<open>Such a change selects the final balance of its version.\<close>

lemma echange_final:
  assumes "\<not> ec_allow_output_balance e" "\<not> ec_output_balance_used e"
  shows "echange_get_balance e = ((final_balance (ec_version e), False), e)"
  using assms by (simp add: echange_get_balance_def select_balance_def Let_def split: option.splits)

lemma echange_get_fields:
  assumes "echange_get_balance e = ((c, used), e')"
  shows "ec_new_version e' = ec_new_version e" "ec_output_sum e' = ec_output_sum e"
  using assms by (auto simp: echange_get_balance_def Let_def split: prod.splits if_splits)

lemma echange_computable_fields:
  assumes "echange_computable cv e = (r, e')"
  shows "ec_new_version e' = ec_new_version e" "ec_output_sum e' = ec_output_sum e"
  using assms echange_get_fields
  by (fastforce simp: echange_computable_def split: prod.splits sum.splits)+

lemma echange_set_fields:
  "ec_new_version (echange_set ct e) = ec_new_version e" "ec_output_sum (echange_set ct e) = ec_output_sum e"
  using echange_get_fields by (fastforce simp: echange_set_def split: prod.splits)+

lemma version_value_put:
  assumes "cache_computable cv (final_balance v) = Inr (ct, put)"
  shows "version_value cv (v\<lparr>final_balance := put ct'\<rparr>) = Some ct'" "version_value cv v = Some ct"
  using cache_computable_live(1) [OF assms, of ct'] cache_computable_value [OF assms]
  by (simp_all add: version_value_live, simp add: version_value_def)

lemma echange_computable_ok:
  assumes "echange_ok E key asset e" "echange_computable (ce_curve E) e = (r, e')"
  shows "echange_ok E key asset e'"
proof (cases "ec_new_version e")
  case True
  with assms(1) have e: "\<not> ec_allow_output_balance e" "\<not> ec_output_balance_used e" by (auto simp: echange_ok_def)
  show ?thesis
  proof (cases "cache_computable (ce_curve E) (final_balance (ec_version e))")
    case (Inr p)
    obtain ct put where p: "p = (ct, put)" by force
    from version_value_put(1) [OF Inr [unfolded p], of ct] version_value_put(2) [OF Inr [unfolded p]] assms Inr p True e show ?thesis
      by (auto simp: echange_computable_def echange_final [OF e] set_selected_def echange_ok_def)
  qed (use assms True e in \<open>auto simp: echange_computable_def echange_final [OF e]\<close>)
next
  case False
  with echange_computable_fields(1) [OF assms(2)] show ?thesis by (simp add: echange_ok_def)
qed

text \<open>The balance goes down by an output, and the output is added to the sum.\<close>

lemma echange_charge_ok:
  assumes cv: "curve_laws (ce_curve E)" and ok: "echange_ok E key asset e"
    and b: "echange_balance e = Some b"
  shows "echange_ok E key asset (add_output_to_sum (ce_curve E) out (echange_set (ciphertext_sub (ce_curve E) b out) e))"
proof (cases "ec_new_version e")
  case True
  with ok have e: "\<not> ec_allow_output_balance e" "\<not> ec_output_balance_used e" by (auto simp: echange_ok_def)
  with b have live: "live_ciphertext (final_balance (ec_version e)) = Some b"
    by (simp add: echange_balance_def echange_final)
  with ok True have "Some b = map_option (\<lambda>b. ciphertext_sub (ce_curve E) b (ec_output_sum e)) (last_balance E key asset)"
    by (simp add: echange_ok_def version_value_live)
  then obtain b0 where "last_balance E key asset = Some b0" "b = ciphertext_sub (ce_curve E) b0 (ec_output_sum e)"
    by (cases "last_balance E key asset") auto
  moreover have "version_value (ce_curve E) ((ec_version e)\<lparr>final_balance := cache_set ct (final_balance (ec_version e))\<rparr>) = Some ct" for ct
    by (simp add: version_value_live cache_set_live [OF live])
  ultimately show ?thesis
    by (simp add: echange_ok_def add_output_to_sum_def echange_set_def echange_final [OF e] set_selected_def e
        ct_sub_rules(2) [OF cv])
qed (simp add: echange_ok_def add_output_to_sum_def echange_set_fields)

section \<open>Operations that keep the invariant\<close>

text \<open>
  Whether they succeed or fail: a transaction that fails leaves the state as it was when it failed,
  and the next one is executed on it.
\<close>

definition preserves :: "('st \<Rightarrow> bool) \<Rightarrow> ('st, 'e, 'a) action \<Rightarrow> bool" where
  "preserves I m \<longleftrightarrow> (\<forall>st r st'. I st \<longrightarrow> m st = (r, st') \<longrightarrow> I st')"

lemma preservesD: "preserves I m \<Longrightarrow> I st \<Longrightarrow> m st = (r, st') \<Longrightarrow> I st'"
  unfolding preserves_def by blast

lemma preserves_pure [simp, intro]:
  "preserves I (areturn x)" "preserves I (afail e)" "preserves I (alift r)" "preserves I (aguard b e)"
  by (simp_all add: preserves_def aguard_def)

lemma preserves_aupdate: "(\<And>st. I st \<Longrightarrow> I (f st)) \<Longrightarrow> preserves I (aupdate f)"
  by (simp add: preserves_def)

lemma preserves_aerr [intro!]: "preserves I m \<Longrightarrow> preserves I (aerr f m)"
  unfolding preserves_def aerr_def by (metis (no_types, lifting) case_prod_conv prod.exhaust prod.inject)

lemma preserves_bind [intro!]:
  assumes m: "preserves I m" and f: "\<And>x. preserves I (f x)"
  shows "preserves I (abind m f)"
  unfolding preserves_def
proof (intro allI impI)
  fix st r st'
  assume st: "I st" and *: "abind m f st = (r, st')"
  obtain x st1 where 1: "m st = (x, st1)" by force
  with m st have "I st1" by (rule preservesD)
  then show "I st'"
    using * 1 preservesD [OF f] by (cases x) (auto simp: abind_def)
qed

lemma preserves_for: "(\<And>x acc. x \<in> set xs \<Longrightarrow> preserves I (f x acc)) \<Longrightarrow> preserves I (afor f xs acc)"
proof (induction xs arbitrary: acc)
  case (Cons x xs)
  show ?case unfolding afor.simps by (rule preserves_bind) (simp_all add: Cons)
qed simp

lemma chain_inv_receivers:
  assumes "chain_inv E st" "distinct (map fst bs)"
  shows "chain_inv E (st\<lparr>cs_receiver_balances := index_map_insert key bs (cs_receiver_balances st)\<rparr>)"
  using assms by (auto simp: chain_inv_def distinct_index_map_insert map_of_index_map_insert chain_echange_of_def)

lemma chain_inv_inner: "chain_inv E st \<Longrightarrow> distinct (map fst (inner_map (cs_receiver_balances st) key))"
  by (simp add: chain_inv_def inner_map_def split: option.splits)

lemma chain_inv_put_receiver: "chain_inv E st \<Longrightarrow> chain_inv E (put_receiver_version key asset v st)"
  unfolding put_receiver_version_def
  by (rule chain_inv_receivers) (simp_all add: distinct_index_map_insert chain_inv_inner)

lemma chain_inv_account:
  assumes "chain_inv E st" "distinct (map fst (ca_assets a))"
    "\<And>asset e. map_of (ca_assets a) asset = Some e \<Longrightarrow> echange_ok E key asset e"
  shows "chain_inv E (put_chain_account key a st)"
proof -
  have "echange_ok E k asset e" if "chain_echange_of (put_chain_account key a st) k asset = Some e" for k asset e
    using that assms by (auto simp: chain_inv_def split: if_splits)
  then show ?thesis
    using assms(1,2) by (auto simp: chain_inv_def put_chain_account_def distinct_index_map_insert map_of_index_map_insert)
qed

lemma chain_inv_same_assets:
  assumes "chain_inv E st" "map_of (cs_accounts st) key = Some a" "ca_assets a' = ca_assets a"
  shows "chain_inv E (put_chain_account key a' st)"
proof (rule chain_inv_account [OF assms(1)])
  show "distinct (map fst (ca_assets a'))" using assms by (auto simp: chain_inv_def)
  show "echange_ok E key asset e" if "map_of (ca_assets a') asset = Some e" for asset e
    using that assms chain_of_account(2) [OF assms(2)] by (auto simp: chain_inv_def)
qed

lemma chain_inv_echange:
  assumes inv: "chain_inv E st" and e: "echange_ok E key asset e"
    and a: "map_of (cs_accounts st) key = Some a \<or> map_of (cs_accounts st) key = None \<and> ca_assets a = []"
  shows "chain_inv E (put_echange key asset e a st)"
proof -
  have "distinct (map fst (ca_assets a))" using inv a by (auto simp: chain_inv_def)
  moreover have "echange_ok E key asset' e'" if "map_of (ca_assets a) asset' = Some e'" for asset' e'
    using inv a that chain_of_account(2) [of st key a] by (auto simp: chain_inv_def)
  ultimately show ?thesis
    unfolding put_echange_def
    by (intro chain_inv_account [OF inv])
       (auto simp: distinct_index_map_insert map_of_index_map_insert e split: if_splits)
qed

lemma chain_inv_contracts:
  "chain_inv E (st\<lparr>cs_contracts := cs\<rparr>) = chain_inv E st" "chain_inv E (st\<lparr>cs_gas_fee := n\<rparr>) = chain_inv E st"
  by (simp_all add: chain_inv_def chain_echange_of_def)

lemma chain_get_receiver_preserves: "preserves (chain_inv E) (chain_get_receiver_balance E k a)"
  unfolding preserves_def
  by (auto simp: chain_get_receiver_balance_def Let_def chain_inv_inner intro!: chain_inv_put_receiver chain_inv_receivers
      split: sum.splits prod.splits option.splits)

lemma chain_put_receiver_inv: "chain_inv E st \<Longrightarrow> chain_inv E (chain_put_receiver_balance k a ct st)"
  by (simp add: chain_put_receiver_balance_def chain_inv_put_receiver split: option.splits)

lemma get_internal_account_inv:
  assumes st: "chain_inv E st" and "get_internal_account E k st = (r, st')"
  shows "chain_inv E st' \<and> (\<forall>a. r = Inr a \<longrightarrow> map_of (cs_accounts st') k = Some a)"
proof -
  have "chain_inv E (put_chain_account k a st)" if "create_sender_account E k = Inr a" for a
    using create_sender_account_empty [OF that] by (intro chain_inv_account [OF st]) simp_all
  then show ?thesis
    using assms by (auto simp: get_internal_account_def put_chain_account_def map_of_index_map_insert
        split: option.splits sum.splits)
qed

lemma get_internal_account_preserves: "preserves (chain_inv E) (get_internal_account E k)"
  unfolding preserves_def using get_internal_account_inv by blast

text \<open>An account is loaded, then changed without a change of its balances.\<close>

lemma internal_account_preserves:
  assumes "\<And>a. ca_assets (f a) = ca_assets a"
  shows "preserves (chain_inv E) (abind (get_internal_account E k) (\<lambda>a. aupdate (put_chain_account k (f a))))"
  unfolding preserves_def
proof (intro allI impI)
  fix st r st'
  assume st: "chain_inv E st" and *: "abind (get_internal_account E k) (\<lambda>a. aupdate (put_chain_account k (f a))) st = (r, st')"
  obtain x st1 where 1: "get_internal_account E k st = (x, st1)" by force
  with get_internal_account_inv [OF st] have "chain_inv E st1" "\<forall>a. x = Inr a \<longrightarrow> map_of (cs_accounts st1) k = Some a"
    by blast+
  with * 1 show "chain_inv E st'"
    by (cases x) (auto simp: abind_def chain_inv_same_assets assms)
qed

lemma chain_versioned_contract_preserves: "preserves (chain_inv E) (internal_get_versioned_contract E h)"
  by (auto simp: preserves_def internal_get_versioned_contract_def chain_inv_contracts Let_def
      split: option.splits sum.splits)

lemma chain_get_sender_preserves:
  assumes "curve_laws (ce_curve E)"
  shows "preserves (chain_inv E) (chain_get_sender_balance E k a r)"
  unfolding preserves_def
proof (intro allI impI)
  fix st x st'
  assume st: "chain_inv E st" and *: "chain_get_sender_balance E k a r st = (x, st')"
  show "chain_inv E st'"
  proof (cases "st' = st")
    case False
    with * obtain ac e e' y where e: "echange_computable (ce_curve E) e = (y, e')" "st' = put_echange k a e' ac st"
      and ac: "map_of (cs_accounts st) k = Some ac \<or> map_of (cs_accounts st) k = None \<and> ca_assets ac = []"
      and ce: "chain_echange_of st k a = Some e \<or> create_sender_echange E k a r = Inr e"
      by (cases "map_of (cs_accounts st) k")
         (auto simp: chain_get_sender_balance_def result_simps chain_echange_of_def dest!: create_sender_account_empty
           split: sum.splits prod.splits option.splits)
    from ce have "echange_ok E k a e" using st echange_new_ok [OF assms] by (auto simp: chain_inv_def)
    from chain_inv_echange [OF st echange_computable_ok [OF this e(1)] ac] e(2) show ?thesis by simp
  qed (use st in simp)
qed

text \<open>The two steps that charge a sender, as one: the balance that was loaded goes down by the output.\<close>

definition charge_sender ::
  "('p, 's, 'r, 'o, 't, 'env) chain_env \<Rightarrow> compressed_public_key \<Rightarrow> hash \<Rightarrow> 'p ciphertext \<Rightarrow> 'p ciphertext \<Rightarrow>
   (('p, 'o, 'z) chain_state_scheme, blockchain_error verification_error, unit) action" where
  "charge_sender E k a ct out = abind (aupdate (chain_put_sender_balance k a ct)) (\<lambda>_.
     aerr State (chain_add_sender_output E k a out))"

lemma index_map_insert_twice [simp]: "index_map_insert k v (index_map_insert k w m) = index_map_insert k v m"
  by (induction m) auto

lemma charge_sender_state:
  assumes "map_of (cs_accounts st) k = Some ac" "map_of (ca_assets ac) a = Some e"
  shows "charge_sender E k a ct out st =
    (Inr (), put_echange k a (add_output_to_sum (ce_curve E) out (echange_set ct e)) ac st)"
  using assms
  by (simp add: charge_sender_def abind_def chain_put_sender_balance_def chain_add_sender_output_def put_echange_def
      put_chain_account_def map_of_index_map_insert aerr_def map_err_def)

lemma charge_sender_inv:
  assumes cv: "curve_laws (ce_curve E)" and st: "chain_inv E st" and b: "chain_sender_of st k a = Some b"
    and run: "charge_sender E k a (ciphertext_sub (ce_curve E) b out) out st = (r, st')"
  shows "r = Inr () \<and> chain_inv E st' \<and> cs_receiver_balances st' = cs_receiver_balances st \<and>
    spent_by E st' = (spent_by E st)(k := (spent_by E st k)(a := ciphertext_add (ce_curve E) (spent_by E st k a) out)) \<and>
    (\<forall>k' a'. (k', a') \<noteq> (k, a) \<longrightarrow> chain_echange_of st' k' a' = chain_echange_of st k' a')"
proof -
  from b obtain ac e where ac: "map_of (cs_accounts st) k = Some ac" "map_of (ca_assets ac) a = Some e"
    and e: "echange_balance e = Some b"
    by (auto simp: chain_sender_of_def chain_echange_of_def split: option.splits)
  define e' where "e' = add_output_to_sum (ce_curve E) out (echange_set (ciphertext_sub (ce_curve E) b out) e)"
  have r: "r = Inr ()" "st' = put_echange k a e' ac st"
    using run by (simp_all add: charge_sender_state [OF ac] e'_def)
  have "echange_ok E k a e" using st ac by (auto simp: chain_inv_def chain_of_account)
  from echange_charge_ok [OF cv this e, of out] have "echange_ok E k a e'" by (simp add: e'_def)
  with chain_inv_echange [OF st] ac(1) have "chain_inv E st'" by (simp add: r)
  moreover have "ec_output_sum e' = ciphertext_add (ce_curve E) (spent_by E st k a) out"
    using ac by (simp add: e'_def add_output_to_sum_def echange_set_fields spent_by_def chain_of_account)
  then have "spent_by E st' = (spent_by E st)(k := (spent_by E st k)(a := ciphertext_add (ce_curve E) (spent_by E st k a) out))"
    using ac by (auto simp: r fun_eq_iff spent_by_def chain_of_account)
  moreover have "chain_echange_of st' k' a' = chain_echange_of st k' a'" if "(k', a') \<noteq> (k, a)" for k' a'
    using that ac by (auto simp: r chain_of_account)
  ultimately show ?thesis by (simp add: r put_echange_def put_chain_account_def)
qed

lemma chain_application_simps [simp]:
  "vs_pre_verify_tx (chain_application E) = vs_pre_verify_tx (chain_verification E)"
  "vs_get_receiver_balance (chain_application E) = chain_get_receiver_balance E"
  "vs_put_receiver_balance (chain_application E) = chain_put_receiver_balance"
  "vs_get_sender_balance (chain_application E) = chain_get_sender_balance E"
  "vs_put_sender_balance (chain_application E) = chain_put_sender_balance"
  "vs_add_sender_output (chain_application E) = chain_add_sender_output E"
  "vs_update_account_nonce (chain_application E) = chain_update_account_nonce E"
  "vs_set_multisig_state (chain_application E) = chain_set_multisig_state E"
  "vs_set_contract_module (chain_application E) = chain_set_contract_module E"
  "vs_load_contract_module (chain_application E) = chain_load_contract_module E"
  "as_add_burned_coins (chain_application E) = add_burned_coins"
  "as_add_gas_fee (chain_application E) = add_gas_fee"
  "as_set_contract_outputs (chain_application E) = set_contract_outputs"
  "as_get_contract_environment_for (chain_application E) = get_contract_environment_for E"
  "as_merge_contract_changes (chain_application E) = merge_contract_changes"
  "as_remove_contract_module (chain_application E) = remove_contract_module"
  by (simp_all add: chain_application_def chain_verification_def verification_state.defs apply_state.defs)

lemma chain_inv_contract_fields [simp]:
  "chain_inv E (st\<lparr>ap_burned_supply := n\<rparr>) = chain_inv E st"
  "chain_inv E (st\<lparr>ap_outputs := outs\<rparr>) = chain_inv E st"
  "chain_inv E (st\<lparr>ap_caches := caches\<rparr>) = chain_inv E st"
  "chain_inv E (st\<lparr>ap_tracker := tracker\<rparr>) = chain_inv E st"
  "chain_inv E (st\<lparr>ap_assets := assets\<rparr>) = chain_inv E st"
  by (simp_all add: chain_inv_def chain_echange_of_def)

lemma application_preserves [intro!]:
  "preserves (chain_inv E) (chain_update_account_nonce E k n)"
  "preserves (chain_inv E) (chain_set_multisig_state E k p)"
  "preserves (chain_inv E) (chain_set_contract_module E h m)"
  "preserves (chain_inv E) (chain_load_contract_module E h)"
  "preserves (chain_inv E) (add_burned_coins n)" "preserves (chain_inv E) (add_gas_fee n)"
  "preserves (chain_inv E) (set_contract_outputs h outs)"
  "preserves (chain_inv E) (get_contract_environment_for E h deposits tx_hash)"
  "preserves (chain_inv E) (merge_contract_changes h cs)" "preserves (chain_inv E) (remove_contract_module h)"
  "preserves (chain_inv E) (chain_get_receiver_balance E k a)"
  "preserves (chain_inv E) (aupdate (chain_put_receiver_balance k a ct))"
proof -
  show "preserves (chain_inv E) (chain_update_account_nonce E k n)" "preserves (chain_inv E) (chain_set_multisig_state E k p)"
    unfolding chain_update_account_nonce_def chain_set_multisig_state_def Let_def
    by (rule internal_account_preserves; simp)+
  show "preserves (chain_inv E) (chain_set_contract_module E h m)" "preserves (chain_inv E) (chain_load_contract_module E h)"
    unfolding chain_set_contract_module_def chain_load_contract_module_def
    by (auto intro!: chain_versioned_contract_preserves preserves_aupdate simp: chain_inv_contracts)
qed (auto simp: add_burned_coins_def add_gas_fee_def set_contract_outputs_def get_contract_environment_for_def
    merge_contract_changes_def remove_contract_module_def chain_inv_contracts chain_put_receiver_inv preserves_def
    chain_get_receiver_preserves [unfolded preserves_def] split: option.splits)

lemma refund_deposits_preserves [intro!]: "preserves (chain_inv E) (refund_deposits cv (chain_application E) tx deposits ds)"
  unfolding refund_deposits_def
  by (rule preserves_for) (auto simp: refund_deposit_def split: contract_deposit.splits)

lemma handle_gas_preserves [intro!]: "preserves (chain_inv E) (handle_gas cv (chain_application E) tx used max_gas)"
  by (auto simp: handle_gas_def Let_def)

lemma invoke_contract_preserves [intro!]:
  "preserves (chain_inv E) (invoke_contract_tx cv run outs (chain_application E) tx h ds contract deposits ps max_gas invoke)"
  by (auto simp: invoke_contract_tx_def Let_def)

lemma apply_tx_preserves: "preserves (chain_inv E) (apply_tx cv run outs (chain_application E) tx h ds)"
  unfolding apply_tx_def
  by (auto simp: is_contract_available_def intro!: preserves_for split: transaction_type.splits option.splits)

text \<open>
  With a partial verification all balances are loaded and all proofs are checked before the first
  change. The balance that was loaded is still there when it is charged, as no asset has two commitments.
\<close>

abbreviation chain_extends :: "('p, 'o, 'z) chain_state_scheme \<Rightarrow> ('p, 'o, 'z) chain_state_scheme \<Rightarrow> bool" where
  "chain_extends \<equiv> extends chain_nonce_of chain_sender_of"

definition change_ready ::
  "('p, 's) curve \<Rightarrow> compressed_public_key \<Rightarrow> 'p ciphertext \<times> 'p ciphertext \<times> hash \<Rightarrow>
   ('p, 'o, 'z) chain_state_scheme \<Rightarrow> bool" where
  "change_ready cv k change st \<longleftrightarrow> (case change of (nb, out, a) \<Rightarrow>
     \<exists>b. chain_sender_of st k a = Some b \<and> nb = ciphertext_sub cv b out)"

lemma change_ready_extends: "change_ready cv k c st \<Longrightarrow> chain_extends st st' \<Longrightarrow> change_ready cv k c st'"
  unfolding change_ready_def extends_def by (auto split: prod.splits)

lemma verify_source_preserves:
  assumes "curve_laws (ce_curve E)"
  shows "preserves (chain_inv E) (verify_source_commitment V (chain_application E) tx source ts ds False cc tb)"
  using chain_get_sender_preserves [OF assms]
  by (auto simp: verify_source_commitment_def Let_def intro!: preserves_aupdate split: prod.splits)

lemma partial_step_ready:
  assumes "v_curve V = ce_curve E"
    and "partial_verify_step V (chain_application E) tx source ts ds cc (changes, tb) st = (Inr (changes', tb'), st')"
  shows "chain_extends st st' \<and> (\<exists>c. changes' = changes @ [c] \<and> snd (snd c) = sc_asset (fst cc) \<and>
    change_ready (ce_curve E) (tx_source tx) c st')"
  using assms chain_get_sender_law
  by (cases cc, cases tb)
     (fastforce simp: partial_verify_step_def verify_source_commitment_def Let_def result_simps change_ready_def)

lemma partial_loop_ready:
  assumes "v_curve V = ce_curve E"
    and "afor (partial_verify_step V (chain_application E) tx source ts ds) ccs (changes, tb) st = (Inr (changes', tb'), st')"
    and "\<forall>c \<in> set changes. change_ready (ce_curve E) (tx_source tx) c st"
  shows "map (snd \<circ> snd) changes' = map (snd \<circ> snd) changes @ map (sc_asset \<circ> fst) ccs \<and>
    (\<forall>c \<in> set changes'. change_ready (ce_curve E) (tx_source tx) c st')"
  using assms(2,3)
proof (induction ccs arbitrary: changes tb st)
  case (Cons cc ccs)
  then obtain changes1 tb1 st1 where
    1: "partial_verify_step V (chain_application E) tx source ts ds cc (changes, tb) st = (Inr (changes1, tb1), st1)" and
    2: "afor (partial_verify_step V (chain_application E) tx source ts ds) ccs (changes1, tb1) st1 = (Inr (changes', tb'), st')"
    by (auto simp: result_simps)
  from partial_step_ready [OF assms(1) 1] obtain c where c: "chain_extends st st1" "changes1 = changes @ [c]"
    "snd (snd c) = sc_asset (fst cc)" "change_ready (ce_curve E) (tx_source tx) c st1" by blast
  with Cons.prems(2) change_ready_extends have "\<forall>c \<in> set changes1. change_ready (ce_curve E) (tx_source tx) c st1"
    by (metis UnE empty_iff empty_set list.set(2) set_append insertE)
  from Cons.IH [OF 2 this] c show ?case by simp
qed simp

lemma create_sender_echange_sum:
  "create_sender_echange E k a ref = Inr e \<Longrightarrow> ec_output_sum e = ciphertext_zero (ce_curve E)"
  by (auto simp: create_sender_echange_def result_simps echange_new_def)

lemma get_sender_spent:
  assumes "chain_get_sender_balance E k a ref st = (r, st')"
  shows "spent_by E st' = spent_by E st \<and> cs_receiver_balances st' = cs_receiver_balances st"
proof (cases "st' = st")
  case False
  with assms obtain ac e e' y where e: "echange_computable (ce_curve E) e = (y, e')" "st' = put_echange k a e' ac st"
    and ac: "map_of (cs_accounts st) k = Some ac \<or> map_of (cs_accounts st) k = None \<and> ca_assets ac = []"
    and ce: "chain_echange_of st k a = Some e \<or> chain_echange_of st k a = None \<and> create_sender_echange E k a ref = Inr e"
    by (cases "map_of (cs_accounts st) k")
       (auto simp: chain_get_sender_balance_def result_simps chain_echange_of_def dest!: create_sender_account_empty
         split: sum.splits prod.splits option.splits)
  from ce have "ec_output_sum e' = spent_by E st k a"
    using echange_computable_fields(2) [OF e(1)] create_sender_echange_sum by (auto simp: spent_by_def)
  with ac show ?thesis
    by (auto simp: e(2) spent_by_def fun_eq_iff chain_of_account put_echange_def put_chain_account_def [of _ _ st]
        chain_echange_of_def map_of_index_map_insert)
qed simp

lemma apply_change_ready:
  assumes cv: "curve_laws (ce_curve E)" and st: "chain_inv E st"
    and c: "change_ready (ce_curve E) (tx_source tx) c st"
    and run: "apply_change (chain_application E) tx c u st = (r, st')"
  shows "chain_inv E st' \<and> (r = Inr () \<longrightarrow> (\<forall>c'. change_ready (ce_curve E) (tx_source tx) c' st \<longrightarrow>
    snd (snd c') \<noteq> snd (snd c) \<longrightarrow> change_ready (ce_curve E) (tx_source tx) c' st'))"
proof -
  let ?k = "tx_source tx"
  obtain nb out a where c': "c = (nb, out, a)" by (cases c)
  obtain g st1 where 1: "chain_get_sender_balance E ?k a (tx_reference tx) st = (g, st1)" by force
  with preservesD [OF chain_get_sender_preserves [OF cv] st] have st1: "chain_inv E st1" by blast
  show ?thesis
  proof (cases g)
    case (Inl e)
    with 1 st1 run show ?thesis by (auto simp: c' apply_change_def abind_def aerr_def map_err_def)
  next
    case (Inr b)
    with 1 have ext: "chain_extends st st1" using chain_get_sender_law by blast
    with c obtain b where b: "chain_sender_of st1 ?k a = Some b" "nb = ciphertext_sub (ce_curve E) b out"
      using change_ready_extends [OF c] by (auto simp: change_ready_def c')
    have "charge_sender E ?k a (ciphertext_sub (ce_curve E) b out) out st1 = (r, st')"
      using run 1 Inr by (simp add: c' apply_change_def charge_sender_def abind_def aerr_def map_err_def b(2))
    from charge_sender_inv [OF cv st1 b(1) this] have "chain_inv E st'"
      and same: "\<forall>k' a'. (k', a') \<noteq> (?k, a) \<longrightarrow> chain_echange_of st' k' a' = chain_echange_of st1 k' a'" by blast+
    moreover have "change_ready (ce_curve E) ?k c1 st'"
      if "change_ready (ce_curve E) ?k c1 st" "snd (snd c1) \<noteq> a" for c1
      using change_ready_extends [OF that(1) ext] same that(2) by (auto simp: change_ready_def chain_sender_of_def)
    ultimately show ?thesis by (auto simp: c')
  qed
qed

lemma apply_change_loop:
  assumes cv: "curve_laws (ce_curve E)" and st: "chain_inv E st"
    and cs: "\<forall>c \<in> set cs. change_ready (ce_curve E) (tx_source tx) c st" "distinct (map (snd \<circ> snd) cs)"
    and run: "afor (apply_change (chain_application E) tx) cs u st = (r, st')"
  shows "chain_inv E st'"
  using cs st run
proof (induction cs arbitrary: st u)
  case (Cons c cs)
  obtain x st1 where 1: "apply_change (chain_application E) tx c u st = (x, st1)" by force
  from apply_change_ready [OF cv Cons.prems(3) _ 1] Cons.prems(1) have st1: "chain_inv E st1"
    and keep: "x = Inr () \<Longrightarrow> (\<forall>c'. change_ready (ce_curve E) (tx_source tx) c' st \<longrightarrow>
      snd (snd c') \<noteq> snd (snd c) \<longrightarrow> change_ready (ce_curve E) (tx_source tx) c' st1)" by auto
  show ?case
  proof (cases x)
    case (Inl e)
    with Cons.prems(4) 1 st1 show ?thesis by (simp add: abind_def)
  next
    case (Inr y)
    have "\<forall>c' \<in> set cs. snd (snd c') \<noteq> snd (snd c)" using Cons.prems(2) by (auto simp: image_iff)
    then have ready: "\<forall>c' \<in> set cs. change_ready (ce_curve E) (tx_source tx) c' st1"
      using keep [OF Inr [simplified]] Cons.prems(1) by (meson list.set_intros(2))
    have "afor (apply_change (chain_application E) tx) cs y st1 = (r, st')"
      using Cons.prems(4) 1 Inr by (simp add: abind_def)
    from Cons.IH [OF ready _ st1 this] Cons.prems(2) show ?thesis by simp
  qed
qed simp

text \<open>Binding an operation of which only the result on success matters to what follows.\<close>

lemma preserves_bind_result:
  assumes "preserves I m"
    and "\<And>st x st1 r st'. I st \<Longrightarrow> m st = (Inr x, st1) \<Longrightarrow> I st1 \<Longrightarrow> f x st1 = (r, st') \<Longrightarrow> I st'"
  shows "preserves I (abind m f)"
  unfolding preserves_def
proof (intro allI impI)
  fix st r st'
  assume st: "I st" and *: "abind m f st = (r, st')"
  obtain x st1 where 1: "m st = (x, st1)" by force
  with assms(1) st have "I st1" by (rule preservesD)
  with * 1 assms(2) [OF st] show "I st'" by (cases x) (auto simp: abind_def)
qed

lemma apply_with_partial_verify_preserves:
  assumes cv: "curve_laws (ce_curve E)" "v_curve V = ce_curve E"
    and d: "distinct (map sc_asset (tx_source_commitments tx))"
  shows "preserves (chain_inv E) (apply_with_partial_verify V run outs (chain_application E) tx h)"
proof -
  let ?loop = "\<lambda>owner ts ds cms. afor (partial_verify_step V (chain_application E) tx owner ts ds)
    (zip (tx_source_commitments tx) cms)
    ([], prepare_transcript (tx_version tx) (tx_source tx) (tx_fee tx) (tx_nonce tx), batch_default (ce_curve E))"
  have loop: "preserves (chain_inv E) (?loop owner ts ds cms)" for owner ts ds cms
    by (rule preserves_for) (auto simp: partial_verify_step_def verify_source_preserves [OF cv(1)])
  have ready: "chain_inv E st'"
    if 1: "?loop owner ts ds cms st = (Inr (changes, t, b), st1)" and st1: "chain_inv E st1"
      and 2: "abind (aguard ok e) (\<lambda>_. abind (afor (apply_change (chain_application E) tx) changes ())
        (\<lambda>_. apply_tx (ce_curve E) run outs (chain_application E) tx h ds)) st1 = (r, st')"
    for st owner ts ds cms changes t b ok e st1 r st'
  proof -
    from partial_loop_ready [OF cv(2) 1]
    have c: "map (snd \<circ> snd) changes = map (sc_asset \<circ> fst) (zip (tx_source_commitments tx) cms)"
      "\<forall>c \<in> set changes. change_ready (ce_curve E) (tx_source tx) c st1" by simp_all
    have "distinct (map (snd \<circ> snd) changes)"
      unfolding c(1) by (simp add: map_map [symmetric] map_fst_zip_take take_map [symmetric] distinct_take d del: map_map)
    note loop = apply_change_loop [OF cv(1) st1 c(2) this]
    obtain x st2 where x: "afor (apply_change (chain_application E) tx) changes () st1 = (x, st2)" by force
    from loop [OF this] preservesD [OF apply_tx_preserves] 2 x st1 show ?thesis
      by (cases x; cases ok) (auto simp: abind_def)
  qed
  show ?thesis
    unfolding apply_with_partial_verify_def Let_def cv(2)
    by (intro preserves_bind preserves_pure preserves_bind_result [OF loop])
       (auto intro!: preserves_bind_result [OF loop] dest: ready split: prod.splits)
qed

section \<open>Transactions move the ledger\<close>

lemma ledger_accounts: "cs_accounts st' = cs_accounts st \<Longrightarrow> spent_by E st' = spent_by E st"
  by (simp add: spent_by_def chain_echange_of_def fun_eq_iff)

lemma ledger_senders: "same_senders F st st' \<Longrightarrow> spent_by E st' = spent_by E st"
  by (simp add: same_senders_def spent_by_def fun_eq_iff)

lemma income_receivers: "cs_receiver_balances st' = cs_receiver_balances st \<Longrightarrow> income_of E st' = income_of E st"
  by (simp add: income_of_def receiver_of_def fun_eq_iff)

lemma receiver_of_put:
  "receiver_of (put_receiver_version k a v st) k' a' = (if k' = k \<and> a' = a then Some v else receiver_of st k' a')"
  by (simp add: receiver_of_def put_receiver_version_def inner_map_def map_of_index_map_insert)

lemma receiver_of_touch:
  "receiver_of (st\<lparr>cs_receiver_balances := index_map_insert k (inner_map (cs_receiver_balances st) k)
     (cs_receiver_balances st)\<rparr>) = receiver_of st"
  by (simp add: receiver_of_def inner_map_def map_of_index_map_insert fun_eq_iff)

lemma version_computable_value:
  assumes "version_computable cv v = (Inr ct, v')"
  shows "version_value cv v = Some ct \<and> live_ciphertext (final_balance v') = Some ct"
  using assms version_value_put(2) cache_computable_live(1)
  by (fastforce simp: version_computable_def split: sum.splits)

lemma get_receiver_income:
  assumes "chain_get_receiver_balance E k a st = (Inr b, st')"
  shows "income_of E st k a = Some b \<and> (\<exists>v. receiver_of st' k a = Some v \<and> live_ciphertext (final_balance v) = Some b) \<and>
    (\<forall>k' a'. (k', a') \<noteq> (k, a) \<longrightarrow> receiver_of st' k' a' = receiver_of st k' a')"
proof -
  let ?st = "st\<lparr>cs_receiver_balances := index_map_insert k (inner_map (cs_receiver_balances st) k) (cs_receiver_balances st)\<rparr>"
  from assms obtain v v' where c: "version_computable (ce_curve E) v = (Inr b, v')" "st' = put_receiver_version k a v' ?st"
    and v: "receiver_of st k a = Some v \<or> receiver_of st k a = None \<and>
      (\<exists>fresh. st_get_new_versioned_balance (ce_storage E) k a (ce_topoheight E) = Inr (v, fresh))"
    by (auto simp: chain_get_receiver_balance_def Let_def receiver_of_def result_simps
        split: option.splits sum.splits prod.splits)
  with version_computable_value [OF c(1)] show ?thesis
    by (auto simp: receiver_of_put receiver_of_touch income_of_def last_balance_def)
qed

text \<open>Adding to what a receiver has.\<close>

lemma receive_income:
  assumes "chain_get_receiver_balance E k a st = (Inr b, st1)"
  shows "income_of E st k a = Some b \<and>
    income_of E (chain_put_receiver_balance k a ct st1) = (income_of E st)(k := (income_of E st k)(a := Some ct)) \<and>
    spent_by E (chain_put_receiver_balance k a ct st1) = spent_by E st"
proof -
  from get_receiver_income [OF assms] obtain v where i: "income_of E st k a = Some b"
    and v: "receiver_of st1 k a = Some v" "live_ciphertext (final_balance v) = Some b"
    and o: "\<forall>k' a'. (k', a') \<noteq> (k, a) \<longrightarrow> receiver_of st1 k' a' = receiver_of st k' a'" by blast
  have p: "chain_put_receiver_balance k a ct st1 =
      put_receiver_version k a (v\<lparr>final_balance := cache_set ct (final_balance v)\<rparr>) st1"
    using v(1) by (simp add: chain_put_receiver_balance_def receiver_of_def)
  have "income_of E (chain_put_receiver_balance k a ct st1) = (income_of E st)(k := (income_of E st k)(a := Some ct))"
    using o cache_set_live [OF v(2)] by (auto simp: p income_of_def receiver_of_put version_value_live fun_eq_iff)
  moreover have "spent_by E (chain_put_receiver_balance k a ct st1) = spent_by E st"
    using receiver_accounts(1) [OF assms] by (intro ledger_accounts) (simp add: receiver_accounts(2))
  ultimately show ?thesis using i by simp
qed

definition credit ::
  "('p, 's) curve \<Rightarrow> (compressed_public_key \<times> hash \<times> 'p ciphertext) list \<Rightarrow> compressed_public_key \<Rightarrow> hash \<Rightarrow> 'p ciphertext" where
  "credit cv ps k a = ct_sum cv (map (snd \<circ> snd) (filter (\<lambda>(k', a', _). k' = k \<and> a' = a) ps))"

lemma ledger_receive:
  assumes cv: "curve_laws (ce_curve E)" and "chain_get_receiver_balance E k a st = (Inr b, st1)"
  shows "ledger E (chain_put_receiver_balance k a (ciphertext_add (ce_curve E) b ct) st1) k' a' =
    map_option (\<lambda>b. ciphertext_add (ce_curve E) b (credit (ce_curve E) [(k, a, ct)] k' a')) (ledger E st k' a')"
  using receive_income [OF assms(2), of "ciphertext_add (ce_curve E) b ct"]
  by (auto simp: ledger_def credit_def ct_add_rules [OF cv] ct_sub_rules(3) [OF cv] option.map_comp comp_def option.map_ident)

lemma abindE:
  assumes "abind m f st = (Inr y, st')"
  obtains x st1 where "m st = (Inr x, st1)" "f x st1 = (Inr y, st')"
  using assms unfolding abind_Inr by blast

lemma abind_run: "m st = (Inr x, st1) \<Longrightarrow> abind m f st = f x st1"
  by (simp add: abind_def)

lemma aerr_run: "m st = (Inr x, st1) \<Longrightarrow> aerr f m st = (Inr x, st1)"
  by (simp add: aerr_def)

lemma abind_return [simp]: "abind m areturn = m"
  by (simp add: abind_def fun_eq_iff split: prod.splits sum.splits)

lemma afor_ConsE:
  assumes "afor f (x # xs) acc st = (Inr y, st')"
  obtains acc1 st1 where "f x acc st = (Inr acc1, st1)" "afor f xs acc1 st1 = (Inr y, st')"
  using assms unfolding afor.simps abind_Inr by blast

text \<open>What is collected while the proofs are checked: the output of every commitment, and nothing is charged yet.\<close>

lemma partial_step_output:
  assumes V: "v_curve V = ce_curve E"
    and run: "partial_verify_step V (chain_application E) tx source ts ds cc (changes, tb) st = (Inr (changes', tb'), st')"
  shows "spent_by E st' = spent_by E st \<and> cs_receiver_balances st' = cs_receiver_balances st \<and>
    (\<exists>nb out. changes' = changes @ [(nb, out, sc_asset (fst cc))] \<and> get_sender_output_ct (ce_curve E) tx (sc_asset (fst cc)) ts ds = Inr out)"
proof -
  from run obtain out balance where
    "get_sender_output_ct (ce_curve E) tx (sc_asset (fst cc)) ts ds = Inr out"
    "chain_get_sender_balance E (tx_source tx) (sc_asset (fst cc)) (tx_reference tx) st = (Inr balance, st')"
    "\<exists>nb. changes' = changes @ [(nb, out, sc_asset (fst cc))]"
    by (cases cc, cases tb) (fastforce simp: partial_verify_step_def verify_source_commitment_def Let_def result_simps V)
  with get_sender_spent show ?thesis by blast
qed

lemma partial_loop_outputs:
  assumes V: "v_curve V = ce_curve E"
    and "afor (partial_verify_step V (chain_application E) tx source ts ds) ccs (changes, tb) st = (Inr (changes', tb'), st')"
    and "\<forall>(nb, out, a) \<in> set changes. get_sender_output_ct (ce_curve E) tx a ts ds = Inr out"
  shows "spent_by E st' = spent_by E st \<and> cs_receiver_balances st' = cs_receiver_balances st \<and>
    (\<forall>(nb, out, a) \<in> set changes'. get_sender_output_ct (ce_curve E) tx a ts ds = Inr out)"
  using assms(2,3)
proof (induction ccs arbitrary: changes tb st)
  case (Cons cc ccs)
  from Cons.prems(1) obtain acc1 st1 where 1: "partial_verify_step V (chain_application E) tx source ts ds cc (changes, tb) st = (Inr acc1, st1)"
    and 2: "afor (partial_verify_step V (chain_application E) tx source ts ds) ccs acc1 st1 = (Inr (changes', tb'), st')"
    by (rule afor_ConsE)
  obtain changes1 tb1 where acc1: "acc1 = (changes1, tb1)" by (rule prod.exhaust)
  note o = partial_step_output [OF V 1 [unfolded acc1]]
  then have "\<forall>(nb, out, a) \<in> set changes1. get_sender_output_ct (ce_curve E) tx a ts ds = Inr out"
    using Cons.prems(2) by auto
  from Cons.IH [OF 2 [unfolded acc1] this] o show ?case by simp
qed simp

lemma apply_change_spent:
  assumes cv: "curve_laws (ce_curve E)" and st: "chain_inv E st"
    and c: "change_ready (ce_curve E) (tx_source tx) (nb, out, a) st"
    and run: "apply_change (chain_application E) tx (nb, out, a) u st = (Inr u', st')"
  shows "cs_receiver_balances st' = cs_receiver_balances st \<and>
    spent_by E st' = (spent_by E st)(tx_source tx := (spent_by E st (tx_source tx))
      (a := ciphertext_add (ce_curve E) (spent_by E st (tx_source tx) a) out))"
proof -
  let ?k = "tx_source tx"
  from run obtain b st1 where 1: "chain_get_sender_balance E ?k a (tx_reference tx) st = (Inr b, st1)"
    and 2: "charge_sender E ?k a nb out st1 = (Inr u', st')"
    by (auto simp: apply_change_def charge_sender_def result_simps)
  have st1: "chain_inv E st1" using preservesD [OF chain_get_sender_preserves [OF cv] st 1] .
  have "change_ready (ce_curve E) ?k (nb, out, a) st1"
    using chain_get_sender_law [OF 1] change_ready_extends [OF c] by blast
  then obtain b' where b: "chain_sender_of st1 ?k a = Some b'" "nb = ciphertext_sub (ce_curve E) b' out"
    by (auto simp: change_ready_def)
  from charge_sender_inv [OF cv st1 b(1) 2 [unfolded b(2)]] get_sender_spent [OF 1] show ?thesis by metis
qed

lemma apply_changes_spent:
  assumes cv: "curve_laws (ce_curve E)" and d: "distinct (map fst (tx_deposits tx))"
    and cs: "\<forall>c \<in> set cs. change_ready (ce_curve E) (tx_source tx) c st" "distinct (map (snd \<circ> snd) cs)"
    and outs: "\<forall>(nb, out, a) \<in> set cs. get_sender_output_ct (ce_curve E) tx a ts ds = Inr out"
    and st: "chain_inv E st" and run: "afor (apply_change (chain_application E) tx) cs u st = (Inr u', st')"
  shows "cs_receiver_balances st' = cs_receiver_balances st \<and>
    (\<forall>k a. spent_by E st' k a = (if k = tx_source tx \<and> a \<in> snd ` snd ` set cs
       then ciphertext_add (ce_curve E) (spent_by E st k a) (spent_of (ce_curve E) a (spendings (ce_curve E) tx ts ds))
       else spent_by E st k a))"
  using cs outs st run
proof (induction cs arbitrary: st u)
  case (Cons c cs)
  obtain nb out a where c: "c = (nb, out, a)" by (cases c)
  from Cons.prems(5) obtain u1 st1 where 1: "apply_change (chain_application E) tx c u st = (Inr u1, st1)"
    and 2: "afor (apply_change (chain_application E) tx) cs u1 st1 = (Inr u', st')" by (rule afor_ConsE)
  have rc: "change_ready (ce_curve E) (tx_source tx) c st" using Cons.prems(1) by simp
  from apply_change_ready [OF cv Cons.prems(4) rc 1] have st1: "chain_inv E st1"
    and keep: "\<forall>c'. change_ready (ce_curve E) (tx_source tx) c' st \<longrightarrow> snd (snd c') \<noteq> snd (snd c) \<longrightarrow>
      change_ready (ce_curve E) (tx_source tx) c' st1" by auto
  have na: "a \<notin> snd ` snd ` set cs" using Cons.prems(2) by (auto simp: c image_iff)
  then have ready: "\<forall>c' \<in> set cs. change_ready (ce_curve E) (tx_source tx) c' st1"
    using keep Cons.prems(1) by (auto simp: c image_iff)
  have out: "out = spent_of (ce_curve E) a (spendings (ce_curve E) tx ts ds)"
    using Cons.prems(3) get_sender_output_spent [OF cv d] by (auto simp: c)
  note s = apply_change_spent [OF cv Cons.prems(4) rc [unfolded c] 1 [unfolded c]]
  from Cons.IH [OF ready _ _ st1 2] Cons.prems(2,3) s na out show ?case by (auto simp: c)
qed simp

lemma apply_with_partial_verifyE:
  assumes cv: "curve_laws (ce_curve E)" "v_curve V = ce_curve E" and st: "chain_inv E st"
    and d: "distinct (map fst (tx_deposits tx))" "distinct (map sc_asset (tx_source_commitments tx))"
    and run: "apply_with_partial_verify V run outs (chain_application E) tx h st = (Inr u, st')"
  obtains ts ds st1 where "decompress_tx (ce_curve E) tx = Inr (ts, ds)"
    "apply_tx (ce_curve E) run outs (chain_application E) tx h ds st1 = (Inr u, st')"
    "cs_receiver_balances st1 = cs_receiver_balances st"
    "\<And>k a. spent_by E st1 k a = (if k = tx_source tx \<and> a \<in> sc_asset ` set (tx_source_commitments tx)
       then ciphertext_add (ce_curve E) (spent_by E st k a) (spent_of (ce_curve E) a (spendings (ce_curve E) tx ts ds))
       else spent_by E st k a)"
proof -
  let ?loop = "\<lambda>owner ts ds cms. afor (partial_verify_step V (chain_application E) tx owner ts ds)
    (zip (tx_source_commitments tx) cms)
    ([], prepare_transcript (tx_version tx) (tx_source tx) (tx_fee tx) (tx_nonce tx), batch_default (ce_curve E))"
  from run obtain ts ds cms owner changes t b st1 st2 u2 where
    dec: "decompress_tx (ce_curve E) tx = Inr (ts, ds)" and cms: "decompress_commitments (ce_curve E) (tx_source_commitments tx) = Inr cms"
    and 1: "?loop owner ts ds cms st = (Inr (changes, t, b), st1)"
    and 2: "afor (apply_change (chain_application E) tx) changes () st1 = (Inr u2, st2)"
    and 3: "apply_tx (ce_curve E) run outs (chain_application E) tx h ds st2 = (Inr u, st')"
    unfolding apply_with_partial_verify_def Let_def cv(2) by (force simp: result_simps split: if_splits)
  have st1: "chain_inv E st1"
    using 1 by (rule preservesD [rotated 2]) (use st in \<open>auto intro!: preserves_for simp: partial_verify_step_def verify_source_preserves [OF cv(1)]\<close>)
  from partial_loop_ready [OF cv(2) 1]
  have assets: "map (snd \<circ> snd) changes = map sc_asset (tx_source_commitments tx)"
    and ready: "\<forall>c \<in> set changes. change_ready (ce_curve E) (tx_source tx) c st1"
    using length_decompress_commitments [OF cms] by (simp_all add: map_map [symmetric] del: map_map)
  from partial_loop_outputs [OF cv(2) 1] have same: "spent_by E st1 = spent_by E st" "cs_receiver_balances st1 = cs_receiver_balances st"
    and outs: "\<forall>(nb, out, a) \<in> set changes. get_sender_output_ct (ce_curve E) tx a ts ds = Inr out" by simp_all
  have "snd ` snd ` set changes = sc_asset ` set (tx_source_commitments tx)"
    using arg_cong [OF assets, of set] by (simp add: image_comp)
  with apply_changes_spent [OF cv(1) d(1) ready _ outs st1 2] d(2) assets same show thesis
    by (intro that [OF dec 3]) simp_all
qed

text \<open>What a transfer adds to its destinations.\<close>

definition tx_credits ::
  "('s, 'r, 'o) transaction \<Rightarrow> 'p decompressed_ct list \<Rightarrow> (compressed_public_key \<times> hash \<times> 'p ciphertext) list" where
  "tx_credits tx ts = (case tx_data tx of
     Transfers xs \<Rightarrow> map (\<lambda>(x, d). (tr_destination x, tr_asset x, d_get_ciphertext d Receiver)) (zip xs ts) | _ \<Rightarrow> [])"

lemma credit_Cons:
  "curve_laws cv \<Longrightarrow> credit cv (p # ps) k a = ciphertext_add cv (credit cv [p] k a) (credit cv ps k a)"
  by (auto simp: credit_def ct_add_rules)

lemma decompress_transfer_receiver:
  assumes "decompress_transfer cv x = Inr d"
  shows "ciphertext_decompress cv (tr_get_ciphertext x Receiver) = Inr (d_get_ciphertext d Receiver)"
  using assms
  by (auto simp: decompress_transfer_def decompress_ct_def ciphertext_decompress_def tr_get_ciphertext_def result_simps
      d_get_ciphertext_def)

lemma transfer_loop_ledger:
  assumes cv: "curve_laws (ce_curve E)"
    and "decompress_transfers (ce_curve E) xs = Inr ts"
    and "afor (\<lambda>x _. abind (aerr State (chain_get_receiver_balance E (tr_destination x) (tr_asset x))) (\<lambda>balance.
       abind (alift (map_err f (ciphertext_decompress (ce_curve E) (tr_get_ciphertext x Receiver)))) (\<lambda>ct.
       aupdate (chain_put_receiver_balance (tr_destination x) (tr_asset x) (ciphertext_add (ce_curve E) balance ct)))))
       xs u st = (Inr u', st')"
  shows "ledger E st' k a = map_option (\<lambda>b. ciphertext_add (ce_curve E) b (credit (ce_curve E)
    (map (\<lambda>(x, d). (tr_destination x, tr_asset x, d_get_ciphertext d Receiver)) (zip xs ts)) k a)) (ledger E st k a)"
  using assms(2,3)
proof (induction xs arbitrary: ts st u)
  case Nil
  then show ?case by (simp add: credit_def ct_add_rules [OF cv] option.map_ident)
next
  case (Cons x xs)
  let ?p = "\<lambda>x. \<lambda>d. (tr_destination x, tr_asset x, d_get_ciphertext d Receiver)"
  obtain d ds where ts: "ts = d # ds" "decompress_transfers (ce_curve E) xs = Inr ds"
    and x: "decompress_transfer (ce_curve E) x = Inr d" using Cons.prems(1) by (auto simp: result_simps)
  from Cons.prems(2) obtain u1 st2 where
    step: "abind (aerr State (chain_get_receiver_balance E (tr_destination x) (tr_asset x))) (\<lambda>balance.
       abind (alift (map_err f (ciphertext_decompress (ce_curve E) (tr_get_ciphertext x Receiver)))) (\<lambda>ct.
       aupdate (chain_put_receiver_balance (tr_destination x) (tr_asset x) (ciphertext_add (ce_curve E) balance ct))))
       st = (Inr u1, st2)" and
    2: "afor (\<lambda>x _. abind (aerr State (chain_get_receiver_balance E (tr_destination x) (tr_asset x))) (\<lambda>balance.
       abind (alift (map_err f (ciphertext_decompress (ce_curve E) (tr_get_ciphertext x Receiver)))) (\<lambda>ct.
       aupdate (chain_put_receiver_balance (tr_destination x) (tr_asset x) (ciphertext_add (ce_curve E) balance ct)))))
       xs u1 st2 = (Inr u', st')"
    by (rule afor_ConsE)
  from step obtain b st1 where 1: "chain_get_receiver_balance E (tr_destination x) (tr_asset x) st = (Inr b, st1)"
    and st2: "st2 = chain_put_receiver_balance (tr_destination x) (tr_asset x)
      (ciphertext_add (ce_curve E) b (d_get_ciphertext d Receiver)) st1"
    using decompress_transfer_receiver [OF x] by (auto simp: result_simps map_err_def)
  have "ledger E st2 k a = map_option (\<lambda>b. ciphertext_add (ce_curve E) b
      (credit (ce_curve E) [?p x d] k a)) (ledger E st k a)"
    using ledger_receive [OF cv 1, of "d_get_ciphertext d Receiver" k a] by (simp only: st2)
  with Cons.IH [OF ts(2) 2] show ?case
    by (simp add: ts(1) credit_Cons [OF cv, of "?p x d" "map _ _"] option.map_comp comp_def ct_add_rules [OF cv])
qed

text \<open>The payloads that do not run a contract.\<close>

definition plain_payload :: "('s, 'r, 'o) transaction \<Rightarrow> bool" where
  "plain_payload tx = (case tx_data tx of Transfers _ \<Rightarrow> True | Burn _ \<Rightarrow> True | MultiSig _ \<Rightarrow> True | _ \<Rightarrow> False)"

lemma internal_account_ledger:
  assumes "abind (get_internal_account E k) (\<lambda>a. aupdate (put_chain_account k (f a))) st = (Inr u, st')"
    and "\<And>a. ca_assets (f a) = ca_assets a"
  shows "ledger E st' = ledger E st"
proof -
  from assms(1) obtain a st1 where 1: "get_internal_account E k st = (Inr a, st1)" and st': "st' = put_chain_account k (f a) st1"
    by (auto simp: result_simps)
  have s: "same_senders E st st1" "map_of (cs_accounts st1) k = Some a" using get_internal_account_senders [OF 1] by blast+
  have "chain_echange_of st' = chain_echange_of st1"
    using s(2) assms(2) by (simp add: st' chain_of_account fun_eq_iff)
  with ledger_senders [OF s(1), of E] have "spent_by E st' = spent_by E st" by (simp add: spent_by_def fun_eq_iff)
  moreover have "cs_receiver_balances st' = cs_receiver_balances st"
    using 1 by (auto simp: st' get_internal_account_def put_chain_account_def split: option.splits sum.splits)
  ultimately show ?thesis using income_receivers [of st' st E] by (simp add: ledger_def fun_eq_iff)
qed

lemma apply_tx_ledger:
  assumes cv: "curve_laws (ce_curve E)" and p: "plain_payload tx"
    and ts: "decompress_tx (ce_curve E) tx = Inr (ts, ds)"
    and run: "apply_tx (ce_curve E) run outs (chain_application E) tx h ds st = (Inr u, st')"
  shows "ledger E st' k a =
    map_option (\<lambda>b. ciphertext_add (ce_curve E) b (credit (ce_curve E) (tx_credits tx ts) k a)) (ledger E st k a)"
proof -
  let ?case = "\<lambda>d. case d of
       Transfers ts \<Rightarrow> afor (\<lambda>x _.
         abind (aerr State (chain_get_receiver_balance E (tr_destination x) (tr_asset x))) (\<lambda>balance.
         abind (alift (map_err (Proof \<circ> Decompression) (ciphertext_decompress (ce_curve E) (tr_get_ciphertext x Receiver)))) (\<lambda>ct.
         aupdate (chain_put_receiver_balance (tr_destination x) (tr_asset x) (ciphertext_add (ce_curve E) balance ct))))) ts ()
     | Burn p \<Rightarrow> if burn_asset p = XELIS_ASSET then aerr State (add_burned_coins (burn_amount p)) else areturn ()
     | MultiSig p \<Rightarrow> aerr State (chain_set_multisig_state E (tx_source tx) p)"
  from run obtain u1 st1 where 0: "aerr State (chain_update_account_nonce E (tx_source tx) (tx_nonce tx + 1)) st = (Inr u1, st1)"
    and 2: "?case (tx_data tx) st1 = (Inr u, st')"
    unfolding apply_tx_def chain_application_simps using p
    by (rule_tac abindE) (auto simp: plain_payload_def split: transaction_type.splits)
  have l: "ledger E st1 = ledger E st"
    using 0 unfolding chain_update_account_nonce_def aerr_Inr by (rule internal_account_ledger) simp
  show ?thesis
  proof (cases "tx_data tx")
    case (Transfers xs)
    with ts have "decompress_transfers (ce_curve E) xs = Inr ts" by (auto simp: decompress_tx_def result_simps)
    from transfer_loop_ledger [OF cv this 2 [unfolded Transfers transaction_type.case]] Transfers l show ?thesis
      by (simp add: tx_credits_def)
  next
    case (Burn b)
    then have "ledger E st' = ledger E st1"
      using 2 by (auto simp: add_burned_coins_def result_simps ledger_def income_of_def receiver_of_def spent_by_def
          chain_echange_of_def fun_eq_iff split: if_splits)
    with Burn l show ?thesis by (simp add: tx_credits_def credit_def ct_add_rules [OF cv] option.map_ident)
  next
    case (MultiSig m)
    have "ledger E st' = ledger E st1"
      using 2 unfolding MultiSig transaction_type.case aerr_Inr chain_set_multisig_state_def Let_def
      by (rule internal_account_ledger) simp
    with MultiSig l show ?thesis by (simp add: tx_credits_def credit_def ct_add_rules [OF cv] option.map_ident)
  qed (use p in \<open>simp_all add: plain_payload_def\<close>)
qed

lemma uncovered_spent:
  assumes "plain_payload tx" "verify_commitment_assets tx" "a \<notin> sc_asset ` set (tx_source_commitments tx)"
  shows "spent_of cv a (spendings cv tx ts ds) = ciphertext_zero cv"
proof -
  have "\<forall>e \<in> set (spendings cv tx ts ds). fst e \<in> sc_asset ` set (tx_source_commitments tx)"
    using assms(1,2)
    by (cases "tx_data tx")
       (auto simp: plain_payload_def spendings_def verify_commitment_assets_def covered_assets list_all_iff dest: set_zip_leftD)
  with assms(3) have "filter (\<lambda>e. fst e = a) (spendings cv tx ts ds) = []" by (auto simp: filter_empty_conv)
  then show ?thesis by (simp add: spent_of_def)
qed

lemma apply_with_partial_verify_ledger:
  assumes cv: "curve_laws (ce_curve E)" "v_curve V = ce_curve E" and st: "chain_inv E st"
    and p: "plain_payload tx" and a: "verify_commitment_assets tx"
    and run: "apply_with_partial_verify V run outs (chain_application E) tx h st = (Inr u, st')"
  shows "\<exists>ts ds. decompress_tx (ce_curve E) tx = Inr (ts, ds) \<and> (\<forall>key asset. ledger E st' key asset =
    map_option (\<lambda>b. ciphertext_add (ce_curve E)
      (ciphertext_sub (ce_curve E) b (if key = tx_source tx then spent_of (ce_curve E) asset (spendings (ce_curve E) tx ts ds)
         else ciphertext_zero (ce_curve E)))
      (credit (ce_curve E) (tx_credits tx ts) key asset)) (ledger E st key asset))"
proof -
  have d: "distinct (map fst (tx_deposits tx))"
    using p by (auto simp: tx_deposits_def plain_payload_def split: transaction_type.splits)
  have cs: "distinct (map sc_asset (tx_source_commitments tx))" using a by (simp add: verify_commitment_assets_def)
  from apply_with_partial_verifyE [OF cv st d cs run] obtain ts ds st1 where
    ts: "decompress_tx (ce_curve E) tx = Inr (ts, ds)" and 2: "apply_tx (ce_curve E) run outs (chain_application E) tx h ds st1 = (Inr u, st')"
    and r: "cs_receiver_balances st1 = cs_receiver_balances st"
    and s: "\<And>k a. spent_by E st1 k a = (if k = tx_source tx \<and> a \<in> sc_asset ` set (tx_source_commitments tx)
       then ciphertext_add (ce_curve E) (spent_by E st k a) (spent_of (ce_curve E) a (spendings (ce_curve E) tx ts ds))
       else spent_by E st k a)" by blast
  let ?out = "\<lambda>key asset. if key = tx_source tx then spent_of (ce_curve E) asset (spendings (ce_curve E) tx ts ds)
    else ciphertext_zero (ce_curve E)"
  have "spent_by E st1 key asset = ciphertext_add (ce_curve E) (spent_by E st key asset) (?out key asset)" for key asset
    by (auto simp: s ct_add_rules [OF cv(1)] uncovered_spent [OF p a])
  with r have "ledger E st1 key asset = map_option (\<lambda>b. ciphertext_sub (ce_curve E) b (?out key asset)) (ledger E st key asset)"
    for key asset
    by (simp add: ledger_def income_receivers [of st1 st] option.map_comp comp_def ct_sub_rules(2) [OF cv(1)])
  with apply_tx_ledger [OF cv(1) p ts 2] ts show ?thesis by (auto simp: option.map_comp comp_def)
qed

text \<open>
  C2: executing a transaction in a block moves the ledger by what the transaction says. A transfer, a burn
  or a multisig setup that is executed with its equality proofs checked again takes from its source what it
  spends in each asset, once, and adds to the destination of each transfer the ciphertext made for it;
  no other balance changes. This does not depend on which of the caches hold the balances, nor on the
  version of the balance that the proofs were checked against.
\<close>

theorem transaction_moves_ledger:
  assumes cv: "curve_laws (ce_curve E)" "v_curve V = ce_curve E" and st: "chain_inv E st"
    and p: "plain_payload tx" and a: "verify_commitment_assets tx"
    and run: "apply_with_partial_verify V run outs (chain_application E) tx h st = (Inr u, st')"
  shows "\<exists>ts ds. decompress_tx (ce_curve E) tx = Inr (ts, ds) \<and> (\<forall>key asset. ledger E st' key asset =
    map_option (\<lambda>b. ciphertext_add (ce_curve E)
      (ciphertext_sub (ce_curve E) b (if key = tx_source tx then spent_of (ce_curve E) asset (spendings (ce_curve E) tx ts ds)
         else ciphertext_zero (ce_curve E)))
      (credit (ce_curve E) (tx_credits tx ts) key asset)) (ledger E st key asset))"
  using assms by (rule apply_with_partial_verify_ledger)

text \<open>An empty state over a storage where every balance is zero, in which one unit is burned.\<close>

definition sample_chain :: "nonce \<Rightarrow> (bool, bool, u8 list, hash, nat, unit) chain_env" where
  "sample_chain n = \<lparr>ce_curve = two_curve, ce_libs = sample_libs, ce_storage = sample_storage n, ce_environment = (),
     ce_topoheight = 10, ce_block_version = BlockV2\<rparr>"

abbreviation no_vm :: "'cs \<Rightarrow> invoke_contract \<Rightarrow> hash value_cell list \<Rightarrow> u64 \<Rightarrow> unit + 'cs vm_outcome" where
  "no_vm cs invoke ps max_gas \<equiv> Inl ()"

lemma chain_inv_new: "chain_inv E (applicable_new burned h)"
  by (simp add: chain_inv_def applicable_new_def chain_echange_of_def)

lemma sample_burn_plain: "plain_payload (sample_burn n)" "verify_commitment_assets (sample_burn n)"
  by (simp_all add: plain_payload_def sample_burn_simps verify_commitment_assets_def has_commitment_for_asset_def XELIS_ASSET_def)

lemma sample_chain_balance:
  "\<exists>st. chain_get_sender_balance (sample_chain n) (replicate 32 1) hash_zero \<lparr>ref_hash = hash_zero, ref_topoheight = 5\<rparr>
     (applicable_new burned h :: (bool, hash) applicable_state) = (Inr (ciphertext_zero two_curve), st)"
  by (simp add: chain_get_sender_balance_def applicable_new_def create_sender_account_def create_sender_echange_def
      sample_chain_def sample_storage_def search_versioned_balance_for_reference_def reference_block_topo_def
      find_version_def echange_computable_def echange_get_balance_def echange_new_def select_balance_def
      versioned_balance_zero_def versioned_balance_new_def)

lemma charge_sender_runs:
  assumes "chain_sender_of st k a = Some b"
  shows "\<exists>st' ac. charge_sender E k a ct out st = (Inr (), st') \<and> map_of (cs_accounts st') k = Some ac"
  using assms charge_sender_state [of st k _ a _ E ct out]
  by (fastforce simp: chain_sender_of_def chain_echange_of_def put_echange_def put_chain_account_def map_of_index_map_insert
      split: option.splits)

lemma chain_get_again:
  assumes "chain_sender_of st k a = Some b"
  shows "\<exists>st'. chain_get_sender_balance E k a r st = (Inr b, st')"
proof -
  from assms obtain ac e where ac: "map_of (cs_accounts st) k = Some ac" "map_of (ca_assets ac) a = Some e" "echange_balance e = Some b"
    by (auto simp: chain_sender_of_def chain_echange_of_def split: option.splits)
  obtain c used e1 where g: "echange_get_balance e = ((c, used), e1)" by (metis surj_pair)
  with ac(3) have "\<exists>e'. echange_computable (ce_curve E) e = (Inr b, e')"
    by (cases c) (auto simp: echange_balance_def echange_computable_def)
  with ac(1,2) show ?thesis by (auto simp: chain_get_sender_balance_def map_err_def)
qed

lemma sample_partial_step:
  assumes "chain_get_sender_balance (sample_chain n) (replicate 32 1) hash_zero \<lparr>ref_hash = hash_zero, ref_topoheight = 5\<rparr> st =
    (Inr (ciphertext_zero two_curve), st1)"
  shows "\<exists>t' b. partial_verify_step sample_verifier (chain_application (sample_chain n)) (sample_burn n) True [] []
      (\<lparr>sc_commitment = replicate 32 0, sc_proof = sample_eq_proof, sc_asset = hash_zero\<rparr>, False) ([], t, batch_default two_curve) st =
    (Inr ([(\<lparr>commitment = True, handle = False\<rparr>, \<lparr>commitment = True, handle = False\<rparr>, hash_zero)], t', b), st1) \<and>
    batch_verify two_curve b = Some True"
proof -
  have V: "lib_curve sample_libs = two_curve" "v_libs sample_verifier = sample_libs" "v_merlin sample_verifier = sample_merlin"
    "v_batch_factor sample_verifier t = True" for t
    by (simp_all add: sample_verifier_def sample_libs_def)
  let ?b = "\<lparr>dynamic_scalars = [False, True, False, True, True, True, True],
     dynamic_points = [True, True, False, True, True, False, True], g_scalar = False, h_scalar = False\<rparr>"
  have "batch_verify two_curve ?b = Some True"
    by (simp add: batch_verify_def multiscalar_mul_def two_curve_def)
  moreover have "\<exists>t'. partial_verify_step sample_verifier (chain_application (sample_chain n)) (sample_burn n) True [] []
      (\<lparr>sc_commitment = replicate 32 0, sc_proof = sample_eq_proof, sc_asset = hash_zero\<rparr>, False) ([], t, batch_default two_curve) st =
    (Inr ([(\<lparr>commitment = True, handle = False\<rparr>, \<lparr>commitment = True, handle = False\<rparr>, hash_zero)], t', ?b), st1)"
    using sample_eq_verify assms
    by (simp add: partial_verify_step_def verify_source_commitment_def result_simps V sample_output sample_burn_simps
        Let_def sample_new_balance)
  ultimately show ?thesis by blast
qed

lemma sample_burn_executes:
  "\<exists>st'. apply_with_partial_verify sample_verifier no_vm ct_outputs (chain_application (sample_chain n)) (sample_burn n) hash_zero
     (applicable_new 0 hash_zero) = (Inr (), st')"
proof -
  let ?out = "\<lparr>commitment = True, handle = False\<rparr> :: bool ciphertext" and ?k = "replicate 32 1 :: u8 list"
  let ?ref = "\<lparr>ref_hash = hash_zero, ref_topoheight = 5\<rparr>" and ?E = "sample_chain n"
  obtain st1 :: "(bool, hash) applicable_state" where 1: "chain_get_sender_balance ?E ?k hash_zero ?ref (applicable_new 0 hash_zero) =
      (Inr (ciphertext_zero two_curve), st1)"
    using sample_chain_balance by blast
  then have b1: "chain_sender_of st1 ?k hash_zero = Some (ciphertext_zero two_curve)" using chain_get_sender_law by blast
  obtain st2 where 2: "chain_get_sender_balance ?E ?k hash_zero ?ref st1 = (Inr (ciphertext_zero two_curve), st2)"
    using chain_get_again [OF b1] by blast
  then have "chain_sender_of st2 ?k hash_zero = Some (ciphertext_zero two_curve)" using chain_get_sender_law by blast
  then obtain st3 ac where 3: "charge_sender ?E ?k hash_zero ?out ?out st2 = (Inr (), st3)" and ac: "map_of (cs_accounts st3) ?k = Some ac"
    using charge_sender_runs by blast
  obtain st4 where 4: "chain_update_account_nonce ?E ?k (n + 1) st3 = (Inr (), st4)"
    using ac by (simp add: chain_update_account_nonce_def get_internal_account_def abind_def)
  have pt: "point_decompress two_curve ?k = Inr True" "point_decompress two_curve (replicate 32 0) = Inr False"
    using replicate_32_neq by (simp_all add: point_decompress_def two_curve_def)
  have V: "lib_curve sample_libs = two_curve" "v_libs sample_verifier = sample_libs" by (simp_all add: sample_verifier_def sample_libs_def)
  obtain t' b where p: "partial_verify_step sample_verifier (chain_application ?E) (sample_burn n) True [] []
      (\<lparr>sc_commitment = replicate 32 0, sc_proof = sample_eq_proof, sc_asset = hash_zero\<rparr>, False)
      ([], prepare_transcript TxV1 ?k 1000000 n, batch_default two_curve) (applicable_new 0 hash_zero) =
      (Inr ([(?out, ?out, hash_zero)], t', b), st1)" "batch_verify two_curve b = Some True"
    using sample_partial_step [OF 1] by blast
  have c: "apply_change (chain_application ?E) (sample_burn n) (?out, ?out, hash_zero) () st1 = (Inr (), st3)"
    using 2 3 by (simp add: apply_change_def charge_sender_def sample_burn_simps abind_run aerr_run)
  have d: "decompress_tx two_curve (sample_burn n) = Inr ([], [])" by (simp add: decompress_tx_def sample_burn_simps)
  show ?thesis
    unfolding apply_with_partial_verify_def apply_tx_def
    by (simp add: V d pt p c 4 sample_burn_simps abind_run aerr_run XELIS_ASSET_def add_burned_coins_def)
qed

theorem transaction_moves_ledger_witness:
  "\<exists>st'. apply_with_partial_verify sample_verifier no_vm ct_outputs (chain_application (sample_chain 7)) (sample_burn 7) hash_zero
      (applicable_new 0 hash_zero) = (Inr (), st') \<and>
    ledger (sample_chain 7) (applicable_new 0 hash_zero :: (bool, hash) applicable_state) (replicate 32 1) hash_zero =
      Some (ciphertext_zero two_curve) \<and>
    ledger (sample_chain 7) st' (replicate 32 1) hash_zero = Some \<lparr>commitment = True, handle = False\<rparr>"
proof -
  let ?E = "sample_chain 7" and ?st = "applicable_new 0 hash_zero :: (bool, hash) applicable_state"
  have E: "ce_curve ?E = two_curve" by (simp add: sample_chain_def)
  have V: "v_curve sample_verifier = two_curve" by (simp add: sample_verifier_def sample_libs_def)
  obtain st' where run: "apply_with_partial_verify sample_verifier no_vm ct_outputs (chain_application ?E) (sample_burn 7) hash_zero ?st = (Inr (), st')"
    using sample_burn_executes by blast
  have 0: "ledger ?E ?st (replicate 32 1) hash_zero = Some (ciphertext_zero two_curve)"
    by (simp add: ledger_def income_of_def receiver_of_def spent_by_def chain_echange_of_def applicable_new_def inner_map_def
        last_balance_def sample_chain_def sample_storage_def versioned_balance_zero_def versioned_balance_new_def version_value_def
        ciphertext_sub_def ciphertext_zero_def two_curve_def)
  have "spent_of two_curve hash_zero (spendings two_curve (sample_burn 7) ts ds) = \<lparr>commitment = True, handle = False\<rparr>"
    and "credit two_curve (tx_credits (sample_burn 7) ts) (replicate 32 1) hash_zero = ciphertext_zero two_curve" for ts ds
    by (simp_all add: spent_of_def spendings_def sample_burn_simps XELIS_ASSET_def plain_def two_curve_def ciphertext_add_def
        ciphertext_zero_def tx_credits_def credit_def)
  moreover note transaction_moves_ledger [of ?E, unfolded E, OF two_curve_laws V chain_inv_new sample_burn_plain run]
  ultimately have "ledger ?E st' (replicate 32 1) hash_zero = Some \<lparr>commitment = True, handle = False\<rparr>"
    by (auto simp: 0 sample_burn_simps sample_new_balance ct_add_rules [OF two_curve_laws])
  with run 0 show ?thesis by blast
qed

end
