(* ===== verification/Chain_Writes.thy ===== *)
theory Chain_Writes
  imports Chain_Ledger
begin

text \<open>
  What \<open>apply_changes\<close> writes. The storage is here the sequence of the writes made so far; what is read
  back from it is a parameter, of which one fact is used: the balances are those of the storage before
  the block as long as no balance has been written.
\<close>

section \<open>The log of writes\<close>

definition log_write :: "('p, 'o) storage_write \<Rightarrow> (('p, 'o) storage_write list, blockchain_error, unit) action" where
  "log_write w ws = (Inr (), ws @ [w])"

fun is_balance_write :: "('p, 'o) storage_write \<Rightarrow> bool" where
  "is_balance_write (SetLastBalance _ _ _ _) = True"
| "is_balance_write _ = False"

definition no_balances :: "('p, 'o) storage_write list \<Rightarrow> bool" where
  "no_balances ws \<longleftrightarrow> (\<forall>w \<in> set ws. \<not> is_balance_write w)"

definition same_balances ::
  "('p, 's, 'r, 'o, 't, 'env) chain_env \<Rightarrow> ('p, 'o) tx_storage \<Rightarrow> bool" where
  "same_balances E D \<longleftrightarrow> st_get_new_versioned_balance D = st_get_new_versioned_balance (ce_storage E)"

definition reads_balances ::
  "('p, 's, 'r, 'o, 't, 'env) chain_env \<Rightarrow> (('p, 'o) storage_write list \<Rightarrow> ('p, 'o) tx_storage) \<Rightarrow> bool" where
  "reads_balances E rd \<longleftrightarrow> (\<forall>ws. no_balances ws \<longrightarrow> same_balances E (rd ws))"

lemma no_balances_simps [simp]:
  "no_balances []" "no_balances (ws @ ws') \<longleftrightarrow> no_balances ws \<and> no_balances ws'"
  "no_balances (w # ws) \<longleftrightarrow> \<not> is_balance_write w \<and> no_balances ws"
  by (auto simp: no_balances_def)

lemma log_write_preserves [intro!]: "\<not> is_balance_write w \<Longrightarrow> preserves no_balances (log_write w)"
  by (simp add: preserves_def log_write_def)

lemma when_stored_preserves [intro!]: "preserves I m \<Longrightarrow> preserves I (when_stored state m)"
  by (simp add: when_stored_def)

section \<open>Merging what senders spent\<close>

text \<open>The income of one account that a list of versions stands for.\<close>

definition income_in ::
  "('p, 's, 'r, 'o, 't, 'env) chain_env \<Rightarrow> compressed_public_key \<Rightarrow> (hash \<times> 'p versioned_balance) list \<Rightarrow> hash \<Rightarrow>
   'p ciphertext option" where
  "income_in E key bs asset = (case map_of bs asset of Some v \<Rightarrow> version_value (ce_curve E) v | None \<Rightarrow> last_balance E key asset)"

lemma income_of_in: "income_of E st key = income_in E key (inner_map (cs_receiver_balances st) key)"
  by (simp add: income_of_def receiver_of_def income_in_def fun_eq_iff)

lemma version_sub_value:
  assumes "version_sub cv out v = Inr v'"
  shows "version_value cv v' = map_option (\<lambda>b. ciphertext_sub cv b out) (version_value cv v)"
  using assms version_value_put by (fastforce simp: version_sub_def result_simps)

lemma version_value_fields [simp]:
  "version_value cv (v\<lparr>balance_type := b\<rparr>) = version_value cv v"
  "version_value cv (v\<lparr>output_balance := ob\<rparr>) = version_value cv v"
  by (simp_all add: version_value_def)

lemma merge_echange_value:
  assumes D: "same_balances E D" and e: "echange_ok E key asset e"
    and ok: "merge_echange E D key (asset, e) bs = Inr bs'"
  shows "\<exists>v. bs' = index_map_insert asset v bs \<and> version_value (ce_curve E) v =
    map_option (\<lambda>b. ciphertext_sub (ce_curve E) b (ec_output_sum e)) (income_in E key bs asset)"
proof (cases "map_of bs asset")
  case (Some v)
  with ok show ?thesis
    by (auto simp: merge_echange_def Let_def result_simps income_in_def dest!: version_sub_value)
next
  case None
  show ?thesis
  proof (cases "ec_output_balance_used e \<or> \<not> ec_new_version e")
    case True
    with None ok D show ?thesis
      by (auto simp: merge_echange_def Let_def result_simps income_in_def last_balance_def same_balances_def
          dest!: version_sub_value split: if_splits)
  next
    case False
    with None ok e show ?thesis
      by (auto simp: merge_echange_def Let_def result_simps income_in_def echange_ok_def)
  qed
qed

lemma merge_echanges_value:
  assumes D: "same_balances E D" and "\<And>asset e. (asset, e) \<in> set es \<Longrightarrow> echange_ok E key asset e"
    and "distinct (map fst es)" and "merge_echanges E D key es bs = Inr bs'" and "distinct (map fst bs)"
  shows "distinct (map fst bs') \<and> (\<forall>asset. income_in E key bs' asset = (case map_of es asset of
      Some e \<Rightarrow> map_option (\<lambda>b. ciphertext_sub (ce_curve E) b (ec_output_sum e)) (income_in E key bs asset)
    | None \<Rightarrow> income_in E key bs asset)) \<and>
    (\<forall>asset. map_of bs' asset \<noteq> None \<longleftrightarrow> map_of bs asset \<noteq> None \<or> map_of es asset \<noteq> None)"
  using assms(2-)
proof (induction es arbitrary: bs)
  case (Cons ae es)
  obtain asset e where ae: "ae = (asset, e)" by force
  from Cons.prems(3) obtain bs1 where 1: "merge_echange E D key (asset, e) bs = Inr bs1"
    and 2: "merge_echanges E D key es bs1 = Inr bs'" by (auto simp: ae result_simps)
  from Cons.prems(1) have "echange_ok E key asset e" by (simp add: ae)
  from merge_echange_value [OF D this 1] obtain v where b: "bs1 = index_map_insert asset v bs"
    and v: "version_value (ce_curve E) v = map_option (\<lambda>b. ciphertext_sub (ce_curve E) b (ec_output_sum e)) (income_in E key bs asset)"
    by blast
  have d: "distinct (map fst es)" "map_of es asset = None" "distinct (map fst bs1)"
    using Cons.prems(2,4) by (auto simp: ae b map_of_eq_None_iff distinct_index_map_insert)
  have "\<And>asset e. (asset, e) \<in> set es \<Longrightarrow> echange_ok E key asset e" using Cons.prems(1) by simp
  from Cons.IH [OF this d(1) 2 d(3)] show ?case
    using d(2) v by (auto simp: ae b income_in_def map_of_index_map_insert split: option.splits)
qed simp

text \<open>Receivers that are well formed: no account and no asset twice.\<close>

definition receivers_ok :: "('k \<times> ('a \<times> 'b) list) list \<Rightarrow> bool" where
  "receivers_ok rb \<longleftrightarrow> distinct (map fst rb) \<and> (\<forall>key. distinct (map fst (inner_map rb key)))"

lemma inner_map_insert: "inner_map (index_map_insert k bs rb) k' = (if k' = k then bs else inner_map rb k')"
  by (simp add: inner_map_def map_of_index_map_insert)

lemma receivers_ok_insert: "receivers_ok rb \<Longrightarrow> distinct (map fst bs) \<Longrightarrow> receivers_ok (index_map_insert k bs rb)"
  by (simp add: receivers_ok_def distinct_index_map_insert inner_map_insert)

text \<open>What the accounts of senders turn an income into.\<close>

definition after_spending ::
  "('p, 's) curve \<Rightarrow> 'p echange option \<Rightarrow> 'p ciphertext option \<Rightarrow> 'p ciphertext option" where
  "after_spending cv e b = (case e of None \<Rightarrow> b | Some e \<Rightarrow> map_option (\<lambda>b. ciphertext_sub cv b (ec_output_sum e)) b)"

definition echange_in :: "(compressed_public_key \<times> 'p chain_account) list \<Rightarrow> compressed_public_key \<Rightarrow> hash \<Rightarrow> 'p echange option" where
  "echange_in as key asset = (case map_of as key of None \<Rightarrow> None | Some a \<Rightarrow> map_of (ca_assets a) asset)"

definition accounts_ok ::
  "('p, 's, 'r, 'o, 't, 'env) chain_env \<Rightarrow> (compressed_public_key \<times> 'p chain_account) list \<Rightarrow> bool" where
  "accounts_ok E as \<longleftrightarrow> distinct (map fst as) \<and> (\<forall>(key, a) \<in> set as. distinct (map fst (ca_assets a)) \<and>
     (\<forall>(asset, e) \<in> set (ca_assets a). echange_ok E key asset e))"

lemma apply_sender_step:
  assumes rd: "reads_balances E rd" and ws: "no_balances ws" and rb: "receivers_ok rb"
    and a: "distinct (map fst (ca_assets a))" "\<forall>(asset, e) \<in> set (ca_assets a). echange_ok E key asset e"
    and run: "apply_sender E rd log_write (key, a) rb ws = (Inr rb', ws')"
  shows "no_balances ws' \<and> (\<exists>bs. rb' = index_map_insert key bs rb \<and> distinct (map fst bs) \<and>
    (\<forall>asset. income_in E key bs asset = after_spending (ce_curve E) (map_of (ca_assets a) asset)
       (income_in E key (inner_map rb key) asset)) \<and>
    (\<forall>asset. map_of bs asset \<noteq> None \<longleftrightarrow> map_of (inner_map rb key) asset \<noteq> None \<or> map_of (ca_assets a) asset \<noteq> None))"
proof -
  let ?multisig = "case ca_multisig a of None \<Rightarrow> areturn ()
    | Some (state, m) \<Rightarrow> when_stored state (log_write (SetLastMultisig key (ce_topoheight E) m (vs_get_topoheight state)))"
  note run = run [unfolded apply_sender_def prod.case]
  from run obtain u1 ws1 where 1: "log_write (SetLastNonce key (ce_topoheight E) (ca_nonce a)) ws = (Inr u1, ws1)"
    and rest: "abind ?multisig (\<lambda>_. abind (\<lambda>d. (merge_echanges E (rd d) key (ca_assets a) (inner_map rb key), d)) (\<lambda>balances.
      areturn (index_map_insert key balances rb))) ws1 = (Inr rb', ws')" by (rule abindE)
  from rest obtain u2 ws2 where 2: "?multisig ws1 = (Inr u2, ws2)"
    and 3: "abind (\<lambda>d. (merge_echanges E (rd d) key (ca_assets a) (inner_map rb key), d)) (\<lambda>balances.
      areturn (index_map_insert key balances rb)) ws2 = (Inr rb', ws')" by (rule abindE)
  from 3 obtain bs where m: "merge_echanges E (rd ws2) key (ca_assets a) (inner_map rb key) = Inr bs"
    and r: "rb' = index_map_insert key bs rb" "ws' = ws2" by (auto simp: abind_Inr)
  have ws1: "no_balances ws1" using preservesD [OF log_write_preserves ws 1] by simp
  have "preserves no_balances ?multisig" by (auto split: option.splits)
  from preservesD [OF this ws1 2] have ws2: "no_balances ws2" .
  with rd have "same_balances E (rd ws2)" by (simp add: reads_balances_def)
  from merge_echanges_value [OF this _ a(1) m] a(2) rb
  have b: "distinct (map fst bs)" "\<forall>asset. map_of bs asset \<noteq> None \<longleftrightarrow> map_of (inner_map rb key) asset \<noteq> None \<or> map_of (ca_assets a) asset \<noteq> None"
    "\<forall>asset. income_in E key bs asset = after_spending (ce_curve E) (map_of (ca_assets a) asset)
       (income_in E key (inner_map rb key) asset)"
    unfolding receivers_ok_def after_spending_def by blast+
  show ?thesis unfolding r using ws2 b by blast
qed

lemma apply_senders:
  assumes rd: "reads_balances E rd" and as: "accounts_ok E as"
    and "no_balances ws" "receivers_ok rb" "afor (apply_sender E rd log_write) as rb ws = (Inr rb', ws')"
  shows "no_balances ws' \<and> receivers_ok rb' \<and>
    (\<forall>key asset. income_in E key (inner_map rb' key) asset =
       after_spending (ce_curve E) (echange_in as key asset) (income_in E key (inner_map rb key) asset)) \<and>
    (\<forall>key asset. map_of (inner_map rb' key) asset \<noteq> None \<longleftrightarrow>
       map_of (inner_map rb key) asset \<noteq> None \<or> echange_in as key asset \<noteq> None)"
  using as assms(3-)
proof (induction as arbitrary: rb ws)
  case Nil
  then show ?case by (simp add: after_spending_def echange_in_def)
next
  case (Cons ka as)
  obtain key a where ka: "ka = (key, a)" by force
  from Cons.prems(4) obtain rb1 ws1 where 1: "apply_sender E rd log_write (key, a) rb ws = (Inr rb1, ws1)"
    and 2: "afor (apply_sender E rd log_write) as rb1 ws1 = (Inr rb', ws')" unfolding ka by (rule afor_ConsE)
  have a: "distinct (map fst (ca_assets a))" "\<forall>(asset, e) \<in> set (ca_assets a). echange_ok E key asset e"
    and as: "accounts_ok E as" "map_of as key = None"
    using Cons.prems(1) by (auto simp: accounts_ok_def ka map_of_eq_None_iff)
  from apply_sender_step [OF rd Cons.prems(2,3) a 1] obtain bs where ws1: "no_balances ws1"
    and rb1: "rb1 = index_map_insert key bs rb" "distinct (map fst bs)"
    and i: "\<forall>asset. income_in E key bs asset = after_spending (ce_curve E) (map_of (ca_assets a) asset)
       (income_in E key (inner_map rb key) asset)"
    and t: "\<forall>asset. map_of bs asset \<noteq> None \<longleftrightarrow> map_of (inner_map rb key) asset \<noteq> None \<or> map_of (ca_assets a) asset \<noteq> None"
    by blast
  have "receivers_ok rb1" by (simp add: rb1 receivers_ok_insert Cons.prems(3))
  from Cons.IH [OF as(1) ws1 this 2] i t as(2) show ?case
    by (auto simp: rb1(1) inner_map_insert echange_in_def ka after_spending_def split: option.splits if_splits)
qed

section \<open>What contracts transfer\<close>

definition tracker_credits ::
  "('p, 's) curve \<Rightarrow> (compressed_public_key \<times> (hash \<times> u64) list) list \<Rightarrow> (compressed_public_key \<times> hash \<times> 'p ciphertext) list" where
  "tracker_credits cv ts = concat (map (\<lambda>(key, assets). map (\<lambda>(asset, n). (key, asset, plain cv n)) assets) ts)"

lemma credit_append:
  "curve_laws cv \<Longrightarrow> credit cv (ps @ qs) k a = ciphertext_add cv (credit cv ps k a) (credit cv qs k a)"
  by (simp add: credit_def ct_sum_append)

lemma same_balances_receiver:
  "same_balances E D \<Longrightarrow> chain_get_receiver_balance (E\<lparr>ce_storage := D\<rparr>) key asset = chain_get_receiver_balance E key asset"
  unfolding same_balances_def by (rule ext) (simp add: chain_get_receiver_balance_def cong: option.case_cong sum.case_cong)

text \<open>The effect of credits on the receivers of a state.\<close>

definition credited ::
  "('p, 's, 'r, 'o, 't, 'env) chain_env \<Rightarrow> (compressed_public_key \<times> hash \<times> 'p ciphertext) list \<Rightarrow>
   ('p, 'o, 'z) chain_state_scheme \<Rightarrow> ('p, 'o, 'z) chain_state_scheme \<Rightarrow> bool" where
  "credited E ps st st' \<longleftrightarrow>
     (\<forall>k a. income_of E st' k a =
        map_option (\<lambda>b. ciphertext_add (ce_curve E) b (credit (ce_curve E) ps k a)) (income_of E st k a)) \<and>
     (\<forall>k a. receiver_of st' k a \<noteq> None \<longleftrightarrow> receiver_of st k a \<noteq> None \<or> (\<exists>ct. (k, a, ct) \<in> set ps))"

lemma credited_Nil: "curve_laws (ce_curve E) \<Longrightarrow> credited E [] st st"
  by (simp add: credited_def credit_def ct_add_rules option.map_ident)

lemma credited_trans:
  assumes cv: "curve_laws (ce_curve E)" and "credited E ps st st1" "credited E qs st1 st2"
  shows "credited E (ps @ qs) st st2"
  using assms(2,3) unfolding credited_def
  by (simp add: credit_append [OF cv] option.map_comp comp_def ct_add_rules(1) [OF cv]) blast

lemma transfer_to_credited:
  assumes cv: "curve_laws (ce_curve E)" and D: "same_balances E D"
    and run: "transfer_to (E\<lparr>ce_storage := D\<rparr>) key (asset, n) st = (Inr u, st')" and st: "chain_inv E st"
  shows "credited E [(key, asset, plain (ce_curve E) n)] st st' \<and> chain_inv E st'"
proof -
  from run obtain b st1 where 1: "chain_get_receiver_balance E key asset st = (Inr b, st1)"
    and st': "st' = chain_put_receiver_balance key asset (ciphertext_add (ce_curve E) b (plain (ce_curve E) n)) st1"
    by (auto simp: transfer_to_def same_balances_receiver [OF D] abind_Inr ciphertext_add_u64_def ct_add_rules [OF cv])
  have "receiver_of st' k a \<noteq> None \<longleftrightarrow> receiver_of st k a \<noteq> None \<or> k = key \<and> a = asset" for k a
    using get_receiver_income [OF 1] by (auto simp: st' chain_put_receiver_balance_def receiver_of_put split: option.splits)
      (auto simp: receiver_of_def)
  moreover have "chain_inv E st'"
    unfolding st' using preservesD [OF chain_get_receiver_preserves st 1] by (rule chain_put_receiver_inv)
  moreover have "income_of E st' k a = map_option (\<lambda>b. ciphertext_add (ce_curve E) b
      (credit (ce_curve E) [(key, asset, plain (ce_curve E) n)] k a)) (income_of E st k a)" for k a
    using receive_income [OF 1, of "ciphertext_add (ce_curve E) b (plain (ce_curve E) n)"]
    by (auto simp: st' credit_def ct_add_rules [OF cv] option.map_ident)
  ultimately show ?thesis by (auto simp: credited_def)
qed

lemma transfer_loop_credited:
  assumes cv: "curve_laws (ce_curve E)" and D: "same_balances E D"
    and "afor (\<lambda>an _. transfer_to (E\<lparr>ce_storage := D\<rparr>) key an) assets u st = (Inr u', st')" and "chain_inv E st"
  shows "credited E (map (\<lambda>(asset, n). (key, asset, plain (ce_curve E) n)) assets) st st' \<and> chain_inv E st'"
  using assms(3,4)
proof (induction assets arbitrary: st u)
  case (Cons an assets)
  obtain asset n where an: "an = (asset, n)" by force
  from Cons.prems(1) obtain u1 st1 where 1: "transfer_to (E\<lparr>ce_storage := D\<rparr>) key (asset, n) st = (Inr u1, st1)"
    and 2: "afor (\<lambda>an _. transfer_to (E\<lparr>ce_storage := D\<rparr>) key an) assets u1 st1 = (Inr u', st')"
    unfolding an by (rule afor_ConsE)
  from transfer_to_credited [OF cv D 1 Cons.prems(2)] Cons.IH [OF 2] credited_trans [OF cv, of "[_]"] show ?case
    by (force simp: an)
qed (simp add: credited_Nil [OF cv])

lemma apply_transfers_credited:
  assumes cv: "curve_laws (ce_curve E)" and rd: "reads_balances E rd" and ws: "no_balances ws"
    and "afor (apply_transfers E rd) ts st ws = (Inr st', ws')" and "chain_inv E st"
  shows "credited E (tracker_credits (ce_curve E) ts) st st' \<and> chain_inv E st' \<and> ws' = ws"
  using assms(4,5)
proof (induction ts arbitrary: st)
  case (Cons t ts)
  obtain key assets where t: "t = (key, assets)" by force
  from rd ws have D: "same_balances E (rd ws)" by (simp add: reads_balances_def)
  from Cons.prems(1) obtain st1 ws1 where 1: "apply_transfers E rd (key, assets) st ws = (Inr st1, ws1)"
    and 2: "afor (apply_transfers E rd) ts st1 ws1 = (Inr st', ws')" unfolding t by (rule afor_ConsE)
  from 1 obtain u' where "afor (\<lambda>an _. transfer_to (E\<lparr>ce_storage := rd ws\<rparr>) key an) assets () st = (Inr u', st1)" "ws1 = ws"
    by (auto simp: apply_transfers_def split: prod.splits sum.splits)
  from transfer_loop_credited [OF cv D this(1) Cons.prems(2)] Cons.IH [of st1] 2 this(2) credited_trans [OF cv] show ?case
    by (force simp: tracker_credits_def t)
qed (simp add: tracker_credits_def credited_Nil [OF cv])

section \<open>Writing the balances\<close>

lemma log_balances:
  "afor (\<lambda>(asset, v) _. log_write (SetLastBalance key asset topo v)) bs u ws =
     (Inr (), ws @ map (\<lambda>(asset, v). SetLastBalance key asset topo v) bs)"
  by (induction bs arbitrary: u ws) (auto simp: abind_def log_write_def split: prod.splits)

definition balances_of_log ::
  "('p, 'o) storage_write list \<Rightarrow> (compressed_public_key \<times> hash \<times> topoheight \<times> 'p versioned_balance) set" where
  "balances_of_log ws = {(key, asset, topo, v) | key asset topo v. SetLastBalance key asset topo v \<in> set ws}"

lemma balances_of_log_simps [simp]:
  "balances_of_log (ws @ ws') = balances_of_log ws \<union> balances_of_log ws'"
  "no_balances ws \<Longrightarrow> balances_of_log ws = {}"
  by (auto simp: balances_of_log_def no_balances_def)

lemma balances_of_log_map:
  "balances_of_log (map (\<lambda>(asset, v). SetLastBalance key asset topo v) bs) = {(key, asset, topo, v) | asset v. (asset, v) \<in> set bs}"
  by (force simp: balances_of_log_def)

text \<open>Writes that are not balances do not change what balances were written.\<close>

lemma quiet_log [intro!]:
  "\<not> is_balance_write w \<Longrightarrow> preserves (\<lambda>ws. balances_of_log ws = B) (log_write w)"
  by (simp add: preserves_def log_write_def)

lemma read_preserves [intro!]: "preserves I (\<lambda>d. (f d, d))"
  by (simp add: preserves_def)

lemma account_balances_log:
  assumes "apply_account_balances E rd log_write st (key, bs) u ws = (Inr u', ws')"
  shows "balances_of_log ws' = balances_of_log ws \<union> {(key, asset, ce_topoheight E, v) | asset v. (asset, v) \<in> set bs}"
proof -
  let ?rest = "abind (if map_of (cs_accounts st) key = None then
         abind (\<lambda>d. (st_has_nonce (rd d) key, d)) (\<lambda>has.
         if has then areturn () else log_write (SetLastNonce key (ce_topoheight E) \<lparr>vn_nonce = 0, vn_previous_topoheight = None\<rparr>))
       else areturn ()) (\<lambda>_.
     abind (\<lambda>d. (st_is_account_registered_for_topoheight (rd d) key (ce_topoheight E), d)) (\<lambda>registered.
     if registered then areturn () else log_write (SetAccountRegistration key (ce_topoheight E))))"
  let ?ws = "ws @ map (\<lambda>(asset, v). SetLastBalance key asset (ce_topoheight E) v) bs"
  have "?rest ?ws = (Inr u', ws')"
    using assms unfolding apply_account_balances_def prod.case by (simp add: abind_def [of "afor _ _ _"] log_balances)
  moreover have "preserves (\<lambda>ws. balances_of_log ws = B) ?rest" for B by auto
  ultimately have "balances_of_log ws' = balances_of_log ?ws" using preservesD [where I = "\<lambda>ws. balances_of_log ws = balances_of_log ?ws"] by blast
  then show ?thesis by (simp add: balances_of_log_map)
qed

lemma accounts_balances_log:
  assumes "afor (apply_account_balances E rd log_write st) rb u ws = (Inr u', ws')"
  shows "balances_of_log ws' = balances_of_log ws \<union>
    {(key, asset, ce_topoheight E, v) | key asset v. \<exists>bs. (key, bs) \<in> set rb \<and> (asset, v) \<in> set bs}"
  using assms
proof (induction rb arbitrary: u ws)
  case (Cons kb rb)
  obtain key bs where kb: "kb = (key, bs)" by force
  from Cons.prems obtain u1 ws1 where 1: "apply_account_balances E rd log_write st (key, bs) u ws = (Inr u1, ws1)"
    and 2: "afor (apply_account_balances E rd log_write st) rb u1 ws1 = (Inr u', ws')" unfolding kb by (rule afor_ConsE)
  from account_balances_log [OF 1] Cons.IH [OF 2] show ?case by (auto simp: kb)
qed simp

lemma chain_inv_parts:
  assumes "chain_inv E st"
  shows "receivers_ok (cs_receiver_balances st)" "accounts_ok E (cs_accounts st)"
    "receivers_ok rb \<Longrightarrow> chain_inv E (st\<lparr>cs_receiver_balances := rb\<rparr>)"
proof -
  show "receivers_ok (cs_receiver_balances st)"
    using assms chain_inv_inner [OF assms] by (simp add: receivers_ok_def chain_inv_def)
  have "echange_ok E key asset e" if "(key, a) \<in> set (cs_accounts st)" "(asset, e) \<in> set (ca_assets a)" for key a asset e
  proof -
    have "map_of (cs_accounts st) key = Some a" using assms that(1) by (simp add: chain_inv_def)
    moreover from this have "map_of (ca_assets a) asset = Some e" using assms that(2) by (simp add: chain_inv_def)
    ultimately show ?thesis using assms by (auto simp: chain_inv_def chain_of_account)
  qed
  then show "accounts_ok E (cs_accounts st)" using assms by (auto simp: accounts_ok_def chain_inv_def)
  show "chain_inv E (st\<lparr>cs_receiver_balances := rb\<rparr>)" if "receivers_ok rb"
  proof -
    have "distinct (map fst bs)" if "map_of rb key = Some bs" for key bs
      using \<open>receivers_ok rb\<close> that unfolding receivers_ok_def inner_map_def by (metis option.simps(5))
    then show ?thesis using assms that by (simp add: chain_inv_def chain_echange_of_def receivers_ok_def)
  qed
qed

lemma after_spending_ledger:
  "curve_laws (ce_curve E) \<Longrightarrow> after_spending (ce_curve E) (chain_echange_of st key asset) (income_of E st key asset) = ledger E st key asset"
  by (auto simp: after_spending_def ledger_def spent_by_def ct_sub_rules option.map_ident split: option.splits)

text \<open>The phases of \<open>apply_changes\<close> after the senders, up to the balances.\<close>

lemma quiet_phases:
  "preserves no_balances (afor (apply_asset E log_write) assets u)"
  "preserves no_balances (afor (apply_contract_cache E log_write) caches u)"
  "preserves no_balances (afor (\<lambda>(h, state, m) _. when_stored state
     (log_write (SetLastContract h (ce_topoheight E) m (vs_get_topoheight state)))) contracts u)"
  "preserves no_balances (afor (\<lambda>(h, outs) _. log_write (SetContractOutputs h outs)) outs u)"
  by (rule preserves_for; auto simp: apply_asset_def apply_contract_cache_def intro!: preserves_for split: option.splits prod.splits)+

lemma apply_changes_log:
  fixes st :: "('p, 'o) applicable_state"
  assumes cv: "curve_laws (ce_curve E)" and st: "chain_inv E st" and rd: "reads_balances E rd"
    and run: "apply_changes E rd log_write st [] = (Inr u, ws)"
  shows "\<exists>(st1 :: ('p, 'o) applicable_state) (st2 :: ('p, 'o) applicable_state). (\<forall>key asset. income_of E st1 key asset = ledger E st key asset) \<and>
    (\<forall>key asset. receiver_of st1 key asset \<noteq> None \<longleftrightarrow> receiver_of st key asset \<noteq> None \<or> chain_echange_of st key asset \<noteq> None) \<and>
    credited E (tracker_credits (ce_curve E) (tk_transfers (ap_tracker st))) st1 st2 \<and> chain_inv E st2 \<and>
    balances_of_log ws = {(key, asset, ce_topoheight E, v) | key asset v.
      \<exists>bs. (key, bs) \<in> set (cs_receiver_balances st2) \<and> (asset, v) \<in> set bs}"
proof -
  from run [unfolded apply_changes_def abind_Inr] obtain rb ws1 u2 ws2 u3 ws3 st2 ws4 u5 ws5 u6 ws6 u7 ws7 where
    1: "afor (apply_sender E rd log_write) (cs_accounts st) (cs_receiver_balances st) [] = (Inr rb, ws1)" and
    2: "afor (apply_asset E log_write) (ap_assets st) () ws1 = (Inr u2, ws2)" and
    3: "afor (apply_contract_cache E log_write) (ap_caches st) () ws2 = (Inr u3, ws3)" and
    4: "afor (apply_transfers E rd) (tk_transfers (ap_tracker st)) (st\<lparr>cs_receiver_balances := rb\<rparr>) ws3 = (Inr st2, ws4)" and
    5: "afor (\<lambda>(h, state, m) _. when_stored state (log_write (SetLastContract h (ce_topoheight E) m
      (vs_get_topoheight state)))) (cs_contracts st2) () ws4 = (Inr u5, ws5)" and
    6: "afor (\<lambda>(h, outs) _. log_write (SetContractOutputs h outs)) (ap_outputs st2) () ws5 = (Inr u6, ws6)" and
    7: "afor (apply_account_balances E rd log_write st2) (cs_receiver_balances st2) () ws6 = (Inr u7, ws7)" and
    r7: "log_write (SetBurnedSupply (ce_topoheight E) (ap_burned_supply st2)) ws7 = (Inr u, ws)"
    by (elim exE conjE) blast
  note parts = chain_inv_parts [OF st]
  from apply_senders [OF rd parts(2) no_balances_simps(1) parts(1) 1] have ws1: "no_balances ws1" "receivers_ok rb"
    and i: "\<forall>key asset. income_in E key (inner_map rb key) asset = after_spending (ce_curve E)
       (echange_in (cs_accounts st) key asset) (income_in E key (inner_map (cs_receiver_balances st) key) asset)"
    and t: "\<forall>key asset. map_of (inner_map rb key) asset \<noteq> None \<longleftrightarrow>
       map_of (inner_map (cs_receiver_balances st) key) asset \<noteq> None \<or> echange_in (cs_accounts st) key asset \<noteq> None" by blast+
  have ws3: "no_balances ws3" using preservesD [OF quiet_phases(2) _ 3] preservesD [OF quiet_phases(1) ws1(1) 2] by blast
  let ?st1 = "st\<lparr>cs_receiver_balances := rb\<rparr>"
  from apply_transfers_credited [OF cv rd ws3 4 parts(3) [OF ws1(2)]] 
  have c: "credited E (tracker_credits (ce_curve E) (tk_transfers (ap_tracker st))) ?st1 st2" "chain_inv E st2" "ws4 = ws3" by simp_all
  have ws6: "no_balances ws6" using preservesD [OF quiet_phases(4) _ 6] preservesD [OF quiet_phases(3) _ 5] ws3 c(3) by blast
  have b: "balances_of_log ws = {(key, asset, ce_topoheight E, v) | key asset v.
      \<exists>bs. (key, bs) \<in> set (cs_receiver_balances st2) \<and> (asset, v) \<in> set bs}"
    using accounts_balances_log [OF 7] r7 ws6 by (auto simp: log_write_def)
  have "income_of E ?st1 key asset = ledger E st key asset" for key asset
    using i after_spending_ledger [OF cv, of st key asset] by (simp add: income_of_in echange_in_def chain_echange_of_def)
  moreover have "receiver_of ?st1 key asset \<noteq> None \<longleftrightarrow> receiver_of st key asset \<noteq> None \<or> chain_echange_of st key asset \<noteq> None" for key asset
    using t by (simp add: receiver_of_def echange_in_def chain_echange_of_def)
  ultimately show ?thesis using b c(1,2) by blast
qed

text \<open>
  C3: the versions that are written when a block has been executed are the ledger. For every account and
  asset that received or spent anything there is a version at the topoheight of the block, and for no
  others; every such version stands for the balance of the ledger, what the account had before plus what
  it received less what it spent, and what contracts have transferred to it. So it does not matter
  whether a sender was also a receiver, nor against which version its proofs were verified.
\<close>

theorem written_versions_are_ledger:
  fixes st :: "('p, 'o) applicable_state"
  assumes cv: "curve_laws (ce_curve E)" and st: "chain_inv E st" and rd: "reads_balances E rd"
    and run: "apply_changes E rd log_write st [] = (Inr u, ws)"
  shows "(\<forall>key asset topo v. SetLastBalance key asset topo v \<in> set ws \<longrightarrow> topo = ce_topoheight E \<and>
      version_value (ce_curve E) v = map_option (\<lambda>b. ciphertext_add (ce_curve E) b
        (credit (ce_curve E) (tracker_credits (ce_curve E) (tk_transfers (ap_tracker st))) key asset)) (ledger E st key asset)) \<and>
    (\<forall>key asset. (\<exists>topo v. SetLastBalance key asset topo v \<in> set ws) \<longleftrightarrow>
      receiver_of st key asset \<noteq> None \<or> chain_echange_of st key asset \<noteq> None \<or>
      (\<exists>n as. (key, as) \<in> set (tk_transfers (ap_tracker st)) \<and> (asset, n) \<in> set as))"
proof -
  from apply_changes_log [OF assms] obtain st1 st2 :: "('p, 'o) applicable_state" where i: "\<forall>key asset. income_of E st1 key asset = ledger E st key asset"
    and t: "\<forall>key asset. receiver_of st1 key asset \<noteq> None \<longleftrightarrow> receiver_of st key asset \<noteq> None \<or> chain_echange_of st key asset \<noteq> None"
    and c: "credited E (tracker_credits (ce_curve E) (tk_transfers (ap_tracker st))) st1 st2" and st2: "chain_inv E st2"
    and b: "balances_of_log ws = {(key, asset, ce_topoheight E, v) | key asset v.
      \<exists>bs. (key, bs) \<in> set (cs_receiver_balances st2) \<and> (asset, v) \<in> set bs}" by (elim exE conjE) (rule that)
  have look: "(\<exists>bs. (key, bs) \<in> set (cs_receiver_balances st2) \<and> (asset, v) \<in> set bs) \<longleftrightarrow> receiver_of st2 key asset = Some v"
    for key asset v
  proof -
    have "(key, bs) \<in> set (cs_receiver_balances st2) \<longleftrightarrow> map_of (cs_receiver_balances st2) key = Some bs" for bs
      using st2 by (simp add: chain_inv_def)
    moreover have "(asset, v) \<in> set bs \<longleftrightarrow> map_of bs asset = Some v" if "map_of (cs_receiver_balances st2) key = Some bs" for bs
      using st2 that by (simp add: chain_inv_def)
    ultimately show ?thesis by (auto simp: receiver_of_def inner_map_def split: option.splits)
  qed
  have w: "SetLastBalance key asset topo v \<in> set ws \<longleftrightarrow> topo = ce_topoheight E \<and> receiver_of st2 key asset = Some v"
    for key asset topo v
    using b look [of key asset v] by (auto simp: balances_of_log_def set_eq_iff)
  have v: "version_value (ce_curve E) v = income_of E st2 key asset" if "receiver_of st2 key asset = Some v" for key asset v
    using that by (simp add: income_of_def)
  have k: "(\<exists>ct. (key, asset, ct) \<in> set (tracker_credits (ce_curve E) ts)) \<longleftrightarrow>
      (\<exists>n as. (key, as) \<in> set ts \<and> (asset, n) \<in> set as)" for key asset ts
    by (force simp: tracker_credits_def)
  from c t i show ?thesis unfolding w credited_def k by (auto simp: v)
qed

text \<open>The miner is rewarded with three units in a state where nothing else has happened.\<close>

theorem written_versions_are_ledger_witness:
  "\<exists>st ws v. reward_miner (sample_chain 7) (replicate 32 1) 3 (applicable_new 0 hash_zero) = (Inr (), st) \<and>
    apply_changes (sample_chain 7) (\<lambda>_. sample_storage 7) log_write st [] = (Inr (), ws) \<and>
    SetLastBalance (replicate 32 1) hash_zero 10 v \<in> set ws \<and>
    version_value two_curve v = Some \<lparr>commitment = True, handle = False\<rparr>"
proof -
  let ?E = "sample_chain 7" and ?k = "replicate 32 1 :: u8 list"
  define v where "v = versioned_balance_new (CacheDecompressed (\<lparr>commitment = True, handle = False\<rparr> :: bool ciphertext)) None"
  define st where "st = (applicable_new 0 hash_zero :: (bool, hash) applicable_state)\<lparr>cs_receiver_balances := [(?k, [(hash_zero, v)])]\<rparr>"
  have r: "reward_miner ?E ?k 3 (applicable_new 0 hash_zero) = (Inr (), st)"
    by (simp add: reward_miner_def abind_def chain_get_receiver_balance_def applicable_new_def inner_map_def Let_def
        sample_chain_def sample_storage_def versioned_balance_zero_def versioned_balance_new_def version_computable_def
        put_receiver_version_def chain_put_receiver_balance_def XELIS_ASSET_def ciphertext_add_u64_def
        ciphertext_add_scalar_def commitment_add_scalar_def ciphertext_zero_def two_curve_def st_def v_def)
  have inv: "chain_inv ?E st"
    by (simp add: st_def chain_inv_def applicable_new_def chain_echange_of_def)
  have rd: "reads_balances ?E (\<lambda>_. sample_storage 7)"
    by (simp add: reads_balances_def same_balances_def sample_chain_def)
  obtain ws where run: "apply_changes ?E (\<lambda>_. sample_storage 7) log_write st [] = (Inr (), ws)"
    by (simp add: apply_changes_def st_def applicable_new_def abind_def log_write_def apply_account_balances_def sample_storage_def)
  have E: "ce_curve ?E = two_curve" "ce_topoheight ?E = 10" by (simp_all add: sample_chain_def)
  have l: "ledger ?E st ?k hash_zero = Some \<lparr>commitment = True, handle = False\<rparr>" "receiver_of st ?k hash_zero \<noteq> None"
    "tk_transfers (ap_tracker st) = []"
    by (simp_all add: ledger_def income_of_def receiver_of_def spent_by_def chain_echange_of_def st_def applicable_new_def
        inner_map_def E v_def version_value_def versioned_balance_new_def ciphertext_sub_def ciphertext_zero_def two_curve_def)
  note main = written_versions_are_ledger [of ?E st, unfolded E, OF two_curve_laws inv rd run]
  from main l(2) obtain topo v where w: "SetLastBalance ?k hash_zero topo v \<in> set ws" by blast
  with main l have "topo = 10" "version_value two_curve v = Some \<lparr>commitment = True, handle = False\<rparr>"
    by (auto simp: tracker_credits_def credit_def ct_add_rules [OF two_curve_laws])
  with w r run show ?thesis by blast
qed

end
