(* ===== verification/Chain_Totals.thy ===== *)
theory Chain_Totals
  imports Chain_Ledger
begin

text \<open>
  Nothing is created. The balances are encrypted under different keys, so their sum cannot be decrypted,
  but the commitment of a ciphertext does not depend on the key: the sum of the commitments of a set of
  accounts is the commitment to what they have together.
\<close>

section \<open>Sums of points\<close>

fun point_sum :: "('p, 's) curve \<Rightarrow> ('k \<Rightarrow> 'p) \<Rightarrow> 'k list \<Rightarrow> 'p" where
  "point_sum cv f [] = p_identity cv"
| "point_sum cv f (k # ks) = p_add cv (f k) (point_sum cv f ks)"

lemma point_sum_add:
  assumes cv: "curve_laws cv"
  shows "point_sum cv (\<lambda>k. p_add cv (f k) (g k)) ks = p_add cv (point_sum cv f ks) (point_sum cv g ks)"
proof (induction ks)
  case (Cons k ks)
  then show ?case using cv by (simp add: p_ac)
qed (simp add: curve_rules(3) [OF cv])

lemma point_sum_identity: "curve_laws cv \<Longrightarrow> point_sum cv (\<lambda>_. p_identity cv) ks = p_identity cv"
  by (induction ks) (simp_all add: curve_rules(3))

lemma point_sum_cong: "(\<And>k. k \<in> set ks \<Longrightarrow> f k = g k) \<Longrightarrow> point_sum cv f ks = point_sum cv g ks"
  by (induction ks) simp_all

lemma point_sum_single:
  assumes cv: "curve_laws cv" and "distinct ks" "k0 \<in> set ks"
  shows "point_sum cv (\<lambda>k. if k = k0 then x else p_identity cv) ks = x"
  using assms(2,3)
proof (induction ks)
  case (Cons k ks)
  show ?case
  proof (cases "k = k0")
    case True
    with Cons.prems(1) have "point_sum cv (\<lambda>k. if k = k0 then x else p_identity cv) ks = point_sum cv (\<lambda>_. p_identity cv) ks"
      by (intro point_sum_cong) auto
    with True show ?thesis by (simp add: point_sum_identity [OF cv] curve_rules(3) [OF cv])
  next
    case False
    with Cons show ?thesis by (simp add: p_identity_left [OF cv])
  qed
qed simp

section \<open>The total of the ledger\<close>

definition ledger_total ::
  "('p, 's, 'r, 'o, 't, 'env) chain_env \<Rightarrow> ('p, 'o, 'z) chain_state_scheme \<Rightarrow> hash \<Rightarrow> compressed_public_key list \<Rightarrow> 'p" where
  "ledger_total E st asset ks = point_sum (ce_curve E)
     (\<lambda>k. case ledger E st k asset of None \<Rightarrow> p_identity (ce_curve E) | Some b \<Rightarrow> commitment b) ks"

text \<open>What leaves the balances: the fee, which the miner will be given, and what is burned.\<close>

definition leaving :: "('p, 's) curve \<Rightarrow> ('s, 'r, 'o) transaction \<Rightarrow> hash \<Rightarrow> 'p" where
  "leaving cv tx asset = p_add cv
     (if asset = XELIS_ASSET then p_mul cv (s_from cv (tx_fee tx)) (gen_B cv) else p_identity cv)
     (case tx_data tx of Burn p \<Rightarrow> if burn_asset p = asset then p_mul cv (s_from cv (burn_amount p)) (gen_B cv) else p_identity cv
      | _ \<Rightarrow> p_identity cv)"

definition destinations :: "('s, 'r, 'o) transaction \<Rightarrow> compressed_public_key set" where
  "destinations tx = (case tx_data tx of Transfers xs \<Rightarrow> tr_destination ` set xs | _ \<Rightarrow> {})"

lemma credit_single:
  "curve_laws cv \<Longrightarrow> credit cv [(k', a', ct)] k a = (if k = k' \<and> a = a' then ct else ciphertext_zero cv)"
  by (auto simp: credit_def ct_add_rules)

lemma credits_sum:
  assumes cv: "curve_laws cv" and d: "distinct ks" and "\<forall>(k, a, ct) \<in> set ps. k \<in> set ks"
  shows "point_sum cv (\<lambda>k. commitment (credit cv ps k a)) ks =
    commitment (ct_sum cv (map (snd \<circ> snd) (filter (\<lambda>(k, a', ct). a' = a) ps)))"
  using assms(3)
proof (induction ps)
  case Nil
  then show ?case by (simp add: credit_def ciphertext_zero_def point_sum_identity [OF cv])
next
  case (Cons p ps)
  obtain k' a' ct where p: "p = (k', a', ct)" by (cases p)
  have "commitment (credit cv [p] k a) = (if k = k' then (if a' = a then commitment ct else p_identity cv) else p_identity cv)" for k
    by (auto simp: p credit_single [OF cv] ciphertext_zero_def)
  moreover have "commitment (credit cv (p # ps) k a) =
      p_add cv (commitment (credit cv [p] k a)) (commitment (credit cv ps k a))" for k
    using credit_Cons [OF cv, of p ps k a] by (simp add: ciphertext_add_def)
  ultimately have "point_sum cv (\<lambda>k. commitment (credit cv (p # ps) k a)) ks = p_add cv
      (if a' = a then commitment ct else p_identity cv) (point_sum cv (\<lambda>k. commitment (credit cv ps k a)) ks)"
    using Cons.prems by (simp add: point_sum_add [OF cv] point_sum_single [OF cv d] p)
  with Cons show ?case by (auto simp: p ciphertext_add_def p_identity_left [OF cv])
qed

text \<open>The source pays what leaves the balances and what the destinations receive.\<close>

lemma spent_is_leaving:
  assumes cv: "curve_laws cv" and p: "plain_payload tx" and ts: "decompress_tx cv tx = Inr (ts, ds)"
  shows "commitment (spent_of cv a (spendings cv tx ts ds)) = p_add cv (leaving cv tx a)
    (commitment (ct_sum cv (map (snd \<circ> snd) (filter (\<lambda>(k, a', ct). a' = a) (tx_credits tx ts)))))"
proof -
  have fee: "commitment (spent_of cv a (e # sp)) = p_add cv (if fst e = a then commitment (snd e) else p_identity cv)
      (commitment (spent_of cv a sp))" for e sp
    by (simp add: spent_of_simps [OF cv] ciphertext_add_def p_identity_left [OF cv])
  have transfers: "commitment (spent_of cv a (map (\<lambda>(x, d). (tr_asset x, d_get_ciphertext d Sender)) es)) =
      commitment (ct_sum cv (map (snd \<circ> snd) (filter (\<lambda>(k, a', ct). a' = a)
        (map (\<lambda>(x, d). (tr_destination x, tr_asset x, d_get_ciphertext d Receiver)) es))))" for es
    by (induction es) (auto simp: fee spent_of_simps(1) [OF cv] ciphertext_add_def d_get_ciphertext_def p_identity_left [OF cv])
  show ?thesis
    using p by (cases "tx_data tx") (auto simp: plain_payload_def spendings_def fee leaving_def tx_credits_def plain_def
        transfers spent_of_simps(1) [OF cv] ciphertext_zero_def curve_rules(1,3) [OF cv] p_identity_left [OF cv])
qed

lemma tx_credits_destinations: "(k, a, ct) \<in> set (tx_credits tx ts) \<Longrightarrow> k \<in> destinations tx"
  by (auto simp: tx_credits_def destinations_def dest: set_zip_leftD split: transaction_type.splits)

text \<open>
  C4: a transfer, a burn or a multisig setup creates no coins. For every asset and every set of accounts
  that has the source and the destinations, the total of the balances after the transaction was executed,
  with its equality proofs checked again, together with its fee and what it burns is the total before,
  under the commitments and without any key. Transactions that run a contract are not covered.
\<close>

theorem transaction_conserves:
  assumes cv: "curve_laws (ce_curve E)" and V: "v_curve V = ce_curve E" and st: "chain_inv E st"
    and p: "plain_payload tx" and a: "verify_commitment_assets tx"
    and run: "apply_with_partial_verify V run outs (chain_application E) tx h st = (Inr u, st')"
    and ks: "distinct ks" "tx_source tx \<in> set ks" "destinations tx \<subseteq> set ks"
    and some: "\<forall>k \<in> set ks. ledger E st k asset \<noteq> None"
  shows "p_add (ce_curve E) (ledger_total E st' asset ks) (leaving (ce_curve E) tx asset) = ledger_total E st asset ks"
proof -
  let ?cv = "ce_curve E"
  obtain ts ds where ts: "decompress_tx ?cv tx = Inr (ts, ds)"
    and m: "\<forall>key asset. ledger E st' key asset = map_option (\<lambda>b. ciphertext_add ?cv
      (ciphertext_sub ?cv b (if key = tx_source tx then spent_of ?cv asset (spendings ?cv tx ts ds) else ciphertext_zero ?cv))
      (credit ?cv (tx_credits tx ts) key asset)) (ledger E st key asset)"
    using apply_with_partial_verify_ledger [OF cv V st p a run] by blast
  let ?sp = "commitment (spent_of ?cv asset (spendings ?cv tx ts ds))"
  let ?cr = "commitment (ct_sum ?cv (map (snd \<circ> snd) (filter (\<lambda>(k, a', ct). a' = asset) (tx_credits tx ts))))"
  let ?val = "\<lambda>st k. case ledger E st k asset of None \<Rightarrow> p_identity ?cv | Some b \<Rightarrow> commitment b"
  have "p_add ?cv (?val st' k) (if k = tx_source tx then ?sp else p_identity ?cv) =
      p_add ?cv (?val st k) (commitment (credit ?cv (tx_credits tx ts) k asset))" if "k \<in> set ks" for k
  proof -
    from some that obtain b where "ledger E st k asset = Some b" by blast
    then show ?thesis
      using curve_rules(4) [OF cv] p_sub_identity [OF cv] curve_rules(3) [OF cv]
      by (simp add: m ciphertext_add_def ciphertext_sub_def ciphertext_zero_def p_ac [OF cv])
  qed
  then have "point_sum ?cv (\<lambda>k. p_add ?cv (?val st' k) (if k = tx_source tx then ?sp else p_identity ?cv)) ks =
      point_sum ?cv (\<lambda>k. p_add ?cv (?val st k) (commitment (credit ?cv (tx_credits tx ts) k asset))) ks"
    by (rule point_sum_cong)
  moreover have "\<forall>(k, a, ct) \<in> set (tx_credits tx ts). k \<in> set ks"
    using ks(3) tx_credits_destinations [of _ _ _ tx ts] by blast
  ultimately have "p_add ?cv (ledger_total E st' asset ks) ?sp = p_add ?cv (ledger_total E st asset ks) ?cr"
    by (simp add: ledger_total_def point_sum_add [OF cv] point_sum_single [OF cv ks(1,2)] credits_sum [OF cv ks(1)])
  with spent_is_leaving [OF cv p ts, of asset]
  have "p_add ?cv (p_add ?cv (ledger_total E st' asset ks) (leaving ?cv tx asset)) ?cr = p_add ?cv (ledger_total E st asset ks) ?cr"
    by (simp add: curve_rules(1) [OF cv])
  then show ?thesis by (rule p_add_cancel [OF cv])
qed

theorem transaction_conserves_witness:
  "\<exists>st'. apply_with_partial_verify sample_verifier no_vm ct_outputs (chain_application (sample_chain 7)) (sample_burn 7) hash_zero
      (applicable_new 0 hash_zero) = (Inr (), st') \<and> leaving two_curve (sample_burn 7) hash_zero = True \<and>
    p_add two_curve (ledger_total (sample_chain 7) st' hash_zero [replicate 32 1]) True = p_identity two_curve"
proof -
  let ?E = "sample_chain 7" and ?st = "applicable_new 0 hash_zero :: (bool, hash) applicable_state"
  have E: "ce_curve ?E = two_curve" by (simp add: sample_chain_def)
  have V: "v_curve sample_verifier = two_curve" by (simp add: sample_verifier_def sample_libs_def)
  obtain st' where run: "apply_with_partial_verify sample_verifier no_vm ct_outputs (chain_application ?E) (sample_burn 7) hash_zero ?st = (Inr (), st')"
    using sample_burn_executes by blast
  have 0: "ledger ?E ?st (replicate 32 1) hash_zero = Some (ciphertext_zero two_curve)"
    by (simp add: ledger_def income_of_def receiver_of_def spent_by_def chain_echange_of_def applicable_new_def inner_map_def
        last_balance_def sample_chain_def sample_storage_def versioned_balance_zero_def versioned_balance_new_def version_value_def
        ciphertext_sub_def ciphertext_zero_def two_curve_def)
  have l: "leaving two_curve (sample_burn 7) hash_zero = True"
    by (simp add: leaving_def sample_burn_simps XELIS_ASSET_def two_curve_def)
  have "p_add two_curve (ledger_total ?E st' hash_zero [replicate 32 1]) (leaving two_curve (sample_burn 7) hash_zero) =
      ledger_total ?E ?st hash_zero [replicate 32 1]"
    using transaction_conserves [of ?E, unfolded E, OF two_curve_laws V chain_inv_new sample_burn_plain run, of "[replicate 32 1]" hash_zero]
    by (simp add: 0 sample_burn_simps destinations_def)
  then show ?thesis using run l by (simp add: ledger_total_def E 0 ciphertext_zero_def curve_rules(3) [OF two_curve_laws])
qed

end
