(* ===== verification/Nonce_Checker.thy ===== *)
theory Nonce_Checker
  imports Account
begin

text \<open>
  The checker of nonces of \<open>daemon/core/nonce_checker.rs\<close>, which decides, while the blocks of a
  reordered part of the DAG are executed again, which transactions may spend: for every account it
  keeps the nonce that is expected next and the nonces already used. The nonce of an account that
  is not yet known to the checker comes from the storage, which is an argument.

  An entry accepts exactly the expected nonce; a run of the checker is a sequence of uses.
\<close>

section \<open>The entry of an account\<close>

record account_entry =
  initial_nonce :: nonce
  expected_nonce :: nonce
  used_nonces :: "(nonce \<times> topoheight) list"

definition account_entry_new :: "nonce \<Rightarrow> account_entry" where
  "account_entry_new n = \<lparr>initial_nonce = n, expected_nonce = n, used_nonces = []\<rparr>"

definition contains_nonce :: "nonce \<Rightarrow> account_entry \<Rightarrow> bool" where
  "contains_nonce n e \<longleftrightarrow> map_of (used_nonces e) n \<noteq> None"

definition insert_nonce_at_topoheight ::
  "nonce \<Rightarrow> topoheight \<Rightarrow> account_entry \<Rightarrow> bool \<times> account_entry" where
  "insert_nonce_at_topoheight n t e =
     (if contains_nonce n e \<or> n \<noteq> expected_nonce e then (False, e)
      else (True, e\<lparr>expected_nonce := n + 1, used_nonces := index_map_insert n t (used_nonces e)\<rparr>))"

section \<open>The checker\<close>

datatype nonce_error = AccountNotFound compressed_public_key | NonceStorageError

type_synonym nonce_checker = "(compressed_public_key \<times> account_entry) list"

type_synonym nonce_storage =
  "compressed_public_key \<Rightarrow> topoheight \<Rightarrow> nonce_error + (topoheight \<times> versioned_nonce) option"

definition nonce_checker_new :: nonce_checker where
  "nonce_checker_new = []"

definition undo_entry :: "nonce \<Rightarrow> account_entry \<Rightarrow> account_entry" where
  "undo_entry n e = (let used = filter (\<lambda>u. fst u \<noteq> n) (used_nonces e) in
     e\<lparr>used_nonces := used,
       expected_nonce := (if used = [] then initial_nonce e else fst (last used) + 1)\<rparr>)"

definition undo_nonce :: "compressed_public_key \<Rightarrow> nonce \<Rightarrow> nonce_checker \<Rightarrow> nonce_checker" where
  "undo_nonce key n c = (case map_of c key of None \<Rightarrow> c
     | Some e \<Rightarrow> index_map_insert key (undo_entry n e) c)"

definition use_nonce ::
  "nonce_storage \<Rightarrow> compressed_public_key \<Rightarrow> nonce \<Rightarrow> topoheight \<Rightarrow> nonce_checker \<Rightarrow>
     nonce_error + bool \<times> nonce_checker" where
  "use_nonce storage key n t c = (case map_of c key of
     Some e \<Rightarrow> (case insert_nonce_at_topoheight n t e of (valid, e') \<Rightarrow>
       Inr (valid, index_map_insert key e' c))
   | None \<Rightarrow>
       result_bind (storage key t) (\<lambda>m.
       result_bind (ok_or m (AccountNotFound key)) (\<lambda>(_, version).
       let stored_nonce = vn_nonce version in
       (case insert_nonce_at_topoheight n t (account_entry_new stored_nonce) of (valid, e) \<Rightarrow>
         Inr (valid, index_map_insert key e c)))))"

definition get_new_nonce :: "compressed_public_key \<Rightarrow> nonce_checker \<Rightarrow> nonce_error + nonce" where
  "get_new_nonce key c = (case map_of c key of None \<Rightarrow> Inl (AccountNotFound key)
     | Some e \<Rightarrow> Inr (expected_nonce e))"

section \<open>The invariant of an entry\<close>

text \<open>
  The used nonces are those from the initial one up to the expected one, in order; the expected
  nonce has not wrapped around. Undoing the last use keeps it, undoing an earlier one leaves a gap.
\<close>

definition entry_seq :: "account_entry \<Rightarrow> bool" where
  "entry_seq e \<longleftrightarrow> (let m = length (used_nonces e) in
     unat (initial_nonce e) + m < 2 ^ 64 \<and>
     expected_nonce e = initial_nonce e + of_nat m \<and>
     map fst (used_nonces e) = map (\<lambda>i. initial_nonce e + of_nat i) [0..<m])"

definition entry_count :: "account_entry \<Rightarrow> nat" where
  "entry_count e = length (used_nonces e)"

lemma u64_add_of_nat: "unat (a :: u64) + m < 2 ^ 64 \<Longrightarrow> unat (a + of_nat m) = unat a + m"
  by (simp add: unat_word_ariths unat_of_nat)

lemma u64_add_of_nat_inj:
  "unat (a :: u64) + i < 2 ^ 64 \<Longrightarrow> unat a + j < 2 ^ 64 \<Longrightarrow> a + of_nat i = a + of_nat j \<Longrightarrow> i = j"
  by (metis add_left_imp_eq u64_add_of_nat)

lemma entry_seq_new: "entry_seq (account_entry_new n)"
  using unat_u64_less [of n] by (simp add: entry_seq_def account_entry_new_def)

lemma entry_seq_fresh:
  assumes "entry_seq e"
  shows "\<not> contains_nonce (expected_nonce e) e"
proof -
  let ?m = "length (used_nonces e)"
  have m: "unat (initial_nonce e) + ?m < 2 ^ 64" "expected_nonce e = initial_nonce e + of_nat ?m"
    and u: "map fst (used_nonces e) = map (\<lambda>i. initial_nonce e + of_nat i) [0..<?m]"
    using assms by (simp_all add: entry_seq_def Let_def)
  have "expected_nonce e \<notin> set (map fst (used_nonces e))"
  proof
    assume "expected_nonce e \<in> set (map fst (used_nonces e))"
    then obtain i where "i < ?m" "initial_nonce e + of_nat ?m = initial_nonce e + of_nat i"
      unfolding u m(2) by (auto simp del: add_left_cancel)
    with u64_add_of_nat_inj [of "initial_nonce e" ?m i] m(1) show False by simp
  qed
  then show ?thesis by (simp add: contains_nonce_def map_of_eq_None_iff)
qed

lemma insert_nonce_spec:
  assumes e: "entry_seq e" and b: "unat (expected_nonce e) < 2 ^ 64 - 1"
    and i: "insert_nonce_at_topoheight n t e = (valid, e')"
  shows "(valid \<longleftrightarrow> n = expected_nonce e) \<and> entry_seq e' \<and> initial_nonce e' = initial_nonce e \<and>
    used_nonces e' = used_nonces e @ (if valid then [(n, t)] else [])"
proof (cases "n = expected_nonce e")
  case True
  let ?m = "length (used_nonces e)"
  have m: "unat (initial_nonce e) + ?m < 2 ^ 64" "expected_nonce e = initial_nonce e + of_nat ?m"
    "map fst (used_nonces e) = map (\<lambda>i. initial_nonce e + of_nat i) [0..<?m]"
    using e by (simp_all add: entry_seq_def Let_def)
  have f: "\<not> contains_nonce n e" using entry_seq_fresh [OF e] True by simp
  then have "n \<notin> fst ` set (used_nonces e)" by (simp add: contains_nonce_def map_of_eq_None_iff)
  then have e': "valid" "e' = e\<lparr>expected_nonce := n + 1, used_nonces := used_nonces e @ [(n, t)]\<rparr>"
    using i True f by (simp_all add: insert_nonce_at_topoheight_def index_map_insert_new)
  have "unat (initial_nonce e) + Suc ?m < 2 ^ 64"
    using b m(1,2) u64_add_of_nat [of "initial_nonce e" ?m] by simp
  then show ?thesis using e' m True by (simp add: entry_seq_def Let_def add.assoc)
qed (use e i in \<open>auto simp: insert_nonce_at_topoheight_def\<close>)

lemma undo_last_use:
  assumes e: "entry_seq e" and b: "unat (expected_nonce e) < 2 ^ 64 - 1"
    and i: "insert_nonce_at_topoheight n t e = (True, e')"
  shows "undo_entry n e' = e"
proof -
  have n: "n = expected_nonce e" and u: "used_nonces e' = used_nonces e @ [(n, t)]"
    and e': "initial_nonce e' = initial_nonce e"
    using insert_nonce_spec [OF assms] by auto
  have "\<not> contains_nonce n e" using entry_seq_fresh [OF e] n by simp
  then have f: "filter (\<lambda>u. fst u \<noteq> n) (used_nonces e) = used_nonces e"
    by (auto simp: contains_nonce_def map_of_eq_None_iff filter_id_conv rev_image_eqI)
  let ?m = "length (used_nonces e)"
  have m: "expected_nonce e = initial_nonce e + of_nat ?m"
    "map fst (used_nonces e) = map (\<lambda>i. initial_nonce e + of_nat i) [0..<?m]"
    using e by (simp_all add: entry_seq_def Let_def)
  have "fst (last (used_nonces e)) + 1 = expected_nonce e" if "used_nonces e \<noteq> []"
  proof -
    have "fst (last (used_nonces e)) = last (map fst (used_nonces e))" using that by (simp add: last_map)
    also have "\<dots> = initial_nonce e + of_nat (?m - 1)" using that by (simp add: m(2) last_map)
    finally show ?thesis using that m(1) by (cases ?m) (simp_all add: ac_simps)
  qed
  moreover have "e' = e\<lparr>expected_nonce := n + 1, used_nonces := used_nonces e @ [(n, t)]\<rparr>"
    using i u by (auto simp: insert_nonce_at_topoheight_def split: if_splits)
  ultimately show ?thesis using f m(1) by (cases "used_nonces e = []") (simp_all add: undo_entry_def Let_def)
qed

section \<open>Runs of the checker\<close>

type_synonym nonce_call = "compressed_public_key \<times> nonce \<times> topoheight"

fun run_uses ::
  "nonce_storage \<Rightarrow> nonce_call list \<Rightarrow> nonce_checker \<Rightarrow> nonce_error + bool list \<times> nonce_checker" where
  "run_uses storage [] c = Inr ([], c)"
| "run_uses storage ((key, n, t) # calls) c = result_bind (use_nonce storage key n t c) (\<lambda>(valid, c').
     result_bind (run_uses storage calls c') (\<lambda>(rs, c''). Inr (valid # rs, c'')))"

fun accepted :: "compressed_public_key \<Rightarrow> nonce_call list \<Rightarrow> bool list \<Rightarrow> nonce list" where
  "accepted key ((k, n, t) # calls) (valid # rs) =
     (if k = key \<and> valid then n # accepted key calls rs else accepted key calls rs)"
| "accepted key _ _ = []"

lemma use_nonce_cases:
  assumes "use_nonce storage key n t c = Inr (valid, c')"
  obtains e e' where "insert_nonce_at_topoheight n t e = (valid, e')" "c' = index_map_insert key e' c"
    "map_of c key = Some e \<or> (map_of c key = None \<and> (\<exists>v. storage key t = Inr (Some v) \<and>
       e = account_entry_new (vn_nonce (snd v))))"
proof (cases "map_of c key")
  case None
  with assms obtain v where v: "storage key t = Inr (Some v)"
    by (auto simp: use_nonce_def result_simps)
  let ?e = "account_entry_new (vn_nonce (snd v))"
  obtain e' where "insert_nonce_at_topoheight n t ?e = (valid, e')" "c' = index_map_insert key e' c"
    using assms None v by (cases v; cases "insert_nonce_at_topoheight n t ?e") (simp add: use_nonce_def)
  with None v show ?thesis by (intro that [of ?e e']) auto
next
  case (Some e)
  obtain e' where "insert_nonce_at_topoheight n t e = (valid, e')" "c' = index_map_insert key e' c"
    using assms Some by (cases "insert_nonce_at_topoheight n t e") (simp add: use_nonce_def)
  with Some show ?thesis by (intro that [of e e']) auto
qed

lemma run_known:
  assumes "run_uses storage calls c = Inr (rs, c')" "map_of c key = Some e" "entry_seq e"
    "unat (expected_nonce e) + length calls < 2 ^ 64"
  shows "\<exists>e'. map_of c' key = Some e' \<and> entry_seq e' \<and> initial_nonce e' = initial_nonce e \<and>
    map fst (used_nonces e') = map fst (used_nonces e) @ accepted key calls rs"
  using assms
proof (induction storage calls c arbitrary: rs e rule: run_uses.induct)
  case (2 storage k n t calls c)
  from "2.prems"(1) obtain valid c1 rs' where
    use: "use_nonce storage k n t c = Inr (valid, c1)" and
    run: "run_uses storage calls c1 = Inr (rs', c')" and rs: "rs = valid # rs'"
    by (auto simp: result_simps split: prod.splits)
  note IH = "2.IH" [OF run]
  show ?case
  proof (cases "k = key")
    case True
    from use obtain e1 where i: "insert_nonce_at_topoheight n t e = (valid, e1)"
      and c1: "c1 = index_map_insert key e1 c"
      using True "2.prems"(2) by (auto elim!: use_nonce_cases)
    have b: "unat (expected_nonce e) < 2 ^ 64 - 1" using "2.prems"(4) by simp
    note sp = insert_nonce_spec [OF "2.prems"(3) b i]
    have ex: "expected_nonce e1 = (if valid then expected_nonce e + 1 else expected_nonce e)"
      using i sp by (auto simp: insert_nonce_at_topoheight_def split: if_splits)
    have "unat (expected_nonce e1) + length calls < 2 ^ 64"
      using "2.prems"(4) u64_add_of_nat [of "expected_nonce e" 1] ex by (auto split: if_splits)
    then obtain e' where "map_of c' key = Some e' \<and> entry_seq e' \<and> initial_nonce e' = initial_nonce e1 \<and>
        map fst (used_nonces e') = map fst (used_nonces e1) @ accepted key calls rs'"
      using IH [of e1] sp c1 by (auto simp: map_of_index_map_insert)
    then show ?thesis using sp True rs by auto
  next
    case False
    then have "map_of c1 key = Some e"
      using use "2.prems"(2) by (auto elim!: use_nonce_cases simp: map_of_index_map_insert)
    with IH [of e] "2.prems"(3,4) False rs show ?thesis by auto
  qed
qed simp

lemma run_fresh:
  assumes "run_uses storage calls c = Inr (rs, c')" "map_of c key = None"
    "\<forall>t v. storage key t = Inr (Some v) \<longrightarrow> unat (vn_nonce (snd v)) + length calls < 2 ^ 64"
  shows "(map_of c' key = None \<and> accepted key calls rs = []) \<or>
    (\<exists>e' t v. map_of c' key = Some e' \<and> entry_seq e' \<and> storage key t = Inr (Some v) \<and>
       initial_nonce e' = vn_nonce (snd v) \<and> map fst (used_nonces e') = accepted key calls rs)"
  using assms
proof (induction storage calls c arbitrary: rs rule: run_uses.induct)
  case (2 storage k n t calls c)
  from "2.prems"(1) obtain valid c1 rs' where
    use: "use_nonce storage k n t c = Inr (valid, c1)" and
    run: "run_uses storage calls c1 = Inr (rs', c')" and rs: "rs = valid # rs'"
    by (auto simp: result_simps split: prod.splits)
  show ?case
  proof (cases "k = key")
    case True
    from use obtain v e1 where v: "storage key t = Inr (Some v)"
      and i: "insert_nonce_at_topoheight n t (account_entry_new (vn_nonce (snd v))) = (valid, e1)"
      and c1: "c1 = index_map_insert key e1 c"
      using True "2.prems"(2) by (auto elim!: use_nonce_cases)
    define e where "e = account_entry_new (vn_nonce (snd v))"
    have e: "entry_seq e" "used_nonces e = []" "initial_nonce e = vn_nonce (snd v)"
      "expected_nonce e = vn_nonce (snd v)"
      using entry_seq_new [of "vn_nonce (snd v)"] by (simp_all add: e_def account_entry_new_def)
    define c0 where "c0 = index_map_insert key e c"
    have c0: "map_of c0 key = Some e" by (simp add: c0_def map_of_index_map_insert)
    have "index_map_insert key e1 c0 = c1"
      unfolding c0_def c1 by (induction c) auto
    then have "use_nonce storage k n t c0 = Inr (valid, c1)"
      using True c0 i by (simp add: use_nonce_def e_def [symmetric])
    then have "run_uses storage ((k, n, t) # calls) c0 = Inr (rs, c')" using run rs by simp
    moreover have "unat (expected_nonce e) + length ((k, n, t) # calls) < 2 ^ 64"
      using "2.prems"(3) [rule_format, OF v] e(4) by simp
    ultimately obtain e' where "map_of c' key = Some e'" "entry_seq e'"
      "initial_nonce e' = initial_nonce e"
      "map fst (used_nonces e') = map fst (used_nonces e) @ accepted key ((k, n, t) # calls) rs"
      using run_known [OF _ c0 e(1)] by blast
    with e v show ?thesis by (metis append_Nil list.simps(8))
  next
    case False
    then have "map_of c1 key = None"
      using use "2.prems"(2) by (auto elim!: use_nonce_cases simp: map_of_index_map_insert)
    with "2.IH" [OF run] "2.prems"(3) False rs show ?thesis by fastforce
  qed
qed simp

text \<open>
  C15: whatever transactions are tried, in whatever order, the nonces that the checker accepts for an
  account are consecutive, start at the nonce that the storage has for the account, and none is
  accepted twice; the next expected nonce is the one after the last accepted. So of two transactions
  of an account with one nonce, at most one is executed.
\<close>

theorem nonces_consecutive:
  assumes "run_uses storage calls nonce_checker_new = Inr (rs, c)"
    and "\<forall>t v. storage key t = Inr (Some v) \<longrightarrow> unat (vn_nonce (snd v)) + length calls < 2 ^ 64"
  shows "\<exists>first. let ns = accepted key calls rs in
    ns = map (\<lambda>i. first + of_nat i) [0..<length ns] \<and> distinct ns \<and>
    (ns \<noteq> [] \<longrightarrow> (\<exists>t v. storage key t = Inr (Some v) \<and> first = vn_nonce (snd v)) \<and>
       get_new_nonce key c = Inr (first + of_nat (length ns)))"
proof -
  let ?ns = "accepted key calls rs"
  have "(map_of c key = None \<and> ?ns = []) \<or>
    (\<exists>e' t v. map_of c key = Some e' \<and> entry_seq e' \<and> storage key t = Inr (Some v) \<and>
       initial_nonce e' = vn_nonce (snd v) \<and> map fst (used_nonces e') = ?ns)"
    using run_fresh [OF assms(1) _ assms(2)] by (simp add: nonce_checker_new_def)
  then show ?thesis
  proof
    assume "\<exists>e' t v. map_of c key = Some e' \<and> entry_seq e' \<and> storage key t = Inr (Some v) \<and>
       initial_nonce e' = vn_nonce (snd v) \<and> map fst (used_nonces e') = ?ns"
    then obtain e t v where e: "map_of c key = Some e" "entry_seq e" "storage key t = Inr (Some v)"
      "initial_nonce e = vn_nonce (snd v)" "map fst (used_nonces e) = ?ns" by blast
    have len: "length (used_nonces e) = length ?ns" using e(5) by (metis length_map)
    have ns: "?ns = map (\<lambda>i. initial_nonce e + of_nat i) [0..<length ?ns]"
      "expected_nonce e = initial_nonce e + of_nat (length ?ns)"
      "unat (initial_nonce e) + length ?ns < 2 ^ 64"
      using e(2,5) by (simp_all add: entry_seq_def Let_def len)
    have "inj_on (\<lambda>i. initial_nonce e + of_nat i) (set [0..<length ?ns])"
      using ns(3) by (intro inj_onI, elim u64_add_of_nat_inj [rotated 2]) simp_all
    then have "distinct (map (\<lambda>i. initial_nonce e + of_nat i) [0..<length ?ns])"
      by (simp only: distinct_map distinct_upt simp_thms)
    then have "distinct ?ns" using ns(1) by simp
    moreover have "get_new_nonce key c = Inr (initial_nonce e + of_nat (length ?ns))"
      using e(1) ns(2) by (simp add: get_new_nonce_def)
    moreover have "\<exists>t v. storage key t = Inr (Some v) \<and> initial_nonce e = vn_nonce (snd v)"
      using e(3,4) by blast
    ultimately show ?thesis
      unfolding Let_def using ns(1) by metis
  qed (simp add: Let_def)
qed

theorem nonces_consecutive_witness:
  "\<exists>first. let ns = accepted [1] [([1], 5, 9), ([1], 6, 9), ([1], 5, 9), ([2], 5, 9), ([1], 7, 9)]
       [True, True, False, True, True] in
     ns = map (\<lambda>i. first + of_nat i) [0..<length ns] \<and> distinct ns"
proof -
  let ?st = "\<lambda>_ _. Inr (Some (0, \<lparr>vn_nonce = 5, vn_previous_topoheight = None\<rparr>)) :: nonce_error + (topoheight \<times> versioned_nonce) option"
  let ?calls = "[([1], 5, 9), ([1], 6, 9), ([1], 5, 9), ([2], 5, 9), ([1], 7, 9)] :: nonce_call list"
  obtain c where "run_uses ?st ?calls nonce_checker_new = Inr ([True, True, False, True, True], c)"
    by (simp add: use_nonce_def nonce_checker_new_def insert_nonce_at_topoheight_def contains_nonce_def
        account_entry_new_def)
  from nonces_consecutive [OF this, of "[1]"] show ?thesis by (simp only: Let_def) auto
qed

end
