(* ===== verification/Block_Execution.thy ===== *)
theory Block_Execution
  imports Chain_Ledger Nonce_Checker Emission
begin

text \<open>
  The execution of one block in the order of the DAG (\<open>add_new_block\<close> of \<open>daemon/core/blockchain.rs\<close>, the
  loop over the full order): its transactions one after the other on the state of \<open>Chain_Apply\<close>, each
  admitted by the nonce checker, then the dev fee and the reward of the miner. A transaction that fails
  is orphaned and the block goes on.

  Of the storage the loop uses which block executed a transaction and which blocks have it; both are
  maps here. Events for clients are left out.
\<close>

section \<open>The state of the loop\<close>

record ('p, 'o) execution =
  x_state :: "('p, 'o) applicable_state"
  x_checker :: nonce_checker
  x_executed :: "(hash \<times> hash) list"
  x_linked :: "(hash \<times> hash list) list"
  x_orphaned :: "hash list"
  x_fees :: u64

definition on_state ::
  "(('p, 'o) applicable_state, 'e, 'a) action \<Rightarrow> (('p, 'o) execution, 'e, 'a) action" where
  "on_state m x = (case m (x_state x) of (r, st) \<Rightarrow> (r, x\<lparr>x_state := st\<rparr>))"

definition nonce_failure :: "nonce_error \<Rightarrow> blockchain_error" where
  "nonce_failure e = (case e of Nonce_Checker.AccountNotFound key \<Rightarrow> State_Storage.AccountNotFound key
     | NonceStorageError \<Rightarrow> StorageError)"

definition checker_nonces :: "('p, 'o) tx_storage \<Rightarrow> nonce_storage" where
  "checker_nonces D key t = map_err (\<lambda>_. NonceStorageError) (st_get_nonce_at_maximum_topoheight D key t)"

definition is_tx_executed_in_a_block :: "hash \<Rightarrow> ('p, 'o) execution \<Rightarrow> bool" where
  "is_tx_executed_in_a_block h x \<longleftrightarrow> map_of (x_executed x) h \<noteq> None"

definition add_block_linked_to_tx_if_not_present ::
  "hash \<Rightarrow> hash \<Rightarrow> ('p, 'o) execution \<Rightarrow> bool \<times> ('p, 'o) execution" where
  "add_block_linked_to_tx_if_not_present tx_hash h x =
     (let blocks = (case map_of (x_linked x) tx_hash of Some bs \<Rightarrow> bs | None \<Rightarrow> []) in
      if h \<in> set blocks then (False, x)
      else (True, x\<lparr>x_linked := index_map_insert tx_hash (blocks @ [h]) (x_linked x)\<rparr>))"

definition set_tx_executed_in_block :: "hash \<Rightarrow> hash \<Rightarrow> ('p, 'o) execution \<Rightarrow> ('p, 'o) execution" where
  "set_tx_executed_in_block tx_hash h x = x\<lparr>x_executed := index_map_insert tx_hash h (x_executed x)\<rparr>"

definition orphan_tx :: "hash \<Rightarrow> ('p, 'o) execution \<Rightarrow> ('p, 'o) execution" where
  "orphan_tx h x = x\<lparr>x_orphaned := snd (index_set_insert h (x_orphaned x))\<rparr>"

section \<open>Transactions\<close>

text \<open>A transaction that was admitted and applied: its nonce, its block, and the fee for the miner.\<close>

definition finish_tx ::
  "('p, 's, 'r, 'o, 't, 'env) chain_env \<Rightarrow> hash \<Rightarrow> ('s, 'r, 'o) transaction \<Rightarrow> hash \<Rightarrow>
   (('p, 'o) execution, blockchain_error, unit) action" where
  "finish_tx E h tx tx_hash = abind (\<lambda>x. (map_err nonce_failure (get_new_nonce (tx_source tx) (x_checker x)), x)) (\<lambda>n.
     abind (on_state (chain_update_account_nonce E (tx_source tx) n)) (\<lambda>_.
     aupdate (\<lambda>x. (set_tx_executed_in_block tx_hash h x)\<lparr>x_orphaned := remove1 tx_hash (x_orphaned x),
       x_fees := x_fees x + tx_fee tx\<rparr>)))"

definition execute_tx ::
  "('p, 's, 'r, 'o, 't, 'env) verifier \<Rightarrow>
   (('s, 'o) contract_state \<Rightarrow> invoke_contract \<Rightarrow> 'o value_cell list \<Rightarrow> u64 \<Rightarrow> unit + ('s, 'o) contract_state vm_outcome) \<Rightarrow>
   ('p, 's, 'r, 'o, 't, 'env) chain_env \<Rightarrow> hash \<Rightarrow> ('s, 'r, 'o) transaction \<times> hash \<Rightarrow> unit \<Rightarrow>
   (('p, 'o) execution, blockchain_error, unit) action" where
  "execute_tx V run E h txh _ x0 = (case txh of (tx, tx_hash) \<Rightarrow>
     (let x = snd (add_block_linked_to_tx_if_not_present tx_hash h x0) in
      if is_tx_executed_in_a_block tx_hash x then (Inr (), x)
      else (case use_nonce (checker_nonces (ce_storage E)) (tx_source tx) (tx_nonce tx) (ce_topoheight E) (x_checker x) of
          Inl e \<Rightarrow> (Inl (nonce_failure e), x)
        | Inr (valid, checker) \<Rightarrow>
            (let x = x\<lparr>x_checker := checker\<rparr> in
             if \<not> valid then (Inr (), orphan_tx tx_hash x)
             else (case on_state (apply_with_partial_verify V run ct_outputs (chain_application E) tx tx_hash) x of
                 (Inl _, x) \<Rightarrow> (Inr (), orphan_tx tx_hash x)
               | (Inr _, x) \<Rightarrow> finish_tx E h tx tx_hash x)))))"

section \<open>Rewards\<close>

text \<open>The dev fee is taken off the block reward only, not off the fees.\<close>

definition reward_block ::
  "('p, 's, 'r, 'o, 't, 'env) chain_env \<Rightarrow> compressed_public_key \<Rightarrow> u64 \<Rightarrow> u64 \<Rightarrow> compressed_public_key \<Rightarrow>
   (('p, 'o) execution, blockchain_error, unit) action" where
  "reward_block E dev_key block_height block_reward miner_key =
     (let dev_fee_percentage = get_block_dev_fee block_height in
      abind (if dev_fee_percentage \<noteq> 0 then
          (let dev_fee_part = block_reward * dev_fee_percentage div 100 in
           abind (on_state (reward_miner E dev_key dev_fee_part)) (\<lambda>_. areturn (block_reward - dev_fee_part)))
        else areturn block_reward) (\<lambda>reward x.
      on_state (reward_miner E miner_key (reward + x_fees x + cs_gas_fee (x_state x))) x))"

definition execute_block ::
  "('p, 's, 'r, 'o, 't, 'env) verifier \<Rightarrow>
   (('s, 'o) contract_state \<Rightarrow> invoke_contract \<Rightarrow> 'o value_cell list \<Rightarrow> u64 \<Rightarrow> unit + ('s, 'o) contract_state vm_outcome) \<Rightarrow>
   ('p, 's, 'r, 'o, 't, 'env) chain_env \<Rightarrow> compressed_public_key \<Rightarrow> hash \<Rightarrow> u64 \<Rightarrow> compressed_public_key \<Rightarrow>
   (('s, 'r, 'o) transaction \<times> hash) list \<Rightarrow> u64 \<Rightarrow> (('p, 'o) execution, blockchain_error, unit) action" where
  "execute_block V run E dev_key h block_height miner_key txs block_reward =
     abind (afor (execute_tx V run E h) txs ()) (\<lambda>_. reward_block E dev_key block_height block_reward miner_key)"

text \<open>The state that a block starts with; the checker and the orphans are those of the blocks before.\<close>

definition block_start :: "u64 \<Rightarrow> hash \<Rightarrow> ('p, 'o) execution \<Rightarrow> ('p, 'o) execution" where
  "block_start past_burned_supply h x = x\<lparr>x_state := applicable_new past_burned_supply h, x_fees := 0\<rparr>"

section \<open>The invariant\<close>

definition exec_inv :: "('p, 's, 'r, 'o, 't, 'env) chain_env \<Rightarrow> ('p, 'o) execution \<Rightarrow> bool" where
  "exec_inv E x \<longleftrightarrow> chain_inv E (x_state x) \<and> distinct (x_orphaned x) \<and>
     (\<forall>h \<in> set (x_orphaned x). \<not> is_tx_executed_in_a_block h x)"

lemma on_state_preserves:
  assumes "preserves (chain_inv E) m"
  shows "preserves (exec_inv E) (on_state m)"
  using preservesD [OF assms]
  by (fastforce simp: preserves_def on_state_def exec_inv_def is_tx_executed_in_a_block_def split: prod.splits)

lemma linked_fields:
  "x_state (snd (add_block_linked_to_tx_if_not_present t h x)) = x_state x"
  "x_checker (snd (add_block_linked_to_tx_if_not_present t h x)) = x_checker x"
  "x_executed (snd (add_block_linked_to_tx_if_not_present t h x)) = x_executed x"
  "x_orphaned (snd (add_block_linked_to_tx_if_not_present t h x)) = x_orphaned x"
  "x_fees (snd (add_block_linked_to_tx_if_not_present t h x)) = x_fees x"
  by (simp_all add: add_block_linked_to_tx_if_not_present_def Let_def)

text \<open>The books of the loop: who is executed, who is orphaned, and the fees.\<close>

definition books :: "('p, 'o) execution \<Rightarrow> (hash \<times> hash) list \<times> hash list \<times> u64" where
  "books x = (x_executed x, x_orphaned x, x_fees x)"

lemma books_iff: "books x' = books x \<longleftrightarrow> x_executed x' = x_executed x \<and> x_orphaned x' = x_orphaned x \<and> x_fees x' = x_fees x"
  by (simp add: books_def)

lemma on_state_books: "on_state m x = (r, x') \<Longrightarrow> books x' = books x \<and> x_checker x' = x_checker x"
  by (auto simp: on_state_def books_def split: prod.splits)

definition tx_settled :: "('s, 'r, 'o) transaction \<Rightarrow> hash \<Rightarrow> ('p, 'o) execution \<Rightarrow> ('p, 'o) execution \<Rightarrow> bool" where
  "tx_settled tx t x x' \<longleftrightarrow>
     x_fees x' = x_fees x + (if is_tx_executed_in_a_block t x' \<and> \<not> is_tx_executed_in_a_block t x then tx_fee tx else 0) \<and>
     (is_tx_executed_in_a_block t x' \<or> t \<in> set (x_orphaned x')) \<and>
     (is_tx_executed_in_a_block t x \<longrightarrow> is_tx_executed_in_a_block t x') \<and>
     (\<forall>t'. t' \<noteq> t \<longrightarrow> is_tx_executed_in_a_block t' x' = is_tx_executed_in_a_block t' x \<and>
        (t' \<in> set (x_orphaned x') \<longleftrightarrow> t' \<in> set (x_orphaned x)))"

lemma executed_books: "books x' = books x \<Longrightarrow> is_tx_executed_in_a_block t x' = is_tx_executed_in_a_block t x"
  by (simp add: books_iff is_tx_executed_in_a_block_def)

lemma orphan_settled:
  "books x1 = books x \<Longrightarrow> \<not> is_tx_executed_in_a_block t x \<Longrightarrow> tx_settled tx t x (orphan_tx t x1)"
  by (auto simp: tx_settled_def orphan_tx_def books_iff is_tx_executed_in_a_block_def)

lemma orphan_inv: "exec_inv E x \<Longrightarrow> \<not> is_tx_executed_in_a_block t x \<Longrightarrow> exec_inv E (orphan_tx t x)"
  by (auto simp: exec_inv_def orphan_tx_def is_tx_executed_in_a_block_def index_set_insert_def)

lemma finish_tx_settled:
  assumes x: "exec_inv E x" and n: "\<not> is_tx_executed_in_a_block t x" and run: "finish_tx E h tx t x = (r, x')"
  shows "exec_inv E x' \<and> (r = Inr () \<longrightarrow> tx_settled tx t x x')"
proof (cases "get_new_nonce (tx_source tx) (x_checker x)")
  case (Inl e)
  with x run show ?thesis by (auto simp: finish_tx_def abind_def map_err_def)
next
  case (Inr nn)
  obtain y x1 where 1: "on_state (chain_update_account_nonce E (tx_source tx) nn) x = (y, x1)" by force
  have x1: "exec_inv E x1" "books x1 = books x"
    using preservesD [OF on_state_preserves [OF application_preserves(1)] x 1] on_state_books [OF 1] by blast+
  show ?thesis
  proof (cases y)
    case (Inl e)
    with run Inr 1 x1 show ?thesis by (auto simp: finish_tx_def abind_def map_err_def)
  next
    case y: (Inr u)
    then have x': "r = Inr ()" "x' = (set_tx_executed_in_block t h x1)\<lparr>x_orphaned := remove1 t (x_orphaned x1),
        x_fees := x_fees x1 + tx_fee tx\<rparr>"
      using run Inr 1 by (auto simp: finish_tx_def abind_def map_err_def)
    have "is_tx_executed_in_a_block t' x' \<longleftrightarrow> t' = t \<or> is_tx_executed_in_a_block t' x" for t'
      using x1(2) by (auto simp: x'(2) is_tx_executed_in_a_block_def set_tx_executed_in_block_def map_of_index_map_insert books_iff)
    moreover have "distinct (x_orphaned x)" "x_orphaned x' = remove1 t (x_orphaned x)" "x_fees x' = x_fees x + tx_fee tx"
      "chain_inv E (x_state x')"
      using x x1 by (auto simp: x'(2) exec_inv_def books_iff set_tx_executed_in_block_def)
    ultimately show ?thesis using x n by (auto simp: tx_settled_def exec_inv_def)
  qed
qed

lemma execute_tx_settled:
  assumes cv: "curve_laws (ce_curve E)" "v_curve V = ce_curve E"
    and d: "distinct (map sc_asset (tx_source_commitments tx))" and x: "exec_inv E x"
    and run: "execute_tx V run E h (tx, t) u x = (r, x')"
  shows "exec_inv E x' \<and> (r = Inr () \<longrightarrow> tx_settled tx t x x')"
proof -
  define x0 where "x0 = snd (add_block_linked_to_tx_if_not_present t h x)"
  have b0: "books x0 = books x" "exec_inv E x0"
    using x by (auto simp: x0_def books_iff linked_fields exec_inv_def is_tx_executed_in_a_block_def)
  have e0: "is_tx_executed_in_a_block t' x0 = is_tx_executed_in_a_block t' x" for t'
    by (rule executed_books [OF b0(1)])
  note run = run [unfolded execute_tx_def prod.case Let_def, folded x0_def]
  have same: "tx_settled tx t x x0" if "is_tx_executed_in_a_block t x"
    using that b0(1) e0 by (auto simp: tx_settled_def books_iff)
  consider (skip) "is_tx_executed_in_a_block t x0" | (fail) e where "\<not> is_tx_executed_in_a_block t x0"
      "use_nonce (checker_nonces (ce_storage E)) (tx_source tx) (tx_nonce tx) (ce_topoheight E) (x_checker x0) = Inl e"
    | (used) valid c where "\<not> is_tx_executed_in_a_block t x0"
      "use_nonce (checker_nonces (ce_storage E)) (tx_source tx) (tx_nonce tx) (ce_topoheight E) (x_checker x0) = Inr (valid, c)"
    by (metis sum.exhaust surj_pair)
  then show ?thesis
  proof cases
    case skip
    with run b0(2) same e0 show ?thesis by auto
  next
    case fail
    with run b0(2) show ?thesis by auto
  next
    case used
    define x1 where "x1 = x0\<lparr>x_checker := c\<rparr>"
    have b1: "books x1 = books x" "exec_inv E x1" "\<not> is_tx_executed_in_a_block t x1" "\<not> is_tx_executed_in_a_block t x"
      using b0 used(1) e0 by (auto simp: x1_def books_iff exec_inv_def is_tx_executed_in_a_block_def)
    obtain y x2 where 2: "on_state (apply_with_partial_verify V run ct_outputs (chain_application E) tx t) x1 = (y, x2)" by force
    have x2: "exec_inv E x2" "books x2 = books x1"
      using preservesD [OF on_state_preserves [OF apply_with_partial_verify_preserves [OF cv d]] b1(2) 2] on_state_books [OF 2] by blast+
    have n2: "\<not> is_tx_executed_in_a_block t x2" using executed_books [OF x2(2)] b1(3) by simp
    have "(if \<not> valid then (Inr (), orphan_tx t x1) else (case y of Inl _ \<Rightarrow> (Inr (), orphan_tx t x2)
        | Inr _ \<Rightarrow> finish_tx E h tx t x2)) = (r, x')"
      using run used by (cases valid; cases y) (simp_all add: x1_def 2 [unfolded x1_def])
    then show ?thesis
      using orphan_settled [of x1 x t tx] orphan_settled [of x2 x t tx] orphan_inv [OF b1(2,3)] orphan_inv [OF x2(1) n2]
        finish_tx_settled [OF x2(1) n2, of h tx r x'] b1(1,4) x2(2) executed_books [OF x2(2)] executed_books [OF b1(1)]
      by (cases valid; cases y) (auto simp: tx_settled_def books_iff)
  qed
qed

text \<open>All the transactions of a block.\<close>

definition newly_executed ::
  "(('s, 'r, 'o) transaction \<times> hash) list \<Rightarrow> ('p, 'o) execution \<Rightarrow> ('p, 'o) execution \<Rightarrow> ('s, 'r, 'o) transaction list" where
  "newly_executed txs x x' =
     map fst (filter (\<lambda>(tx, t). is_tx_executed_in_a_block t x' \<and> \<not> is_tx_executed_in_a_block t x) txs)"

definition txs_settled :: "(('s, 'r, 'o) transaction \<times> hash) list \<Rightarrow> ('p, 'o) execution \<Rightarrow> ('p, 'o) execution \<Rightarrow> bool" where
  "txs_settled txs x x' \<longleftrightarrow>
     x_fees x' = x_fees x + sum_list (map tx_fee (newly_executed txs x x')) \<and>
     (\<forall>t \<in> snd ` set txs. is_tx_executed_in_a_block t x' \<or> t \<in> set (x_orphaned x')) \<and>
     (\<forall>t \<in> snd ` set txs. is_tx_executed_in_a_block t x \<longrightarrow> is_tx_executed_in_a_block t x') \<and>
     (\<forall>t. t \<notin> snd ` set txs \<longrightarrow> is_tx_executed_in_a_block t x' = is_tx_executed_in_a_block t x \<and>
        (t \<in> set (x_orphaned x') \<longleftrightarrow> t \<in> set (x_orphaned x)))"

lemma txs_settled_Cons:
  assumes 1: "tx_settled tx t x x1" and 2: "txs_settled txs x1 x'" and t: "t \<notin> snd ` set txs"
  shows "txs_settled ((tx, t) # txs) x x'"
proof -
  have e: "is_tx_executed_in_a_block t x' = is_tx_executed_in_a_block t x1" "t \<in> set (x_orphaned x') \<longleftrightarrow> t \<in> set (x_orphaned x1)"
    using 2 t unfolding txs_settled_def by blast+
  have o: "is_tx_executed_in_a_block t' x1 = is_tx_executed_in_a_block t' x" if "t' \<in> snd ` set txs" for t'
    using 1 t that unfolding tx_settled_def by metis
  have "filter (\<lambda>(tx, t). is_tx_executed_in_a_block t x' \<and> \<not> is_tx_executed_in_a_block t x1) txs =
      filter (\<lambda>(tx, t). is_tx_executed_in_a_block t x' \<and> \<not> is_tx_executed_in_a_block t x) txs"
    using o by (intro filter_cong) force+
  then have fees: "x_fees x' = x_fees x + sum_list (map tx_fee (newly_executed ((tx, t) # txs) x x'))"
    using 1 2 e(1) by (auto simp: tx_settled_def txs_settled_def newly_executed_def)
  moreover have "\<forall>t' \<in> snd ` set ((tx, t) # txs). is_tx_executed_in_a_block t' x' \<or> t' \<in> set (x_orphaned x')"
    using 1 2 e unfolding tx_settled_def txs_settled_def by auto
  moreover have "\<forall>t' \<in> snd ` set ((tx, t) # txs). is_tx_executed_in_a_block t' x \<longrightarrow> is_tx_executed_in_a_block t' x'"
    using 1 2 e(1) o unfolding tx_settled_def txs_settled_def by (metis imageE insertE insert_iff list.set(2) image_insert snd_conv)
  moreover have "\<forall>t'. t' \<notin> snd ` set ((tx, t) # txs) \<longrightarrow> is_tx_executed_in_a_block t' x' = is_tx_executed_in_a_block t' x \<and>
      (t' \<in> set (x_orphaned x') \<longleftrightarrow> t' \<in> set (x_orphaned x))"
    using 1 2 unfolding tx_settled_def txs_settled_def by simp
  ultimately show ?thesis unfolding txs_settled_def by blast
qed

lemma execute_txs_settled:
  assumes cv: "curve_laws (ce_curve E)" "v_curve V = ce_curve E"
    and "distinct (map snd txs)" "\<forall>tx \<in> fst ` set txs. distinct (map sc_asset (tx_source_commitments tx))"
    and "exec_inv E x" "afor (execute_tx V run E h) txs u x = (r, x')"
  shows "exec_inv E x' \<and> (r = Inr () \<longrightarrow> txs_settled txs x x')"
  using assms(3-)
proof (induction txs arbitrary: x u)
  case Nil
  then show ?case by (auto simp: txs_settled_def newly_executed_def)
next
  case (Cons txh txs)
  obtain tx t where txh: "txh = (tx, t)" by force
  obtain y x1 where 1: "execute_tx V run E h (tx, t) u x = (y, x1)" by force
  have d: "distinct (map sc_asset (tx_source_commitments tx))" using Cons.prems(2) by (simp add: txh)
  from execute_tx_settled [OF cv d Cons.prems(3) 1] have x1: "exec_inv E x1" "y = Inr () \<longrightarrow> tx_settled tx t x x1" by blast+
  show ?case
  proof (cases y)
    case (Inl e)
    with 1 Cons.prems(4) x1(1) show ?thesis by (auto simp: txh abind_def)
  next
    case (Inr u1)
    with 1 Cons.prems(4) have 2: "afor (execute_tx V run E h) txs u1 x1 = (r, x')" by (simp add: txh abind_def)
    have ds: "distinct (map snd txs)" "\<forall>tx \<in> fst ` set txs. distinct (map sc_asset (tx_source_commitments tx))" "t \<notin> snd ` set txs"
      using Cons.prems(1,2) by (auto simp: txh)
    from Cons.IH [OF ds(1,2) x1(1) 2] x1(2) Inr txs_settled_Cons [OF _ _ ds(3), of tx x x1 x'] show ?thesis
      by (auto simp: txh)
  qed
qed

lemma reward_ledger:
  assumes cv: "curve_laws (ce_curve E)" and "reward_miner E k n st = (Inr u, st')"
  shows "ledger E st' k' a' = map_option (\<lambda>b. ciphertext_add (ce_curve E) b
    (credit (ce_curve E) [(k, XELIS_ASSET, plain (ce_curve E) n)] k' a')) (ledger E st k' a')"
proof -
  from assms(2) obtain b st1 where 1: "chain_get_receiver_balance E k XELIS_ASSET st = (Inr b, st1)"
    and "st' = chain_put_receiver_balance k XELIS_ASSET (ciphertext_add (ce_curve E) b (plain (ce_curve E) n)) st1"
    by (auto simp: reward_miner_def abind_Inr ciphertext_add_u64_def ct_add_rules [OF cv])
  with ledger_receive [OF cv 1] show ?thesis by simp
qed

lemma reward_miner_preserves: "preserves (chain_inv E) (reward_miner E k n)"
  unfolding reward_miner_def by (auto intro!: preserves_aupdate chain_put_receiver_inv chain_get_receiver_preserves)

lemma reward_miner_gas: "reward_miner E k n st = (r, st') \<Longrightarrow> cs_gas_fee st' = cs_gas_fee st"
  by (auto simp: reward_miner_def abind_def chain_get_receiver_balance_def chain_put_receiver_balance_def
      put_receiver_version_def Let_def split: prod.splits sum.splits option.splits)

lemma reward_block_preserves: "preserves (exec_inv E) (reward_block E dev_key n reward k)"
proof -
  have "preserves (exec_inv E) (\<lambda>x. on_state (reward_miner E k (f x)) x)" for f
    unfolding preserves_def using preservesD [OF on_state_preserves [OF reward_miner_preserves]] by blast
  then show ?thesis
    unfolding reward_block_def Let_def by (auto intro!: on_state_preserves reward_miner_preserves)
qed

text \<open>What a block pays out.\<close>

definition payouts ::
  "('p, 's) curve \<Rightarrow> compressed_public_key \<Rightarrow> compressed_public_key \<Rightarrow> u64 \<Rightarrow> u64 \<Rightarrow> u64 \<Rightarrow>
   (compressed_public_key \<times> hash \<times> 'p ciphertext) list" where
  "payouts cv dev_key miner_key block_height block_reward earned =
     (let percentage = get_block_dev_fee block_height; part = block_reward * percentage div 100 in
      if percentage \<noteq> 0
      then [(dev_key, XELIS_ASSET, plain cv part), (miner_key, XELIS_ASSET, plain cv (block_reward - part + earned))]
      else [(miner_key, XELIS_ASSET, plain cv (block_reward + earned))])"

lemma reward_block_ledger:
  assumes cv: "curve_laws (ce_curve E)" and run: "reward_block E dev_key n reward k x = (Inr u, x')"
  shows "books x' = books x \<and> (\<forall>key asset. ledger E (x_state x') key asset =
    map_option (\<lambda>b. ciphertext_add (ce_curve E) b (credit (ce_curve E)
      (payouts (ce_curve E) dev_key k n reward (x_fees x + cs_gas_fee (x_state x))) key asset)) (ledger E (x_state x) key asset))"
proof (cases "get_block_dev_fee n = 0")
  case True
  with run have "on_state (reward_miner E k (reward + x_fees x + cs_gas_fee (x_state x))) x = (Inr u, x')"
    by (simp add: reward_block_def abind_def)
  with True on_state_books [OF this] reward_ledger [OF cv] show ?thesis
    by (auto simp: on_state_def payouts_def add.assoc split: prod.splits)
next
  case False
  let ?part = "reward * get_block_dev_fee n div 100"
  from run False obtain u1 x1 where 1: "on_state (reward_miner E dev_key ?part) x = (Inr u1, x1)"
    and 2: "on_state (reward_miner E k (reward - ?part + x_fees x1 + cs_gas_fee (x_state x1))) x1 = (Inr u, x')"
    by (auto simp: reward_block_def Let_def abind_Inr)
  from 1 2 have r1: "reward_miner E dev_key ?part (x_state x) = (Inr u1, x_state x1)"
    and r2: "reward_miner E k (reward - ?part + x_fees x1 + cs_gas_fee (x_state x1)) (x_state x1) = (Inr u, x_state x')"
    by (auto simp: on_state_def split: prod.splits)
  have b: "books x1 = books x" "books x' = books x1" using on_state_books [OF 1] on_state_books [OF 2] by blast+
  then have "x_fees x1 = x_fees x" by (simp add: books_iff)
  with False reward_miner_gas [OF r1] reward_ledger [OF cv r1] reward_ledger [OF cv r2] b show ?thesis
    by (auto simp: payouts_def Let_def credit_Cons [OF cv, of _ "[_]"] option.map_comp comp_def ct_add_rules(1) [OF cv] add.assoc)
qed

lemma txs_settled_books: "txs_settled txs x x1 \<Longrightarrow> books x' = books x1 \<Longrightarrow> txs_settled txs x x'"
  by (simp add: txs_settled_def newly_executed_def books_iff executed_books [of x' x1])

text \<open>
  C5: executing a block keeps the books. Whatever its transactions do, also when they fail half-way, the
  state stays consistent, and no transaction is both executed and orphaned. When the block has been
  executed every one of its transactions is one or the other; the fees are those of the transactions
  that were executed now, each once; and after the transactions the dev account and the miner are
  credited, and no one else: the block reward without the dev fee, the fees and the gas.
\<close>

theorem block_execution:
  assumes cv: "curve_laws (ce_curve E)" "v_curve V = ce_curve E"
    and txs: "distinct (map snd txs)" "\<forall>tx \<in> fst ` set txs. distinct (map sc_asset (tx_source_commitments tx))"
    and x: "exec_inv E x" and run: "execute_block V run E dev_key h n k txs reward x = (r, x')"
  shows "exec_inv E x' \<and> (r = Inr () \<longrightarrow> txs_settled txs x x' \<and>
    (\<exists>st. \<forall>key asset. ledger E (x_state x') key asset = map_option (\<lambda>b. ciphertext_add (ce_curve E) b
      (credit (ce_curve E) (payouts (ce_curve E) dev_key k n reward (x_fees x' + cs_gas_fee (st :: ('p, 'o) applicable_state)))
        key asset)) (ledger E st key asset) \<and>
      (\<exists>x1. afor (execute_tx V run E h) txs () x = (Inr (), x1) \<and> st = x_state x1)))"
proof -
  obtain y x1 where 1: "afor (execute_tx V run E h) txs () x = (y, x1)" by force
  from execute_txs_settled [OF cv txs x 1] have x1: "exec_inv E x1" "y = Inr () \<longrightarrow> txs_settled txs x x1" by blast+
  show ?thesis
  proof (cases y)
    case (Inl e)
    with run 1 x1(1) show ?thesis by (auto simp: execute_block_def abind_def)
  next
    case (Inr u)
    with run 1 have 2: "reward_block E dev_key n reward k x1 = (r, x')" by (simp add: execute_block_def abind_def)
    have "exec_inv E x'" by (rule preservesD [OF reward_block_preserves x1(1) 2])
    moreover have "books x' = books x1 \<and> (\<forall>key asset. ledger E (x_state x') key asset =
        map_option (\<lambda>b. ciphertext_add (ce_curve E) b (credit (ce_curve E)
          (payouts (ce_curve E) dev_key k n reward (x_fees x1 + cs_gas_fee (x_state x1))) key asset)) (ledger E (x_state x1) key asset))"
      if "r = Inr ()" using reward_block_ledger [OF cv(1), of dev_key n reward k x1 "()" x'] 2 that by simp
    ultimately show ?thesis using 1 Inr x1(2) txs_settled_books [of txs x x1 x'] by (auto simp: books_iff)
  qed
qed

text \<open>A block with one transaction whose nonce has been used already.\<close>

definition sample_start :: "(bool, hash) execution" where
  "sample_start = \<lparr>x_state = applicable_new 0 hash_zero, x_checker = nonce_checker_new, x_executed = [], x_linked = [],
     x_orphaned = [], x_fees = 0\<rparr>"

lemma sample_start_inv: "exec_inv E sample_start"
  by (simp add: exec_inv_def sample_start_def chain_inv_new)

lemma sample_execution:
  "\<exists>x'. execute_block sample_verifier no_vm (sample_chain 8) (replicate 32 2) hash_zero 5 (replicate 32 3)
     [(sample_burn 7, replicate 32 1)] 3 sample_start = (Inr (), x')"
proof -
  let ?x = "sample_start\<lparr>x_linked := [(replicate 32 1, [hash_zero])], x_checker := [(replicate 32 1, account_entry_new 8)],
    x_orphaned := [replicate 32 1]\<rparr>"
  have "execute_tx sample_verifier no_vm (sample_chain 8) hash_zero (sample_burn 7, replicate 32 1) () sample_start = (Inr (), ?x)"
    by (simp add: execute_tx_def add_block_linked_to_tx_if_not_present_def sample_start_def is_tx_executed_in_a_block_def
        use_nonce_def nonce_checker_new_def checker_nonces_def sample_chain_def sample_storage_def sample_burn_simps
        insert_nonce_at_topoheight_def account_entry_new_def contains_nonce_def orphan_tx_def index_set_insert_def Let_def)
  moreover have "\<exists>x'. reward_block (sample_chain 8) (replicate 32 2) 5 3 (replicate 32 3) ?x = (Inr (), x')"
    by (simp add: reward_block_def abind_def on_state_def reward_miner_def chain_get_receiver_balance_def sample_start_def
        applicable_new_def inner_map_def sample_chain_def sample_storage_def versioned_balance_zero_def versioned_balance_new_def
        version_computable_def put_receiver_version_def chain_put_receiver_balance_def Let_def split: prod.splits sum.splits)
  ultimately show ?thesis by (simp add: execute_block_def abind_def)
qed

theorem block_execution_witness:
  "\<exists>x'. execute_block sample_verifier no_vm (sample_chain 8) (replicate 32 2) hash_zero 5 (replicate 32 3)
      [(sample_burn 7, replicate 32 1)] 3 sample_start = (Inr (), x') \<and> exec_inv (sample_chain 8) x' \<and>
    (is_tx_executed_in_a_block (replicate 32 1) x' \<or> replicate 32 1 \<in> set (x_orphaned x'))"
proof -
  obtain x' where run: "execute_block sample_verifier no_vm (sample_chain 8) (replicate 32 2) hash_zero 5 (replicate 32 3)
      [(sample_burn 7, replicate 32 1)] 3 sample_start = (Inr (), x')"
    using sample_execution by blast
  have E: "ce_curve (sample_chain 8) = two_curve" "v_curve sample_verifier = two_curve"
    by (simp_all add: sample_chain_def sample_verifier_def sample_libs_def)
  have "distinct (map snd [(sample_burn 7, replicate 32 1 :: hash)])"
    "\<forall>tx \<in> fst ` set [(sample_burn 7, replicate 32 1 :: hash)]. distinct (map sc_asset (tx_source_commitments tx))"
    by (simp_all add: sample_burn_simps)
  from block_execution [of "sample_chain 8" sample_verifier, unfolded E, OF two_curve_laws refl this sample_start_inv run]
  have "exec_inv (sample_chain 8) x'" "txs_settled [(sample_burn 7, replicate 32 1)] sample_start x'" by blast+
  with run show ?thesis by (auto simp: txs_settled_def)
qed

end
