(* ===== verification/Snapshot.thy ===== *)
theory Snapshot
  imports Serializer_Defaults
begin

text \<open>
  The key-value layer of the daemon's storage (\<open>core/storage/sled\<close>, \<open>providers/commit_point.rs\<close>,
  \<open>cache.rs\<close>): trees on disk, a snapshot that collects the writes of a commit point in one batch
  per tree, reads that look in the snapshot first, and the end of a commit point, which applies
  the batches or drops them.

  The database library keeps one map from byte strings to byte strings per tree name; opening a
  tree that does not exist gives an empty one. A storage cache has counters and, when it was
  created with a size, LRU caches, which are one abstract value here.
\<close>

section \<open>Errors\<close>

datatype disk_context =
    CtxDataLen | CtxDeleteData | CtxTips | CtxPrunedTopoHeight | CtxAssetsCount | CtxTxsCount
  | CtxBlocksCount | CtxAccountsCount | CtxBlocksExecutionOrderCount | CtxContractsCount
  | CtxGetTopoHeightForHash | CtxGetBlockHashAtTopoHeight u64 | CtxBlocksAtHeight u64
  | CtxDifficultyForBlockHash | CtxCumulativeDifficultyForBlockHash | CtxGetBlockHeaderByHash
  | CtxEstimatedCovarianceForBlockHash | CtxTopTopoHeight | CtxTopHeight | CtxGetTransaction
  | CtxBlockExecutorForTx | CtxTxBlocks | CtxSearchBlockPositionInOrder | CtxVersioned
  | CtxLastTopoHeight | CtxAtTopoHeight u64

datatype blockchain_error =
    NotFoundOnDisk disk_context | ReaderErr reader_error | CommitPointAlreadyStarted
  | CommitPointNotStarted | ExpectedTips | InvalidDifficulty | DifficultyCannotBeZeroErr
  | PruneZero | PruneHeightTooHigh | PruneLowerThanLastPruned | NotEnoughBlocks | CorruptedData
  | InvalidBlockVersion | AlreadyInChain | TimestampIsInFuture u64 u64 | InvalidTipsCount hash nat
  | BlockHeightZeroNotAllowed | InvalidBlockSize nat nat | InvalidTipsNotFound hash hash
  | InvalidBlockHeight u64 u64 | InvalidBlockHeightStableHeight | InvalidReachability
  | TimestampIsLessThanParent u64 | BlockDeviation | InvalidTipsDifficulty hash hash | PowHashError
  | InvalidBlockTxs nat nat | TxTooBig nat nat | InvalidTxInBlock hash
  | DeadTxFromStableHeight hash hash u64 hash | DeadTxFromTips hash hash

section \<open>Batches and snapshots\<close>

type_synonym bytes = "u8 list"
type_synonym tree_name = string
type_synonym disk = "tree_name \<Rightarrow> bytes \<rightharpoonup> bytes"

record batch =
  writes :: "bytes \<rightharpoonup> bytes option"

definition batch_default :: batch where
  "batch_default = \<lparr>writes = Map.empty\<rparr>"

definition batch_insert :: "bytes \<Rightarrow> bytes \<Rightarrow> batch \<Rightarrow> bytes option \<times> batch" where
  "batch_insert key val b =
     (Option.bind (writes b key) id, b\<lparr>writes := (writes b)(key \<mapsto> Some val)\<rparr>)"

text \<open>A key that the batch has no entry for stays without one.\<close>

definition batch_remove :: "bytes \<Rightarrow> batch \<Rightarrow> (bytes option \<times> bool) \<times> batch" where
  "batch_remove key b =
     (case writes b key of
        Some val \<Rightarrow> ((val, False), b\<lparr>writes := (writes b)(key \<mapsto> None)\<rparr>)
      | None \<Rightarrow> ((None, True), b))"

record counter_cache =
  assets_count :: u64
  accounts_count :: u64
  transactions_count :: u64
  blocks_count :: u64
  blocks_execution_count :: u64
  contracts_count :: u64
  tips_cache :: "hash list"
  pruned_topoheight_cache :: "u64 option"

definition counter_default :: counter_cache where
  "counter_default = \<lparr>assets_count = 0, accounts_count = 0, transactions_count = 0, blocks_count = 0,
     blocks_execution_count = 0, contracts_count = 0, tips_cache = [],
     pruned_topoheight_cache = None\<rparr>"

record 'l storage_cache =
  counter :: counter_cache
  lru_caches :: "'l option"
  cache_size :: "nat option"

definition storage_cache_new :: "(nat \<Rightarrow> 'l) \<Rightarrow> nat option \<Rightarrow> 'l storage_cache" where
  "storage_cache_new init_cache sz =
     \<lparr>counter = counter_default, lru_caches = map_option init_cache sz, cache_size = sz\<rparr>"

definition storage_cache_clone :: "'l storage_cache \<Rightarrow> 'l storage_cache" where
  "storage_cache_clone c = \<lparr>counter = counter c, lru_caches = None, cache_size = None\<rparr>"

record 'l snapshot =
  snapshot_trees :: "tree_name \<rightharpoonup> batch option"
  snapshot_cache :: "'l storage_cache"

definition snapshot_new :: "'l storage_cache \<Rightarrow> 'l snapshot" where
  "snapshot_new c = \<lparr>snapshot_trees = Map.empty, snapshot_cache = c\<rparr>"

definition snapshot_contains_key :: "'l snapshot \<Rightarrow> tree_name \<Rightarrow> bytes \<Rightarrow> bool" where
  "snapshot_contains_key sn tree key =
     (case snapshot_trees sn tree of
        Some (Some b) \<Rightarrow> writes b key \<noteq> None
      | _ \<Rightarrow> False)"

definition snapshot_contains_key_with_value ::
  "'l snapshot \<Rightarrow> tree_name \<Rightarrow> bytes \<Rightarrow> bool option" where
  "snapshot_contains_key_with_value sn tree key =
     (case snapshot_trees sn tree of
        Some (Some b) \<Rightarrow> map_option (\<lambda>v. v \<noteq> None) (writes b key)
      | _ \<Rightarrow> None)"

definition snapshot_load_optional ::
  "'a parser \<Rightarrow> 'l snapshot \<Rightarrow> tree_name \<Rightarrow> bytes \<Rightarrow> blockchain_error + 'a option" where
  "snapshot_load_optional rd sn tree key =
     (case (case snapshot_trees sn tree of
              Some (Some b) \<Rightarrow> Option.bind (writes b key) id
            | _ \<Rightarrow> None) of
        Some data \<Rightarrow> map_sum ReaderErr Some (from_bytes rd data)
      | None \<Rightarrow> Inr None)"

definition snapshot_insert ::
  "tree_name \<Rightarrow> bytes \<Rightarrow> bytes \<Rightarrow> 'l snapshot \<Rightarrow> bytes option \<times> 'l snapshot" where
  "snapshot_insert tree key val sn =
     (let entry = (case snapshot_trees sn tree of None \<Rightarrow> Some batch_default | Some e \<Rightarrow> e);
          b = (case entry of Some b \<Rightarrow> b | None \<Rightarrow> batch_default);
          (res, b') = batch_insert key val b in
      (res, sn\<lparr>snapshot_trees := (snapshot_trees sn)(tree \<mapsto> Some b')\<rparr>))"

definition snapshot_remove ::
  "tree_name \<Rightarrow> bytes \<Rightarrow> 'l snapshot \<Rightarrow> (bytes option \<times> bool) \<times> 'l snapshot" where
  "snapshot_remove tree key sn =
     (let entry = (case snapshot_trees sn tree of None \<Rightarrow> Some batch_default | Some e \<Rightarrow> e) in
      case entry of
        Some b \<Rightarrow> (case batch_remove key b of (res, b') \<Rightarrow>
          (res, sn\<lparr>snapshot_trees := (snapshot_trees sn)(tree \<mapsto> Some b')\<rparr>))
      | None \<Rightarrow> ((None, False), sn\<lparr>snapshot_trees := (snapshot_trees sn)(tree \<mapsto> None)\<rparr>))"

definition snapshot_get_value_size :: "'l snapshot \<Rightarrow> tree_name \<Rightarrow> bytes \<Rightarrow> nat option" where
  "snapshot_get_value_size sn tree key =
     Option.bind (snapshot_trees sn tree) (\<lambda>mb. Option.bind mb (\<lambda>b.
       Option.bind (writes b key) (\<lambda>mv. map_option length mv)))"

definition snapshot_drop_tree :: "tree_name \<Rightarrow> 'l snapshot \<Rightarrow> bool \<times> 'l snapshot" where
  "snapshot_drop_tree tree sn =
     (snapshot_trees sn tree \<noteq> None, sn\<lparr>snapshot_trees := (snapshot_trees sn)(tree \<mapsto> None)\<rparr>)"

section \<open>The storage\<close>

record 'l sled =
  db :: disk
  sled_snapshot :: "'l snapshot option"
  sled_cache :: "'l storage_cache"

definition load_optional_from_disk ::
  "'a parser \<Rightarrow> 'l sled \<Rightarrow> tree_name \<Rightarrow> bytes \<Rightarrow> blockchain_error + 'a option" where
  "load_optional_from_disk rd s tree key =
     (case sled_snapshot s of
        Some sn \<Rightarrow>
          if snapshot_contains_key sn tree key then snapshot_load_optional rd sn tree key
          else (case db s tree key of
                  Some data \<Rightarrow> map_sum ReaderErr Some (from_bytes rd data)
                | None \<Rightarrow> Inr None)
      | None \<Rightarrow>
          (case db s tree key of
             Some data \<Rightarrow> map_sum ReaderErr Some (from_bytes rd data)
           | None \<Rightarrow> Inr None))"

definition load_from_disk ::
  "'a parser \<Rightarrow> 'l sled \<Rightarrow> tree_name \<Rightarrow> bytes \<Rightarrow> disk_context \<Rightarrow> blockchain_error + 'a" where
  "load_from_disk rd s tree key ctx =
     result_bind (load_optional_from_disk rd s tree key) (\<lambda>m. ok_or m (NotFoundOnDisk ctx))"

definition remove_from_disk_internal :: "tree_name \<Rightarrow> bytes \<Rightarrow> 'l sled \<Rightarrow> bytes option \<times> 'l sled" where
  "remove_from_disk_internal tree key s =
     (case sled_snapshot s of
        Some sn \<Rightarrow>
          (case snapshot_remove tree key sn of ((val, load), sn') \<Rightarrow>
             (if load then db s tree key else val, s\<lparr>sled_snapshot := Some sn'\<rparr>))
      | None \<Rightarrow> (db s tree key, s\<lparr>db := (db s)(tree := (db s tree)(key := None))\<rparr>))"

definition remove_from_disk ::
  "'a parser \<Rightarrow> tree_name \<Rightarrow> bytes \<Rightarrow> 'l sled \<Rightarrow> (blockchain_error + 'a option) \<times> 'l sled" where
  "remove_from_disk rd tree key s =
     (case remove_from_disk_internal tree key s of (v, s') \<Rightarrow>
        (case v of None \<Rightarrow> Inr None | Some data \<Rightarrow> map_sum ReaderErr Some (from_bytes rd data), s'))"

definition remove_from_disk_without_reading :: "tree_name \<Rightarrow> bytes \<Rightarrow> 'l sled \<Rightarrow> bool \<times> 'l sled" where
  "remove_from_disk_without_reading tree key s =
     (case remove_from_disk_internal tree key s of (v, s') \<Rightarrow> (v \<noteq> None, s'))"

definition insert_into_disk :: "tree_name \<Rightarrow> bytes \<Rightarrow> bytes \<Rightarrow> 'l sled \<Rightarrow> bytes option \<times> 'l sled" where
  "insert_into_disk tree key val s =
     (case sled_snapshot s of
        Some sn \<Rightarrow> (case snapshot_insert tree key val sn of (res, sn') \<Rightarrow>
          (res, s\<lparr>sled_snapshot := Some sn'\<rparr>))
      | None \<Rightarrow> (db s tree key, s\<lparr>db := (db s)(tree := (db s tree)(key \<mapsto> val))\<rparr>))"

definition get_size_from_disk :: "'l sled \<Rightarrow> tree_name \<Rightarrow> bytes \<Rightarrow> blockchain_error + nat" where
  "get_size_from_disk s tree key =
     (case sled_snapshot s of
        Some sn \<Rightarrow>
          if snapshot_contains_key sn tree key
          then ok_or (snapshot_get_value_size sn tree key) (NotFoundOnDisk CtxDataLen)
          else ok_or (map_option length (db s tree key)) (NotFoundOnDisk CtxDataLen)
      | None \<Rightarrow> ok_or (map_option length (db s tree key)) (NotFoundOnDisk CtxDataLen))"

definition contains_data :: "'l sled \<Rightarrow> tree_name \<Rightarrow> bytes \<Rightarrow> bool" where
  "contains_data s tree key =
     (case Option.bind (sled_snapshot s) (\<lambda>sn. snapshot_contains_key_with_value sn tree key) of
        Some v \<Rightarrow> v
      | None \<Rightarrow> db s tree key \<noteq> None)"

text \<open>Deleting a value that must be there; the LRU cache entry, when there is one, goes too.\<close>

definition delete_cacheable_data ::
  "'a parser \<Rightarrow> tree_name \<Rightarrow> bytes \<Rightarrow> 'l sled \<Rightarrow> (blockchain_error + 'a) \<times> 'l sled" where
  "delete_cacheable_data rd tree key s =
     (case remove_from_disk rd tree key s of (res, s') \<Rightarrow>
        (result_bind res (\<lambda>m. ok_or m (NotFoundOnDisk CtxDeleteData)), s'))"

section \<open>Counters, tips and the pruned topoheight\<close>

definition EXTRA_TREE :: tree_name where "EXTRA_TREE = ''extra''"

definition TIPS :: bytes where "TIPS = map of_char ''TIPS''"

definition PRUNED_TOPOHEIGHT :: bytes where "PRUNED_TOPOHEIGHT = map of_char ''PRUN''"

definition ACCOUNTS_COUNT :: bytes where "ACCOUNTS_COUNT = map of_char ''CACC''"

definition TXS_COUNT :: bytes where "TXS_COUNT = map of_char ''CTXS''"

definition ASSETS_COUNT :: bytes where "ASSETS_COUNT = map of_char ''CAST''"

definition BLOCKS_COUNT :: bytes where "BLOCKS_COUNT = map of_char ''CBLK''"

definition BLOCKS_EXECUTION_ORDER_COUNT :: bytes where
  "BLOCKS_EXECUTION_ORDER_COUNT = map of_char ''EBLK''"

definition CONTRACTS_COUNT :: bytes where "CONTRACTS_COUNT = map of_char ''CCON''"

definition sled_counter :: "'l sled \<Rightarrow> counter_cache" where
  "sled_counter s = counter (sled_cache s)"

definition sled_set_counter :: "counter_cache \<Rightarrow> 'l sled \<Rightarrow> 'l sled" where
  "sled_set_counter c s = s\<lparr>sled_cache := (sled_cache s)\<lparr>counter := c\<rparr>\<rparr>"

text \<open>\<open>if let Ok(x) = load(..) { counter.field = x }\<close>\<close>

definition refresh :: "blockchain_error + 'a \<Rightarrow> ('a \<Rightarrow> counter_cache \<Rightarrow> counter_cache) \<Rightarrow>
    counter_cache \<Rightarrow> counter_cache" where
  "refresh res upd c = (case res of Inr x \<Rightarrow> upd x c | Inl _ \<Rightarrow> c)"

definition load_cache_from_disk :: "'l sled \<Rightarrow> 'l sled" where
  "load_cache_from_disk s =
     (let u64_at = (\<lambda>key ctx. load_from_disk read_u64 s EXTRA_TREE key ctx);
          c = sled_counter s;
          c = refresh (load_from_disk read_tips s EXTRA_TREE TIPS CtxTips)
                (\<lambda>t c. c\<lparr>tips_cache := t\<rparr>) c;
          c = refresh (u64_at PRUNED_TOPOHEIGHT CtxPrunedTopoHeight)
                (\<lambda>n c. c\<lparr>pruned_topoheight_cache := Some n\<rparr>) c;
          c = refresh (u64_at ASSETS_COUNT CtxAssetsCount) (\<lambda>n c. c\<lparr>assets_count := n\<rparr>) c;
          c = refresh (u64_at TXS_COUNT CtxTxsCount) (\<lambda>n c. c\<lparr>transactions_count := n\<rparr>) c;
          c = refresh (u64_at BLOCKS_COUNT CtxBlocksCount) (\<lambda>n c. c\<lparr>blocks_count := n\<rparr>) c;
          c = refresh (u64_at ACCOUNTS_COUNT CtxAccountsCount) (\<lambda>n c. c\<lparr>accounts_count := n\<rparr>) c;
          c = refresh (u64_at BLOCKS_EXECUTION_ORDER_COUNT CtxBlocksExecutionOrderCount)
                (\<lambda>n c. c\<lparr>blocks_execution_count := n\<rparr>) c;
          c = refresh (u64_at CONTRACTS_COUNT CtxContractsCount) (\<lambda>n c. c\<lparr>contracts_count := n\<rparr>) c in
      sled_set_counter c s)"

definition clear_caches :: "('l \<Rightarrow> 'l) \<Rightarrow> 'l sled \<Rightarrow> 'l sled" where
  "clear_caches clear s =
     load_cache_from_disk
       (s\<lparr>sled_cache := (sled_cache s)\<lparr>lru_caches := map_option clear (lru_caches (sled_cache s))\<rparr>\<rparr>)"

text \<open>Writes to a counter go to the snapshot's cache during a commit point.\<close>

definition update_counter :: "(counter_cache \<Rightarrow> counter_cache) \<Rightarrow> 'l sled \<Rightarrow> 'l sled" where
  "update_counter f s =
     (case sled_snapshot s of
        Some sn \<Rightarrow> s\<lparr>sled_snapshot := Some (sn\<lparr>snapshot_cache :=
          (snapshot_cache sn)\<lparr>counter := f (counter (snapshot_cache sn))\<rparr>\<rparr>)\<rparr>
      | None \<Rightarrow> sled_set_counter (f (sled_counter s)) s)"

definition store_assets_count :: "u64 \<Rightarrow> 'l sled \<Rightarrow> 'l sled" where
  "store_assets_count n s =
     snd (insert_into_disk EXTRA_TREE ASSETS_COUNT (to_be_bytes n)
       (update_counter (\<lambda>c. c\<lparr>assets_count := n\<rparr>) s))"

definition get_tips :: "'l sled \<Rightarrow> hash list" where
  "get_tips s =
     (case sled_snapshot s of Some sn \<Rightarrow> tips_cache (counter (snapshot_cache sn))
      | None \<Rightarrow> tips_cache (sled_counter s))"

definition store_tips :: "hash list \<Rightarrow> 'l sled \<Rightarrow> 'l sled" where
  "store_tips ts s =
     update_counter (\<lambda>c. c\<lparr>tips_cache := ts\<rparr>)
       (snd (insert_into_disk EXTRA_TREE TIPS (to_bytes write_tips ts) s))"

definition set_pruned_topoheight :: "u64 \<Rightarrow> 'l sled \<Rightarrow> 'l sled" where
  "set_pruned_topoheight t s =
     snd (insert_into_disk EXTRA_TREE PRUNED_TOPOHEIGHT (to_be_bytes t)
       (update_counter (\<lambda>c. c\<lparr>pruned_topoheight_cache := Some t\<rparr>) s))"

definition get_pruned_topoheight :: "'l sled \<Rightarrow> u64 option" where
  "get_pruned_topoheight s = pruned_topoheight_cache (sled_counter s)"

section \<open>Commit points\<close>

definition start_commit_point :: "'l sled \<Rightarrow> blockchain_error + 'l sled" where
  "start_commit_point s =
     (case sled_snapshot s of
        Some _ \<Rightarrow> Inl CommitPointAlreadyStarted
      | None \<Rightarrow> Inr (s\<lparr>sled_snapshot := Some (snapshot_new (storage_cache_clone (sled_cache s)))\<rparr>))"

definition apply_batch :: "batch \<Rightarrow> (bytes \<rightharpoonup> bytes) \<Rightarrow> (bytes \<rightharpoonup> bytes)" where
  "apply_batch b tree = (\<lambda>key. case writes b key of Some val \<Rightarrow> val | None \<Rightarrow> tree key)"

definition apply_trees :: "(tree_name \<rightharpoonup> batch option) \<Rightarrow> disk \<Rightarrow> disk" where
  "apply_trees trees d =
     (\<lambda>tree. case trees tree of
        None \<Rightarrow> d tree
      | Some (Some b) \<Rightarrow> apply_batch b (d tree)
      | Some None \<Rightarrow> Map.empty)"

definition end_commit_point :: "('l \<Rightarrow> 'l) \<Rightarrow> bool \<Rightarrow> 'l sled \<Rightarrow> blockchain_error + 'l sled" where
  "end_commit_point clear apply_it s =
     (case sled_snapshot s of
        None \<Rightarrow> Inl CommitPointNotStarted
      | Some sn \<Rightarrow>
          (let s = s\<lparr>sled_snapshot := None\<rparr> in
           Inr (if apply_it
                then s\<lparr>sled_cache := snapshot_cache sn, db := apply_trees (snapshot_trees sn) (db s)\<rparr>
                else clear_caches clear s)))"

section \<open>What a reader of the storage sees\<close>

text \<open>The abstraction of the storage: the disk, overlaid with the writes of the commit point.\<close>

definition sled_view :: "'l sled \<Rightarrow> disk" where
  "sled_view s =
     (case sled_snapshot s of
        None \<Rightarrow> db s
      | Some sn \<Rightarrow> (\<lambda>tree key.
          case snapshot_trees sn tree of
            Some (Some b) \<Rightarrow> (case writes b key of Some val \<Rightarrow> val | None \<Rightarrow> db s tree key)
          | _ \<Rightarrow> db s tree key))"

definition no_drop :: "'l sled \<Rightarrow> bool" where
  "no_drop s \<longleftrightarrow> (case sled_snapshot s of None \<Rightarrow> True
     | Some sn \<Rightarrow> \<forall>tree. snapshot_trees sn tree \<noteq> Some None)"

definition decode :: "'a parser \<Rightarrow> bytes option \<Rightarrow> blockchain_error + 'a option" where
  "decode rd m = (case m of None \<Rightarrow> Inr None | Some data \<Rightarrow> map_sum ReaderErr Some (from_bytes rd data))"

lemma load_optional_view: "load_optional_from_disk rd s tree key = decode rd (sled_view s tree key)"
  by (auto simp: load_optional_from_disk_def decode_def sled_view_def snapshot_contains_key_def
      snapshot_load_optional_def split: option.splits)

lemma contains_data_view: "contains_data s tree key \<longleftrightarrow> sled_view s tree key \<noteq> None"
  by (auto simp: contains_data_def sled_view_def snapshot_contains_key_with_value_def
      split: option.splits)

lemma get_size_view:
  "get_size_from_disk s tree key =
     ok_or (map_option length (sled_view s tree key)) (NotFoundOnDisk CtxDataLen)"
  by (auto simp: get_size_from_disk_def sled_view_def snapshot_contains_key_def
      snapshot_get_value_size_def split: option.splits)

lemma insert_into_disk_view:
  "sled_view (snd (insert_into_disk tree key val s)) =
     (sled_view s)(tree := (sled_view s tree)(key \<mapsto> val))"
  by (auto simp: fun_eq_iff insert_into_disk_def sled_view_def snapshot_insert_def batch_insert_def
      batch_default_def Let_def split: option.splits prod.splits)

lemma insert_into_disk_db:
  "sled_snapshot s \<noteq> None \<Longrightarrow>
     db (snd (insert_into_disk tree key val s)) = db s \<and>
     sled_snapshot (snd (insert_into_disk tree key val s)) \<noteq> None"
  by (auto simp: insert_into_disk_def split: prod.splits)

lemma insert_into_disk_no_drop: "no_drop s \<Longrightarrow> no_drop (snd (insert_into_disk tree key val s))"
  by (auto simp: no_drop_def insert_into_disk_def snapshot_insert_def Let_def
      split: option.splits prod.splits)

lemma update_counter_view [simp]: "sled_view (update_counter f s) = sled_view s"
  by (auto simp: update_counter_def sled_view_def sled_set_counter_def fun_eq_iff
      split: option.splits)

lemma end_commit_view:
  assumes "end_commit_point clear True s = Inr s'" "no_drop s"
  shows "sled_view s' = sled_view s" "db s' = sled_view s" "sled_snapshot s' = None"
  using assms
  by (auto simp: end_commit_point_def sled_view_def no_drop_def apply_trees_def apply_batch_def
      Let_def fun_eq_iff split: option.splits)

text \<open>Writes, as the providers issue them between the start and the end of a commit point.\<close>

definition write_one :: "tree_name \<times> bytes \<times> bytes \<Rightarrow> 'l sled \<Rightarrow> 'l sled" where
  "write_one w s = (case w of (tree, key, val) \<Rightarrow> snd (insert_into_disk tree key val s))"

definition view_write :: "tree_name \<times> bytes \<times> bytes \<Rightarrow> disk \<Rightarrow> disk" where
  "view_write w d = (case w of (tree, key, val) \<Rightarrow> d(tree := (d tree)(key \<mapsto> val)))"

lemma write_one_simps:
  "sled_view (write_one w s) = view_write w (sled_view s)"
  "no_drop s \<Longrightarrow> no_drop (write_one w s)"
  "sled_snapshot s \<noteq> None \<Longrightarrow> db (write_one w s) = db s"
  "sled_snapshot s \<noteq> None \<Longrightarrow> sled_snapshot (write_one w s) \<noteq> None"
  by (cases w; simp add: write_one_def view_write_def insert_into_disk_view
      insert_into_disk_no_drop insert_into_disk_db del: not_None_eq)+

lemma fold_write_one:
  "sled_view (fold write_one ws s) = fold view_write ws (sled_view s) \<and>
   (no_drop s \<longrightarrow> no_drop (fold write_one ws s)) \<and>
   (sled_snapshot s \<noteq> None \<longrightarrow> db (fold write_one ws s) = db s \<and>
      sled_snapshot (fold write_one ws s) \<noteq> None)"
  by (induction ws arbitrary: s) (simp_all add: write_one_simps del: not_None_eq)

text \<open>
  The disk reads of a storage (optional loads, presence tests and sizes, of every tree and key) return
  what is in \<open>d\<close>.
\<close>

definition reads_disk :: "'a parser \<Rightarrow> 'l sled \<Rightarrow> disk \<Rightarrow> bool" where
  "reads_disk rd s d \<longleftrightarrow> (\<forall>tree key.
     load_optional_from_disk rd s tree key = decode rd (d tree key) \<and>
     contains_data s tree key = (d tree key \<noteq> None) \<and>
     get_size_from_disk s tree key = ok_or (map_option length (d tree key)) (NotFoundOnDisk CtxDataLen))"

lemma reads_disk_view: "sled_view s = d \<Longrightarrow> reads_disk rd s d"
  by (auto simp: reads_disk_def load_optional_view contains_data_view get_size_view)

section \<open>Properties\<close>

text \<open>
  C6: a commit point is atomic for the disk. Between its start and its end, any sequence of writes is
  seen by the disk reads, in the order of the writes, and leaves the disk alone. Ending it with
  \<open>apply\<close> puts exactly what these reads saw on disk, ending it without leaves the disk, and what is
  read from it, as it was at the start. (The counters that are kept in a cache beside the disk are
  not part of this, see the pruned topoheight below.)
\<close>

theorem commit_point_atomic:
  assumes "start_commit_point s = Inr s1" "fold write_one ws s1 = s2"
  shows "reads_disk rd s2 (fold view_write ws (db s)) \<and> db s2 = db s \<and>
    (\<exists>s3. end_commit_point clear True s2 = Inr s3 \<and> db s3 = fold view_write ws (db s) \<and>
       reads_disk rd s3 (db s3)) \<and>
    (\<exists>s3. end_commit_point clear False s2 = Inr s3 \<and> db s3 = db s \<and> reads_disk rd s3 (db s))"
proof -
  from assms(1) have s1: "sled_view s1 = db s" "db s1 = db s" "no_drop s1" "sled_snapshot s1 \<noteq> None"
    by (auto simp: start_commit_point_def sled_view_def no_drop_def snapshot_new_def
        split: option.splits)
  note f = fold_write_one [of ws s1, unfolded assms(2)]
  with s1 have s2: "sled_view s2 = fold view_write ws (db s)" "db s2 = db s" "no_drop s2"
    by simp_all
  from f s1(4) obtain sn where sn: "sled_snapshot s2 = Some sn" by auto
  obtain s3 where s3: "end_commit_point clear True s2 = Inr s3"
    by (simp add: end_commit_point_def sn)
  moreover have "\<exists>s3. end_commit_point clear False s2 = Inr s3 \<and> db s3 = db s \<and> sled_view s3 = db s"
    using s2(2) by (simp add: end_commit_point_def sn clear_caches_def load_cache_from_disk_def
        sled_set_counter_def sled_view_def Let_def)
  ultimately show ?thesis using s2 end_commit_view [OF s3 s2(3)] reads_disk_view by metis
qed

definition empty_sled :: "unit sled" where
  "empty_sled = \<lparr>db = (\<lambda>_. Map.empty), sled_snapshot = None,
     sled_cache = storage_cache_new (\<lambda>_. ()) (Some 4)\<rparr>"

theorem commit_point_atomic_witness:
  "\<exists>s1. start_commit_point empty_sled = Inr s1 \<and>
     contains_data (fold write_one [(''blocks'', [1], [2])] s1) ''blocks'' [1] \<and>
     (\<exists>s3. end_commit_point id True (fold write_one [(''blocks'', [1], [2])] s1) = Inr s3 \<and>
        db s3 ''blocks'' [1] = Some [2])"
proof -
  obtain s1 where s1: "start_commit_point empty_sled = Inr s1"
    by (simp add: start_commit_point_def empty_sled_def)
  from commit_point_atomic [OF s1 refl, of read_u8 "[(''blocks'', [1], [2])]" id] s1 show ?thesis
    by (auto simp: view_write_def reads_disk_def)
qed

text \<open>
  C39: deleting through a snapshot is lost. A key that is on disk and that the commit point has not
  written yet stays visible after it was removed through the snapshot, and stays on disk when the
  commit point is applied: the batch records no deletion for a key it has no entry for. (The value
  is nevertheless returned as removed.)
\<close>

theorem snapshot_remove_is_lost:
  assumes "sled_snapshot s = Some sn" "db s tree key = Some val"
    "\<not> snapshot_contains_key sn tree key" "snapshot_trees sn tree \<noteq> Some None"
  shows "fst (remove_from_disk_internal tree key s) = Some val \<and>
    sled_view (snd (remove_from_disk_internal tree key s)) tree key = Some val \<and>
    (\<exists>s'. end_commit_point clear True (snd (remove_from_disk_internal tree key s)) = Inr s' \<and>
       db s' tree key = Some val)"
  using assms
  by (auto simp: remove_from_disk_internal_def snapshot_remove_def batch_remove_def batch_default_def
      sled_view_def end_commit_point_def apply_trees_def apply_batch_def snapshot_contains_key_def
      Let_def split: option.splits)

theorem snapshot_remove_is_lost_witness:
  "db (empty_sled\<lparr>db := (\<lambda>_. [[1] \<mapsto> [2]]),
        sled_snapshot := Some (snapshot_new (sled_cache empty_sled))\<rparr>) ''blocks'' [1] = Some [2] \<and>
   sled_view (snd (remove_from_disk_internal ''blocks'' [1]
     (empty_sled\<lparr>db := (\<lambda>_. [[1] \<mapsto> [2]]),
        sled_snapshot := Some (snapshot_new (sled_cache empty_sled))\<rparr>))) ''blocks'' [1] = Some [2]"
  using snapshot_remove_is_lost [of "empty_sled\<lparr>db := (\<lambda>_. [[1] \<mapsto> [2]]),
      sled_snapshot := Some (snapshot_new (sled_cache empty_sled))\<rparr>"
      "snapshot_new (sled_cache empty_sled)" "''blocks''" "[1]" "[2]"]
  by (simp add: snapshot_contains_key_def snapshot_new_def)


text \<open>
  C40: inside a commit point, new tips are read back at once, but a new pruned topoheight is not:
  it is written to the snapshot's cache and read from the storage's own one. An applied commit
  point also leaves the storage without LRU caches, whatever size it was opened with.
\<close>

theorem commit_point_caches:
  assumes "start_commit_point s = Inr s1"
  shows "get_tips (store_tips ts s1) = ts \<and>
    get_pruned_topoheight (set_pruned_topoheight t s1) = get_pruned_topoheight s \<and>
    (\<exists>s2. end_commit_point clear True (set_pruned_topoheight t s1) = Inr s2 \<and>
       get_pruned_topoheight s2 = Some t \<and> lru_caches (sled_cache s2) = None)"
  using assms
  by (auto simp: start_commit_point_def store_tips_def get_tips_def set_pruned_topoheight_def
      get_pruned_topoheight_def insert_into_disk_def update_counter_def sled_counter_def
      end_commit_point_def snapshot_insert_def snapshot_new_def storage_cache_clone_def Let_def
      split: option.splits prod.splits)

theorem commit_point_caches_witness:
  "\<exists>s1. start_commit_point empty_sled = Inr s1 \<and>
     get_pruned_topoheight (set_pruned_topoheight 90 s1) = None \<and>
     lru_caches (sled_cache empty_sled) = Some ()"
proof -
  obtain s1 where s1: "start_commit_point empty_sled = Inr s1"
    by (simp add: start_commit_point_def empty_sled_def)
  from commit_point_caches [OF s1, of "[]" 90 id] s1 show ?thesis
    by (simp add: get_pruned_topoheight_def sled_counter_def empty_sled_def storage_cache_new_def
        counter_default_def)
qed

end
