(* ===== verification/Providers.thy ===== *)
theory Providers
  imports Block Snapshot
begin

text \<open>
  The storage providers that the consensus code reads (\<open>core/storage/providers\<close>): block headers and
  difficulties by hash, the topological order in both directions, the blocks at a height and the
  pruned topoheight. The traits are a record of functions, \<open>dag_provider\<close>, because the consensus
  functions are generic in their implementation; \<open>sled_provider\<close> is the one of the storage. It is
  the storage without LRU caches, which is what every storage is after its first applied commit
  point.
\<close>

section \<open>The traits\<close>

text \<open>\<open>DifficultyProvider\<close>, \<open>DagOrderProvider\<close>, \<open>BlocksAtHeightProvider\<close> and
  \<open>PrunedTopoheightProvider\<close>, as far as they read.\<close>

record dag_provider =
  height_for_block_hash :: "hash \<Rightarrow> blockchain_error + u64"
  timestamp_for_block_hash :: "hash \<Rightarrow> blockchain_error + u64"
  difficulty_for_block_hash :: "hash \<Rightarrow> blockchain_error + difficulty"
  cumulative_difficulty_for_block_hash :: "hash \<Rightarrow> blockchain_error + difficulty"
  past_blocks_for_block_hash :: "hash \<Rightarrow> blockchain_error + hash list"
  block_header_by_hash :: "hash \<Rightarrow> blockchain_error + block_header"
  estimated_covariance_for_block_hash :: "hash \<Rightarrow> blockchain_error + varuint"
  topo_height_for_hash :: "hash \<Rightarrow> blockchain_error + u64"
  is_block_topological_ordered :: "hash \<Rightarrow> bool"
  hash_at_topo_height :: "u64 \<Rightarrow> blockchain_error + hash"
  blocks_at_height :: "u64 \<Rightarrow> blockchain_error + hash list"
  pruned_topoheight :: "u64 option"

section \<open>The implementation for the storage\<close>

definition get_block_header_by_hash :: "'l sled \<Rightarrow> hash \<Rightarrow> blockchain_error + block_header" where
  "get_block_header_by_hash s h =
     load_from_disk read_block_header s ''blocks'' h CtxGetBlockHeaderByHash"

definition get_height_for_block_hash :: "'l sled \<Rightarrow> hash \<Rightarrow> blockchain_error + u64" where
  "get_height_for_block_hash s h =
     result_bind (get_block_header_by_hash s h) (\<lambda>b. Inr (height b))"

definition get_timestamp_for_block_hash :: "'l sled \<Rightarrow> hash \<Rightarrow> blockchain_error + u64" where
  "get_timestamp_for_block_hash s h =
     result_bind (get_block_header_by_hash s h) (\<lambda>b. Inr (timestamp b))"

definition get_difficulty_for_block_hash :: "'l sled \<Rightarrow> hash \<Rightarrow> blockchain_error + difficulty" where
  "get_difficulty_for_block_hash s h =
     load_from_disk read_varuint s ''difficulty'' h CtxDifficultyForBlockHash"

definition get_cumulative_difficulty_for_block_hash ::
  "'l sled \<Rightarrow> hash \<Rightarrow> blockchain_error + difficulty" where
  "get_cumulative_difficulty_for_block_hash s h =
     load_from_disk read_varuint s ''cumulative_difficulty'' h CtxCumulativeDifficultyForBlockHash"

definition get_past_blocks_for_block_hash :: "'l sled \<Rightarrow> hash \<Rightarrow> blockchain_error + hash list" where
  "get_past_blocks_for_block_hash s h =
     result_bind (get_block_header_by_hash s h) (\<lambda>b. Inr (tips b))"

definition set_cumulative_difficulty_for_block_hash :: "hash \<Rightarrow> difficulty \<Rightarrow> 'l sled \<Rightarrow> 'l sled" where
  "set_cumulative_difficulty_for_block_hash h d s =
     snd (insert_into_disk ''cumulative_difficulty'' h (to_bytes write_varuint d) s)"

definition get_estimated_covariance_for_block_hash ::
  "'l sled \<Rightarrow> hash \<Rightarrow> blockchain_error + varuint" where
  "get_estimated_covariance_for_block_hash s h =
     load_from_disk read_varuint s ''difficulty_covariance'' h CtxEstimatedCovarianceForBlockHash"

definition set_estimated_covariance_for_block_hash :: "hash \<Rightarrow> varuint \<Rightarrow> 'l sled \<Rightarrow> 'l sled" where
  "set_estimated_covariance_for_block_hash h p s =
     snd (insert_into_disk ''difficulty_covariance'' h (to_bytes write_varuint p) s)"

subsection \<open>The topological order\<close>

definition get_topo_height_for_hash :: "'l sled \<Rightarrow> hash \<Rightarrow> blockchain_error + u64" where
  "get_topo_height_for_hash s h = load_from_disk read_u64 s ''topo_at_hash'' h CtxGetTopoHeightForHash"

definition get_hash_at_topo_height :: "'l sled \<Rightarrow> u64 \<Rightarrow> blockchain_error + hash" where
  "get_hash_at_topo_height s t =
     load_from_disk read_hash s ''hash_at_topo'' (to_be_bytes t) (CtxGetBlockHashAtTopoHeight t)"

definition has_hash_at_topoheight :: "'l sled \<Rightarrow> u64 \<Rightarrow> bool" where
  "has_hash_at_topoheight s t = contains_data s ''hash_at_topo'' (to_be_bytes t)"

definition set_topo_height_for_block :: "hash \<Rightarrow> u64 \<Rightarrow> 'l sled \<Rightarrow> 'l sled" where
  "set_topo_height_for_block h t s =
     (let s = snd (insert_into_disk ''topo_at_hash'' h (to_be_bytes t) s) in
      snd (insert_into_disk ''hash_at_topo'' (to_be_bytes t) h s))"

definition is_ordered :: "'l sled \<Rightarrow> hash \<Rightarrow> bool" where
  "is_ordered s h =
     (case get_topo_height_for_hash s h of
        Inr t \<Rightarrow> (case get_hash_at_topo_height s t of Inr h' \<Rightarrow> h' = h | Inl _ \<Rightarrow> False)
      | Inl _ \<Rightarrow> False)"

subsection \<open>Blocks at a height\<close>

definition write_ordered_hashes :: "hash list \<Rightarrow> u8 list" where
  "write_ordered_hashes hs = write_all write_hash hs"

definition read_ordered_hashes :: "hash list parser" where
  "read_ordered_hashes r = (let total_size = reader_total_size r in
     if total_size mod HASH_SIZE \<noteq> 0 then Inl InvalidSize
     else let count = total_size div HASH_SIZE in
       rbind (read_n count read_hash) (\<lambda>hs.
         let hashes = index_set_extend [] hs in
         if length hashes \<noteq> count then rfail InvalidSize else rreturn hashes) r)"

definition has_blocks_at_height :: "'l sled \<Rightarrow> u64 \<Rightarrow> bool" where
  "has_blocks_at_height s n = contains_data s ''blocks_at_height'' (to_be_bytes n)"

definition get_blocks_at_height :: "'l sled \<Rightarrow> u64 \<Rightarrow> blockchain_error + hash list" where
  "get_blocks_at_height s n =
     load_from_disk read_ordered_hashes s ''blocks_at_height'' (to_be_bytes n) (CtxBlocksAtHeight n)"

definition set_blocks_at_height :: "hash list \<Rightarrow> u64 \<Rightarrow> 'l sled \<Rightarrow> 'l sled" where
  "set_blocks_at_height hs n s =
     snd (insert_into_disk ''blocks_at_height'' (to_be_bytes n) (to_bytes write_ordered_hashes hs) s)"

definition add_block_hash_at_height :: "hash \<Rightarrow> u64 \<Rightarrow> 'l sled \<Rightarrow> blockchain_error + 'l sled" where
  "add_block_hash_at_height h n s =
     result_bind (if has_blocks_at_height s n then get_blocks_at_height s n else Inr []) (\<lambda>hs.
       Inr (set_blocks_at_height (snd (index_set_insert h hs)) n s))"

definition remove_block_hash_at_height :: "hash \<Rightarrow> u64 \<Rightarrow> 'l sled \<Rightarrow> blockchain_error + 'l sled" where
  "remove_block_hash_at_height h n s =
     result_bind (get_blocks_at_height s n) (\<lambda>hs.
       let hs = remove1 h hs in
       Inr (if hs = [] then snd (remove_from_disk_without_reading ''blocks_at_height'' (to_be_bytes n) s)
            else set_blocks_at_height hs n s))"

definition sled_provider :: "'l sled \<Rightarrow> dag_provider" where
  "sled_provider s = \<lparr>
     height_for_block_hash = get_height_for_block_hash s,
     timestamp_for_block_hash = get_timestamp_for_block_hash s,
     difficulty_for_block_hash = get_difficulty_for_block_hash s,
     cumulative_difficulty_for_block_hash = get_cumulative_difficulty_for_block_hash s,
     past_blocks_for_block_hash = get_past_blocks_for_block_hash s,
     block_header_by_hash = get_block_header_by_hash s,
     estimated_covariance_for_block_hash = get_estimated_covariance_for_block_hash s,
     topo_height_for_hash = get_topo_height_for_hash s,
     is_block_topological_ordered = is_ordered s,
     hash_at_topo_height = get_hash_at_topo_height s,
     blocks_at_height = get_blocks_at_height s,
     pruned_topoheight = get_pruned_topoheight s\<rparr>"

section \<open>The contract of the order provider\<close>

text \<open>
  What the consensus code relies on: a block is ordered exactly when its topoheight leads back to
  it. Then a topoheight belongs to at most one ordered block.
\<close>

locale order_provider =
  fixes topo :: "hash \<Rightarrow> blockchain_error + u64" and hash_at :: "u64 \<Rightarrow> blockchain_error + hash"
    and ordered :: "hash \<Rightarrow> bool"
  assumes ordered_iff: "ordered h \<longleftrightarrow> (\<exists>t. topo h = Inr t \<and> hash_at t = Inr h)"
begin

lemma ordered_topo: "ordered h \<Longrightarrow> \<exists>t. topo h = Inr t"
  by (auto simp: ordered_iff)

lemma ordered_unique: "ordered h \<Longrightarrow> ordered h' \<Longrightarrow> topo h = topo h' \<Longrightarrow> h = h'"
  by (auto simp: ordered_iff)

end

interpretation sled_order:
  order_provider "get_topo_height_for_hash s" "get_hash_at_topo_height s" "is_ordered s" for s
  by unfold_locales (auto simp: is_ordered_def split: sum.splits)

text \<open>A provider whose three functions meet the contract; the one of the storage does.\<close>

definition order_provider_ok :: "dag_provider \<Rightarrow> bool" where
  "order_provider_ok p \<longleftrightarrow> (\<forall>h. is_block_topological_ordered p h \<longleftrightarrow>
     (\<exists>t. topo_height_for_hash p h = Inr t \<and> hash_at_topo_height p t = Inr h))"

lemma sled_order_provider_ok: "order_provider_ok (sled_provider s)"
  unfolding order_provider_ok_def sled_provider_def by (simp add: sled_order.ordered_iff)

section \<open>Reading back what was stored\<close>

lemma load_from_disk_view:
  "load_from_disk rd s tree key ctx =
     result_bind (decode rd (sled_view s tree key)) (\<lambda>m. ok_or m (NotFoundOnDisk ctx))"
  by (simp add: load_from_disk_def load_optional_view)

lemma to_be_bytes_inj [simp]: "to_be_bytes (a :: u64) = to_be_bytes b \<longleftrightarrow> a = b"
  by (metis from_to_be_u64)

lemma from_bytes_write: "codec wr rd sz valid \<Longrightarrow> valid x \<Longrightarrow> from_bytes rd (wr x) = Inr x"
  using codec.from_bytes_to_bytes [of wr rd sz valid x] by simp

lemma from_bytes_u64 [simp]: "from_bytes read_u64 (to_be_bytes t) = Inr t"
  using from_bytes_write [OF u64_codec.codec_axioms TrueI, of t] by (simp add: write_u64_def)

lemma from_bytes_hash [simp]: "hash_ok h \<Longrightarrow> from_bytes read_hash h = Inr h"
  using from_bytes_write [OF hash_codec.codec_axioms, of h] by (simp add: write_hash_def)

lemma from_bytes_varuint [simp]: "from_bytes read_varuint (write_varuint v) = Inr v"
  by (rule from_bytes_write [OF varuint_codec.codec_axioms TrueI])

lemma from_bytes_ordered_hashes:
  assumes "distinct hs" "list_all hash_ok hs"
  shows "from_bytes read_ordered_hashes (write_ordered_hashes hs) = Inr hs"
proof -
  have len: "length (write_all write_hash hs) = length hs * 32"
    using assms(2) by (rule length_write_hashes)
  have "read_n (length hs) read_hash (at [] (write_all write_hash hs) context_default) =
      Inr (hs, at (write_all write_hash hs) [] context_default)"
    using hash_codec.read_n_write [OF assms(2) refl, of "[]" "[]" context_default] by simp
  then show ?thesis
    using assms(1) by (simp add: from_bytes_def reader_new_at read_ordered_hashes_def
        write_ordered_hashes_def HASH_SIZE_def len index_set_extend_distinct)
qed

lemma set_topo_view:
  "sled_view (set_topo_height_for_block h t s) =
     (let v = sled_view s; v = v(''topo_at_hash'' := (v ''topo_at_hash'')(h \<mapsto> to_be_bytes t)) in
      v(''hash_at_topo'' := (v ''hash_at_topo'')(to_be_bytes t \<mapsto> h)))"
  by (simp add: set_topo_height_for_block_def insert_into_disk_view Let_def)

lemma set_topo_lookups:
  "get_topo_height_for_hash (set_topo_height_for_block h t s) h' =
     (if h' = h then Inr t else get_topo_height_for_hash s h')"
  "hash_ok h \<Longrightarrow> get_hash_at_topo_height (set_topo_height_for_block h t s) t' =
     (if t' = t then Inr h else get_hash_at_topo_height s t')"
  by (simp_all add: get_topo_height_for_hash_def get_hash_at_topo_height_def load_from_disk_view
      set_topo_view decode_def Let_def)

section \<open>Properties\<close>

text \<open>
  C31: giving a block a topoheight puts it there: afterwards the block is ordered at this topoheight
  and the topoheight leads to it. The block that was there before is no longer ordered, and every
  other block keeps its status and its topoheight.
\<close>

theorem set_topo_height_reorders:
  assumes "hash_ok h" "s' = set_topo_height_for_block h t s"
  shows "is_ordered s' h \<and> get_topo_height_for_hash s' h = Inr t \<and>
    get_hash_at_topo_height s' t = Inr h \<and>
    (h' \<noteq> h \<longrightarrow> is_ordered s' h' = (is_ordered s h' \<and> get_topo_height_for_hash s h' \<noteq> Inr t) \<and>
       get_topo_height_for_hash s' h' = get_topo_height_for_hash s h')"
  using assms by (auto simp: sled_order.ordered_iff set_topo_lookups)

theorem set_topo_height_reorders_witness:
  "is_ordered (set_topo_height_for_block hash_max 3
     (set_topo_height_for_block hash_zero 3 empty_sled)) hash_max \<and>
   \<not> is_ordered (set_topo_height_for_block hash_max 3
     (set_topo_height_for_block hash_zero 3 empty_sled)) hash_zero"
proof -
  have "hash_zero \<noteq> hash_max"
    by (simp add: hash_zero_def hash_max_def HASH_SIZE_def replicate_eq_replicate)
  with set_topo_height_reorders [of hash_max _ 3 "set_topo_height_for_block hash_zero 3 empty_sled"
      hash_zero] show ?thesis
    by (simp add: hash_ok_def hash_max_def set_topo_lookups)
qed

text \<open>
  The blocks at a height form an insertion-ordered set without duplicates: after adding a block
  to the blocks stored at a height, exactly the blocks that were there and the new one are stored,
  in the order in which they came, and no other height changes.
\<close>

theorem add_block_hash_at_height_spec:
  assumes "get_blocks_at_height s n = Inr hs" "distinct hs" "list_all hash_ok hs" "hash_ok h"
  shows "\<exists>s'. add_block_hash_at_height h n s = Inr s' \<and>
    get_blocks_at_height s' n = Inr (if h \<in> set hs then hs else hs @ [h]) \<and>
    (\<forall>n'. n' \<noteq> n \<longrightarrow> get_blocks_at_height s' n' = get_blocks_at_height s n')"
proof -
  let ?hs = "snd (index_set_insert h hs)"
  have has: "has_blocks_at_height s n"
    using assms(1) by (auto simp: has_blocks_at_height_def contains_data_view get_blocks_at_height_def
        load_from_disk_view decode_def split: option.splits)
  have "from_bytes read_ordered_hashes (write_ordered_hashes ?hs) = Inr ?hs"
    using assms(2-4) by (intro from_bytes_ordered_hashes distinct_index_set_insert)
      (simp_all add: index_set_insert_def)
  with has assms(1) show ?thesis
    by (simp add: add_block_hash_at_height_def set_blocks_at_height_def get_blocks_at_height_def
        load_from_disk_view insert_into_disk_view decode_def index_set_insert_def)
qed

theorem add_block_hash_at_height_spec_witness:
  "\<exists>s'. add_block_hash_at_height hash_max 9 (set_blocks_at_height [hash_zero] 9 empty_sled) = Inr s' \<and>
     get_blocks_at_height s' 9 = Inr [hash_zero, hash_max]"
proof -
  have neq: "hash_zero \<noteq> hash_max" and ok: "hash_ok hash_zero" "hash_ok hash_max"
    by (simp_all add: hash_ok_def hash_zero_def hash_max_def HASH_SIZE_def replicate_eq_replicate)
  have "get_blocks_at_height (set_blocks_at_height [hash_zero] 9 empty_sled) 9 = Inr [hash_zero]"
    using from_bytes_ordered_hashes [of "[hash_zero]"] ok
    by (simp add: get_blocks_at_height_def set_blocks_at_height_def load_from_disk_view
        insert_into_disk_view decode_def)
  from add_block_hash_at_height_spec [OF this, of hash_max] neq ok show ?thesis by auto
qed

end
