(* ===== verification/Block_Store.thy ===== *)
theory Block_Store
  imports Providers Transaction
begin

text \<open>
  Blocks and transactions on disk (\<open>common/block/block.rs\<close>, \<open>core/storage/providers\<close>: \<open>transaction.rs\<close>,
  \<open>block.rs\<close>, \<open>client_protocol.rs\<close>, \<open>block_execution_order.rs\<close>, and the deletion of a block in
  \<open>core/storage/sled/mod.rs\<close>): what is stored with a block, in which blocks a transaction is and
  which of them executed it, and the order in which blocks were executed. The LRU caches in front
  of the trees are left out, as in \<open>Providers\<close>; an operation that fails returns its error only.
\<close>

section \<open>Blocks with their transactions\<close>

record ('s, 'r, 'o) block =
  block_header :: block_header
  block_transactions :: "('s, 'r, 'o) transaction list"

definition write_block :: "('p, 's, 'r, 'o, 't) libs \<Rightarrow> ('s, 'r, 'o) block \<Rightarrow> u8 list" where
  "write_block L b = write_block_header (block_header b) @ write_all (write_transaction L) (block_transactions b)"

definition read_block :: "('p, 's, 'r, 'o, 't) libs \<Rightarrow> ('s, 'r, 'o) block parser" where
  "read_block L = rbind read_block_header (\<lambda>b.
     rbind (read_n (length (txs_hashes b)) (read_transaction L)) (\<lambda>txs.
     rreturn \<lparr>block_header = b, block_transactions = txs\<rparr>))"

definition size_block :: "('p, 's, 'r, 'o, 't) libs \<Rightarrow> ('s, 'r, 'o) block \<Rightarrow> nat" where
  "size_block L b = size_block_header (block_header b) + sum_list (map (size_transaction L) (block_transactions b))"

section \<open>Transactions\<close>

definition count_transactions :: "'l sled \<Rightarrow> u64" where
  "count_transactions s = (case sled_snapshot s of
     Some sn \<Rightarrow> transactions_count (counter (snapshot_cache sn)) | None \<Rightarrow> transactions_count (sled_counter s))"

definition store_transactions_count :: "u64 \<Rightarrow> 'l sled \<Rightarrow> 'l sled" where
  "store_transactions_count n s = snd (insert_into_disk EXTRA_TREE TXS_COUNT (to_be_bytes n)
     (update_counter (\<lambda>c. c\<lparr>transactions_count := n\<rparr>) s))"

definition get_transaction ::
  "('p, 's, 'r, 'o, 't) libs \<Rightarrow> 'l sled \<Rightarrow> hash \<Rightarrow> blockchain_error + ('s, 'r, 'o) transaction" where
  "get_transaction L s h = load_from_disk (read_transaction L) s ''transactions'' h CtxGetTransaction"

definition get_transaction_size :: "'l sled \<Rightarrow> hash \<Rightarrow> blockchain_error + nat" where
  "get_transaction_size s h = get_size_from_disk s ''transactions'' h"

definition has_transaction :: "'l sled \<Rightarrow> hash \<Rightarrow> bool" where
  "has_transaction s h = contains_data s ''transactions'' h"

definition delete_transaction ::
  "('p, 's, 'r, 'o, 't) libs \<Rightarrow> hash \<Rightarrow> 'l sled \<Rightarrow> (blockchain_error + ('s, 'r, 'o) transaction) \<times> 'l sled" where
  "delete_transaction L h s = (case delete_cacheable_data read_tips ''tx_blocks'' h s of
     (Inl e, s) \<Rightarrow> (Inl e, s)
   | (Inr _, s) \<Rightarrow> delete_cacheable_data (read_transaction L) ''transactions'' h s)"

section \<open>Saving and loading blocks\<close>

definition count_blocks :: "'l sled \<Rightarrow> u64" where
  "count_blocks s = (case sled_snapshot s of
     Some sn \<Rightarrow> blocks_count (counter (snapshot_cache sn)) | None \<Rightarrow> blocks_count (sled_counter s))"

definition store_blocks_count :: "u64 \<Rightarrow> 'l sled \<Rightarrow> 'l sled" where
  "store_blocks_count n s = snd (insert_into_disk EXTRA_TREE BLOCKS_COUNT (to_be_bytes n)
     (update_counter (\<lambda>c. c\<lparr>blocks_count := n\<rparr>) s))"

definition has_block_with_hash :: "'l sled \<Rightarrow> hash \<Rightarrow> bool" where
  "has_block_with_hash s h = contains_data s ''blocks'' h"

fun save_txs ::
  "('p, 's, 'r, 'o, 't) libs \<Rightarrow> (hash \<times> ('s, 'r, 'o) transaction) list \<Rightarrow> u64 \<Rightarrow> 'l sled \<Rightarrow> u64 \<times> 'l sled" where
  "save_txs L [] n s = (n, s)"
| "save_txs L ((h, tx) # txs) n s =
     (if has_transaction s h then save_txs L txs n s
      else save_txs L txs (n + 1) (snd (insert_into_disk ''transactions'' h (to_bytes (write_transaction L) tx) s)))"

definition save_block ::
  "('p, 's, 'r, 'o, 't) libs \<Rightarrow> block_header \<Rightarrow> ('s, 'r, 'o) transaction list \<Rightarrow> difficulty \<Rightarrow> varuint \<Rightarrow> hash \<Rightarrow>
   'l sled \<Rightarrow> blockchain_error + 'l sled" where
  "save_block L b txs difficulty p h s =
     (let (txs_count, s) = save_txs L (zip (txs_hashes b) txs) 0 s;
          s = (if txs_count > 0 then store_transactions_count (count_transactions s + txs_count) s else s);
          (prev, s) = insert_into_disk ''blocks'' h (to_bytes write_block_header b) s;
          s = (if prev = None then store_blocks_count (count_blocks s + 1) s else s);
          s = snd (insert_into_disk ''difficulty'' h (to_bytes write_varuint difficulty) s);
          s = snd (insert_into_disk ''difficulty_covariance'' h (to_bytes write_varuint p) s) in
      add_block_hash_at_height h (height b) s)"

definition get_block_by_hash ::
  "('p, 's, 'r, 'o, 't) libs \<Rightarrow> 'l sled \<Rightarrow> hash \<Rightarrow> blockchain_error + ('s, 'r, 'o) block" where
  "get_block_by_hash L s h = result_bind (get_block_header_by_hash s h) (\<lambda>b.
     result_bind (map_result (get_transaction L s) (txs_hashes b)) (\<lambda>txs.
     Inr \<lparr>block_header = b, block_transactions = txs\<rparr>))"

definition delete_block_with_hash ::
  "('p, 's, 'r, 'o, 't) libs \<Rightarrow> hash \<Rightarrow> 'l sled \<Rightarrow> blockchain_error + ('s, 'r, 'o) block \<times> 'l sled" where
  "delete_block_with_hash L h s0 = (case delete_cacheable_data read_block_header ''blocks'' h s0 of
     (Inl e, _) \<Rightarrow> Inl e
   | (Inr header, s) \<Rightarrow>
       (let s = store_blocks_count (count_blocks s - 1) s;
            s = snd (remove_from_disk_without_reading ''difficulty'' h s);
            s = snd (remove_from_disk_without_reading ''difficulty_covariance'' h s) in
        result_bind (remove_block_hash_at_height h (height header) s) (\<lambda>s.
        result_bind (map_result (get_transaction L s) (txs_hashes header)) (\<lambda>txs.
        Inr (\<lparr>block_header = header, block_transactions = txs\<rparr>, s)))))"

section \<open>The blocks of a transaction\<close>

definition get_block_executor_for_tx :: "'l sled \<Rightarrow> hash \<Rightarrow> blockchain_error + hash" where
  "get_block_executor_for_tx s tx = load_from_disk read_hash s ''txs_executed'' tx CtxBlockExecutorForTx"

definition set_tx_executed_in_block :: "hash \<Rightarrow> hash \<Rightarrow> 'l sled \<Rightarrow> 'l sled" where
  "set_tx_executed_in_block tx b s = snd (insert_into_disk ''txs_executed'' tx b s)"

definition remove_tx_executed :: "hash \<Rightarrow> 'l sled \<Rightarrow> 'l sled" where
  "remove_tx_executed tx s = snd (remove_from_disk_without_reading ''txs_executed'' tx s)"

definition is_tx_executed_in_a_block :: "'l sled \<Rightarrow> hash \<Rightarrow> bool" where
  "is_tx_executed_in_a_block s tx = contains_data s ''txs_executed'' tx"

definition is_tx_executed_in_block :: "'l sled \<Rightarrow> hash \<Rightarrow> hash \<Rightarrow> bool" where
  "is_tx_executed_in_block s tx b = (case get_block_executor_for_tx s tx of Inr h \<Rightarrow> h = b | Inl _ \<Rightarrow> False)"

definition has_tx_blocks :: "'l sled \<Rightarrow> hash \<Rightarrow> bool" where
  "has_tx_blocks s tx = contains_data s ''tx_blocks'' tx"

definition get_blocks_for_tx :: "'l sled \<Rightarrow> hash \<Rightarrow> blockchain_error + hash list" where
  "get_blocks_for_tx s tx = load_from_disk read_tips s ''tx_blocks'' tx CtxTxBlocks"

definition has_block_linked_to_tx :: "'l sled \<Rightarrow> hash \<Rightarrow> hash \<Rightarrow> blockchain_error + bool" where
  "has_block_linked_to_tx s tx b = (if has_tx_blocks s tx
     then result_bind (get_blocks_for_tx s tx) (\<lambda>hs. Inr (b \<in> set hs)) else Inr False)"

definition set_blocks_for_tx :: "hash \<Rightarrow> hash list \<Rightarrow> 'l sled \<Rightarrow> 'l sled" where
  "set_blocks_for_tx tx bs s = snd (insert_into_disk ''tx_blocks'' tx (to_bytes write_tips bs) s)"

definition add_block_linked_to_tx_if_not_present ::
  "hash \<Rightarrow> hash \<Rightarrow> 'l sled \<Rightarrow> blockchain_error + bool \<times> 'l sled" where
  "add_block_linked_to_tx_if_not_present tx b s =
     result_bind (if has_tx_blocks s tx then load_from_disk read_tips s ''tx_blocks'' tx CtxTxBlocks else Inr []) (\<lambda>hs.
     let (new, hs) = index_set_insert b hs in
     Inr (new, if new then snd (insert_into_disk ''tx_blocks'' tx (to_bytes write_tips hs) s) else s))"

definition add_block_for_tx :: "hash \<Rightarrow> hash \<Rightarrow> 'l sled \<Rightarrow> blockchain_error + 'l sled" where
  "add_block_for_tx tx b s =
     result_bind (if has_tx_blocks s tx then get_blocks_for_tx s tx else Inr []) (\<lambda>bs.
     Inr (if b \<notin> set bs then set_blocks_for_tx tx (bs @ [b]) s else s))"

section \<open>The order in which blocks were executed\<close>

definition get_block_position_in_order :: "'l sled \<Rightarrow> hash \<Rightarrow> blockchain_error + u64" where
  "get_block_position_in_order s h = load_from_disk read_u64 s ''blocks_execution_order'' h CtxSearchBlockPositionInOrder"

definition has_block_position_in_order :: "'l sled \<Rightarrow> hash \<Rightarrow> bool" where
  "has_block_position_in_order s h = contains_data s ''blocks_execution_order'' h"

definition get_blocks_execution_count :: "'l sled \<Rightarrow> u64" where
  "get_blocks_execution_count s = (case sled_snapshot s of
     Some sn \<Rightarrow> blocks_execution_count (counter (snapshot_cache sn)) | None \<Rightarrow> blocks_execution_count (sled_counter s))"

text \<open>The count on disk is the position of the block, one less than the count in the cache.\<close>

definition add_block_execution_to_order :: "hash \<Rightarrow> 'l sled \<Rightarrow> 'l sled" where
  "add_block_execution_to_order h s =
     (let position = get_blocks_execution_count s;
          s = update_counter (\<lambda>c. c\<lparr>blocks_execution_count := blocks_execution_count c + 1\<rparr>) s;
          s = snd (insert_into_disk ''blocks_execution_order'' h (to_be_bytes position) s) in
      snd (insert_into_disk EXTRA_TREE BLOCKS_EXECUTION_ORDER_COUNT (to_be_bytes position) s))"

definition swap_blocks_executions_positions :: "hash \<Rightarrow> hash \<Rightarrow> 'l sled \<Rightarrow> blockchain_error + 'l sled" where
  "swap_blocks_executions_positions left right s =
     result_bind (get_block_position_in_order s left) (\<lambda>left_position.
     result_bind (get_block_position_in_order s right) (\<lambda>right_position.
     Inr (snd (insert_into_disk ''blocks_execution_order'' right (to_be_bytes left_position)
       (snd (insert_into_disk ''blocks_execution_order'' left (to_be_bytes right_position) s))))))"

section \<open>Reading a block back\<close>

lemma read_transactions_write:
  assumes "\<forall>tx \<in> set txs. libs_laws L (tx_version tx) \<and> transaction_ok L tx"
  shows "\<exists>c'. read_n (length txs) (read_transaction L) (at pre (write_all (write_transaction L) txs @ post) c) =
    Inr (txs, at (pre @ write_all (write_transaction L) txs) post c')"
  using assms
proof (induction txs arbitrary: pre c)
  case (Cons tx txs)
  then have 1: "read_transaction L (at pre (write_transaction L tx @ write_all (write_transaction L) txs @ post) c) =
      Inr (tx, at (pre @ write_transaction L tx) (write_all (write_transaction L) txs @ post) (context_store (tx_version tx) c))"
    by (intro read_transaction_write) auto
  from Cons obtain c' where "read_n (length txs) (read_transaction L)
      (at (pre @ write_transaction L tx) (write_all (write_transaction L) txs @ post) (context_store (tx_version tx) c)) =
      Inr (txs, at ((pre @ write_transaction L tx) @ write_all (write_transaction L) txs) post c')"
    by (metis list.set_intros(2))
  with 1 show ?case by (auto simp: rbind_def)
qed auto

lemma block_round_trip:
  assumes "block_header_ok (block_header b)" "length (block_transactions b) = length (txs_hashes (block_header b))"
    and "\<forall>tx \<in> set (block_transactions b). libs_laws L (tx_version tx) \<and> transaction_ok L tx"
  shows "from_bytes (read_block L) (to_bytes (write_block L) b) = Inr b"
proof -
  let ?h = "write_block_header (block_header b)" and ?t = "write_all (write_transaction L) (block_transactions b)"
  obtain c' where "read_n (length (txs_hashes (block_header b))) (read_transaction L) (at ?h ?t context_default) =
      Inr (block_transactions b, at (?h @ ?t) [] c')"
    using read_transactions_write [OF assms(3), of ?h "[]" context_default] assms(2) by auto
  moreover have "read_block_header (at [] (?h @ ?t) context_default) = Inr (block_header b, at ?h ?t context_default)"
    using block_header_codec.read_write [OF assms(1), of "[]" ?t context_default] by simp
  ultimately show ?thesis
    by (simp add: from_bytes_def to_bytes_def write_bytes_def writer_new_def reader_new_at read_block_def write_block_def rbind_def)
qed

section \<open>What a saved block changes\<close>

lemma has_transaction_view: "has_transaction s h \<longleftrightarrow> sled_view s ''transactions'' h \<noteq> None"
  by (simp add: has_transaction_def contains_data_view)

lemma store_count_view:
  "sled_view (store_transactions_count n s) = (sled_view s)(EXTRA_TREE := (sled_view s EXTRA_TREE)(TXS_COUNT \<mapsto> to_be_bytes n))"
  "sled_view (store_blocks_count n s) = (sled_view s)(EXTRA_TREE := (sled_view s EXTRA_TREE)(BLOCKS_COUNT \<mapsto> to_be_bytes n))"
  by (simp_all add: store_transactions_count_def store_blocks_count_def insert_into_disk_view)

text \<open>A tree other than the one that is written keeps its content.\<close>

lemma insert_into_disk_other: "t \<noteq> tree \<Longrightarrow> sled_view (snd (insert_into_disk tree key val s)) t = sled_view s t"
  by (simp add: insert_into_disk_view)

definition with_new :: "(hash \<rightharpoonup> bytes) \<Rightarrow> (bytes \<rightharpoonup> bytes) \<Rightarrow> bytes \<rightharpoonup> bytes" where
  "with_new new old k = (case old k of Some v \<Rightarrow> Some v | None \<Rightarrow> new k)"

lemma save_txs_view:
  "save_txs L txs n s = (n', s') \<Longrightarrow>
   sled_view s' ''transactions'' = with_new (map_option (to_bytes (write_transaction L)) \<circ> map_of txs) (sled_view s ''transactions'')"
proof (induction L txs n s rule: save_txs.induct)
  case (2 L h tx txs n s)
  then show ?case
    by (auto simp: with_new_def fun_eq_iff has_transaction_view insert_into_disk_view split: if_splits option.splits)
qed (auto simp: with_new_def fun_eq_iff split: option.splits)

lemma save_txs_other:
  "save_txs L txs n s = (n', s') \<Longrightarrow> t \<noteq> ''transactions'' \<Longrightarrow> sled_view s' t = sled_view s t"
  by (induction L txs n s rule: save_txs.induct) (auto simp: insert_into_disk_other split: if_splits)

text \<open>The view after the writes of \<open>save_block\<close> that come before the blocks at the height.\<close>

definition saved :: "('p, 's, 'r, 'o, 't) libs \<Rightarrow> block_header \<Rightarrow> ('s, 'r, 'o) transaction list \<Rightarrow> difficulty \<Rightarrow> varuint \<Rightarrow>
    hash \<Rightarrow> 'l sled \<Rightarrow> 'l sled \<Rightarrow> bool" where
  "saved L b txs difficulty p h s s' \<longleftrightarrow>
     sled_view s' ''transactions'' = with_new (map_option (to_bytes (write_transaction L)) \<circ> map_of (zip (txs_hashes b) txs))
       (sled_view s ''transactions'') \<and>
     sled_view s' ''blocks'' = (sled_view s ''blocks'')(h \<mapsto> to_bytes write_block_header b) \<and>
     sled_view s' ''difficulty'' = (sled_view s ''difficulty'')(h \<mapsto> to_bytes write_varuint difficulty) \<and>
     sled_view s' ''difficulty_covariance'' = (sled_view s ''difficulty_covariance'')(h \<mapsto> to_bytes write_varuint p) \<and>
     (\<forall>t. t \<notin> {''transactions'', ''blocks'', ''difficulty'', ''difficulty_covariance'', EXTRA_TREE} \<longrightarrow>
       sled_view s' t = sled_view s t)"

lemma save_block_saved:
  obtains s1 where "saved L b txs d p h s s1" "save_block L b txs d p h s = add_block_hash_at_height h (height b) s1"
proof -
  obtain n s0 where 0: "save_txs L (zip (txs_hashes b) txs) 0 s = (n, s0)" by force
  define s1 where "s1 = (if n > 0 then store_transactions_count (count_transactions s0 + n) s0 else s0)"
  obtain prev s2 where 2: "insert_into_disk ''blocks'' h (to_bytes write_block_header b) s1 = (prev, s2)" by force
  have v2: "sled_view s2 = (sled_view s1)(''blocks'' := (sled_view s1 ''blocks'')(h \<mapsto> to_bytes write_block_header b))"
    by (rule insert_into_disk_view [of "''blocks''" h "to_bytes write_block_header b" s1, unfolded 2 snd_conv])
  define s3 where "s3 = (if prev = None then store_blocks_count (count_blocks s2 + 1) s2 else s2)"
  define s5 where "s5 = snd (insert_into_disk ''difficulty_covariance'' h (to_bytes write_varuint p)
     (snd (insert_into_disk ''difficulty'' h (to_bytes write_varuint d) s3)))"
  have "saved L b txs d p h s s5"
    unfolding saved_def s5_def insert_into_disk_view s3_def
    using save_txs_view [OF 0] save_txs_other [OF 0]
    by (simp add: store_count_view v2 s1_def EXTRA_TREE_def)
  moreover have "save_block L b txs d p h s = add_block_hash_at_height h (height b) s5"
    unfolding save_block_def Let_def 0 prod.case s1_def [symmetric] 2 s3_def [symmetric] s5_def [symmetric] by (rule refl)
  ultimately show thesis by (rule that)
qed

lemma add_block_hash_at_height_at:
  assumes hs: "if has_blocks_at_height s n then get_blocks_at_height s n = Inr hs \<and> distinct hs \<and> list_all hash_ok hs else hs = []"
    and h: "hash_ok h"
  obtains s' where "add_block_hash_at_height h n s = Inr s'"
    "get_blocks_at_height s' n = Inr (if h \<in> set hs then hs else hs @ [h])"
    "sled_view s' = (sled_view s)(''blocks_at_height'' := (sled_view s ''blocks_at_height'')
       (to_be_bytes n \<mapsto> to_bytes write_ordered_hashes (if h \<in> set hs then hs else hs @ [h])))"
proof -
  let ?hs = "snd (index_set_insert h hs)"
  have ok: "distinct hs" "list_all hash_ok hs" using hs by (auto split: if_splits)
  have "from_bytes read_ordered_hashes (write_ordered_hashes ?hs) = Inr ?hs"
    using ok h by (intro from_bytes_ordered_hashes distinct_index_set_insert) (simp_all add: index_set_insert_def)
  with hs show thesis
    by (intro that [of "set_blocks_at_height ?hs n s"])
      (auto simp: add_block_hash_at_height_def set_blocks_at_height_def get_blocks_at_height_def
        load_from_disk_view insert_into_disk_view decode_def index_set_insert_def split: if_splits)
qed

lemma load_same: "sled_view s' tree key = sled_view s tree key \<Longrightarrow> load_from_disk rd s' tree key ctx = load_from_disk rd s tree key ctx"
  by (simp add: load_from_disk_view)

text \<open>The hypothesis on the blocks stored at a height.\<close>

definition stored_at :: "'l sled \<Rightarrow> u64 \<Rightarrow> hash list \<Rightarrow> bool" where
  "stored_at s n hs \<longleftrightarrow> (if has_blocks_at_height s n then get_blocks_at_height s n = Inr hs \<and> distinct hs \<and> list_all hash_ok hs
     else hs = [])"

lemma stored_at_cong: "sled_view s' ''blocks_at_height'' = sled_view s ''blocks_at_height'' \<Longrightarrow> stored_at s' n hs = stored_at s n hs"
  by (simp add: stored_at_def has_blocks_at_height_def contains_data_view get_blocks_at_height_def load_from_disk_view)

lemma save_block_view:
  assumes h: "hash_ok h" and hs: "stored_at s (height b) hs"
  obtains s' where "save_block L b txs d p h s = Inr s'"
    "get_blocks_at_height s' (height b) = Inr (if h \<in> set hs then hs else hs @ [h])"
    "\<And>n. n \<noteq> height b \<Longrightarrow> get_blocks_at_height s' n = get_blocks_at_height s n"
    "sled_view s' ''transactions'' = with_new (map_option (to_bytes (write_transaction L)) \<circ> map_of (zip (txs_hashes b) txs))
       (sled_view s ''transactions'')"
    "sled_view s' ''blocks'' = (sled_view s ''blocks'')(h \<mapsto> to_bytes write_block_header b)"
    "sled_view s' ''difficulty'' = (sled_view s ''difficulty'')(h \<mapsto> to_bytes write_varuint d)"
    "sled_view s' ''difficulty_covariance'' = (sled_view s ''difficulty_covariance'')(h \<mapsto> to_bytes write_varuint p)"
    "sled_view s' ''topo_at_hash'' = sled_view s ''topo_at_hash''" "sled_view s' ''hash_at_topo'' = sled_view s ''hash_at_topo''"
proof -
  obtain s1 where s1: "saved L b txs d p h s s1" "save_block L b txs d p h s = add_block_hash_at_height h (height b) s1"
    by (rule save_block_saved)
  note v1 = s1(1) [unfolded saved_def]
  from v1 have bh: "sled_view s1 ''blocks_at_height'' = sled_view s ''blocks_at_height''" by (simp add: EXTRA_TREE_def)
  from hs have "stored_at s1 (height b) hs" by (simp add: stored_at_cong [OF bh])
  from add_block_hash_at_height_at [OF this [unfolded stored_at_def] h] obtain s' where
    s': "add_block_hash_at_height h (height b) s1 = Inr s'"
      "get_blocks_at_height s' (height b) = Inr (if h \<in> set hs then hs else hs @ [h])"
    and v': "sled_view s' = (sled_view s1)(''blocks_at_height'' := (sled_view s1 ''blocks_at_height'')
       (to_be_bytes (height b) \<mapsto> to_bytes write_ordered_hashes (if h \<in> set hs then hs else hs @ [h])))" by blast
  show thesis
  proof (rule that [of s'])
    show "get_blocks_at_height s' n = get_blocks_at_height s n" if "n \<noteq> height b" for n
      using that bh by (simp add: get_blocks_at_height_def load_from_disk_view v')
  qed (use s1(2) s' v1 in \<open>simp_all add: v' EXTRA_TREE_def\<close>)
qed

subsection \<open>Deletions outside of a commit point\<close>

lemma remove_view:
  assumes "sled_snapshot s = None" "remove_from_disk_internal tree key s = (v, s')"
  shows "v = sled_view s tree key" "sled_view s' = (sled_view s)(tree := (sled_view s tree)(key := None))"
    "sled_snapshot s' = None" "sled_counter s' = sled_counter s"
  using assms by (auto simp: remove_from_disk_internal_def sled_view_def sled_counter_def fun_eq_iff)

lemma without_reading_view:
  assumes "sled_snapshot s = None"
  shows "sled_view (snd (remove_from_disk_without_reading tree key s)) = (sled_view s)(tree := (sled_view s tree)(key := None))"
    "sled_snapshot (snd (remove_from_disk_without_reading tree key s)) = None"
    "sled_counter (snd (remove_from_disk_without_reading tree key s)) = sled_counter s"
  using remove_view [OF assms, of tree key]
  by (simp_all add: remove_from_disk_without_reading_def split: prod.splits)

lemma delete_cacheable_view:
  assumes "sled_snapshot s = None" "load_from_disk rd s tree key ctx = Inr x"
  obtains s' where "delete_cacheable_data rd tree key s = (Inr x, s')" "sled_snapshot s' = None"
    "sled_view s' = (sled_view s)(tree := (sled_view s tree)(key := None))" "sled_counter s' = sled_counter s"
proof -
  obtain v s' where r: "remove_from_disk_internal tree key s = (v, s')" by force
  note r' = remove_view [OF assms(1) r]
  have "delete_cacheable_data rd tree key s = (Inr x, s')"
    using assms(2) by (auto simp: delete_cacheable_data_def remove_from_disk_def r r'(1) load_from_disk_view decode_def
        result_bind_eq_Inr ok_or_eq_Inr split: option.splits)
  with r' show thesis by (intro that [of s'])
qed

lemma insert_counter:
  assumes "sled_snapshot s = None"
  shows "sled_snapshot (snd (insert_into_disk tree key val s)) = None"
    "sled_counter (snd (insert_into_disk tree key val s)) = sled_counter s"
  using assms by (simp_all add: insert_into_disk_def sled_counter_def)

lemma store_blocks_count_counter:
  assumes "sled_snapshot s = None"
  shows "sled_snapshot (store_blocks_count n s) = None" "count_blocks (store_blocks_count n s) = n"
proof -
  have "sled_snapshot (update_counter (\<lambda>c. c\<lparr>blocks_count := n\<rparr>) s) = None"
    "sled_counter (update_counter (\<lambda>c. c\<lparr>blocks_count := n\<rparr>) s) = (sled_counter s)\<lparr>blocks_count := n\<rparr>"
    using assms by (simp_all add: update_counter_def sled_set_counter_def sled_counter_def)
  then show "sled_snapshot (store_blocks_count n s) = None" "count_blocks (store_blocks_count n s) = n"
    by (simp_all add: store_blocks_count_def count_blocks_def insert_counter)
qed

lemma remove_block_hash_view:
  assumes s: "sled_snapshot s = None" and hs: "get_blocks_at_height s n = Inr hs" "distinct hs" "list_all hash_ok hs"
  obtains s' where "remove_block_hash_at_height h n s = Inr s'" "sled_snapshot s' = None" "sled_counter s' = sled_counter s"
    "\<And>n'. get_blocks_at_height s' n' = (if n' = n then if remove1 h hs = [] then Inl (NotFoundOnDisk (CtxBlocksAtHeight n))
       else Inr (remove1 h hs) else get_blocks_at_height s n')"
    "\<And>t. t \<noteq> ''blocks_at_height'' \<Longrightarrow> sled_view s' t = sled_view s t"
proof (rule that)
  let ?s = "if remove1 h hs = [] then snd (remove_from_disk_without_reading ''blocks_at_height'' (to_be_bytes n) s)
    else set_blocks_at_height (remove1 h hs) n s"
  have "from_bytes read_ordered_hashes (write_ordered_hashes (remove1 h hs)) = Inr (remove1 h hs)"
    using hs(2,3) by (intro from_bytes_ordered_hashes) (auto simp: list_all_iff dest: notin_set_remove1)
  then show "get_blocks_at_height ?s n' = (if n' = n then if remove1 h hs = [] then Inl (NotFoundOnDisk (CtxBlocksAtHeight n))
       else Inr (remove1 h hs) else get_blocks_at_height s n')" for n'
    by (simp add: get_blocks_at_height_def load_from_disk_view without_reading_view [OF s] set_blocks_at_height_def
        insert_into_disk_view decode_def)
  show "remove_block_hash_at_height h n s = Inr ?s" by (simp add: remove_block_hash_at_height_def hs(1) Let_def)
  show "sled_snapshot ?s = None" "sled_counter ?s = sled_counter s"
    by (simp_all add: without_reading_view [OF s] set_blocks_at_height_def insert_counter [OF s])
  show "sled_view ?s t = sled_view s t" if "t \<noteq> ''blocks_at_height''" for t
    using that by (simp add: without_reading_view [OF s] set_blocks_at_height_def insert_into_disk_view)
qed

section \<open>Properties\<close>

text \<open>
  saving a block stores it. Afterwards the block is loaded by its hash with its header and exactly
  its transactions, its difficulty and covariance are found, and it is among the blocks of its height.
  Every other block keeps its header, difficulty and covariance, a transaction that was stored is still
  stored unchanged, and the topological order does not change. A transaction that is already stored
  under the hash must be the same one.
\<close>

theorem saved_block_is_found:
  assumes b: "block_header_ok b" and h: "hash_ok h" and len: "length txs = length (txs_hashes b)"
    and txs: "\<forall>tx \<in> set txs. libs_laws L (tx_version tx) \<and> transaction_ok L tx"
    and same: "\<forall>(t, tx) \<in> set (zip (txs_hashes b) txs). has_transaction s t \<longrightarrow> get_transaction L s t = Inr tx"
    and hs: "stored_at s (height b) hs"
  shows "\<exists>s'. save_block L b txs d p h s = Inr s' \<and>
    get_block_by_hash L s' h = Inr \<lparr>block_header = b, block_transactions = txs\<rparr> \<and>
    get_difficulty_for_block_hash s' h = Inr d \<and> get_estimated_covariance_for_block_hash s' h = Inr p \<and>
    (\<forall>h'. has_block_with_hash s' h' \<longleftrightarrow> h' = h \<or> has_block_with_hash s h') \<and>
    (\<forall>h'. h' \<noteq> h \<longrightarrow> get_block_header_by_hash s' h' = get_block_header_by_hash s h' \<and>
      get_difficulty_for_block_hash s' h' = get_difficulty_for_block_hash s h' \<and>
      get_estimated_covariance_for_block_hash s' h' = get_estimated_covariance_for_block_hash s h') \<and>
    (\<forall>t. has_transaction s t \<longrightarrow> get_transaction L s' t = get_transaction L s t) \<and>
    (\<forall>n. get_blocks_at_height s' n = (if n = height b then Inr (if h \<in> set hs then hs else hs @ [h]) else get_blocks_at_height s n)) \<and>
    get_topo_height_for_hash s' = get_topo_height_for_hash s \<and> get_hash_at_topo_height s' = get_hash_at_topo_height s"
proof -
  obtain s' where s': "save_block L b txs d p h s = Inr s'"
    "get_blocks_at_height s' (height b) = Inr (if h \<in> set hs then hs else hs @ [h])"
    "\<And>n. n \<noteq> height b \<Longrightarrow> get_blocks_at_height s' n = get_blocks_at_height s n"
    and v: "sled_view s' ''transactions'' = with_new (map_option (to_bytes (write_transaction L)) \<circ> map_of (zip (txs_hashes b) txs))
       (sled_view s ''transactions'')"
    "sled_view s' ''blocks'' = (sled_view s ''blocks'')(h \<mapsto> to_bytes write_block_header b)"
    "sled_view s' ''difficulty'' = (sled_view s ''difficulty'')(h \<mapsto> to_bytes write_varuint d)"
    "sled_view s' ''difficulty_covariance'' = (sled_view s ''difficulty_covariance'')(h \<mapsto> to_bytes write_varuint p)"
    "sled_view s' ''topo_at_hash'' = sled_view s ''topo_at_hash''" "sled_view s' ''hash_at_topo'' = sled_view s ''hash_at_topo''"
    by (rule save_block_view [OF h hs, of L txs d p]) (rule that)
  have old: "get_transaction L s' t = get_transaction L s t" if "has_transaction s t" for t
    using that by (auto simp: get_transaction_def load_from_disk_view v(1) with_new_def has_transaction_view)
  have "get_transaction L s' t = Inr x" if "(t, x) \<in> set (zip (txs_hashes b) txs)" for t x
  proof (cases "has_transaction s t")
    case True
    with same that old show ?thesis by auto
  next
    case False
    have "map_of (zip (txs_hashes b) txs) t = Some x"
      using that b len by (simp add: block_header_ok_def)
    moreover have "from_bytes (read_transaction L) (to_bytes (write_transaction L) x) = Inr x"
      using transaction_bytes_round_trip txs that by (metis set_zip_rightD)
    ultimately show ?thesis using False
      by (simp add: get_transaction_def load_from_disk_view v(1) with_new_def has_transaction_view decode_def)
  qed
  then have "map_result (get_transaction L s') (txs_hashes b) = Inr txs"
    using len by (auto simp: map_result_eq_Inr list_all2_conv_all_nth in_set_zip)
  moreover have "get_block_header_by_hash s' h = Inr b"
    using block_header_codec.from_bytes_to_bytes [OF b]
    by (simp add: get_block_header_by_hash_def load_from_disk_view v(2) decode_def)
  ultimately have "get_block_by_hash L s' h = Inr \<lparr>block_header = b, block_transactions = txs\<rparr>"
    by (simp add: get_block_by_hash_def)
  moreover have "get_difficulty_for_block_hash s' h = Inr d" "get_estimated_covariance_for_block_hash s' h = Inr p"
    by (simp_all add: get_difficulty_for_block_hash_def get_estimated_covariance_for_block_hash_def load_from_disk_view v(3,4) decode_def)
  moreover have "get_block_header_by_hash s' h' = get_block_header_by_hash s h' \<and>
      get_difficulty_for_block_hash s' h' = get_difficulty_for_block_hash s h' \<and>
      get_estimated_covariance_for_block_hash s' h' = get_estimated_covariance_for_block_hash s h'" if "h' \<noteq> h" for h'
    using that by (simp add: get_block_header_by_hash_def get_difficulty_for_block_hash_def
        get_estimated_covariance_for_block_hash_def load_from_disk_view v(2-4))
  moreover have "has_block_with_hash s' h' \<longleftrightarrow> h' = h \<or> has_block_with_hash s h'" for h'
    by (simp add: has_block_with_hash_def contains_data_view v(2))
  moreover have "get_topo_height_for_hash s' = get_topo_height_for_hash s" "get_hash_at_topo_height s' = get_hash_at_topo_height s"
    by (simp_all add: get_topo_height_for_hash_def get_hash_at_topo_height_def load_from_disk_view v(5,6) fun_eq_iff)
  ultimately show ?thesis using s' old by simp
qed

lemma sample_header_txs: "txs_hashes sample_header = [replicate 32 3]"
  by (simp add: sample_header_def block_header_new_def)

theorem saved_block_is_found_witness:
  "\<exists>s'. save_block sample_libs sample_header [sample_tx] 3 5 hash_max empty_sled = Inr s' \<and>
     get_block_by_hash sample_libs s' hash_max = Inr \<lparr>block_header = sample_header, block_transactions = [sample_tx]\<rparr> \<and>
     get_difficulty_for_block_hash s' hash_max = Inr 3"
proof -
  have 1: "hash_ok hash_max" by (simp add: hash_ok_def hash_max_def)
  have 2: "stored_at empty_sled (height sample_header) []"
    by (simp add: stored_at_def has_blocks_at_height_def contains_data_def empty_sled_def)
  have 3: "\<forall>tx \<in> set [sample_tx]. libs_laws sample_libs (tx_version tx) \<and> transaction_ok sample_libs tx"
    using sample_libs_laws sample_tx_ok by simp
  have 4: "\<forall>(t, tx) \<in> set (zip (txs_hashes sample_header) [sample_tx]). has_transaction empty_sled t \<longrightarrow>
      get_transaction sample_libs empty_sled t = Inr tx"
    by (simp add: sample_header_txs has_transaction_def contains_data_def empty_sled_def)
  have 5: "length [sample_tx] = length (txs_hashes sample_header)" by (simp add: sample_header_txs)
  from saved_block_is_found [OF sample_header_ok 1 5 3 4 2, of 3 5] show ?thesis by blast
qed

text \<open>
  outside of a commit point, deleting a stored block returns it with its transactions and removes
  it: its header, difficulty and covariance are gone, it is no longer among the blocks of its height, the
  count of blocks is one less. Other blocks, all transactions and other heights are as before.
\<close>

theorem deleted_block_is_gone:
  assumes s: "sled_snapshot s = None" and blk: "get_block_by_hash L s h = Inr blk"
    and hs: "get_blocks_at_height s (height (block_header blk)) = Inr hs" "distinct hs" "list_all hash_ok hs"
  shows "\<exists>s'. delete_block_with_hash L h s = Inr (blk, s') \<and> count_blocks s' = count_blocks s - 1 \<and>
    (\<forall>h'. has_block_with_hash s' h' \<longleftrightarrow> h' \<noteq> h \<and> has_block_with_hash s h') \<and>
    (\<forall>h'. get_block_header_by_hash s' h' = (if h' = h then Inl (NotFoundOnDisk CtxGetBlockHeaderByHash) else get_block_header_by_hash s h') \<and>
      get_difficulty_for_block_hash s' h' = (if h' = h then Inl (NotFoundOnDisk CtxDifficultyForBlockHash) else get_difficulty_for_block_hash s h')) \<and>
    get_transaction L s' = get_transaction L s \<and>
    (\<forall>n. get_blocks_at_height s' n = (if n = height (block_header blk)
       then if remove1 h hs = [] then Inl (NotFoundOnDisk (CtxBlocksAtHeight n)) else Inr (remove1 h hs) else get_blocks_at_height s n))"
proof -
  let ?b = "block_header blk"
  from blk have b: "get_block_header_by_hash s h = Inr ?b" "map_result (get_transaction L s) (txs_hashes ?b) = Inr (block_transactions blk)"
    by (auto simp: get_block_by_hash_def result_bind_eq_Inr)
  obtain s1 where s1: "delete_cacheable_data read_block_header ''blocks'' h s = (Inr ?b, s1)" "sled_snapshot s1 = None"
    "sled_view s1 = (sled_view s)(''blocks'' := (sled_view s ''blocks'')(h := None))" "sled_counter s1 = sled_counter s"
    using delete_cacheable_view [OF s b(1) [unfolded get_block_header_by_hash_def]] by blast
  define s2 where "s2 = store_blocks_count (count_blocks s1 - 1) s1"
  have s2: "sled_snapshot s2 = None" "count_blocks s2 = count_blocks s - 1"
    using s1 s by (simp_all add: s2_def store_blocks_count_counter) (simp add: count_blocks_def)
  define s4 where "s4 = snd (remove_from_disk_without_reading ''difficulty_covariance'' h
    (snd (remove_from_disk_without_reading ''difficulty'' h s2)))"
  have s4: "sled_snapshot s4 = None" "count_blocks s4 = count_blocks s - 1"
    using s2 without_reading_view [OF s2(1)] by (simp_all add: s4_def without_reading_view count_blocks_def)
  have v4: "sled_view s4 ''blocks'' = (sled_view s ''blocks'')(h := None)"
    "sled_view s4 ''difficulty'' = (sled_view s ''difficulty'')(h := None)"
    "sled_view s4 ''transactions'' = sled_view s ''transactions''" "sled_view s4 ''blocks_at_height'' = sled_view s ''blocks_at_height''"
    using s2(1) by (simp_all add: s4_def s2_def s1 store_count_view store_blocks_count_counter without_reading_view EXTRA_TREE_def)
  have bah: "get_blocks_at_height s4 = get_blocks_at_height s"
    by (simp add: get_blocks_at_height_def load_from_disk_view v4 fun_eq_iff)
  obtain s' where s':
    "remove_block_hash_at_height h (height ?b) s4 = Inr s'" "sled_snapshot s' = None" "sled_counter s' = sled_counter s4"
    "\<And>n'. get_blocks_at_height s' n' = (if n' = height ?b then if remove1 h hs = [] then Inl (NotFoundOnDisk (CtxBlocksAtHeight (height ?b)))
       else Inr (remove1 h hs) else get_blocks_at_height s n')"
    "\<And>t. t \<noteq> ''blocks_at_height'' \<Longrightarrow> sled_view s' t = sled_view s4 t" by (rule remove_block_hash_view [OF s4(1), of "height ?b" hs h, unfolded bah, OF hs]) (rule that) 
  have tx: "get_transaction L s' = get_transaction L s"
    by (simp add: get_transaction_def load_from_disk_view s'(5) v4 fun_eq_iff)
  then have "delete_block_with_hash L h s = Inr (blk, s')"
    using s'(1) b(2) by (simp add: delete_block_with_hash_def s1(1) Let_def s2_def [symmetric] s4_def [symmetric])
  moreover have "count_blocks s' = count_blocks s - 1" using s4 s' by (simp add: count_blocks_def)
  ultimately show ?thesis using tx s'(4)
    by (simp add: has_block_with_hash_def contains_data_view get_block_header_by_hash_def get_difficulty_for_block_hash_def
        load_from_disk_view decode_def s'(5) v4)
qed

definition lone_header :: block_header where
  "lone_header = sample_header\<lparr>txs_hashes := []\<rparr>"

definition lone_sled :: "unit sled" where
  "lone_sled = snd (insert_into_disk ''blocks'' hash_max (to_bytes write_block_header lone_header)
     (set_blocks_at_height [hash_max] (height lone_header) empty_sled))"

lemma lone_block:
  "sled_snapshot lone_sled = None"
  "get_block_by_hash sample_libs lone_sled hash_max = Inr \<lparr>block_header = lone_header, block_transactions = []\<rparr>"
  "get_blocks_at_height lone_sled (height lone_header) = Inr [hash_max]"
proof -
  have ok: "hash_ok hash_max" by (simp add: hash_ok_def hash_max_def)
  have "block_header_ok lone_header" using sample_header_ok by (simp add: lone_header_def block_header_ok_def)
  from block_header_codec.from_bytes_to_bytes [OF this]
  have "get_block_header_by_hash lone_sled hash_max = Inr lone_header"
    by (simp add: get_block_header_by_hash_def load_from_disk_view lone_sled_def insert_into_disk_view decode_def)
  then show "get_block_by_hash sample_libs lone_sled hash_max = Inr \<lparr>block_header = lone_header, block_transactions = []\<rparr>"
    by (simp add: get_block_by_hash_def lone_header_def)
  show "sled_snapshot lone_sled = None"
    by (simp add: lone_sled_def set_blocks_at_height_def insert_into_disk_def empty_sled_def)
  show "get_blocks_at_height lone_sled (height lone_header) = Inr [hash_max]"
    using from_bytes_ordered_hashes [of "[hash_max]"] ok
    by (simp add: get_blocks_at_height_def load_from_disk_view lone_sled_def set_blocks_at_height_def insert_into_disk_view decode_def)
qed

theorem deleted_block_is_gone_witness:
  "\<exists>s'. delete_block_with_hash sample_libs hash_max lone_sled = Inr (\<lparr>block_header = lone_header, block_transactions = []\<rparr>, s') \<and>
     \<not> has_block_with_hash s' hash_max"
proof -
  have "hash_ok hash_max" by (simp add: hash_ok_def hash_max_def)
  then show ?thesis
    using deleted_block_is_gone [OF lone_block(1,2), of "[hash_max]"] lone_block(3) by auto
qed

end
