(* ===== verification/Dag.thy ===== *)
theory Dag
  imports Providers "HOL-Library.List_Lexorder"
begin

text \<open>
  The BlockDAG rules of the daemon (\<open>core/blockdag.rs\<close> and the DAG part of \<open>core/blockchain.rs\<close>):
  sorting and choosing tips, heights, sync blocks and bases, reachability between tips, the
  distance from the main chain, work scores, the difficulty that a set of tips demands, side
  blocks and their rewards. The generation of the full order is in the theory \<open>Full_Order\<close>.

  A function that may panic, or that runs a loop whose end depends on the blocks, returns an
  option: \<open>None\<close> is a panic or a loop that does not end. The LRU caches of the chain are a record
  of the two operations of the library that are used, with \<open>lru_laws\<close> stating what is documented
  of them. Iterating over a hash set follows the order of the list that stands for it.
\<close>

section \<open>Sorting and caching\<close>

lemma unat_minus_one_less: "i \<noteq> 0 \<Longrightarrow> unat (i - 1 :: u64) < unat i"
  by (simp add: unat_minus_one unat_gt_0)

fun insert_by :: "('a \<Rightarrow> 'a \<Rightarrow> bool) \<Rightarrow> 'a \<Rightarrow> 'a list \<Rightarrow> 'a list" where
  "insert_by le x [] = [x]"
| "insert_by le x (y # ys) = (if le x y then x # y # ys else y # insert_by le x ys)"

text \<open>The stable \<open>sort_by\<close> of slices.\<close>

definition sort_by :: "('a \<Rightarrow> 'a \<Rightarrow> bool) \<Rightarrow> 'a list \<Rightarrow> 'a list" where
  "sort_by le xs = foldr (insert_by le) xs []"

lemma mset_insert_by [simp]: "mset (insert_by le x ys) = add_mset x (mset ys)"
  by (induction ys) simp_all

lemma mset_sort_by [simp]: "mset (sort_by le xs) = mset xs"
  by (induction xs) (simp_all add: sort_by_def)

lemma set_sort_by [simp]: "set (sort_by le xs) = set xs"
  by (metis mset_sort_by set_mset_mset)

lemma sorted_insert_by:
  assumes "\<And>a b. le a b \<or> le b a" "\<And>a b c. le a b \<Longrightarrow> le b c \<Longrightarrow> le a c"
  shows "sorted_wrt le ys \<Longrightarrow> sorted_wrt le (insert_by le x ys)"
proof (induction ys)
  case (Cons y ys)
  have "set (insert_by le x ys) = insert x (set ys)"
    by (metis mset_insert_by set_mset_add_mset_insert set_mset_mset)
  with Cons assms show ?case by (auto; metis)
qed simp

lemma sorted_sort_by:
  assumes "\<And>a b. le a b \<or> le b a" "\<And>a b c. le a b \<Longrightarrow> le b c \<Longrightarrow> le a c"
  shows "sorted_wrt le (sort_by le xs)"
proof (induction xs)
  case (Cons x xs)
  then show ?case using sorted_insert_by [OF assms] by (simp add: sort_by_def)
qed (simp add: sort_by_def)

record ('k, 'v, 'c) lru =
  lru_get :: "'k \<Rightarrow> 'c \<Rightarrow> 'v option \<times> 'c"
  lru_put :: "'k \<Rightarrow> 'v \<Rightarrow> 'c \<Rightarrow> 'c"

text \<open>
  A lookup returns a value that was put for its key, and may reorder the entries; a put may evict
  entries. \<open>lru_has\<close> is what a lookup would return.
\<close>

definition lru_has :: "('k, 'v, 'c) lru \<Rightarrow> 'c \<Rightarrow> 'k \<Rightarrow> 'v option" where
  "lru_has l c k = fst (lru_get l k c)"

definition lru_laws :: "('k, 'v, 'c) lru \<Rightarrow> bool" where
  "lru_laws l \<longleftrightarrow>
     (\<forall>c k k' v. lru_has l (snd (lru_get l k c)) k' = Some v \<longrightarrow> lru_has l c k' = Some v) \<and>
     (\<forall>c k v k' w. lru_has l (lru_put l k v c) k' = Some w \<longrightarrow>
        (if k' = k then w = v else lru_has l c k' = Some w))"

text \<open>A cache that never evicts, as an instance of the laws.\<close>

definition map_lru :: "('k, 'v, 'k \<rightharpoonup> 'v) lru" where
  "map_lru = \<lparr>lru_get = (\<lambda>k c. (c k, c)), lru_put = (\<lambda>k v c. c(k \<mapsto> v))\<rparr>"

lemma map_lru_laws: "lru_laws map_lru"
  by (simp add: lru_laws_def lru_has_def map_lru_def)

section \<open>Tips\<close>

type_synonym score = "hash \<times> difficulty"

definition descending :: "score \<Rightarrow> score \<Rightarrow> bool" where
  "descending a b = (if snd a \<noteq> snd b then snd b \<le> snd a else fst b \<le> fst a)"

definition ascending :: "score \<Rightarrow> score \<Rightarrow> bool" where
  "ascending a b = (if snd a \<noteq> snd b then snd a \<le> snd b else fst a \<le> fst b)"

definition sort_descending_by_cumulative_difficulty :: "score list \<Rightarrow> score list" where
  "sort_descending_by_cumulative_difficulty scores = sort_by descending scores"

definition sort_ascending_by_cumulative_difficulty :: "score list \<Rightarrow> score list" where
  "sort_ascending_by_cumulative_difficulty scores = sort_by ascending scores"

definition with_cumulative_difficulty :: "dag_provider \<Rightarrow> hash \<Rightarrow> blockchain_error + score" where
  "with_cumulative_difficulty p h =
     result_bind (cumulative_difficulty_for_block_hash p h) (\<lambda>d. Inr (h, d))"

definition sort_tips :: "dag_provider \<Rightarrow> hash list \<Rightarrow> blockchain_error + hash list" where
  "sort_tips p ts =
     (case ts of
        [] \<Rightarrow> Inl ExpectedTips
      | [t] \<Rightarrow> Inr [t]
      | _ \<Rightarrow> result_bind (map_result (with_cumulative_difficulty p) ts) (\<lambda>scores.
          Inr (index_set_extend [] (map fst (sort_descending_by_cumulative_difficulty scores)))))"

definition calculate_height_at_tips :: "dag_provider \<Rightarrow> hash list \<Rightarrow> blockchain_error + u64" where
  "calculate_height_at_tips p ts =
     result_bind
       (fold_result (\<lambda>h acc. result_bind (height_for_block_hash p h) (\<lambda>past.
          Inr (if acc \<le> past then past else acc))) ts 0)
       (\<lambda>acc. Inr (if length ts \<noteq> 0 then acc + 1 else acc))"

definition find_best_tip_by_cumulative_difficulty ::
  "dag_provider \<Rightarrow> hash list \<Rightarrow> blockchain_error + hash" where
  "find_best_tip_by_cumulative_difficulty p ts =
     (case ts of
        [] \<Rightarrow> Inl ExpectedTips
      | [t] \<Rightarrow> Inr t
      | _ \<Rightarrow> result_bind
          (fold_result (\<lambda>h (highest, selected).
             result_bind (cumulative_difficulty_for_block_hash p h) (\<lambda>d.
               Inr (if highest < d then (d, Some h) else (highest, selected)))) ts (0, None))
          (\<lambda>(_, selected). ok_or selected ExpectedTips))"

definition find_newest_tip_by_timestamp ::
  "dag_provider \<Rightarrow> hash list \<Rightarrow> blockchain_error + hash \<times> u64" where
  "find_newest_tip_by_timestamp p ts =
     (case ts of
        [] \<Rightarrow> Inl ExpectedTips
      | [t] \<Rightarrow> result_bind (timestamp_for_block_hash p t) (\<lambda>time. Inr (t, time))
      | _ \<Rightarrow> result_bind
          (fold_result (\<lambda>h (time, newest).
             result_bind (timestamp_for_block_hash p h) (\<lambda>tip_time.
               Inr (if time < tip_time then (tip_time, Some h) else (time, newest)))) ts (0, None))
          (\<lambda>(time, newest). result_bind (ok_or newest ExpectedTips) (\<lambda>h. Inr (h, time))))"

section \<open>Sync blocks and bases\<close>

text \<open>The loop over the heights below the block, down to the stable point.\<close>

function pre_blocks_loop ::
  "dag_provider \<Rightarrow> u64 \<Rightarrow> u64 \<Rightarrow> hash list \<Rightarrow> blockchain_error + hash list" where
  "pre_blocks_loop p stable_point i pre_blocks =
     (if i \<ge> stable_point \<and> i \<noteq> 0
      then result_bind (blocks_at_height p i) (\<lambda>blocks.
        pre_blocks_loop p stable_point (i - 1) (index_set_extend pre_blocks blocks))
      else Inr pre_blocks)"
  by auto
termination
  by (relation "measure (\<lambda>(p, sp, i, acc). unat i)") (auto simp: unat_minus_one_less)

definition is_sync_block_at_height :: "dag_provider \<Rightarrow> hash \<Rightarrow> u64 \<Rightarrow> blockchain_error + bool" where
  "is_sync_block_at_height p h chain_height =
     result_bind (height_for_block_hash p h) (\<lambda>block_height.
     if block_height = 0 then Inr True
     else if block_height + STABLE_LIMIT > chain_height \<or> \<not> is_block_topological_ordered p h
     then Inr False
     else result_bind
       (case pruned_topoheight p of
          Some pruned \<Rightarrow> result_bind (topo_height_for_hash p h) (\<lambda>t. Inr (pruned = t))
        | None \<Rightarrow> Inr False) (\<lambda>is_pruned.
       if is_pruned then Inr True
       else result_bind (blocks_at_height p block_height) (\<lambda>tips_at_height.
         if \<exists>h' \<in> set tips_at_height. h \<noteq> h' \<and> is_block_topological_ordered p h' then Inr False
         else
           let stable_point =
             (if block_height \<ge> STABLE_LIMIT then block_height - STABLE_LIMIT
              else STABLE_LIMIT - block_height) in
           result_bind (pre_blocks_loop p stable_point (block_height - 1) []) (\<lambda>pre_blocks.
           result_bind (cumulative_difficulty_for_block_hash p h) (\<lambda>sync_difficulty.
           fold_result (\<lambda>pre ok.
             if \<not> ok then Inr False
             else if is_block_topological_ordered p pre
             then result_bind (cumulative_difficulty_for_block_hash p pre) (\<lambda>d.
               Inr (\<not> d \<ge> sync_difficulty))
             else Inr ok) pre_blocks True)))))"

function locate_nearest_sync_block_for_topoheight ::
  "dag_provider \<Rightarrow> u64 \<Rightarrow> u64 \<Rightarrow> blockchain_error + u64" where
  "locate_nearest_sync_block_for_topoheight p topoheight current_height =
     (if topoheight > 0
      then result_bind (hash_at_topo_height p topoheight) (\<lambda>h.
        result_bind (is_sync_block_at_height p h current_height) (\<lambda>sync.
        if sync then topo_height_for_hash p h
        else locate_nearest_sync_block_for_topoheight p (topoheight - 1) current_height))
      else Inr 0)"
  by auto
termination
  by (relation "measure (\<lambda>(p, t, h). unat t)") (auto simp: unat_minus_one_less word_neq_0_conv)

declare pre_blocks_loop.simps [simp del] locate_nearest_sync_block_for_topoheight.simps [simp del]

text \<open>
  \<open>find_tip_base\<close>: one iteration looks at the tips of the current block in turn; the first pruned
  or sync tip is a base and ends the iteration, the others are pushed on the stack.
\<close>

type_synonym base = "hash \<times> u64"

fun tip_base_tips ::
  "dag_provider \<Rightarrow> (hash \<times> u64, base, 'c) lru \<Rightarrow> hash \<Rightarrow> u64 \<Rightarrow> u64 \<Rightarrow> hash list \<Rightarrow> hash list \<Rightarrow>
   hash list \<times> base list \<times> 'c \<Rightarrow> blockchain_error + hash list \<times> base list \<times> 'c" where
  "tip_base_tips p l h chain_height pruned processed [] st = Inr st"
| "tip_base_tips p l h chain_height pruned processed (t # ts) (stack, bases, c) =
     result_bind
       (if pruned > 0 \<and> is_block_topological_ordered p t
        then result_bind (topo_height_for_hash p t) (\<lambda>topo. Inr (topo \<le> pruned))
        else Inr False) (\<lambda>below.
     if below
     then result_bind (height_for_block_hash p t) (\<lambda>n.
       Inr (stack, snd (index_set_insert (t, n) bases), c))
     else result_bind (is_sync_block_at_height p t chain_height) (\<lambda>sync.
       if sync
       then result_bind (height_for_block_hash p t) (\<lambda>n.
         Inr (stack, snd (index_set_insert (t, n) bases), lru_put l (h, chain_height) (t, n) c))
       else tip_base_tips p l h chain_height pruned processed ts
         (if t \<in> set processed then stack else t # stack, bases, c)))"

partial_function (option) tip_base_loop ::
  "dag_provider \<Rightarrow> (hash \<times> u64, base, 'c) lru \<Rightarrow> hash \<Rightarrow> u64 \<Rightarrow> u64 \<Rightarrow>
   hash list \<Rightarrow> base list \<Rightarrow> hash list \<Rightarrow> 'c \<Rightarrow> (blockchain_error + base list \<times> 'c) option" where
  "tip_base_loop p l h chain_height pruned stack bases processed c =
     (case stack of
        [] \<Rightarrow> Some (Inr (bases, c))
      | current # stack' \<Rightarrow>
        (let processed' = snd (index_set_insert current processed) in
         case (if pruned > 0 \<and> is_block_topological_ordered p current
               then result_bind (topo_height_for_hash p current) (\<lambda>topo. Inr (topo \<le> pruned))
               else Inr False) of
           Inl e \<Rightarrow> Some (Inl e)
         | Inr below \<Rightarrow>
           if below
           then (case height_for_block_hash p current of
                   Inl e \<Rightarrow> Some (Inl e)
                 | Inr n \<Rightarrow> tip_base_loop p l h chain_height pruned stack'
                     (snd (index_set_insert (current, n) bases)) processed' c)
           else
             (case lru_get l (current, chain_height) c of
                (Some b, c') \<Rightarrow> tip_base_loop p l h chain_height pruned stack'
                  (snd (index_set_insert b bases)) processed' c'
              | (None, c') \<Rightarrow>
                (case past_blocks_for_block_hash p current of
                   Inl e \<Rightarrow> Some (Inl e)
                 | Inr ts \<Rightarrow>
                   if length ts = 0
                   then tip_base_loop p l h chain_height pruned stack'
                     (snd (index_set_insert (current, 0) bases)) processed'
                     (lru_put l (h, chain_height) (current, chain_height) c')
                   else
                     (case tip_base_tips p l h chain_height pruned processed' ts
                             (stack', bases, c') of
                        Inl e \<Rightarrow> Some (Inl e)
                      | Inr (stack'', bases', c'') \<Rightarrow>
                          tip_base_loop p l h chain_height pruned stack'' bases' processed' c'')))))"

definition by_height_descending :: "base \<Rightarrow> base \<Rightarrow> bool" where
  "by_height_descending a b \<longleftrightarrow> snd b \<le> snd a"

definition find_tip_base ::
  "dag_provider \<Rightarrow> (hash \<times> u64, base, 'c) lru \<Rightarrow> hash \<Rightarrow> u64 \<Rightarrow> u64 \<Rightarrow> 'c \<Rightarrow>
   (blockchain_error + base \<times> 'c) option" where
  "find_tip_base p l h chain_height pruned c =
     map_option (\<lambda>res. result_bind res (\<lambda>(bases, c).
       if bases = [] then Inl ExpectedTips
       else let b = last (sort_by by_height_descending bases) in
         Inr (b, lru_put l (h, chain_height) b c)))
     (tip_base_loop p l h chain_height pruned [h] [] [] c)"

fun find_tip_bases ::
  "dag_provider \<Rightarrow> (hash \<times> u64, base, 'c) lru \<Rightarrow> u64 \<Rightarrow> u64 \<Rightarrow> hash list \<Rightarrow> 'c \<Rightarrow>
   (blockchain_error + base list \<times> 'c) option" where
  "find_tip_bases p l best pruned [] c = Some (Inr ([], c))"
| "find_tip_bases p l best pruned (h # hs) c =
     Option.bind (find_tip_base p l h best pruned c) (\<lambda>res.
       case res of
         Inl e \<Rightarrow> Some (Inl e)
       | Inr (b, c') \<Rightarrow> map_option (\<lambda>res. result_bind res (\<lambda>(bs, c''). Inr (b # bs, c'')))
           (find_tip_bases p l best pruned hs c'))"

definition find_common_base ::
  "dag_provider \<Rightarrow> (hash \<times> u64, base, 'c) lru \<Rightarrow> (hash, base, 'd) lru \<Rightarrow> hash list \<Rightarrow> 'c \<Rightarrow> 'd \<Rightarrow>
   (blockchain_error + base \<times> 'c \<times> 'd) option" where
  "find_common_base p l lc ts c d =
     (let combined = get_combined_hash_for_tips ts in
      case lru_get lc combined d of
        (Some b, d') \<Rightarrow> Some (Inr (b, c, d'))
      | (None, d') \<Rightarrow>
        (case fold_result (\<lambda>h best. result_bind (height_for_block_hash p h) (\<lambda>n.
                Inr (if n > best then n else best))) ts 0 of
           Inl e \<Rightarrow> Some (Inl e)
         | Inr best_height \<Rightarrow>
           (let pruned = (case pruned_topoheight p of Some t \<Rightarrow> t | None \<Rightarrow> 0) in
            map_option (\<lambda>res. result_bind res (\<lambda>(bases, c').
              if bases = [] then Inl ExpectedTips
              else let b = last (sort_by by_height_descending bases) in
                Inr (b, c', lru_put lc combined b d')))
            (find_tip_bases p l best_height pruned ts c))))"

section \<open>Choosing and sorting tips\<close>

lemma descending_total: "descending a b \<or> descending b a"
  by (auto simp: descending_def)

lemma descending_trans: "descending a b \<Longrightarrow> descending b c \<Longrightarrow> descending a c"
  by (auto simp: descending_def split: if_splits)

lemma descending_antisym: "descending a b \<Longrightarrow> descending b a \<Longrightarrow> a = b"
  by (auto simp: descending_def prod_eq_iff split: if_splits)

lemma sorted_wrt_mset_unique:
  assumes "\<And>a b. R a b \<Longrightarrow> R b a \<Longrightarrow> a = b"
  shows "sorted_wrt R xs \<Longrightarrow> sorted_wrt R ys \<Longrightarrow> mset xs = mset ys \<Longrightarrow> xs = ys"
proof (induction xs arbitrary: ys)
  case (Cons x xs)
  then obtain y zs where ys: "ys = y # zs" by (cases ys) auto
  have "set (x # xs) = set (y # zs)" using Cons.prems(3) ys by (metis set_mset_mset)
  then have "x \<noteq> y \<Longrightarrow> x \<in> set zs \<and> y \<in> set xs" by auto
  then have "x = y" using Cons.prems(1,2) ys assms [of x y] by (cases "x = y") simp_all
  with Cons ys show ?case by simp
qed simp

lemma sort_descending_sorted: "sorted_wrt descending (sort_descending_by_cumulative_difficulty xs)"
  unfolding sort_descending_by_cumulative_difficulty_def
  by (rule sorted_sort_by [OF descending_total]) (rule descending_trans)

lemma sort_descending_mset [simp]: "mset (sort_descending_by_cumulative_difficulty xs) = mset xs"
  by (simp add: sort_descending_by_cumulative_difficulty_def)

lemma sort_descending_unique:
  "mset xs = mset ys \<Longrightarrow> sort_descending_by_cumulative_difficulty xs =
     sort_descending_by_cumulative_difficulty ys"
  by (rule sorted_wrt_mset_unique [OF descending_antisym sort_descending_sorted
        sort_descending_sorted]) simp_all

text \<open>The height and the cumulative difficulty of a block, for blocks that are stored.\<close>

definition block_height :: "dag_provider \<Rightarrow> hash \<Rightarrow> u64" where
  "block_height p h = (case height_for_block_hash p h of Inr n \<Rightarrow> n | Inl _ \<Rightarrow> 0)"

definition block_score :: "dag_provider \<Rightarrow> hash \<Rightarrow> score" where
  "block_score p h = (h, case cumulative_difficulty_for_block_hash p h of Inr d \<Rightarrow> d | Inl _ \<Rightarrow> 0)"

lemma with_cumulative_difficulty_score:
  "cumulative_difficulty_for_block_hash p h = Inr d \<Longrightarrow>
     with_cumulative_difficulty p h = Inr (block_score p h)"
  by (simp add: with_cumulative_difficulty_def block_score_def)

lemma sort_tips_scores:
  assumes "length ts \<ge> 2" "\<forall>t \<in> set ts. \<exists>d. cumulative_difficulty_for_block_hash p t = Inr d"
  shows "sort_tips p ts = Inr (index_set_extend []
    (map fst (sort_descending_by_cumulative_difficulty (map (block_score p) ts))))"
proof -
  have "map_result (with_cumulative_difficulty p) ts = Inr (map (block_score p) ts)"
    using assms(2) by (intro map_result_Inr_map) (metis with_cumulative_difficulty_score)
  with assms(1) show ?thesis by (auto simp: sort_tips_def split: list.split)
qed

lemma height_fold:
  assumes "\<forall>t \<in> set ts. \<exists>n. height_for_block_hash p t = Inr n"
  shows "fold_result (\<lambda>h acc. result_bind (height_for_block_hash p h) (\<lambda>past.
      Inr (if acc \<le> past then past else acc))) ts a =
    (Inr (fold (\<lambda>t acc. max acc (block_height p t)) ts a) :: blockchain_error + u64)"
  using assms
proof (induction ts arbitrary: a)
  case (Cons t ts)
  then obtain n where "height_for_block_hash p t = Inr n" by auto
  with Cons show ?case by (simp add: block_height_def max_def)
qed simp

lemma fold_max_Max: "fold (\<lambda>t acc. max acc (f t)) ts a = Max (insert (a :: u64) (f ` set ts))"
proof (induction ts arbitrary: a)
  case (Cons t ts)
  have "Max (insert (max a (f t)) (f ` set ts)) = Max (insert a (f ` set (t # ts)))"
    by (cases "ts = []") (simp_all add: Max_insert max.assoc max.left_commute)
  with Cons show ?case by simp
qed simp

section \<open>Properties\<close>

text \<open>
  The height of a block is one more than the height of its highest tip, and 0 for a block
  without tips.
\<close>

theorem calculate_height_at_tips_spec:
  assumes "\<forall>t \<in> set ts. \<exists>n. height_for_block_hash p t = Inr n"
  shows "calculate_height_at_tips p ts =
    Inr (if ts = [] then 0 else Max (block_height p ` set ts) + 1)"
proof -
  have "Max (insert 0 (block_height p ` set ts)) = Max (block_height p ` set ts)" if "ts \<noteq> []"
    using that by (simp add: Max_insert max_def)
  then show ?thesis
    unfolding calculate_height_at_tips_def height_fold [OF assms] by (simp add: fold_max_Max)
qed

text \<open>A small chain: the genesis block and two blocks on top of it, the last ones not ordered.\<close>

definition sample_block :: "nat \<Rightarrow> hash" where
  "sample_block n = replicate 31 0 @ [of_nat n]"

definition sample_provider :: dag_provider where
  "sample_provider = \<lparr>
     height_for_block_hash = (\<lambda>h. Inr (if h = sample_block 0 then 0
       else if h = sample_block 3 then 2 else 1)),
     timestamp_for_block_hash = (\<lambda>h. Inr 1000),
     difficulty_for_block_hash = (\<lambda>h. Inr 5),
     cumulative_difficulty_for_block_hash = (\<lambda>h. Inr (if h = sample_block 2 then 9 else 7)),
     past_blocks_for_block_hash = (\<lambda>h. Inr (if h = sample_block 0 then []
       else if h = sample_block 3 then [sample_block 1, sample_block 2] else [sample_block 0])),
     block_header_by_hash = (\<lambda>h. Inl ExpectedTips),
     estimated_covariance_for_block_hash = (\<lambda>h. Inr V2_P),
     topo_height_for_hash = (\<lambda>h. if h = sample_block 0 then Inr 0
       else Inl (NotFoundOnDisk CtxGetTopoHeightForHash)),
     is_block_topological_ordered = (\<lambda>h. h = sample_block 0),
     hash_at_topo_height = (\<lambda>t. if t = 0 then Inr (sample_block 0)
       else Inl (NotFoundOnDisk (CtxGetBlockHashAtTopoHeight t))),
     blocks_at_height = (\<lambda>n. Inr (if n = 0 then [sample_block 0]
       else if n = 1 then [sample_block 1, sample_block 2]
       else if n = 2 then [sample_block 3] else [])),
     pruned_topoheight = None\<rparr>"

lemma sample_block_eq [simp]: "sample_block m = sample_block n \<longleftrightarrow> (of_nat m :: u8) = of_nat n"
  by (simp add: sample_block_def)

lemma hash_ok_sample_block [simp]: "hash_ok (sample_block n)"
  by (simp add: sample_block_def hash_ok_def HASH_SIZE_def)

theorem calculate_height_at_tips_spec_witness:
  "calculate_height_at_tips sample_provider [sample_block 1, sample_block 3] = Inr 3"
proof -
  have h: "height_for_block_hash sample_provider (sample_block 1) = Inr 1"
    "height_for_block_hash sample_provider (sample_block 3) = Inr 2"
    by (simp_all add: sample_provider_def)
  then have "block_height sample_provider (sample_block 1) = 1"
    "block_height sample_provider (sample_block 3) = 2"
    by (simp_all add: block_height_def)
  with calculate_height_at_tips_spec [of "[sample_block 1, sample_block 3]" sample_provider] h
  show ?thesis by simp
qed

text \<open>
  C27: sorting tips depends only on which tips there are, not on the order in which they come: two
  nodes that hold the same tips in different orders put them in the same order. The result has
  exactly these tips, without duplicates, by descending cumulative difficulty and, for equal
  difficulties, descending hash.
\<close>

theorem sort_tips_canonical:
  assumes "ts \<noteq> []" "distinct ts" "mset ts' = mset ts"
    and "\<forall>t \<in> set ts. \<exists>d. cumulative_difficulty_for_block_hash p t = Inr d"
  shows "\<exists>r. sort_tips p ts = Inr r \<and> sort_tips p ts' = Inr r \<and> mset r = mset ts \<and>
    sorted_wrt descending (map (block_score p) r)"
proof (cases "length ts \<ge> 2")
  case True
  let ?xs = "sort_descending_by_cumulative_difficulty (map (block_score p) ts)"
  have set': "set ts' = set ts" using assms(3) by (metis set_mset_mset)
  have len: "length ts' \<ge> 2" using True assms(3) by (metis size_mset)
  have "mset (map (block_score p) ts') = mset (map (block_score p) ts)"
    using assms(3) by (simp only: mset_map)
  then have same: "sort_descending_by_cumulative_difficulty (map (block_score p) ts') = ?xs"
    by (rule sort_descending_unique)
  have fst_score: "fst (block_score p h) = h" for h by (simp add: block_score_def)
  have m: "mset (map fst ?xs) = mset ts"
    by (simp add: mset_map image_mset.compositionality comp_def fst_score)
  then have d: "index_set_extend [] (map fst ?xs) = map fst ?xs"
    using assms(2) index_set_extend_distinct [of "[]" "map fst ?xs"] mset_eq_imp_distinct_iff [OF m]
    by (simp only: append_Nil)
  have "set ?xs = block_score p ` set ts"
    by (simp add: sort_descending_by_cumulative_difficulty_def)
  then have "map (block_score p) (map fst ?xs) = ?xs"
    unfolding map_map by (intro map_idI) (auto simp: fst_score)
  then show ?thesis
    using sort_tips_scores [OF True assms(4)] sort_tips_scores [OF len] assms(4) set' same d m
      sort_descending_sorted by auto
next
  case False
  with assms(1) obtain t where t: "ts = [t]" by (cases ts) (auto simp: Suc_le_eq)
  then have "ts' = [t]" using assms(3) by (simp add: mset_single_iff)
  with t show ?thesis by (simp add: sort_tips_def)
qed

theorem sort_tips_canonical_witness:
  "\<exists>r. sort_tips sample_provider [sample_block 1, sample_block 2] = Inr r \<and>
     sort_tips sample_provider [sample_block 2, sample_block 1] = Inr r"
proof -
  have "distinct [sample_block 1, sample_block 2]" by simp
  then show ?thesis
    using sort_tips_canonical [of "[sample_block 1, sample_block 2]"
        "[sample_block 2, sample_block 1]" sample_provider]
    by (auto simp: sample_provider_def)
qed

end
