(* ===== verification/Dag_Walk.thy ===== *)
theory Dag_Walk
  imports Dag
begin

text \<open>
  The walks through the past of a block in \<open>core/blockchain.rs\<close>: the blocks that a tip reaches and
  the check that no tip of a block reaches another one, the distance of a block from the main chain,
  the work score of a tip and the best tip, the transactions of the blocks above a height. Each is a
  loop on a stack of hashes; the head of a list is the top of the stack. The blocks form a DAG
  because a block is higher than its tips (\<open>dag_closed\<close>), which is why the loops end.
\<close>

section \<open>The past of a block\<close>

definition parents :: "dag_provider \<Rightarrow> hash \<Rightarrow> hash list" where
  "parents p h = (case past_blocks_for_block_hash p h of Inr ts \<Rightarrow> ts | Inl _ \<Rightarrow> [])"

definition level :: "dag_provider \<Rightarrow> hash \<Rightarrow> nat" where
  "level p h = unat (block_height p h)"

text \<open>A set of stored blocks that has the tips of its blocks, each lower than the block.\<close>

definition dag_closed :: "dag_provider \<Rightarrow> hash set \<Rightarrow> bool" where
  "dag_closed p S \<longleftrightarrow> (\<forall>h \<in> S.
     past_blocks_for_block_hash p h = Inr (parents p h) \<and>
     height_for_block_hash p h = Inr (block_height p h) \<and>
     (\<forall>t \<in> set (parents p h). t \<in> S \<and> level p t < level p h))"

lemma dag_closed_parents:
  assumes "dag_closed p S" "h \<in> S"
  shows "past_blocks_for_block_hash p h = Inr (parents p h)"
    and "height_for_block_hash p h = Inr (block_height p h)"
    and "t \<in> set (parents p h) \<Longrightarrow> t \<in> S"
    and "t \<in> set (parents p h) \<Longrightarrow> level p t < level p h"
  using assms by (auto simp: dag_closed_def)

lemmas dag_closed_simps [simp] = dag_closed_parents(1,2)
lemmas dag_closed_dests [dest] = dag_closed_parents(3,4)

inductive in_past :: "dag_provider \<Rightarrow> hash \<Rightarrow> hash \<Rightarrow> bool" for p h where
  in_past_refl: "in_past p h h"
| in_past_tip: "in_past p h x \<Longrightarrow> t \<in> set (parents p x) \<Longrightarrow> in_past p h t"

lemma in_past_closed: "in_past p h x \<Longrightarrow> dag_closed p S \<Longrightarrow> h \<in> S \<Longrightarrow> x \<in> S \<and> level p x \<le> level p h"
proof (induction rule: in_past.induct)
  case (in_past_tip x t)
  then have "level p t < level p x" "t \<in> S" "level p x \<le> level p h" by auto
  then show ?case by simp
qed simp

lemma in_past_trans: "in_past p x y \<Longrightarrow> in_past p h x \<Longrightarrow> in_past p h y"
  by (induction rule: in_past.induct) (auto intro: in_past_tip)

text \<open>
  Induction for a loop on a stack: an iteration pops the top and pushes elements that are smaller
  in some measure, any number of them.
\<close>

lemma stack_induct [case_names Nil Cons]:
  fixes f :: "'a \<Rightarrow> nat"
  assumes "P []"
    and "\<And>x st. (\<And>new. (\<forall>y \<in> set new. f y < f x) \<Longrightarrow> P (new @ st)) \<Longrightarrow> P (x # st)"
  shows "P st"
proof -
  have "wf (inv_image (mult less_than) (\<lambda>st. mset (map f st)))" by (simp add: wf_mult)
  then show ?thesis
  proof (induction st rule: wf_induct_rule)
    case (less st)
    show ?case
    proof (cases st)
      case (Cons x st')
      have "P (new @ st')" if "\<forall>y \<in> set new. f y < f x" for new
        using one_step_implies_mult [of "{#f x#}" "mset (map f new)" less_than "mset (map f st')"] that
        by (intro less) (simp add: Cons add.commute)
      with assms(2) Cons show ?thesis by blast
    qed (simp add: assms(1))
  qed
qed

section \<open>Reachability\<close>

definition LEVEL_LIMIT :: u64 where "LEVEL_LIMIT = 2 * STABLE_LIMIT"

definition unseen :: "hash set \<Rightarrow> u64 \<Rightarrow> hash list \<Rightarrow> (hash \<times> u64) list" where
  "unseen s l ts = rev (map (\<lambda>t. (t, l)) (filter (\<lambda>t. t \<notin> s) ts))"

lemma set_unseen: "set (unseen s l ts) = (\<lambda>t. (t, l)) ` (set ts - s)"
  by (auto simp: unseen_def)

lemma fst_unseen [simp]: "fst ` set (unseen s l ts) = set ts - s"
  by (simp add: set_unseen image_image)

lemma level_limit: "LEVEL_LIMIT = 16"
  by (simp add: LEVEL_LIMIT_def STABLE_LIMIT_def)

lemma next_level: "\<not> l \<ge> LEVEL_LIMIT \<Longrightarrow> unat (l + 1) = unat l + 1 \<and> unat l < 16"
proof -
  assume "\<not> l \<ge> LEVEL_LIMIT"
  then have "unat l < 16" by (simp add: level_limit not_le word_less_nat_alt)
  then show ?thesis by (simp add: unat_word_ariths)
qed

function reachability_loop ::
  "dag_provider \<Rightarrow> (hash \<times> u64) list \<Rightarrow> hash set \<Rightarrow> blockchain_error + hash set" where
  "reachability_loop p [] s = Inr s"
| "reachability_loop p ((h, l) # stack) s =
     (if l \<ge> LEVEL_LIMIT then reachability_loop p stack (insert h s)
      else result_bind (past_blocks_for_block_hash p h) (\<lambda>ts.
        reachability_loop p (unseen (insert h s) (l + 1) ts @ stack) (insert h s)))"
  by pat_completeness auto

termination
proof (relation "inv_image (mult less_than) (\<lambda>(p, st, s). mset (map (\<lambda>(h, l). 16 - unat l) st))")
  show "wf (inv_image (mult less_than)
      (\<lambda>(p :: dag_provider, st :: (hash \<times> u64) list, s :: hash set).
        mset (map (\<lambda>(h, l). 16 - unat l) st)))"
    by (simp add: wf_mult)
next
  fix p :: dag_provider and h :: hash and l :: u64 and stack :: "(hash \<times> u64) list" and s :: "hash set"
  show "((p, stack, insert h s), p, (h, l) # stack, s)
      \<in> inv_image (mult less_than) (\<lambda>(p, st, s). mset (map (\<lambda>(h, l). 16 - unat l) st))"
    using one_step_implies_mult [of "{#16 - unat l#}" "{#}" less_than] by simp
next
  fix p :: dag_provider and h :: hash and l :: u64 and stack :: "(hash \<times> u64) list"
    and s :: "hash set" and ts :: "hash list"
  assume "\<not> l \<ge> LEVEL_LIMIT"
  let ?new = "unseen (insert h s) (l + 1) ts"
  have "\<forall>k \<in># mset (map (\<lambda>(h, l). 16 - unat l) ?new). k < 16 - unat l"
    using next_level [OF \<open>\<not> l \<ge> LEVEL_LIMIT\<close>] by (auto simp: set_unseen)
  then have "\<forall>k \<in># mset (map (\<lambda>(h, l). 16 - unat l) ?new).
      \<exists>j \<in># {#16 - unat l#}. (k, j) \<in> less_than"
    by simp
  from one_step_implies_mult [OF _ this]
  show "((p, ?new @ stack, insert h s), p, (h, l) # stack, s)
      \<in> inv_image (mult less_than) (\<lambda>(p, st, s). mset (map (\<lambda>(h, l). 16 - unat l) st))"
    by (simp add: add.commute)
qed

definition build_reachability :: "dag_provider \<Rightarrow> hash \<Rightarrow> blockchain_error + hash set" where
  "build_reachability p h = reachability_loop p [(h, 0)] {}"

definition verify_non_reachability :: "dag_provider \<Rightarrow> hash list \<Rightarrow> blockchain_error + bool" where
  "verify_non_reachability p ts =
     result_bind (map_result (build_reachability p) ts) (\<lambda>reach.
       Inr (\<not> (\<exists>i \<in> set [0..<length ts]. \<exists>j \<in> set [0..<length ts].
         i \<noteq> j \<and> ts ! i \<in> reach ! j)))"

lemma reachability_total:
  "dag_closed p S \<Longrightarrow> fst ` set st \<subseteq> S \<Longrightarrow> \<exists>s'. reachability_loop p st s = Inr s'"
proof (induction p st s rule: reachability_loop.induct)
  case (2 p h l stack s)
  then have h: "h \<in> S" and "set (parents p h) \<subseteq> S" by auto
  then have "fst ` set (unseen (insert h s) (l + 1) (parents p h) @ stack) \<subseteq> S"
    using "2.prems"(2) by (auto simp: image_Un)
  with 2 h show ?case by (cases "l \<ge> LEVEL_LIMIT") simp_all
qed simp

lemma reachability_sound:
  "reachability_loop p st s = Inr s' \<Longrightarrow> x \<in> s' \<Longrightarrow> x \<in> s \<or> (\<exists>h \<in> fst ` set st. in_past p h x)"
proof (induction p st s rule: reachability_loop.induct)
  case (2 p h l stack s)
  show ?case
  proof (cases "l \<ge> LEVEL_LIMIT")
    case True
    with 2 show ?thesis by (auto intro: in_past_refl)
  next
    case False
    with "2.prems" obtain ts where ts: "past_blocks_for_block_hash p h = Inr ts"
      "reachability_loop p (unseen (insert h s) (l + 1) ts @ stack) (insert h s) = Inr s'"
      by (auto simp: result_bind_eq_Inr)
    from "2.IH"(2) [OF False ts(2) "2.prems"(2)]
    have "x \<in> insert h s \<or> (\<exists>h' \<in> set ts \<union> fst ` set stack. in_past p h' x)"
      by (simp only: set_append image_Un fst_unseen) blast
    moreover have "in_past p h t" if "t \<in> set ts" for t
      using that ts(1) by (intro in_past_tip [OF in_past_refl]) (simp add: parents_def)
    ultimately show ?thesis by (auto intro: in_past_refl in_past_trans)
  qed
qed simp

text \<open>
  The blocks that are not 16 levels below the tip are complete: every tip of such a block was pushed
  before its level reached the limit.
\<close>

definition expanded :: "dag_provider \<Rightarrow> nat \<Rightarrow> hash set \<Rightarrow> hash set \<Rightarrow> bool" where
  "expanded p n s s' \<longleftrightarrow> (\<forall>x \<in> s. n < level p x + 16 \<longrightarrow> set (parents p x) \<subseteq> s')"

lemma reachability_closed:
  assumes "dag_closed p S" "reachability_loop p st s = Inr s'" "fst ` set st \<subseteq> S"
    and "\<forall>(x, l) \<in> set st. level p x + unat l \<le> n"
    and "expanded p n s (s \<union> fst ` set st)"
  shows "s \<union> fst ` set st \<subseteq> s' \<and> expanded p n s' s'"
  using assms
proof (induction p st s rule: reachability_loop.induct)
  case (2 p h l stack s)
  have h: "h \<in> S" "level p h + unat l \<le> n" using "2.prems"(3,4) by auto
  show ?case
  proof (cases "l \<ge> LEVEL_LIMIT")
    case True
    then have "unat l \<ge> 16" by (simp add: level_limit word_le_nat_alt)
    then have "expanded p n (insert h s) (insert h s \<union> fst ` set stack)"
      using "2.prems"(5) h by (auto simp: expanded_def)
    with True "2.prems" "2.IH"(1) [OF True "2.prems"(1)] show ?thesis by auto
  next
    case False
    let ?st = "unseen (insert h s) (l + 1) (parents p h) @ stack"
    have loop: "reachability_loop p ?st (insert h s) = Inr s'"
      using False "2.prems"(1,2) h by simp
    have fst: "fst ` set ?st = (set (parents p h) - insert h s) \<union> fst ` set stack"
      by (simp only: set_append image_Un fst_unseen)
    have ps: "x \<in> S \<and> level p x + unat (l + 1) \<le> n" if "x \<in> set (parents p h)" for x
      using next_level [OF False] dag_closed_parents(3,4) [OF "2.prems"(1) h(1) that] h(2) by simp
    have "fst ` set ?st \<subseteq> S" unfolding fst using ps "2.prems"(3) by auto
    moreover have "\<forall>(x, l) \<in> set ?st. level p x + unat l \<le> n"
      using ps "2.prems"(4) by (auto simp: set_unseen)
    moreover have "expanded p n (insert h s) (insert h s \<union> fst ` set ?st)"
      using "2.prems"(5) unfolding fst by (auto simp: expanded_def)
    ultimately have "insert h s \<union> fst ` set ?st \<subseteq> s' \<and> expanded p n s' s'"
      by (rule "2.IH"(2) [OF False "2.prems"(1) loop])
    then show ?thesis unfolding fst by auto
  qed
qed simp

lemma build_reachability_spec:
  assumes "dag_closed p S" "h \<in> S"
  obtains s where "build_reachability p h = Inr s" "\<forall>x \<in> s. in_past p h x"
    and "\<forall>x. in_past p h x \<and> level p h < level p x + 16 \<longrightarrow> x \<in> s"
proof -
  obtain s where s: "reachability_loop p [(h, 0)] {} = Inr s"
    using reachability_total [OF assms(1), of "[(h, 0)]" "{}"] assms(2) by (auto simp del: reachability_loop.simps)
  have closed: "h \<in> s \<and> expanded p (level p h) s s"
    using reachability_closed [OF assms(1) s, of "level p h"] assms(2) by (simp add: expanded_def)
  have "in_past p h x \<Longrightarrow> level p h < level p x + 16 \<longrightarrow> x \<in> s" for x
  proof (induction rule: in_past.induct)
    case (in_past_tip x t)
    have "x \<in> S" using in_past_closed [OF in_past_tip(1) assms] by simp
    then have lt: "level p t < level p x" by (rule dag_closed_parents(4) [OF assms(1) _ in_past_tip(2)])
    have "x \<in> s \<Longrightarrow> level p h < level p x + 16 \<Longrightarrow> t \<in> s"
      using closed in_past_tip(2) unfolding expanded_def by blast
    with in_past_tip.IH lt show ?case by simp
  qed (simp add: closed)
  moreover have "\<forall>x \<in> s. in_past p h x" using reachability_sound [OF s] by simp
  ultimately show thesis using s by (intro that) (auto simp: build_reachability_def)
qed

section \<open>Distance from the main chain\<close>

definition u64_max_value :: u64 where "u64_max_value = - 1"

definition lowest_tips ::
  "dag_provider \<Rightarrow> hash list \<Rightarrow> hash list \<times> u64 \<Rightarrow> blockchain_error + hash list \<times> u64" where
  "lowest_tips p = fold_result (\<lambda>t (stack, lowest).
     if is_block_topological_ordered p t
     then result_bind (height_for_block_hash p t) (\<lambda>n. Inr (stack, if lowest > n then n else lowest))
     else Inr (t # stack, lowest))"

partial_function (option) lowest_height_loop ::
  "dag_provider \<Rightarrow> hash list \<Rightarrow> hash set \<Rightarrow> u64 \<Rightarrow> (blockchain_error + u64) option" where
  "lowest_height_loop p stack processed lowest =
     (case stack of
        [] \<Rightarrow> Some (Inr lowest)
      | h # stack' \<Rightarrow>
        if h \<in> processed then lowest_height_loop p stack' processed lowest
        else (case past_blocks_for_block_hash p h of
            Inl e \<Rightarrow> Some (Inl e)
          | Inr ts \<Rightarrow> (case lowest_tips p ts (stack', lowest) of
              Inl e \<Rightarrow> Some (Inl e)
            | Inr (stack'', lowest') \<Rightarrow>
                lowest_height_loop p stack'' (insert h processed) lowest')))"

definition find_lowest_height_from_mainchain ::
  "dag_provider \<Rightarrow> hash \<Rightarrow> (blockchain_error + u64) option" where
  "find_lowest_height_from_mainchain p h = lowest_height_loop p [h] {} u64_max_value"

definition calculate_distance_from_mainchain ::
  "dag_provider \<Rightarrow> hash \<Rightarrow> (blockchain_error + u64) option" where
  "calculate_distance_from_mainchain p h =
     (if is_block_topological_ordered p h then Some (height_for_block_hash p h)
      else find_lowest_height_from_mainchain p h)"

definition verify_distance_from_mainchain ::
  "dag_provider \<Rightarrow> hash \<Rightarrow> u64 \<Rightarrow> (blockchain_error + bool) option" where
  "verify_distance_from_mainchain p h n =
     map_option (\<lambda>r. result_bind r (\<lambda>distance.
       Inr (\<not> (distance \<le> n \<and> n - distance \<ge> STABLE_LIMIT))))
     (calculate_distance_from_mainchain p h)"

text \<open>The blocks that a block reaches through blocks that are not ordered.\<close>

inductive unordered_past :: "dag_provider \<Rightarrow> hash \<Rightarrow> hash \<Rightarrow> bool" for p h where
  unordered_refl: "unordered_past p h h"
| unordered_tip: "unordered_past p h x \<Longrightarrow> t \<in> set (parents p x) \<Longrightarrow>
    \<not> is_block_topological_ordered p t \<Longrightarrow> unordered_past p h t"

text \<open>The ordered blocks at which these paths meet the main chain.\<close>

definition mainchain_contact :: "dag_provider \<Rightarrow> hash \<Rightarrow> hash \<Rightarrow> bool" where
  "mainchain_contact p h t \<longleftrightarrow> is_block_topological_ordered p t \<and>
     (\<exists>x. unordered_past p h x \<and> t \<in> set (parents p x))"

lemma lowest_tips_spec:
  assumes "\<forall>t \<in> set ts. height_for_block_hash p t = Inr (block_height p t)"
  shows "lowest_tips p ts (st, low) =
    Inr (rev (filter (\<lambda>t. \<not> is_block_topological_ordered p t) ts) @ st,
         fold (\<lambda>t low. min low (block_height p t)) (filter (is_block_topological_ordered p) ts) low)"
  using assms
proof (induction ts arbitrary: st low)
  case (Cons t ts)
  then show ?case
    by (simp add: lowest_tips_def min_def not_le [symmetric] if_distrib cong: if_cong)
qed (simp add: lowest_tips_def)

lemma fold_min_le:
  "fold (\<lambda>t low. min low (f t)) ts low \<le> (low :: u64) \<and>
   (\<forall>t \<in> set ts. fold (\<lambda>t low. min low (f t)) ts low \<le> f t)"
proof (induction ts arbitrary: low)
  case (Cons t ts)
  from Cons [of "min low (f t)"] show ?case by auto
qed simp

lemma fold_min_in:
  "fold (\<lambda>t low. min low (f t)) ts low \<in> insert (low :: u64) (f ` set ts)"
proof (induction ts arbitrary: low)
  case (Cons t ts)
  from Cons [of "min low (f t)"] show ?case by (auto simp: min_def split: if_splits)
qed simp

text \<open>
  What the loop keeps: the processed blocks and those on the stack are reached from the block; the
  tips of a processed block are on the stack or processed, or not below the lowest height so far;
  the lowest height is the one of such a tip.
\<close>

definition lowest_inv :: "dag_provider \<Rightarrow> hash \<Rightarrow> hash list \<Rightarrow> hash set \<Rightarrow> u64 \<Rightarrow> bool" where
  "lowest_inv p h st seen low \<longleftrightarrow>
     h \<in> set st \<union> seen \<and> (\<forall>x \<in> set st \<union> seen. unordered_past p h x) \<and>
     (\<forall>x \<in> seen. \<forall>t \<in> set (parents p x).
        (is_block_topological_ordered p t \<longrightarrow> low \<le> block_height p t) \<and>
        (\<not> is_block_topological_ordered p t \<longrightarrow> t \<in> set st \<union> seen)) \<and>
     (low = u64_max_value \<or> (\<exists>t. mainchain_contact p h t \<and> low = block_height p t))"

lemma lowest_inv_pop:
  "lowest_inv p h (x # st) seen low \<Longrightarrow> x \<in> seen \<Longrightarrow> lowest_inv p h st seen low"
  unfolding lowest_inv_def by auto

lemma lowest_inv_expand:
  assumes "lowest_inv p h (x # st) seen low"
  shows "lowest_inv p h (rev (filter (\<lambda>t. \<not> is_block_topological_ordered p t) (parents p x)) @ st)
    (insert x seen)
    (fold (\<lambda>t low. min low (block_height p t))
       (filter (is_block_topological_ordered p) (parents p x)) low)"
    (is "lowest_inv p h ?st ?seen ?low")
proof -
  let ?ord = "filter (is_block_topological_ordered p) (parents p x)"
  have x: "unordered_past p h x" using assms by (simp add: lowest_inv_def)
  have low: "?low \<le> low" "\<forall>t \<in> set ?ord. ?low \<le> block_height p t"
    using fold_min_le [of "block_height p" ?ord low] by blast+
  have "?low = low \<or> (\<exists>t. mainchain_contact p h t \<and> ?low = block_height p t)"
    using fold_min_in [of "block_height p" ?ord low] x by (auto simp: mainchain_contact_def)
  moreover have "\<forall>y \<in> set ?st \<union> ?seen. unordered_past p h y"
    using assms x by (auto simp: lowest_inv_def intro: unordered_tip)
  moreover have "(is_block_topological_ordered p t \<longrightarrow> ?low \<le> block_height p t) \<and>
      (\<not> is_block_topological_ordered p t \<longrightarrow> t \<in> set ?st \<union> ?seen)"
    if "y \<in> ?seen" "t \<in> set (parents p y)" for y t
    using that assms low by (cases "y = x") (auto simp: lowest_inv_def intro: order.trans)
  moreover have "h \<in> set ?st \<union> ?seen" "low = u64_max_value \<or>
      (\<exists>t. mainchain_contact p h t \<and> low = block_height p t)"
    using assms by (auto simp: lowest_inv_def)
  ultimately show ?thesis unfolding lowest_inv_def by blast
qed

lemma lowest_height_loop_spec:
  assumes "dag_closed p S" "lowest_inv p h st seen low" "set st \<subseteq> S" "seen \<subseteq> S"
  shows "\<exists>low' seen'. lowest_height_loop p st seen low = Some (Inr low') \<and> lowest_inv p h [] seen' low'"
  using assms(2-)
proof (induction st arbitrary: seen low rule: stack_induct [where f = "level p"])
  case Nil
  then show ?case by (subst lowest_height_loop.simps) auto
next
  case (Cons x st)
  have x: "x \<in> S" "\<forall>t \<in> set (parents p x). t \<in> S \<and> level p t < level p x"
    using Cons.prems(2) assms(1) by auto
  show ?case
  proof (cases "x \<in> seen")
    case True
    with Cons.IH [of "[]"] Cons.prems lowest_inv_pop show ?thesis
      by (subst lowest_height_loop.simps) auto
  next
    case False
    let ?new = "rev (filter (\<lambda>t. \<not> is_block_topological_ordered p t) (parents p x))"
    have "\<exists>low' seen'. lowest_height_loop p (?new @ st) (insert x seen)
        (fold (\<lambda>t low. min low (block_height p t))
          (filter (is_block_topological_ordered p) (parents p x)) low) = Some (Inr low') \<and>
        lowest_inv p h [] seen' low'"
      using Cons.prems x by (intro Cons.IH lowest_inv_expand) auto
    moreover have "past_blocks_for_block_hash p x = Inr (parents p x)"
      "\<forall>t \<in> set (parents p x). height_for_block_hash p t = Inr (block_height p t)"
      using x assms(1) by auto
    ultimately show ?thesis
      using False by (subst lowest_height_loop.simps) (simp add: lowest_tips_spec)
  qed
qed

lemma find_lowest_height_spec:
  assumes "dag_closed p S" "h \<in> S"
  obtains low where "find_lowest_height_from_mainchain p h = Some (Inr low)"
    and "\<forall>t. mainchain_contact p h t \<longrightarrow> low \<le> block_height p t"
    and "low = u64_max_value \<or> (\<exists>t. mainchain_contact p h t \<and> low = block_height p t)"
proof -
  have "lowest_inv p h [h] {} u64_max_value" by (simp add: lowest_inv_def unordered_refl)
  from lowest_height_loop_spec [OF assms(1) this] assms(2) obtain low seen where
    low: "lowest_height_loop p [h] {} u64_max_value = Some (Inr low)" and
    inv: "lowest_inv p h [] seen low" by auto
  have reached: "unordered_past p h x \<Longrightarrow> x \<in> seen" for x
    by (induction rule: unordered_past.induct) (use inv in \<open>simp_all add: lowest_inv_def\<close>)
  have "low \<le> block_height p t" if "mainchain_contact p h t" for t
  proof -
    from that obtain x where "unordered_past p h x" "t \<in> set (parents p x)"
      "is_block_topological_ordered p t" by (auto simp: mainchain_contact_def)
    with reached [of x] inv show ?thesis by (simp add: lowest_inv_def)
  qed
  with low inv show thesis
    by (intro that [of low]) (simp_all add: find_lowest_height_from_mainchain_def lowest_inv_def)
qed

section \<open>Work scores\<close>

text \<open>A block that is not ordered, or is ordered at or above the topoheight of the base.\<close>

definition in_scope :: "dag_provider \<Rightarrow> u64 \<Rightarrow> hash \<Rightarrow> blockchain_error + bool" where
  "in_scope p base_topoheight t =
     (if is_block_topological_ordered p t
      then result_bind (topo_height_for_hash p t) (\<lambda>topo. Inr (topo \<ge> base_topoheight))
      else Inr True)"

definition work_tips ::
  "dag_provider \<Rightarrow> u64 \<Rightarrow> (hash \<times> difficulty) list \<Rightarrow> hash list \<Rightarrow> hash list \<Rightarrow>
   blockchain_error + hash list" where
  "work_tips p base_topoheight m ts stack = fold_result (\<lambda>t stack.
     if map_of m t \<noteq> None then Inr stack
     else result_bind (in_scope p base_topoheight t) (\<lambda>b. Inr (if b then t # stack else stack))) ts stack"

partial_function (option) work_score_loop ::
  "dag_provider \<Rightarrow> u64 \<Rightarrow> hash list \<Rightarrow> (hash \<times> difficulty) list \<Rightarrow>
   (blockchain_error + (hash \<times> difficulty) list) option" where
  "work_score_loop p base_topoheight stack m =
     (case stack of
        [] \<Rightarrow> Some (Inr m)
      | h # stack' \<Rightarrow>
        (case result_bind (past_blocks_for_block_hash p h) (\<lambda>ts.
                work_tips p base_topoheight m ts stack') of
           Inl e \<Rightarrow> Some (Inl e)
         | Inr stack'' \<Rightarrow>
           if map_of m h \<noteq> None then work_score_loop p base_topoheight stack'' m
           else (case difficulty_for_block_hash p h of
               Inl e \<Rightarrow> Some (Inl e)
             | Inr d \<Rightarrow> work_score_loop p base_topoheight stack'' (index_map_insert h d m))))"

definition find_tip_work_score_internal ::
  "dag_provider \<Rightarrow> (hash \<times> difficulty) list \<Rightarrow> hash \<Rightarrow> u64 \<Rightarrow>
   (blockchain_error + (hash \<times> difficulty) list) option" where
  "find_tip_work_score_internal p m h base_topoheight = work_score_loop p base_topoheight [h] m"

fun work_score_tips ::
  "dag_provider \<Rightarrow> u64 \<Rightarrow> hash list \<Rightarrow> (hash \<times> difficulty) list \<Rightarrow>
   (blockchain_error + (hash \<times> difficulty) list) option" where
  "work_score_tips p base_topoheight [] m = Some (Inr m)"
| "work_score_tips p base_topoheight (t # ts) m =
     (if map_of m t \<noteq> None then work_score_tips p base_topoheight ts m
      else case in_scope p base_topoheight t of
          Inl e \<Rightarrow> Some (Inl e)
        | Inr False \<Rightarrow> work_score_tips p base_topoheight ts m
        | Inr True \<Rightarrow> Option.bind (find_tip_work_score_internal p m t base_topoheight) (\<lambda>r.
            case r of Inl e \<Rightarrow> Some (Inl e) | Inr m' \<Rightarrow> work_score_tips p base_topoheight ts m'))"

text \<open>The sum of the values of a map; the 256-bit addition panics on overflow.\<close>

fun sum_values :: "(hash \<times> difficulty) list \<Rightarrow> difficulty \<Rightarrow> difficulty option" where
  "sum_values [] score = Some score"
| "sum_values ((h, d) # m) score = Option.bind (u256_add score d) (sum_values m)"

type_synonym work_key = "hash \<times> hash \<times> u64"

definition find_tip_work_score ::
  "dag_provider \<Rightarrow> (work_key, hash set \<times> difficulty, 'c) lru \<Rightarrow> hash \<Rightarrow> hash \<Rightarrow> u64 \<Rightarrow> 'c \<Rightarrow>
   (blockchain_error + (hash set \<times> difficulty) \<times> 'c) option" where
  "find_tip_work_score p l h base base_height c =
     (case lru_get l (h, base, base_height) c of
        (Some v, c') \<Rightarrow> Some (Inr (v, c'))
      | (None, c') \<Rightarrow>
        (case result_bind (past_blocks_for_block_hash p h) (\<lambda>ts.
                result_bind (topo_height_for_hash p base) (\<lambda>topo. Inr (ts, topo))) of
           Inl e \<Rightarrow> Some (Inl e)
         | Inr (ts, base_topoheight) \<Rightarrow>
           Option.bind (work_score_tips p base_topoheight ts []) (\<lambda>r.
           case result_bind r (\<lambda>m.
                  result_bind
                    (if base \<noteq> h
                     then result_bind (cumulative_difficulty_for_block_hash p base) (\<lambda>d.
                       Inr (index_map_insert base d m))
                     else Inr m) (\<lambda>m.
                  result_bind (difficulty_for_block_hash p h) (\<lambda>d. Inr (index_map_insert h d m)))) of
             Inl e \<Rightarrow> Some (Inl e)
           | Inr m \<Rightarrow> Option.bind (sum_values m 0) (\<lambda>score.
               let v = (set (map fst m), score) in
               Some (Inr (v, lru_put l (h, base, base_height) v c'))))))"

fun tip_scores ::
  "dag_provider \<Rightarrow> (work_key, hash set \<times> difficulty, 'c) lru \<Rightarrow> hash \<Rightarrow> u64 \<Rightarrow> hash list \<Rightarrow> 'c \<Rightarrow>
   (blockchain_error + score list \<times> 'c) option" where
  "tip_scores p l base base_height [] c = Some (Inr ([], c))"
| "tip_scores p l base base_height (h # hs) c =
     Option.bind (find_tip_work_score p l h base base_height c) (\<lambda>r.
       case r of
         Inl e \<Rightarrow> Some (Inl e)
       | Inr ((_, d), c') \<Rightarrow> map_option (\<lambda>r. result_bind r (\<lambda>(ss, c''). Inr ((h, d) # ss, c'')))
           (tip_scores p l base base_height hs c'))"

definition find_best_tip ::
  "dag_provider \<Rightarrow> (work_key, hash set \<times> difficulty, 'c) lru \<Rightarrow> hash list \<Rightarrow> hash \<Rightarrow> u64 \<Rightarrow> 'c \<Rightarrow>
   (blockchain_error + hash \<times> 'c) option" where
  "find_best_tip p l ts base base_height c =
     (if length ts = 0 then Some (Inl ExpectedTips)
      else map_option (\<lambda>r. result_bind r (\<lambda>(scores, c').
        Inr (fst (hd (sort_descending_by_cumulative_difficulty scores)), c')))
      (tip_scores p l base base_height ts c))"

subsection \<open>What a work score is\<close>

inductive scoped_past :: "dag_provider \<Rightarrow> u64 \<Rightarrow> hash \<Rightarrow> hash \<Rightarrow> bool" for p bt h where
  scoped_refl: "scoped_past p bt h h"
| scoped_tip: "scoped_past p bt h x \<Longrightarrow> t \<in> set (parents p x) \<Longrightarrow> in_scope p bt t = Inr True \<Longrightarrow>
    scoped_past p bt h t"

text \<open>Blocks whose difficulty and position are stored.\<close>

definition block_work :: "dag_provider \<Rightarrow> hash \<Rightarrow> difficulty" where
  "block_work p h = (case difficulty_for_block_hash p h of Inr d \<Rightarrow> d | Inl _ \<Rightarrow> 0)"

definition work_closed :: "dag_provider \<Rightarrow> hash set \<Rightarrow> bool" where
  "work_closed p S \<longleftrightarrow> dag_closed p S \<and> order_provider_ok p \<and>
     (\<forall>h \<in> S. difficulty_for_block_hash p h = Inr (block_work p h))"

lemma in_scope_total: "order_provider_ok p \<Longrightarrow> \<exists>b. in_scope p bt t = Inr b"
  by (auto simp: order_provider_ok_def in_scope_def)

definition scoped :: "dag_provider \<Rightarrow> u64 \<Rightarrow> hash \<Rightarrow> bool" where
  "scoped p bt t \<longleftrightarrow> in_scope p bt t = Inr True"

lemma in_scope_scoped: "order_provider_ok p \<Longrightarrow> in_scope p bt t = Inr (scoped p bt t)"
  using in_scope_total [of p bt t] by (auto simp: scoped_def)

lemma work_tips_spec:
  assumes "order_provider_ok p"
  shows "work_tips p bt m ts st =
    Inr (rev (filter (\<lambda>t. map_of m t = None \<and> scoped p bt t) ts) @ st)"
  by (induction ts arbitrary: st)
     (simp_all add: work_tips_def in_scope_scoped [OF assms] del: not_None_eq)

text \<open>The blocks found so far are in the target set, and their tips in scope are found or to do.\<close>

definition work_inv ::
  "dag_provider \<Rightarrow> u64 \<Rightarrow> hash set \<Rightarrow> hash list \<Rightarrow> (hash \<times> difficulty) list \<Rightarrow> bool" where
  "work_inv p bt T st m \<longleftrightarrow>
     set st \<union> fst ` set m \<subseteq> T \<and> distinct (map fst m) \<and>
     (\<forall>(h, d) \<in> set m. d = block_work p h) \<and>
     (\<forall>x \<in> fst ` set m. \<forall>t \<in> set (parents p x). scoped p bt t \<longrightarrow> t \<in> set st \<union> fst ` set m)"

definition scope_closed :: "dag_provider \<Rightarrow> u64 \<Rightarrow> hash set \<Rightarrow> bool" where
  "scope_closed p bt T \<longleftrightarrow> (\<forall>x \<in> T. \<forall>t \<in> set (parents p x). scoped p bt t \<longrightarrow> t \<in> T)"

definition work_insert :: "dag_provider \<Rightarrow> hash \<Rightarrow> (hash \<times> difficulty) list \<Rightarrow> (hash \<times> difficulty) list" where
  "work_insert p x m = (if map_of m x \<noteq> None then m else m @ [(x, block_work p x)])"

lemma keys_work_insert [simp]: "fst ` set (work_insert p x m) = insert x (fst ` set m)"
  by (auto simp: work_insert_def map_of_eq_None_iff simp del: not_None_eq)

lemma work_inv_expand:
  assumes "work_inv p bt T (x # st) m" "scope_closed p bt T"
  shows "work_inv p bt T (rev (filter (\<lambda>t. map_of m t = None \<and> scoped p bt t) (parents p x)) @ st)
    (work_insert p x m)"
proof -
  have "x \<in> T" using assms(1) by (simp add: work_inv_def)
  moreover have "distinct (map fst (work_insert p x m))" "\<forall>(h, d) \<in> set (work_insert p x m). d = block_work p h"
    using assms(1) by (auto simp: work_inv_def work_insert_def map_of_eq_None_iff simp del: not_None_eq)
  ultimately show ?thesis
    using assms unfolding work_inv_def scope_closed_def
    by (auto simp: map_of_eq_None_iff)
qed

lemma work_loop_step:
  assumes "work_closed p S" "x \<in> S"
  shows "work_score_loop p bt (x # st) m =
    work_score_loop p bt (rev (filter (\<lambda>t. map_of m t = None \<and> scoped p bt t) (parents p x)) @ st)
      (work_insert p x m)"
proof -
  have "past_blocks_for_block_hash p x = Inr (parents p x)" "order_provider_ok p"
    "difficulty_for_block_hash p x = Inr (block_work p x)"
    using assms by (auto simp: work_closed_def)
  moreover have "map_of m x = None \<Longrightarrow> index_map_insert x d m = m @ [(x, d)]" for d
    by (intro index_map_insert_new) (simp add: map_of_eq_None_iff)
  ultimately show ?thesis
    by (subst work_score_loop.simps) (simp add: work_tips_spec work_insert_def)
qed

lemma work_score_loop_spec:
  assumes "work_closed p S" "T \<subseteq> S" "scope_closed p bt T" "work_inv p bt T st m"
  shows "\<exists>m'. work_score_loop p bt st m = Some (Inr m') \<and> work_inv p bt T [] m' \<and>
    set st \<union> fst ` set m \<subseteq> fst ` set m'"
  using assms(4)
proof (induction st arbitrary: m rule: stack_induct [where f = "level p"])
  case Nil
  then show ?case by (subst work_score_loop.simps) simp
next
  case (Cons x st)
  let ?new = "rev (filter (\<lambda>t. map_of m t = None \<and> scoped p bt t) (parents p x))"
  have x: "x \<in> S" using Cons.prems assms(2) by (auto simp: work_inv_def)
  have "\<forall>t \<in> set ?new. level p t < level p x" using assms(1) x by (auto simp: work_closed_def)
  from Cons.IH [OF this work_inv_expand [OF Cons.prems assms(3)]]
  show ?case unfolding work_loop_step [OF assms(1) x] by auto
qed

lemma work_score_tips_spec:
  assumes "work_closed p S" "T \<subseteq> S" "scope_closed p bt T" "work_inv p bt T [] m"
    and "\<forall>t \<in> set ts. scoped p bt t \<longrightarrow> t \<in> T"
  shows "\<exists>m'. work_score_tips p bt ts m = Some (Inr m') \<and> work_inv p bt T [] m' \<and>
    fst ` set m \<union> {t \<in> set ts. scoped p bt t} \<subseteq> fst ` set m'"
  using assms(4,5)
proof (induction ts arbitrary: m)
  case (Cons t ts)
  have scope: "in_scope p bt t = Inr (scoped p bt t)"
    using assms(1) by (simp add: work_closed_def in_scope_scoped)
  show ?case
  proof (cases "map_of m t = None \<and> scoped p bt t")
    case True
    then have "work_inv p bt T [t] m" using Cons.prems by (auto simp: work_inv_def)
    from work_score_loop_spec [OF assms(1-3) this] obtain m1 where
      m1: "work_score_loop p bt [t] m = Some (Inr m1)" "work_inv p bt T [] m1"
        "insert t (fst ` set m) \<subseteq> fst ` set m1" by auto
    from Cons.IH [OF m1(2)] Cons.prems(2) obtain m2 where
      "work_score_tips p bt ts m1 = Some (Inr m2)" "work_inv p bt T [] m2"
      "fst ` set m1 \<union> {t \<in> set ts. scoped p bt t} \<subseteq> fst ` set m2" by auto
    with True scope m1 show ?thesis by (auto simp: find_tip_work_score_internal_def)
  next
    case False
    from Cons.IH [OF Cons.prems(1)] Cons.prems(2) obtain m2 where
      m2: "work_score_tips p bt ts m = Some (Inr m2)" "work_inv p bt T [] m2"
      "fst ` set m \<union> {t \<in> set ts. scoped p bt t} \<subseteq> fst ` set m2" by auto
    have "scoped p bt t \<Longrightarrow> t \<in> fst ` set m" using False by (auto simp: map_of_eq_None_iff)
    with m2 have "fst ` set m \<union> {t' \<in> set (t # ts). scoped p bt t'} \<subseteq> fst ` set m2" by auto
    with m2 False scope show ?thesis by (auto simp del: not_None_eq)
  qed
qed simp

text \<open>The blocks that count for a tip: everything in scope below it.\<close>

definition work_set :: "dag_provider \<Rightarrow> u64 \<Rightarrow> hash \<Rightarrow> hash set" where
  "work_set p bt h = {x. \<exists>t \<in> set (parents p h). scoped p bt t \<and> scoped_past p bt t x}"

lemma scope_closed_work_set: "scope_closed p bt (work_set p bt h)"
  by (auto simp: scope_closed_def work_set_def scoped_def intro: scoped_tip)

lemma work_set_subset: "dag_closed p S \<Longrightarrow> h \<in> S \<Longrightarrow> work_set p bt h \<subseteq> S"
proof -
  assume S: "dag_closed p S" "h \<in> S"
  have "scoped_past p bt t x \<Longrightarrow> t \<in> S \<Longrightarrow> x \<in> S" for t x
    by (induction rule: scoped_past.induct) (auto dest: dag_closed_parents(3) [OF S(1)])
  then show ?thesis using dag_closed_parents(3) [OF S] by (auto simp: work_set_def)
qed

lemma work_score_tips_exact:
  assumes "work_closed p S" "h \<in> S"
  obtains m where "work_score_tips p bt (parents p h) [] = Some (Inr m)"
    "fst ` set m = work_set p bt h" "distinct (map fst m)" "\<forall>(h, d) \<in> set m. d = block_work p h"
proof -
  let ?T = "work_set p bt h"
  have "?T \<subseteq> S" using assms by (auto simp: work_closed_def dest!: work_set_subset)
  moreover have "work_inv p bt ?T [] []" by (simp add: work_inv_def)
  moreover have "\<forall>t \<in> set (parents p h). scoped p bt t \<longrightarrow> t \<in> ?T"
    by (auto simp: work_set_def intro: scoped_refl)
  ultimately obtain m where m: "work_score_tips p bt (parents p h) [] = Some (Inr m)" "work_inv p bt ?T [] m"
    "{t \<in> set (parents p h). scoped p bt t} \<subseteq> fst ` set m"
    using work_score_tips_spec [OF assms(1) _ scope_closed_work_set, of bt h "[]" "parents p h"]
    by auto
  have "scoped_past p bt t x \<Longrightarrow> t \<in> fst ` set m \<Longrightarrow> x \<in> fst ` set m" for t x
    by (induction rule: scoped_past.induct) (use m(2) in \<open>auto simp: work_inv_def scoped_def\<close>)
  then have "?T \<subseteq> fst ` set m" using m(3) unfolding work_set_def by blast
  with m that show thesis by (auto simp: work_inv_def)
qed

lemma sum_values_spec:
  "unat score + (\<Sum>(h, d) \<leftarrow> m. unat d) < 2 ^ 256 \<Longrightarrow>
     \<exists>r. sum_values m score = Some r \<and> unat r = unat score + (\<Sum>(h, d) \<leftarrow> m. unat d)"
proof (induction m score rule: sum_values.induct)
  case (2 h d m score)
  then have lt: "unat score + unat d < 2 ^ 256" by (simp only: list.map sum_list.Cons prod.case)
  then have add: "u256_add score d = Some (score + d)" "unat (score + d) = unat score + unat d"
    using unat_add_lem [of score d] by (simp_all add: u256_add_def)
  with "2.prems" "2.IH" [of "score + d"] show ?case by (simp add: add.assoc)
qed simp

text \<open>What a block adds to the score of a tip: the base stands for the whole chain below it.\<close>

definition score_share :: "dag_provider \<Rightarrow> hash \<Rightarrow> hash \<Rightarrow> hash \<Rightarrow> difficulty" where
  "score_share p h base x = (if x = base \<and> base \<noteq> h then snd (block_score p base) else block_work p x)"

lemma score_map:
  assumes "distinct (map fst m)" "\<forall>(h, d) \<in> set m. d = block_work p h" "base \<noteq> h \<or> m' = m"
    and "base \<noteq> h \<Longrightarrow> m' = index_map_insert base (snd (block_score p base)) m"
    and m'': "m'' = index_map_insert h (block_work p h) m'"
  shows "distinct (map fst m'') \<and> fst ` set m'' = (if base = h then insert h (fst ` set m)
      else insert h (insert base (fst ` set m))) \<and> (\<forall>(x, d) \<in> set m''. d = score_share p h base x)"
proof -
  have d': "distinct (map fst m')" using assms(1,3,4) by (metis distinct_index_map_insert)
  then have d'': "distinct (map fst m'')" unfolding m'' by (rule distinct_index_map_insert)
  have map': "map_of m' = (if base = h then map_of m
      else (map_of m)(base \<mapsto> snd (block_score p base)))"
    using assms(3,4) by (auto simp: map_of_index_map_insert)
  have keys: "fst ` set m'' = insert h (fst ` set m')" "base \<noteq> h \<Longrightarrow> fst ` set m' = insert base (fst ` set m)"
    unfolding m'' using assms(4) by (auto simp: dom_map_of_conv_image_fst [symmetric]
      map_of_index_map_insert)
  have "d = score_share p h base x" if "(x, d) \<in> set m''" for x d
  proof -
    have "map_of m'' x = Some d" using that d'' by (rule map_of_is_SomeI [rotated])
    moreover have "map_of m x = Some d \<Longrightarrow> d = block_work p x"
      using assms(2) by (auto dest: map_of_SomeD)
    ultimately show ?thesis
      unfolding m'' map_of_index_map_insert map'
      by (auto simp: score_share_def split: if_splits)
  qed
  with d'' keys assms(3) show ?thesis by (auto split: if_splits)
qed

lemma sum_list_share:
  assumes "distinct (map fst m)" "\<forall>(x, d) \<in> set m. d = f x"
  shows "(\<Sum>(h, d) \<leftarrow> m. unat d) = (\<Sum>x \<in> fst ` set m. unat (f x))"
proof -
  have "map (\<lambda>(h, d). unat d) m = map (\<lambda>x. unat (f x)) (map fst m)"
    using assms(2) by (auto simp: comp_def)
  then show ?thesis
    using sum_list_distinct_conv_sum_set [OF assms(1), of "\<lambda>x. unat (f x)"] by (simp only: set_map)
qed

lemma find_tip_work_score_miss:
  assumes "work_closed p S" "h \<in> S" "topo_height_for_hash p base = Inr bt"
    and "cumulative_difficulty_for_block_hash p base = Inr cd"
    and "lru_get l (h, base, n) c = (None, c')"
    and W: "W = insert h (insert base (work_set p bt h))"
    and sum: "(\<Sum>x \<in> W. unat (score_share p h base x)) < 2 ^ 256"
  shows "\<exists>score. find_tip_work_score p l h base n c =
      Some (Inr ((W, score), lru_put l (h, base, n) (W, score) c')) \<and>
    unat score = (\<Sum>x \<in> W. unat (score_share p h base x))"
proof -
  obtain m where m: "work_score_tips p bt (parents p h) [] = Some (Inr m)"
    "fst ` set m = work_set p bt h" "distinct (map fst m)" "\<forall>(h, d) \<in> set m. d = block_work p h"
    using work_score_tips_exact [OF assms(1,2)] by blast
  define m' where "m' = (if base \<noteq> h then index_map_insert base (snd (block_score p base)) m else m)"
  define m'' where "m'' = index_map_insert h (block_work p h) m'"
  have cd: "cumulative_difficulty_for_block_hash p base = Inr (snd (block_score p base))"
    using assms(4) by (simp add: block_score_def)
  have "base \<noteq> h \<or> m' = m" "base \<noteq> h \<Longrightarrow> m' = index_map_insert base (snd (block_score p base)) m"
    by (simp_all add: m'_def)
  from score_map [OF m(3,4) this m''_def] have sm: "distinct (map fst m'')" "fst ` set m'' = W"
    "\<forall>(x, d) \<in> set m''. d = score_share p h base x"
    unfolding W m(2) by (auto split: if_splits)
  then have "(\<Sum>(h, d) \<leftarrow> m''. unat d) = (\<Sum>x \<in> W. unat (score_share p h base x))"
    using sum_list_share [OF sm(1,3)] by simp
  with sum_values_spec [of 0 m''] sum obtain score where score: "sum_values m'' 0 = Some score"
    "unat score = (\<Sum>x \<in> W. unat (score_share p h base x))" by auto
  have "past_blocks_for_block_hash p h = Inr (parents p h)"
    "difficulty_for_block_hash p h = Inr (block_work p h)"
    using assms(1,2) by (auto simp: work_closed_def)
  moreover have "(if base \<noteq> h then result_bind (cumulative_difficulty_for_block_hash p base) (\<lambda>d.
      Inr (index_map_insert base d m)) else Inr m) = (Inr m' :: blockchain_error + _)"
    by (simp add: cd m'_def)
  ultimately show ?thesis
    using assms(3,5) m(1) score sm(2)
    by (simp add: find_tip_work_score_def m''_def [symmetric] Let_def)
qed

section \<open>Properties\<close>

lemma ex_index_pair:
  assumes "distinct xs"
  shows "(\<exists>i < length xs. \<exists>j < length xs. i \<noteq> j \<and> P (xs ! i) (xs ! j)) \<longleftrightarrow>
    (\<exists>x \<in> set xs. \<exists>y \<in> set xs. x \<noteq> y \<and> P x y)"
proof
  assume "\<exists>i < length xs. \<exists>j < length xs. i \<noteq> j \<and> P (xs ! i) (xs ! j)"
  then obtain i j where ij: "i < length xs" "j < length xs" "i \<noteq> j" "P (xs ! i) (xs ! j)" by blast
  then have "xs ! i \<noteq> xs ! j" using assms by (simp add: nth_eq_iff_index_eq)
  with ij show "\<exists>x \<in> set xs. \<exists>y \<in> set xs. x \<noteq> y \<and> P x y" by (meson nth_mem)
qed (metis in_set_conv_nth)

lemma dag_closed_sample:
  "dag_closed sample_provider {sample_block 0, sample_block 1, sample_block 2, sample_block 3}"
  by (simp add: dag_closed_def sample_provider_def parents_def block_height_def level_def)

text \<open>
  C9: the tips of a block must not reach each other. For tips whose heights differ by less than 16
  (twice the stable limit), the walk returns for every DAG, and the check accepts the tips exactly
  when no tip is in the past of another one, although the walk stops after 16 levels and does not
  follow a block again that it met on a longer path.
\<close>

theorem verify_non_reachability_spec:
  assumes "dag_closed p S" "set ts \<subseteq> S" "distinct ts"
    and "\<forall>t \<in> set ts. \<forall>t' \<in> set ts. level p t < level p t' + 16"
  shows "verify_non_reachability p ts =
    Inr (\<forall>t \<in> set ts. \<forall>t' \<in> set ts. t \<noteq> t' \<longrightarrow> \<not> in_past p t t')"
proof -
  define R where "R h = (case build_reachability p h of Inr s \<Rightarrow> s | Inl _ \<Rightarrow> {})" for h
  have R: "build_reachability p h = Inr (R h) \<and> (\<forall>t \<in> set ts. t \<in> R h \<longleftrightarrow> in_past p h t)"
    if "h \<in> set ts" for h
  proof -
    have "h \<in> S" using that assms(2) by auto
    then obtain s where "build_reachability p h = Inr s" "\<forall>x \<in> s. in_past p h x"
      "\<forall>x. in_past p h x \<and> level p h < level p x + 16 \<longrightarrow> x \<in> s"
      using build_reachability_spec [OF assms(1)] by blast
    then show ?thesis using assms(4) that by (auto simp: R_def)
  qed
  then have "map_result (build_reachability p) ts = Inr (map R ts)"
    by (intro map_result_Inr_map) simp
  moreover have "(\<exists>i < length ts. \<exists>j < length ts. i \<noteq> j \<and> ts ! i \<in> R (ts ! j)) \<longleftrightarrow>
      (\<exists>t \<in> set ts. \<exists>t' \<in> set ts. t \<noteq> t' \<and> in_past p t t')"
    unfolding ex_index_pair [OF assms(3), of "\<lambda>x y. x \<in> R y"] using R by metis
  moreover have "(\<exists>i \<in> set [0..<length ts]. \<exists>j \<in> set [0..<length ts].
      i \<noteq> j \<and> ts ! i \<in> map R ts ! j) \<longleftrightarrow>
      (\<exists>i < length ts. \<exists>j < length ts. i \<noteq> j \<and> ts ! i \<in> R (ts ! j))"
    by (simp add: Bex_def atLeast0LessThan cong: conj_cong)
  ultimately show ?thesis unfolding verify_non_reachability_def by (simp only: result_bind_Inr) blast
qed

theorem verify_non_reachability_spec_witness:
  "verify_non_reachability sample_provider [sample_block 1, sample_block 2] = Inr True"
proof -
  have "parents sample_provider (sample_block 1) = [sample_block 0]"
    "parents sample_provider (sample_block 2) = [sample_block 0]"
    "parents sample_provider (sample_block 0) = []"
    by (simp_all add: parents_def sample_provider_def)
  note ps = this
  have "in_past sample_provider (sample_block n) x \<Longrightarrow> n \<in> {1, 2} \<Longrightarrow>
      x \<in> {sample_block n, sample_block 0}" for n x
    by (induction rule: in_past.induct) (auto simp: ps [unfolded One_nat_def])
  from this [of 1 "sample_block 2"] this [of 2 "sample_block 1"]
  have np: "\<not> in_past sample_provider (sample_block 1) (sample_block 2)"
    "\<not> in_past sample_provider (sample_block 2) (sample_block 1)" by auto
  have "level sample_provider (sample_block 1) = 1" "level sample_provider (sample_block 2) = 1"
    by (simp_all add: level_def block_height_def sample_provider_def)
  then show ?thesis
    using verify_non_reachability_spec [OF dag_closed_sample, of "[sample_block 1, sample_block 2]"] np
    by simp
qed

text \<open>
  C11: the distance check of a block that is not ordered returns for every DAG, and rejects it
  exactly when one of its paths through blocks that are not ordered meets the main chain at a block
  at least eight heights below.
\<close>

theorem verify_distance_spec:
  assumes "dag_closed p S" "h \<in> S" "\<not> is_block_topological_ordered p h" "n \<noteq> u64_max_value"
  shows "verify_distance_from_mainchain p h n =
    Some (Inr (\<not> (\<exists>t. mainchain_contact p h t \<and> block_height p t \<le> n \<and>
      n - block_height p t \<ge> STABLE_LIMIT)))"
proof -
  obtain low where low: "find_lowest_height_from_mainchain p h = Some (Inr low)"
    "\<forall>t. mainchain_contact p h t \<longrightarrow> low \<le> block_height p t"
    "low = u64_max_value \<or> (\<exists>t. mainchain_contact p h t \<and> low = block_height p t)"
    using find_lowest_height_spec [OF assms(1,2)] by blast
  have "low \<le> n \<and> n - low \<ge> STABLE_LIMIT"
    if "mainchain_contact p h t" "block_height p t \<le> n" "n - block_height p t \<ge> STABLE_LIMIT" for t
  proof -
    have le: "low \<le> block_height p t" using low(2) that(1) by blast
    then have "low \<le> n" using that(2) by simp
    moreover have "unat (n - block_height p t) \<le> unat (n - low)"
      using le that(2) \<open>low \<le> n\<close> by (simp add: unat_sub word_le_nat_alt)
    ultimately show ?thesis using that(3) by (simp add: word_le_nat_alt)
  qed
  moreover have "\<not> u64_max_value \<le> n"
    using assms(4) word_n1_ge [of n] by (metis order.antisym u64_max_value_def)
  ultimately have "(low \<le> n \<and> n - low \<ge> STABLE_LIMIT) \<longleftrightarrow> (\<exists>t. mainchain_contact p h t \<and>
      block_height p t \<le> n \<and> n - block_height p t \<ge> STABLE_LIMIT)"
    using low(3) by blast
  with low(1) assms(3) show ?thesis
    by (simp only: verify_distance_from_mainchain_def calculate_distance_from_mainchain_def
        if_False option.map result_bind_Inr)
qed

theorem verify_distance_spec_witness:
  "verify_distance_from_mainchain sample_provider (sample_block 3) 2 = Some (Inr True)"
proof -
  have "block_height sample_provider t \<le> 2 \<Longrightarrow> \<not> STABLE_LIMIT \<le> 2 - block_height sample_provider t" for t
    by (auto simp: block_height_def sample_provider_def STABLE_LIMIT_def word_le_nat_alt)
  moreover have "\<not> is_block_topological_ordered sample_provider (sample_block 3)"
    "(2 :: u64) \<noteq> u64_max_value"
    by (simp_all add: sample_provider_def u64_max_value_def)
  ultimately show ?thesis
    using verify_distance_spec [OF dag_closed_sample, of "sample_block 3" 2] by auto
qed

text \<open>
  C10: the work score of a tip, computed when the cache has no entry, is the sum over the tip, the
  base and every block that the tip reaches through blocks in scope (not ordered, or ordered not
  below the base), each counted once however many paths lead to it. The base counts with its
  cumulative difficulty, every other block with its own. The walk returns for every DAG, and the
  result is put into the cache.
\<close>

theorem tip_work_score_spec:
  assumes "work_closed p S" "h \<in> S" "topo_height_for_hash p base = Inr bt"
    and "cumulative_difficulty_for_block_hash p base = Inr cd"
    and "lru_get l (h, base, n) c = (None, c')"
    and "W = insert h (insert base (work_set p bt h))"
    and "(\<Sum>x \<in> W. unat (score_share p h base x)) < 2 ^ 256"
  shows "\<exists>score. find_tip_work_score p l h base n c =
      Some (Inr ((W, score), lru_put l (h, base, n) (W, score) c')) \<and>
    unat score = (\<Sum>x \<in> W. unat (score_share p h base x))"
  using assms by (rule find_tip_work_score_miss)

lemma sample_parents:
  "parents sample_provider (sample_block 0) = []"
  "parents sample_provider (sample_block (Suc 0)) = [sample_block 0]"
  "parents sample_provider (sample_block 2) = [sample_block 0]"
  "parents sample_provider (sample_block 3) = [sample_block 1, sample_block 2]"
  by (simp_all add: parents_def sample_provider_def)

lemma work_closed_sample:
  "work_closed sample_provider {sample_block 0, sample_block 1, sample_block 2, sample_block 3}"
proof -
  have "order_provider_ok sample_provider"
    by (auto simp: order_provider_ok_def sample_provider_def)
  moreover have "difficulty_for_block_hash sample_provider h = Inr (block_work sample_provider h)" for h
    by (simp add: block_work_def sample_provider_def)
  ultimately show ?thesis using dag_closed_sample by (simp add: work_closed_def)
qed

lemma sample_work_set:
  "insert (sample_block 3) (insert (sample_block 0) (work_set sample_provider 0 (sample_block 3))) =
     {sample_block 0, sample_block 1, sample_block 2, sample_block 3}"
proof
  show "insert (sample_block 3) (insert (sample_block 0) (work_set sample_provider 0 (sample_block 3)))
      \<subseteq> {sample_block 0, sample_block 1, sample_block 2, sample_block 3}"
    using work_set_subset [OF dag_closed_sample, of "sample_block 3" 0] by auto
  have "scoped sample_provider 0 (sample_block 1)" "scoped sample_provider 0 (sample_block 2)"
    by (simp_all add: scoped_def in_scope_def sample_provider_def)
  then show "{sample_block 0, sample_block 1, sample_block 2, sample_block 3} \<subseteq>
      insert (sample_block 3) (insert (sample_block 0) (work_set sample_provider 0 (sample_block 3)))"
    by (auto simp: work_set_def sample_parents intro: scoped_refl)
qed

theorem tip_work_score_spec_witness:
  "\<exists>W score. find_tip_work_score sample_provider map_lru (sample_block 3) (sample_block 0) 0 Map.empty =
     Some (Inr ((W, score), [(sample_block 3, sample_block 0, 0) \<mapsto> (W, score)])) \<and> unat score = 22"
proof -
  let ?W = "{sample_block 0, sample_block 1, sample_block 2, sample_block 3}"
  have "lru_get map_lru (sample_block 3, sample_block 0, 0 :: u64)
      (Map.empty :: _ \<rightharpoonup> hash set \<times> difficulty) = (None, Map.empty)"
    by (simp add: map_lru_def)
  moreover have "topo_height_for_hash sample_provider (sample_block 0) = Inr 0"
    "cumulative_difficulty_for_block_hash sample_provider (sample_block 0) = Inr 7"
    by (simp_all add: sample_provider_def)
  moreover have "(\<Sum>x \<in> ?W. unat (score_share sample_provider (sample_block 3) (sample_block 0) x)) = 22"
    by (simp add: score_share_def block_score_def block_work_def sample_provider_def)
  ultimately show ?thesis
    using tip_work_score_spec [OF work_closed_sample, of "sample_block 3" "sample_block 0" 0 7
        map_lru 0 Map.empty Map.empty ?W] sample_work_set
    by (auto simp: map_lru_def)
qed

end
