(* ===== verification/Chain_Rules.thy ===== *)
theory Chain_Rules
  imports Emission Dag_Walk
begin

text \<open>
  Rules of the chain in \<open>core/blockchain.rs\<close> that combine the components below: the difficulty that a
  set of tips demands and the proof of work, side blocks and their rewards, the transactions that a
  block may not repeat, stable blocks, the average block time and pruning.
\<close>

section \<open>Difficulty and proof of work\<close>

definition lift_option :: "'e + 'a \<Rightarrow> ('a \<Rightarrow> ('e + 'b) option) \<Rightarrow> ('e + 'b) option" where
  "lift_option r f = (case r of Inl e \<Rightarrow> Some (Inl e) | Inr x \<Rightarrow> f x)"

lemma lift_option_simps [simp]:
  "lift_option (Inl e) f = Some (Inl e)" "lift_option (Inr x) f = f x"
  by (simp_all add: lift_option_def)

definition MAX_DEVIATION :: difficulty where "MAX_DEVIATION = varuint_from_u64 91"

definition PERCENTAGE :: difficulty where "PERCENTAGE = varuint_from_u64 100"

definition validate_tips :: "dag_provider \<Rightarrow> hash \<Rightarrow> hash \<Rightarrow> (blockchain_error + bool) option" where
  "validate_tips p best_tip tip =
     lift_option (difficulty_for_block_hash p best_tip) (\<lambda>best_difficulty.
     lift_option (difficulty_for_block_hash p tip) (\<lambda>block_difficulty.
     Option.bind (u256_mul best_difficulty MAX_DEVIATION) (\<lambda>m.
     map_option (\<lambda>q. Inr (q < block_difficulty)) (u256_div m PERCENTAGE))))"

definition get_difficulty_at_tips ::
  "dag_provider \<Rightarrow> network \<Rightarrow> bool \<Rightarrow> hash list \<Rightarrow> (blockchain_error + difficulty \<times> varuint) option" where
  "get_difficulty_at_tips p network simulator ts =
     lift_option (calculate_height_at_tips p ts) (\<lambda>n.
     let (has_hard_fork, version) = has_hard_fork_at_height network n in
     if length ts = 0 then Some (Inr (GENESIS_BLOCK_DIFFICULTY, get_covariance_p version))
     else if n \<le> 1 \<or> simulator \<or> has_hard_fork
     then map_option (\<lambda>d. Inr (d, get_covariance_p version)) (get_difficulty_at_hard_fork network version)
     else
       lift_option (find_best_tip_by_cumulative_difficulty p ts) (\<lambda>best_tip.
       lift_option (difficulty_for_block_hash p best_tip) (\<lambda>biggest_difficulty.
       lift_option (find_newest_tip_by_timestamp p ts) (\<lambda>(_, newest_tip_timestamp).
       lift_option (past_blocks_for_block_hash p best_tip) (\<lambda>parent_tips.
       lift_option (find_newest_tip_by_timestamp p parent_tips) (\<lambda>(_, parent_newest_tip_timestamp).
       lift_option (estimated_covariance_for_block_hash p best_tip) (\<lambda>cov.
       map_option Inr (calculate_difficulty parent_newest_tip_timestamp newest_tip_timestamp
         biggest_difficulty cov (get_minimum_difficulty network) version))))))))"

definition difficulty_result :: "difficulty_error + 'a \<Rightarrow> blockchain_error + 'a" where
  "difficulty_result r = (case r of Inl _ \<Rightarrow> Inl DifficultyCannotBeZeroErr | Inr x \<Rightarrow> Inr x)"

definition verify_proof_of_work ::
  "dag_provider \<Rightarrow> network \<Rightarrow> bool \<Rightarrow> hash \<Rightarrow> hash list \<Rightarrow>
   (blockchain_error + difficulty \<times> varuint) option" where
  "verify_proof_of_work p network simulator h ts =
     map_option (\<lambda>r. result_bind r (\<lambda>(difficulty, cov).
       result_bind (difficulty_result (check_difficulty h difficulty)) (\<lambda>ok.
         if ok then Inr (difficulty, cov) else Inl InvalidDifficulty)))
     (get_difficulty_at_tips p network simulator ts)"

section \<open>Side blocks and rewards\<close>

function side_block_loop :: "dag_provider \<Rightarrow> u64 \<Rightarrow> u64 \<Rightarrow> u64 \<Rightarrow> blockchain_error + bool" where
  "side_block_loop p n k i =
     (if k < STABLE_LIMIT \<and> i > 0
      then result_bind (hash_at_topo_height p i) (\<lambda>h.
        result_bind (height_for_block_hash p h) (\<lambda>previous_height.
        if n \<le> previous_height then Inr True else side_block_loop p n (k + 1) (i - 1)))
      else Inr False)"
  by auto
termination
  by (relation "measure (\<lambda>(p, n, k, i). unat i)") (auto simp: unat_minus_one_less word_neq_0_conv)

declare side_block_loop.simps [simp del]

definition is_side_block_internal :: "dag_provider \<Rightarrow> hash \<Rightarrow> u64 \<Rightarrow> blockchain_error + bool" where
  "is_side_block_internal p h current_topoheight =
     (if \<not> is_block_topological_ordered p h then Inr False
      else result_bind (topo_height_for_hash p h) (\<lambda>topoheight.
        if topoheight = 0 \<or> topoheight > current_topoheight then Inr False
        else result_bind (height_for_block_hash p h) (\<lambda>n.
          side_block_loop p n 0 (topoheight - 1))))"

definition is_side_block :: "dag_provider \<Rightarrow> u64 \<Rightarrow> hash \<Rightarrow> blockchain_error + bool" where
  "is_side_block p chain_topoheight h = is_side_block_internal p h chain_topoheight"

definition chain_block_reward ::
  "dag_provider \<Rightarrow> u64 \<Rightarrow> hash \<Rightarrow> u64 \<Rightarrow> u64 \<Rightarrow> blockchain_error + u64" where
  "chain_block_reward p chain_topoheight h past_supply current_topoheight =
     result_bind (is_side_block p chain_topoheight h) (\<lambda>side.
     result_bind
       (if side
        then result_bind (height_for_block_hash p h) (\<lambda>n.
          result_bind (blocks_at_height p n) (\<lambda>blocks.
          fold_result (\<lambda>b count.
            if h = b then Inr count
            else result_bind (is_side_block_internal p b current_topoheight) (\<lambda>s.
              Inr (if s then count + 1 else count))) blocks 0))
        else Inr 0) (\<lambda>side_blocks_count.
     Inr (internal_get_block_reward past_supply side side_blocks_count)))"

definition is_block_orphaned :: "dag_provider \<Rightarrow> hash \<Rightarrow> bool" where
  "is_block_orphaned p h \<longleftrightarrow> \<not> is_block_topological_ordered p h"

definition has_block_stable_order :: "dag_provider \<Rightarrow> hash \<Rightarrow> u64 \<Rightarrow> blockchain_error + bool" where
  "has_block_stable_order p h topoheight =
     (if is_block_topological_ordered p h
      then result_bind (topo_height_for_hash p h) (\<lambda>block_topo_height.
        Inr (block_topo_height + STABLE_LIMIT \<le> topoheight))
      else Inr False)"

text \<open>The subtractions wrap as in the code; the division by the count panics when it is zero.\<close>

definition get_average_block_time :: "dag_provider \<Rightarrow> u64 \<Rightarrow> (blockchain_error + u64) option" where
  "get_average_block_time p topoheight =
     (if topoheight \<le> 1 then Some (Inr BLOCK_TIME_MILLIS)
      else
        let count = (if topoheight > 50 then 50 else topoheight - 1);
            count = (case pruned_topoheight p of
              Some pruned \<Rightarrow> if topoheight - count < pruned then pruned else count
            | None \<Rightarrow> count) in
        lift_option (result_bind (hash_at_topo_height p topoheight) (timestamp_for_block_hash p)) (\<lambda>now_timestamp.
        lift_option (result_bind (hash_at_topo_height p (topoheight - count)) (timestamp_for_block_hash p))
          (\<lambda>count_timestamp.
          if count = 0 then None else Some (Inr ((now_timestamp - count_timestamp) div count)))))"

section \<open>The transactions above a height\<close>

text \<open>
  The queue is an insertion-ordered set from which the last element is taken; here its last element
  comes first. Whether a transaction was executed in a block is asked from the storage.
\<close>

definition queue_insert :: "'a \<Rightarrow> 'a list \<Rightarrow> 'a list" where
  "queue_insert x q = (if x \<in> set q then q else x # q)"

fun block_txs ::
  "(hash \<Rightarrow> hash \<Rightarrow> blockchain_error + bool) \<Rightarrow> bool \<Rightarrow> hash \<Rightarrow> hash list \<Rightarrow> hash set \<Rightarrow>
   blockchain_error + hash set" where
  "block_txs executed executed_only h [] hashes = Inr hashes"
| "block_txs executed executed_only h (tx # txs) hashes =
     (if tx \<in> hashes then block_txs executed executed_only h txs hashes
      else result_bind (if \<not> executed_only then Inr True else executed tx h) (\<lambda>b.
        block_txs executed executed_only h txs (if b then insert tx hashes else hashes)))"

fun queue_tips :: "hash list \<Rightarrow> hash list \<Rightarrow> hash set \<Rightarrow> hash list \<times> hash set" where
  "queue_tips [] q processed = (q, processed)"
| "queue_tips (t # ts) q processed =
     (if t \<in> processed then queue_tips ts q processed
      else queue_tips ts (queue_insert t q) (insert t processed))"

partial_function (option) all_txs_loop ::
  "dag_provider \<Rightarrow> (hash \<Rightarrow> hash \<Rightarrow> blockchain_error + bool) \<Rightarrow> u64 \<Rightarrow> bool \<Rightarrow>
   hash list \<Rightarrow> hash set \<Rightarrow> hash set \<Rightarrow> (blockchain_error + hash set) option" where
  "all_txs_loop p executed until_height executed_only q processed hashes =
     (case q of
        [] \<Rightarrow> Some (Inr hashes)
      | h # q' \<Rightarrow>
        (case block_header_by_hash p h of
           Inl e \<Rightarrow> Some (Inl e)
         | Inr b \<Rightarrow>
           if height b \<ge> until_height
           then (case block_txs executed executed_only h (txs_hashes b) hashes of
               Inl e \<Rightarrow> Some (Inl e)
             | Inr hashes' \<Rightarrow>
                 (case queue_tips (tips b) q' processed of
                    (q'', processed') \<Rightarrow>
                      all_txs_loop p executed until_height executed_only q'' processed' hashes'))
           else all_txs_loop p executed until_height executed_only q' processed hashes))"

definition get_all_txs_until_height ::
  "dag_provider \<Rightarrow> (hash \<Rightarrow> hash \<Rightarrow> blockchain_error + bool) \<Rightarrow> u64 \<Rightarrow> hash list \<Rightarrow> bool \<Rightarrow>
   (blockchain_error + hash set) option" where
  "get_all_txs_until_height p executed until_height ts executed_only =
     all_txs_loop p executed until_height executed_only (foldl (\<lambda>q t. queue_insert t q) [] ts) {} {}"

section \<open>Pruning\<close>

text \<open>
  The storage is behind a trait; the operations that pruning calls are a record, over any state.
\<close>

record 's prune_storage =
  storage_provider :: "'s \<Rightarrow> dag_provider"
  delete_block_at_topoheight :: "u64 \<Rightarrow> 's \<Rightarrow> blockchain_error + 's"
  delete_versioned_data_below_topoheight :: "u64 \<Rightarrow> bool \<Rightarrow> 's \<Rightarrow> blockchain_error + 's"
  storage_set_pruned_topoheight :: "u64 \<Rightarrow> 's \<Rightarrow> blockchain_error + 's"

lemma unat_plus_one: "i < (j :: u64) \<Longrightarrow> unat (i + 1) = unat i + 1"
  using unat_u64_less [of j] by (simp add: word_less_nat_alt unat_word_ariths)

function prune_blocks :: "(u64 \<Rightarrow> 's \<Rightarrow> blockchain_error + 's) \<Rightarrow> u64 \<Rightarrow> u64 \<Rightarrow> 's \<Rightarrow> blockchain_error + 's" where
  "prune_blocks delete i located s =
     (if i < located then result_bind (delete i s) (prune_blocks delete (i + 1) located) else Inr s)"
  by auto
termination
  by (relation "measure (\<lambda>(d, i, located, s). unat located - unat i)")
     (auto simp: unat_plus_one word_less_nat_alt)

declare prune_blocks.simps [simp del]

definition prune_until_topoheight ::
  "'s prune_storage \<Rightarrow> u64 \<Rightarrow> u64 \<Rightarrow> u64 \<Rightarrow> 's \<Rightarrow> blockchain_error + u64 \<times> 's" where
  "prune_until_topoheight ops current_topoheight current_height topoheight s =
     (if topoheight = 0 then Inl PruneZero
      else if topoheight \<ge> current_topoheight \<or> current_topoheight - topoheight < PRUNE_SAFETY_LIMIT
      then Inl PruneHeightTooHigh
      else
        let p = storage_provider ops s;
            last_pruned = (case pruned_topoheight p of Some t \<Rightarrow> t | None \<Rightarrow> 1) in
        if topoheight < last_pruned then Inl PruneLowerThanLastPruned
        else result_bind (locate_nearest_sync_block_for_topoheight p topoheight current_height) (\<lambda>located.
          if located > last_pruned
          then result_bind (prune_blocks (delete_block_at_topoheight ops) last_pruned located s) (\<lambda>s.
            result_bind (delete_versioned_data_below_topoheight ops located True s) (\<lambda>s.
            result_bind (storage_set_pruned_topoheight ops located s) (\<lambda>s. Inr (located, s))))
          else Inr (last_pruned, s)))"

section \<open>What the walks compute\<close>

definition header_closed :: "dag_provider \<Rightarrow> hash set \<Rightarrow> bool" where
  "header_closed p S \<longleftrightarrow> dag_closed p S \<and> (\<forall>h \<in> S. \<exists>b. block_header_by_hash p h = Inr b \<and>
     tips b = parents p h \<and> height b = block_height p h)"

definition txs_of :: "dag_provider \<Rightarrow> hash \<Rightarrow> hash list" where
  "txs_of p h = (case block_header_by_hash p h of Inr b \<Rightarrow> txs_hashes b | Inl _ \<Rightarrow> [])"

inductive recent_past :: "dag_provider \<Rightarrow> u64 \<Rightarrow> hash set \<Rightarrow> hash \<Rightarrow> bool" for p n ts where
  recent_tip: "t \<in> ts \<Longrightarrow> recent_past p n ts t"
| recent_step: "recent_past p n ts x \<Longrightarrow> block_height p x \<ge> n \<Longrightarrow> t \<in> set (parents p x) \<Longrightarrow>
    recent_past p n ts t"

definition counted_txs ::
  "dag_provider \<Rightarrow> (hash \<Rightarrow> hash \<Rightarrow> blockchain_error + bool) \<Rightarrow> u64 \<Rightarrow> bool \<Rightarrow> hash \<Rightarrow> hash set" where
  "counted_txs p executed n only h =
     (if block_height p h \<ge> n then {tx \<in> set (txs_of p h). only \<longrightarrow> executed tx h = Inr True} else {})"

lemma block_txs_spec:
  assumes "\<forall>tx. \<exists>b. executed tx h = Inr b"
  shows "block_txs executed only h txs hs =
    Inr (hs \<union> {tx \<in> set txs. only \<longrightarrow> executed tx h = Inr True})"
proof (induction txs arbitrary: hs)
  case (Cons tx txs)
  obtain b where "executed tx h = Inr b" using assms by blast
  with Cons show ?case by (cases only; cases b) auto
qed simp

lemma queue_tips_spec:
  "\<exists>new. queue_tips ts q pr = (new @ q, pr \<union> set ts) \<and> set new \<subseteq> set ts \<and>
     set ts - pr \<subseteq> set (new @ q)"
proof (induction ts arbitrary: q pr)
  case (Cons t ts)
  show ?case
  proof (cases "t \<in> pr")
    case True
    with Cons [of q pr] show ?thesis by auto
  next
    case False
    obtain new where new: "queue_tips ts (queue_insert t q) (insert t pr) =
        (new @ queue_insert t q, insert t pr \<union> set ts)" "set new \<subseteq> set ts"
        "set ts - insert t pr \<subseteq> set (new @ queue_insert t q)"
      using Cons by blast
    let ?new = "new @ (if t \<in> set q then [] else [t])"
    have "new @ queue_insert t q = ?new @ q" "t \<in> set (queue_insert t q)"
      by (simp_all add: queue_insert_def)
    with new False have "queue_tips (t # ts) q pr = (?new @ q, pr \<union> set (t # ts)) \<and>
        set ?new \<subseteq> set (t # ts) \<and> set (t # ts) - pr \<subseteq> set (?new @ q)" by auto
    then show ?thesis by blast
  qed
qed simp

definition txs_inv ::
  "dag_provider \<Rightarrow> (hash \<Rightarrow> hash \<Rightarrow> blockchain_error + bool) \<Rightarrow> u64 \<Rightarrow> bool \<Rightarrow> hash set \<Rightarrow>
   hash list \<Rightarrow> hash set \<Rightarrow> hash set \<Rightarrow> hash set \<Rightarrow> bool" where
  "txs_inv p executed n only ts q pr hs seen \<longleftrightarrow>
     ts \<union> pr \<subseteq> set q \<union> seen \<and> (\<forall>x \<in> set q \<union> seen. recent_past p n ts x) \<and>
     hs = (\<Union>x \<in> seen. counted_txs p executed n only x) \<and>
     (\<forall>x \<in> seen. block_height p x \<ge> n \<longrightarrow> set (parents p x) \<subseteq> set q \<union> seen)"

lemma txs_inv_skip:
  "txs_inv p executed n only ts (h # q) pr hs seen \<Longrightarrow> \<not> block_height p h \<ge> n \<Longrightarrow>
     txs_inv p executed n only ts q pr hs (insert h seen)"
  unfolding txs_inv_def counted_txs_def by auto

lemma txs_inv_expand:
  assumes "txs_inv p executed n only ts (h # q) pr hs seen" "block_height p h \<ge> n"
    and "set new \<subseteq> set (parents p h)" "set (parents p h) - pr \<subseteq> set (new @ q)"
  shows "txs_inv p executed n only ts (new @ q) (pr \<union> set (parents p h))
    (hs \<union> counted_txs p executed n only h) (insert h seen)"
proof -
  have h: "recent_past p n ts h" using assms(1) by (simp add: txs_inv_def)
  have "\<forall>x \<in> set new. recent_past p n ts x" using recent_step [OF h assms(2)] assms(3) by blast
  with assms h show ?thesis unfolding txs_inv_def by auto
qed

lemma all_txs_loop_spec:
  assumes "header_closed p S" "\<forall>h \<in> S. \<forall>tx. \<exists>b. executed tx h = Inr b"
    and "set q \<subseteq> S" "txs_inv p executed n only ts q pr hs seen"
  shows "\<exists>hs' pr' seen'. all_txs_loop p executed n only q pr hs = Some (Inr hs') \<and>
    txs_inv p executed n only ts [] pr' hs' seen'"
  using assms(3-)
proof (induction q arbitrary: pr hs seen rule: stack_induct [where f = "level p"])
  case Nil
  then show ?case by (subst all_txs_loop.simps) auto
next
  case (Cons h q)
  have h: "h \<in> S" and q: "set q \<subseteq> S" using Cons.prems(1) by simp_all
  obtain b where b: "block_header_by_hash p h = Inr b" "tips b = parents p h" "height b = block_height p h"
    using assms(1) h by (auto simp: header_closed_def)
  have low: "\<forall>t \<in> set (parents p h). t \<in> S \<and> level p t < level p h"
    using dag_closed_parents(3,4) [of p S h] assms(1) h by (simp add: header_closed_def)
  show ?case
  proof (cases "block_height p h \<ge> n")
    case False
    from Cons.IH [of "[]" pr hs "insert h seen"] txs_inv_skip [OF Cons.prems(2) False] q
    show ?thesis using b False by (subst all_txs_loop.simps) simp
  next
    case True
    obtain new where new: "queue_tips (parents p h) q pr = (new @ q, pr \<union> set (parents p h))"
      "set new \<subseteq> set (parents p h)" "set (parents p h) - pr \<subseteq> set (new @ q)"
      using queue_tips_spec by blast
    have "block_txs executed only h (txs_hashes b) hs = Inr (hs \<union> counted_txs p executed n only h)"
      using block_txs_spec [of executed h only "txs_hashes b" hs] assms(2) h b True
      by (simp add: counted_txs_def txs_of_def)
    then have step: "all_txs_loop p executed n only (h # q) pr hs =
        all_txs_loop p executed n only (new @ q) (pr \<union> set (parents p h))
          (hs \<union> counted_txs p executed n only h)"
      using b True new(1) by (subst all_txs_loop.simps) simp
    have "\<forall>y \<in> set new. level p y < level p h" "set (new @ q) \<subseteq> S" using new(2) low q by auto
    from Cons.IH [OF this txs_inv_expand [OF Cons.prems(2) True new(2,3)]] show ?thesis
      unfolding step .
  qed
qed

lemma side_block_loop_spec:
  assumes "\<forall>j. 0 < j \<and> j \<le> i \<longrightarrow> (\<exists>h m. hash_at_topo_height p j = Inr h \<and> height_for_block_hash p h = Inr m)"
    and "k \<le> STABLE_LIMIT"
  shows "side_block_loop p n k i = Inr (\<exists>j h. 0 < j \<and> j \<le> i \<and> unat i < unat j + (8 - unat k) \<and>
    hash_at_topo_height p j = Inr h \<and> n \<le> block_height p h)"
  using assms
proof (induction p n k i rule: side_block_loop.induct)
  case (1 p n k i)
  show ?case
  proof (cases "k < STABLE_LIMIT \<and> i > 0")
    case False
    then have "i = 0 \<or> unat k = 8"
      using 1(3) by (auto simp: STABLE_LIMIT_def word_le_nat_alt word_less_nat_alt unat_eq_0)
    with False show ?thesis
      by (subst side_block_loop.simps) (auto simp: word_le_nat_alt word_less_nat_alt)
  next
    case True
    then obtain h m where h: "hash_at_topo_height p i = Inr h" "height_for_block_hash p h = Inr m"
      using 1(2) by blast
    then have m: "block_height p h = m" by (simp add: block_height_def)
    have k: "unat (k + 1) = unat k + 1" "unat k < 8" "k + 1 \<le> STABLE_LIMIT"
      using True unat_plus_one [of k STABLE_LIMIT] by (auto simp: STABLE_LIMIT_def word_less_nat_alt word_le_nat_alt)
    have i: "unat (i - 1) = unat i - 1" "0 < unat i"
      using True by (simp_all add: unat_minus_one word_neq_0_conv word_less_nat_alt)
    show ?thesis
    proof (cases "n \<le> m")
      case ge: True
      have "\<exists>j h. 0 < j \<and> j \<le> i \<and> unat i < unat j + (8 - unat k) \<and>
          hash_at_topo_height p j = Inr h \<and> n \<le> block_height p h"
        using True h(1) m ge k(2) by (intro exI [of _ i] exI [of _ h]) simp
      with True h ge show ?thesis by (subst side_block_loop.simps) simp
    next
      case lt: False
      have "\<forall>j. 0 < j \<and> j \<le> i - 1 \<longrightarrow> (\<exists>h m. hash_at_topo_height p j = Inr h \<and> height_for_block_hash p h = Inr m)"
        using 1(2) i by (auto simp: word_le_nat_alt)
      from "1.IH" [OF True lt this k(3)] have IH: "side_block_loop p n (k + 1) (i - 1) =
          Inr (\<exists>j h. 0 < j \<and> j \<le> i - 1 \<and> unat (i - 1) < unat j + (8 - unat (k + 1)) \<and>
            hash_at_topo_height p j = Inr h \<and> n \<le> block_height p h)" .
      have le: "j \<le> i \<longleftrightarrow> j = i \<or> j \<le> i - 1" for j
        using i by (auto simp: word_le_nat_alt word_unat_eq_iff)
      have "(unat (i - 1) < unat j + (8 - unat (k + 1))) \<longleftrightarrow> unat i < unat j + (8 - unat k)"
        for j :: u64 using i k by linarith
      with IH True h lt m show ?thesis
        by (subst side_block_loop.simps) (auto simp: le)
    qed
  qed
qed

section \<open>Properties\<close>

text \<open>
  C35: collecting the transactions of the blocks down to a height returns on every DAG and gives
  exactly the transactions of the blocks at or above the height that the tips reach, those that
  were executed in such a block when only executed ones are asked for. It decides which
  transactions a new block may not contain again.
\<close>

theorem get_all_txs_until_height_spec:
  assumes "header_closed p S" "set ts \<subseteq> S" "\<forall>h \<in> S. \<forall>tx. \<exists>b. executed tx h = Inr b"
  shows "get_all_txs_until_height p executed n ts only =
    Some (Inr {tx. \<exists>h. recent_past p n (set ts) h \<and> block_height p h \<ge> n \<and>
      tx \<in> set (txs_of p h) \<and> (only \<longrightarrow> executed tx h = Inr True)})"
proof -
  let ?q = "foldl (\<lambda>q t. queue_insert t q) [] ts"
  have "set (foldl (\<lambda>q t. queue_insert t q) q xs) = set q \<union> set xs" for q xs :: "hash list"
    by (induction xs arbitrary: q) (auto simp: queue_insert_def)
  then have q: "set ?q = set ts" by simp
  have "txs_inv p executed n only (set ts) ?q {} {} {}"
    by (simp add: txs_inv_def q recent_tip)
  from all_txs_loop_spec [OF assms(1,3) _ this] q assms(2) obtain hs pr seen where
    hs: "get_all_txs_until_height p executed n ts only = Some (Inr hs)" and
    inv: "txs_inv p executed n only (set ts) [] pr hs seen"
    by (auto simp: get_all_txs_until_height_def)
  have "recent_past p n (set ts) x \<Longrightarrow> x \<in> seen" for x
    by (induction rule: recent_past.induct) (use inv in \<open>auto simp: txs_inv_def\<close>)
  then have "seen = {x. recent_past p n (set ts) x}" using inv by (auto simp: txs_inv_def)
  moreover have "hs = (\<Union>x \<in> seen. counted_txs p executed n only x)" using inv by (simp add: txs_inv_def)
  ultimately show ?thesis using hs by (auto simp: counted_txs_def split: if_splits)
qed

definition header_provider :: dag_provider where
  "header_provider = sample_provider\<lparr>block_header_by_hash := (\<lambda>h. Inr \<lparr>
     version = BlockV0, tips = parents sample_provider h, timestamp = 0,
     height = block_height sample_provider h, nonce = 0, extra_nonce = replicate 32 0,
     miner = replicate 32 0, txs_hashes = [h]\<rparr>)\<rparr>"

lemma header_provider_parts [simp]:
  "parents header_provider = parents sample_provider"
  "block_height header_provider = block_height sample_provider"
  "level header_provider = level sample_provider"
  "txs_of header_provider h = [h]"
  by (simp_all add: header_provider_def parents_def block_height_def level_def txs_of_def fun_eq_iff)

lemma header_closed_sample:
  "header_closed header_provider {sample_block 0, sample_block 1, sample_block 2, sample_block 3}"
proof -
  have "dag_closed header_provider {sample_block 0, sample_block 1, sample_block 2, sample_block 3}"
    using dag_closed_sample unfolding dag_closed_def
    by (simp only: header_provider_parts) (simp add: header_provider_def)
  then show ?thesis
    unfolding header_closed_def by (simp only: header_provider_parts) (simp add: header_provider_def)
qed

theorem get_all_txs_until_height_spec_witness:
  "\<exists>hs. get_all_txs_until_height header_provider (\<lambda>tx h. Inr True) 1 [sample_block 3] True = Some (Inr hs) \<and>
     sample_block 3 \<in> hs \<and> sample_block 0 \<notin> hs"
proof -
  let ?S = "{sample_block 0, sample_block 1, sample_block 2, sample_block 3}"
  have heights: "block_height sample_provider (sample_block 3) = 2"
    "block_height sample_provider (sample_block 0) = 0"
    by (simp_all add: block_height_def sample_provider_def)
  have "recent_past header_provider 1 {sample_block 3} (sample_block 3)" by (rule recent_tip) simp
  moreover have "\<forall>h \<in> ?S. \<forall>tx. \<exists>b. (\<lambda>tx h. Inr True :: blockchain_error + bool) tx h = Inr b" by blast
  from get_all_txs_until_height_spec [OF header_closed_sample _ this, of "[sample_block 3]" 1 True]
  have "get_all_txs_until_height header_provider (\<lambda>tx h. Inr True) 1 [sample_block 3] True =
      Some (Inr {tx. recent_past header_provider 1 {sample_block 3} tx \<and> 1 \<le> block_height sample_provider tx})"
    by simp
  ultimately show ?thesis using heights by (simp add: word_le_nat_alt)
qed

text \<open>
  C36: a block is a side block exactly when it is ordered, at a topoheight between 1 and the current
  one, and one of the at most eight blocks just before it in the order, the genesis block excluded,
  is at its height or above.
\<close>

theorem side_block_spec:
  assumes "order_provider_ok p" "height_for_block_hash p h = Inr n"
    and "\<forall>j. 0 < j \<and> j \<le> current \<longrightarrow>
      (\<exists>h m. hash_at_topo_height p j = Inr h \<and> height_for_block_hash p h = Inr m)"
  shows "is_side_block_internal p h current = Inr (\<exists>t j h'. is_block_topological_ordered p h \<and>
    topo_height_for_hash p h = Inr t \<and> 0 < t \<and> t \<le> current \<and> 0 < j \<and> j < t \<and> unat t \<le> unat j + 8 \<and>
    hash_at_topo_height p j = Inr h' \<and> n \<le> block_height p h')"
proof (cases "is_block_topological_ordered p h")
  case True
  then obtain t where t: "topo_height_for_hash p h = Inr t"
    using assms(1) by (auto simp: order_provider_ok_def)
  show ?thesis
  proof (cases "0 < t \<and> t \<le> current")
    case in_range: True
    then have u: "unat (t - 1) = unat t - 1" "0 < unat t"
      by (simp_all add: unat_minus_one word_neq_0_conv word_less_nat_alt)
    have lt: "j \<le> t - 1 \<longleftrightarrow> j < t" for j
      using u by (auto simp: word_le_nat_alt word_less_nat_alt)
    have "\<forall>j. 0 < j \<and> j \<le> t - 1 \<longrightarrow>
        (\<exists>h m. hash_at_topo_height p j = Inr h \<and> height_for_block_hash p h = Inr m)"
      using assms(3) in_range unfolding lt by (meson less_imp_le order.trans)
    moreover have bound: "unat (t - 1) < unat j + 8 \<longleftrightarrow> unat t \<le> unat j + 8" for j :: u64
      using u by linarith
    ultimately
    have "side_block_loop p n 0 (t - 1) = Inr (\<exists>j h. 0 < j \<and> j < t \<and> unat t \<le> unat j + 8 \<and>
        hash_at_topo_height p j = Inr h \<and> n \<le> block_height p h)"
      using side_block_loop_spec [of "t - 1" p 0 n] by (simp add: lt)
    with True t in_range assms(2) show ?thesis
      by (auto simp: is_side_block_internal_def word_neq_0_conv not_less [symmetric])
  next
    case False
    then have "t = 0 \<or> t > current" by (cases "t = 0") (auto simp: word_neq_0_conv)
    with True t False show ?thesis by (auto simp: is_side_block_internal_def)
  qed
qed (simp add: is_side_block_internal_def)

text \<open>The four sample blocks, all ordered: two blocks at height 1, and one at height 2 that has both as tips.\<close>

definition ordered_provider :: dag_provider where
  "ordered_provider = sample_provider\<lparr>
     topo_height_for_hash := (\<lambda>h. if h = sample_block 0 then Inr 0 else if h = sample_block 1 then Inr 1
       else if h = sample_block 2 then Inr 2 else if h = sample_block 3 then Inr 3
       else Inl (NotFoundOnDisk CtxGetTopoHeightForHash)),
     is_block_topological_ordered := (\<lambda>h. h \<in> {sample_block 0, sample_block 1, sample_block 2, sample_block 3}),
     hash_at_topo_height := (\<lambda>t. if t \<le> 3 then Inr (sample_block (unat t))
       else Inl (NotFoundOnDisk (CtxGetBlockHashAtTopoHeight t)))\<rparr>"

lemma u64_le_3: "t \<le> 3 \<longleftrightarrow> t = 0 \<or> t = 1 \<or> t = 2 \<or> t = 3" for t :: u64
proof
  assume "t \<le> 3"
  then have "unat t \<le> 3" by (simp add: word_le_nat_alt)
  then have "unat t = unat (0 :: u64) \<or> unat t = unat (1 :: u64) \<or> unat t = unat (2 :: u64) \<or> unat t = unat (3 :: u64)"
    by (simp, linarith)
  then show "t = 0 \<or> t = 1 \<or> t = 2 \<or> t = 3" by (simp only: word_unat_eq_iff)
qed auto

lemma ordered_provider_ok: "order_provider_ok ordered_provider"
  by (auto simp: order_provider_ok_def ordered_provider_def u64_le_3 split: if_splits)

lemma ordered_provider_hashes:
  "\<forall>j. 0 < j \<and> j \<le> 3 \<longrightarrow>
     (\<exists>h m. hash_at_topo_height ordered_provider j = Inr h \<and> height_for_block_hash ordered_provider h = Inr m)"
  by (auto simp: ordered_provider_def sample_provider_def)

theorem side_block_spec_witness:
  "is_side_block_internal ordered_provider (sample_block 2) 3 = Inr True \<and>
   is_side_block_internal ordered_provider (sample_block 3) 3 = Inr False"
proof
  have h: "height_for_block_hash ordered_provider (sample_block 2) = Inr 1"
    "height_for_block_hash ordered_provider (sample_block 3) = Inr 2"
    by (simp_all add: ordered_provider_def sample_provider_def)
  have t: "topo_height_for_hash ordered_provider (sample_block 2) = Inr 2"
    "topo_height_for_hash ordered_provider (sample_block 3) = Inr 3"
    "is_block_topological_ordered ordered_provider (sample_block 2)"
    by (simp_all add: ordered_provider_def)
  have b: "hash_at_topo_height ordered_provider 1 = Inr (sample_block 1)"
    "hash_at_topo_height ordered_provider 2 = Inr (sample_block 2)"
    "block_height ordered_provider (sample_block 1) = 1" "block_height ordered_provider (sample_block 2) = 1"
    by (simp_all add: ordered_provider_def sample_provider_def block_height_def)
  have "\<exists>t j h'. is_block_topological_ordered ordered_provider (sample_block 2) \<and>
      topo_height_for_hash ordered_provider (sample_block 2) = Inr t \<and> 0 < t \<and> t \<le> 3 \<and> 0 < j \<and> j < t \<and>
      unat t \<le> unat j + 8 \<and> hash_at_topo_height ordered_provider j = Inr h' \<and> 1 \<le> block_height ordered_provider h'"
    using t b by (intro exI [of _ 2] exI [of _ 1] exI [of _ "sample_block 1"]) simp
  with side_block_spec [OF ordered_provider_ok h(1) ordered_provider_hashes]
  show "is_side_block_internal ordered_provider (sample_block 2) 3 = Inr True" by simp
  have "j = 1 \<or> j = 2" if "0 < j" "j < 3" for j :: u64
    using that u64_le_3 [of j] by auto
  note two = this
  have "\<not> (\<exists>t j h'. is_block_topological_ordered ordered_provider (sample_block 3) \<and>
      topo_height_for_hash ordered_provider (sample_block 3) = Inr t \<and> 0 < t \<and> t \<le> 3 \<and> 0 < j \<and> j < t \<and>
      unat t \<le> unat j + 8 \<and> hash_at_topo_height ordered_provider j = Inr h' \<and> 2 \<le> block_height ordered_provider h')"
    using t(2) b by (auto dest!: two simp: word_le_nat_alt)
  with side_block_spec [OF ordered_provider_ok h(2) ordered_provider_hashes]
  show "is_side_block_internal ordered_provider (sample_block 3) 3 = Inr False" by simp
qed

lemma locate_sync_le:
  "\<forall>t h. t \<le> request \<longrightarrow> hash_at_topo_height p t = Inr h \<longrightarrow> topo_height_for_hash p h = Inr t \<Longrightarrow>
     t \<le> request \<Longrightarrow> locate_nearest_sync_block_for_topoheight p t n = Inr r \<Longrightarrow> r \<le> t"
proof (induction p t n rule: locate_nearest_sync_block_for_topoheight.induct)
  case (1 p t n)
  show ?case
  proof (cases "t > 0")
    case True
    with "1.prems"(3) obtain h sync where h: "hash_at_topo_height p t = Inr h"
      "is_sync_block_at_height p h n = Inr sync"
      and r: "(if sync then topo_height_for_hash p h
        else locate_nearest_sync_block_for_topoheight p (t - 1) n) = Inr r"
      by (subst (asm) locate_nearest_sync_block_for_topoheight.simps) (auto simp: result_bind_eq_Inr)
    show ?thesis
    proof (cases sync)
      case sync: True
      have "topo_height_for_hash p h = Inr t" using h(1) "1.prems"(1,2) by blast
      with r sync show ?thesis by simp
    next
      case False
      have le: "t - 1 \<le> t" using True unat_minus_one_less [of t] by (simp add: word_le_nat_alt word_neq_0_conv)
      with "1.prems"(2) have "t - 1 \<le> request" by simp
      then have "r \<le> t - 1" using "1.IH" [OF True _ "1.prems"(1)] r False by simp
      with le show ?thesis by simp
    qed
  next
    case False
    with "1.prems"(3) show ?thesis by (subst (asm) locate_nearest_sync_block_for_topoheight.simps) auto
  qed
qed

lemma prune_blocks_range:
  "prune_blocks delete i located s = fold_result delete (map of_nat [unat i..<unat located]) s"
proof (induction delete i located s rule: prune_blocks.induct)
  case (1 delete i located s)
  show ?case
  proof (cases "i < located")
    case True
    then have "[unat i..<unat located] = unat i # [unat (i + 1)..<unat located]"
      by (simp add: unat_plus_one upt_conv_Cons word_less_nat_alt)
    with True 1 show ?thesis
      by (subst prune_blocks.simps) (auto simp: result_bind_def split: sum.split)
  next
    case False
    then show ?thesis by (subst prune_blocks.simps) (simp add: word_less_nat_alt)
  qed
qed

text \<open>
  C37: pruning keeps what is recent. When it succeeds, it returns a topoheight that is not above the
  requested one, at least \<open>PRUNE_SAFETY_LIMIT\<close> topoheights below the top and not below the last
  pruned one. The blocks that it deletes are exactly those from the last pruned topoheight (1 on a
  chain never pruned, so that the genesis block stays) up to the returned one, which is kept, and it
  deletes nothing when the returned one is the last pruned one.
\<close>

theorem prune_keeps_recent:
  assumes "prune_until_topoheight ops current n request s = Inr (t, s')"
    and "last_pruned = (case pruned_topoheight (storage_provider ops s) of Some t \<Rightarrow> t | None \<Rightarrow> 1)"
    and "\<forall>t h. t \<le> request \<longrightarrow> hash_at_topo_height (storage_provider ops s) t = Inr h \<longrightarrow>
      topo_height_for_hash (storage_provider ops s) h = Inr t"
  shows "unat t + 80 \<le> unat current \<and> t \<le> request \<and> last_pruned \<le> t \<and>
    (if t = last_pruned then s' = s
     else \<exists>s1 s2. fold_result (delete_block_at_topoheight ops) (map of_nat [unat last_pruned..<unat t]) s = Inr s1 \<and>
       delete_versioned_data_below_topoheight ops t True s1 = Inr s2 \<and>
       storage_set_pruned_topoheight ops t s2 = Inr s')"
proof -
  let ?p = "storage_provider ops s"
  have rq: "request \<noteq> 0" "request < current" "\<not> current - request < PRUNE_SAFETY_LIMIT" "last_pruned \<le> request"
    using assms(1,2) by (auto simp: prune_until_topoheight_def Let_def split: if_splits)
  obtain located where located: "locate_nearest_sync_block_for_topoheight ?p request n = Inr located"
    and res: "(if located > last_pruned
       then result_bind (prune_blocks (delete_block_at_topoheight ops) last_pruned located s) (\<lambda>s.
            result_bind (delete_versioned_data_below_topoheight ops located True s) (\<lambda>s.
            result_bind (storage_set_pruned_topoheight ops located s) (\<lambda>s. Inr (located, s))))
       else Inr (last_pruned, s)) = Inr (t, s')"
    using assms(1,2) rq by (auto simp: prune_until_topoheight_def Let_def result_bind_eq_Inr split: if_splits)
  have "located \<le> request" by (rule locate_sync_le [OF assms(3) order_refl located])
  have t: "t \<le> request" "last_pruned \<le> t"
    using res \<open>located \<le> request\<close> rq(4) by (auto simp: result_bind_eq_Inr split: if_splits)
  have "unat PRUNE_SAFETY_LIMIT = 80" by (simp add: PRUNE_SAFETY_LIMIT_def STABLE_LIMIT_def)
  moreover have "unat (current - request) = unat current - unat request"
    by (rule unat_sub) (use rq(2) in simp)
  ultimately have "unat t + 80 \<le> unat current"
    using rq(2,3) t(1) by (simp add: word_less_nat_alt word_le_nat_alt)
  with t res show ?thesis by (auto simp: result_bind_eq_Inr prune_blocks_range split: if_splits)
qed

text \<open>A storage that logs what is deleted.\<close>

definition log_storage :: "(dag_provider \<times> u64 list) prune_storage" where
  "log_storage = \<lparr>storage_provider = fst,
     delete_block_at_topoheight = (\<lambda>t (p, l). Inr (p, l @ [t])),
     delete_versioned_data_below_topoheight = (\<lambda>t b s. Inr s),
     storage_set_pruned_topoheight = (\<lambda>t s. Inr s)\<rparr>"

definition line_provider :: dag_provider where
  "line_provider = sample_provider\<lparr>
     height_for_block_hash := (\<lambda>h. Inr 0),
     hash_at_topo_height := (\<lambda>t. Inr (to_be_bytes t)),
     topo_height_for_hash := (\<lambda>h. Inr (from_be_bytes h)),
     is_block_topological_ordered := (\<lambda>h. True)\<rparr>"

theorem prune_keeps_recent_witness:
  "\<exists>s'. prune_until_topoheight log_storage 100 100 3 (line_provider, []) = Inr (3, s') \<and> snd s' = [1, 2]"
proof -
  let ?s = "(line_provider, [] :: u64 list)"
  have loc: "locate_nearest_sync_block_for_topoheight line_provider 3 100 = Inr 3"
    by (subst locate_nearest_sync_block_for_topoheight.simps)
       (simp add: is_sync_block_at_height_def line_provider_def)
  have lp: "pruned_topoheight line_provider = None" by (simp add: line_provider_def sample_provider_def)
  have "unat (3 :: u64) = 3" "unat (1 :: u64) = 1" by simp_all
  then have "prune_blocks (delete_block_at_topoheight log_storage) 1 3 ?s = Inr (line_provider, [1, 2])"
    by (simp add: prune_blocks_range log_storage_def upt_rec)
  then have run: "prune_until_topoheight log_storage 100 100 3 ?s = Inr (3, line_provider, [1, 2])"
    using loc lp by (simp add: prune_until_topoheight_def log_storage_def PRUNE_SAFETY_LIMIT_def
        STABLE_LIMIT_def Let_def word_less_nat_alt)
  have ops: "storage_provider log_storage ?s = line_provider" by (simp add: log_storage_def)
  have "\<forall>t h. t \<le> (3 :: u64) \<longrightarrow> hash_at_topo_height line_provider t = Inr h \<longrightarrow>
      topo_height_for_hash line_provider h = Inr t"
    by (auto simp: line_provider_def)
  with prune_keeps_recent [OF run refl] run show ?thesis unfolding ops by simp
qed

end
