(* ===== verification/Block_Checks.thy ===== *)
theory Block_Checks
  imports Block_Store Chain_Rules
begin

text \<open>
  The checks of a new block (\<open>add_new_block_for_storage\<close> of \<open>core/blockchain.rs\<close>, up to the verification
  of its transactions): the header against its tips and the chain, the proof of work, the transactions
  against the header and the blocks below, and how they are split into batches for the threads that
  verify them. A check that passes on every path makes the stored blocks a DAG again.
\<close>

section \<open>The chain that a block is added to\<close>

definition TIMESTAMP_IN_FUTURE_LIMIT :: u64 where "TIMESTAMP_IN_FUTURE_LIMIT = 2 * 1000"

record ('s, 'r, 'o) chain =
  ch_network :: network
  ch_simulator :: bool
  ch_skip_pow :: bool
  ch_height :: u64
  ch_stable_height :: u64
  ch_time :: u64
  ch_pow_hash :: "block_header \<Rightarrow> algorithm \<Rightarrow> blockchain_error + hash"
  ch_tx_hash :: "('s, 'r, 'o) transaction \<Rightarrow> hash"

text \<open>Sequencing of steps that may fail, and that may panic or not end.\<close>

definition check_bind :: "('e + 'a) option \<Rightarrow> ('a \<Rightarrow> ('e + 'b) option) \<Rightarrow> ('e + 'b) option" where
  "check_bind m f = Option.bind m (\<lambda>r. lift_option r f)"

definition refuse_if :: "bool \<Rightarrow> 'e \<Rightarrow> ('e + unit) option" where
  "refuse_if c e = Some (if c then Inl e else Inr ())"

fun check_each :: "('a \<Rightarrow> ('e + unit) option) \<Rightarrow> 'a list \<Rightarrow> ('e + unit) option" where
  "check_each f [] = Some (Inr ())"
| "check_each f (x # xs) = check_bind (f x) (\<lambda>_. check_each f xs)"

lemma check_bind_simps [simp]:
  "check_bind None f = None" "check_bind (Some (Inl e)) f = Some (Inl e)" "check_bind (Some (Inr x)) f = f x"
  by (simp_all add: check_bind_def)

lemma check_bind_eq_Inr [result_simps]:
  "check_bind m f = Some (Inr y) \<longleftrightarrow> (\<exists>x. m = Some (Inr x) \<and> f x = Some (Inr y))"
  by (cases m; cases "the m") (auto simp: check_bind_def)

lemma refuse_if_eq_Inr [result_simps]: "refuse_if c e = Some (Inr u) \<longleftrightarrow> \<not> c"
  by (simp add: refuse_if_def)

lemma lift_option_eq_Inr [result_simps]: "lift_option r f = Some (Inr y) \<longleftrightarrow> (\<exists>x. r = Inr x \<and> f x = Some (Inr y))"
  by (cases r) auto

lemma check_each_eq_Inr [result_simps]: "check_each f xs = Some (Inr u) \<longleftrightarrow> (\<forall>x \<in> set xs. f x = Some (Inr ()))"
  by (induction xs) (auto simp: check_bind_eq_Inr)

section \<open>The header\<close>

definition check_shape ::
  "('s, 'r, 'o) chain \<Rightarrow> ('p, 's, 'r, 'o, 't) libs \<Rightarrow> 'l sled \<Rightarrow> ('s, 'r, 'o) block \<Rightarrow> hash \<Rightarrow> (blockchain_error + unit) option" where
  "check_shape C L s blk h =
     (let b = block_header blk; tips_count = length (tips b) in
      check_bind (refuse_if (version b \<noteq> get_version_at_height (ch_network C) (height b)) InvalidBlockVersion) (\<lambda>_.
      check_bind (refuse_if (has_block_with_hash s h) AlreadyInChain) (\<lambda>_.
      check_bind (refuse_if (timestamp b > ch_time C + TIMESTAMP_IN_FUTURE_LIMIT) (TimestampIsInFuture (ch_time C) (timestamp b))) (\<lambda>_.
      check_bind (refuse_if (tips_count > TIPS_LIMIT) (InvalidTipsCount h tips_count)) (\<lambda>_.
      check_bind (refuse_if (tips_count = 0 \<and> ch_height C \<noteq> 0) ExpectedTips) (\<lambda>_.
      check_bind (refuse_if (tips_count > 0 \<and> height b = 0) BlockHeightZeroNotAllowed) (\<lambda>_.
      check_bind (refuse_if (tips_count = 0 \<and> height b \<noteq> 0) (InvalidTipsCount h tips_count)) (\<lambda>_.
      check_bind (refuse_if (size_block L blk > MAX_BLOCK_SIZE) (InvalidBlockSize MAX_BLOCK_SIZE (size_block L blk))) (\<lambda>_.
      check_each (\<lambda>t. refuse_if (\<not> has_block_with_hash s t) (InvalidTipsNotFound h t)) (tips b))))))))))"

definition check_height ::
  "('s, 'r, 'o) chain \<Rightarrow> dag_provider \<Rightarrow> block_header \<Rightarrow> (blockchain_error + u64) option" where
  "check_height C p b =
     lift_option (calculate_height_at_tips p (tips b)) (\<lambda>block_height_by_tips.
     check_bind (refuse_if (block_height_by_tips \<noteq> height b) (InvalidBlockHeight block_height_by_tips (height b))) (\<lambda>_.
     check_bind (refuse_if (length (tips b) > 0 \<and> block_height_by_tips < ch_stable_height C) InvalidBlockHeightStableHeight) (\<lambda>_.
     lift_option (verify_non_reachability p (tips b)) (\<lambda>ok.
     check_bind (refuse_if (\<not> ok) InvalidReachability) (\<lambda>_. Some (Inr block_height_by_tips))))))"

definition check_tip :: "dag_provider \<Rightarrow> block_header \<Rightarrow> u64 \<Rightarrow> hash \<Rightarrow> (blockchain_error + unit) option" where
  "check_tip p b block_height_by_tips h =
     lift_option (timestamp_for_block_hash p h) (\<lambda>previous_timestamp.
     check_bind (refuse_if (timestamp b < previous_timestamp) (TimestampIsLessThanParent (timestamp b))) (\<lambda>_.
     let height = (if block_height_by_tips = 0 then 0 else block_height_by_tips - 1) in
     check_bind (verify_distance_from_mainchain p h height) (\<lambda>ok. refuse_if (\<not> ok) BlockDeviation)))"

definition check_best_tip :: "dag_provider \<Rightarrow> block_header \<Rightarrow> hash \<Rightarrow> (blockchain_error + unit) option" where
  "check_best_tip p b h =
     (if length (tips b) > 1
      then lift_option (find_best_tip_by_cumulative_difficulty p (tips b)) (\<lambda>best_tip.
        check_each (\<lambda>t. if best_tip \<noteq> t
          then check_bind (validate_tips p best_tip t) (\<lambda>ok. refuse_if (\<not> ok) (InvalidTipsDifficulty h t))
          else Some (Inr ())) (tips b))
      else Some (Inr ()))"

definition block_pow_hash :: "('s, 'r, 'o) chain \<Rightarrow> block_header \<Rightarrow> blockchain_error + hash" where
  "block_pow_hash C b = (if ch_skip_pow C then Inr hash_zero
     else ch_pow_hash C b (get_pow_algorithm_for_version (get_version_at_height (ch_network C) (height b))))"

definition verify_header ::
  "('s, 'r, 'o) chain \<Rightarrow> ('p, 's, 'r, 'o, 't) libs \<Rightarrow> 'l sled \<Rightarrow> ('s, 'r, 'o) block \<Rightarrow> hash \<Rightarrow>
   (blockchain_error + difficulty \<times> varuint) option" where
  "verify_header C L s blk h =
     (let p = sled_provider s; b = block_header blk in
      check_bind (check_shape C L s blk h) (\<lambda>_.
      check_bind (check_height C p b) (\<lambda>block_height_by_tips.
      check_bind (check_each (check_tip p b block_height_by_tips) (tips b)) (\<lambda>_.
      check_bind (check_best_tip p b h) (\<lambda>_.
      lift_option (block_pow_hash C b) (\<lambda>pow_hash.
      verify_proof_of_work p (ch_network C) (ch_simulator C) pow_hash (tips b)))))))"

section \<open>The transactions\<close>

text \<open>
  The loop keeps the transactions of the recent past once they have been loaded, and the batch of
  transactions that remain to be verified.
\<close>

type_synonym ('s, 'r, 'o) tx_checks = "hash set option \<times> (('s, 'r, 'o) transaction \<times> hash) list"

definition check_executor ::
  "('s, 'r, 'o) chain \<Rightarrow> 'l sled \<Rightarrow> hash \<Rightarrow> hash \<Rightarrow> (blockchain_error + unit) option" where
  "check_executor C s h tx_hash =
     lift_option (get_block_executor_for_tx s tx_hash) (\<lambda>block_executor.
     lift_option (get_height_for_block_hash s block_executor) (\<lambda>block_executor_height.
     refuse_if (block_executor_height \<le> ch_stable_height C)
       (DeadTxFromStableHeight h tx_hash (ch_stable_height C) block_executor)))"

definition parents_txs ::
  "('s, 'r, 'o) chain \<Rightarrow> 'l sled \<Rightarrow> block_header \<Rightarrow> bool \<Rightarrow> hash set option \<Rightarrow> (blockchain_error + hash set) option" where
  "parents_txs C s b is_v2_enabled all = (case all of Some txs \<Rightarrow> Some (Inr txs)
     | None \<Rightarrow> get_all_txs_until_height (sled_provider s) (\<lambda>tx h. Inr (is_tx_executed_in_block s tx h))
         (ch_stable_height C) (tips b) (\<not> is_v2_enabled))"

definition check_tx ::
  "('s, 'r, 'o) chain \<Rightarrow> ('p, 's, 'r, 'o, 't) libs \<Rightarrow> 'l sled \<Rightarrow> block_header \<Rightarrow> hash \<Rightarrow> ('s, 'r, 'o) transaction \<times> hash \<Rightarrow>
   ('s, 'r, 'o) tx_checks \<Rightarrow> (blockchain_error + ('s, 'r, 'o) tx_checks) option" where
  "check_tx C L s b h txh st = (case (txh, st) of ((tx, hash), (all_parents_txs, txs_batch)) \<Rightarrow>
     (let tx_size = size_transaction L tx; tx_hash = ch_tx_hash C tx;
          is_executed = is_tx_executed_in_a_block s hash;
          is_v2_enabled = get_version_at_height (ch_network C) (height b) \<ge> BlockV2 in
      check_bind (refuse_if (tx_size > MAX_TRANSACTION_SIZE) (TxTooBig tx_size MAX_TRANSACTION_SIZE)) (\<lambda>_.
      check_bind (refuse_if (tx_hash \<noteq> hash) (InvalidTxInBlock tx_hash)) (\<lambda>_.
      check_bind (if is_executed then check_executor C s h hash else Some (Inr ())) (\<lambda>_.
      if is_v2_enabled \<or> is_executed \<and> \<not> is_v2_enabled
      then check_bind (parents_txs C s b is_v2_enabled all_parents_txs) (\<lambda>txs.
        if tx_hash \<in> txs then Some (Inl (DeadTxFromTips h tx_hash))
        else Some (Inr (Some txs, if is_executed then txs_batch else txs_batch @ [(tx, hash)])))
      else Some (Inr (all_parents_txs, txs_batch @ [(tx, hash)])))))))"

fun check_txs ::
  "('s, 'r, 'o) chain \<Rightarrow> ('p, 's, 'r, 'o, 't) libs \<Rightarrow> 'l sled \<Rightarrow> block_header \<Rightarrow> hash \<Rightarrow> (('s, 'r, 'o) transaction \<times> hash) list \<Rightarrow>
   ('s, 'r, 'o) tx_checks \<Rightarrow> (blockchain_error + ('s, 'r, 'o) tx_checks) option" where
  "check_txs C L s b h [] st = Some (Inr st)"
| "check_txs C L s b h (tx # txs) st = check_bind (check_tx C L s b h tx st) (check_txs C L s b h txs)"

definition check_block_txs ::
  "('s, 'r, 'o) chain \<Rightarrow> ('p, 's, 'r, 'o, 't) libs \<Rightarrow> 'l sled \<Rightarrow> ('s, 'r, 'o) block \<Rightarrow> hash \<Rightarrow>
   (blockchain_error + (('s, 'r, 'o) transaction \<times> hash) list) option" where
  "check_block_txs C L s blk h =
     (let b = block_header blk; hashes_len = length (txs_hashes b); txs_len = length (block_transactions blk); limit = 65535 in
      check_bind (refuse_if (hashes_len \<noteq> txs_len) (InvalidBlockTxs hashes_len txs_len)) (\<lambda>_.
      check_bind (refuse_if (txs_len > limit) (InvalidBlockTxs limit txs_len)) (\<lambda>_.
      check_bind (check_txs C L s b h (zip (block_transactions blk) (txs_hashes b)) (None, [])) (\<lambda>(_, txs_batch).
      Some (Inr txs_batch)))))"

subsection \<open>Batches for the threads\<close>

fun group_tx :: "('s, 'r, 'o) transaction \<times> hash \<Rightarrow> (compressed_public_key \<times> (('s, 'r, 'o) transaction \<times> hash) list) list \<Rightarrow>
    (compressed_public_key \<times> (('s, 'r, 'o) transaction \<times> hash) list) list" where
  "group_tx x [] = [(tx_source (fst x), [x])]"
| "group_tx x ((k, g) # gs) = (if k = tx_source (fst x) then (k, g @ [x]) # gs else (k, g) # group_tx x gs)"

definition txs_grouped ::
  "(('s, 'r, 'o) transaction \<times> hash) list \<Rightarrow> (compressed_public_key \<times> (('s, 'r, 'o) transaction \<times> hash) list) list" where
  "txs_grouped batch = foldl (\<lambda>gs x. group_tx x gs) [] batch"

text \<open>The groups come out of a hash map in any order.\<close>

fun fill_batches :: "nat \<Rightarrow> nat \<Rightarrow> 'a list list \<Rightarrow> 'a list list \<Rightarrow> 'a list list" where
  "fill_batches n i [] batches = batches"
| "fill_batches n i (g # queue) batches =
     fill_batches n (i + 1) queue (batches[i mod n := batches ! (i mod n) @ g])"

definition make_batches :: "nat \<Rightarrow> 'a list list \<Rightarrow> 'a list list" where
  "make_batches threads groups = (let batches_count = min (length groups) threads in
     fill_batches batches_count 0 groups (replicate batches_count []))"

section \<open>What an accepted header is\<close>

definition stored_dag :: "'l sled \<Rightarrow> bool" where
  "stored_dag s \<longleftrightarrow> dag_closed (sled_provider s) {h. has_block_with_hash s h}"

lemma sled_fields [simp]:
  "past_blocks_for_block_hash (sled_provider s) h = result_bind (get_block_header_by_hash s h) (\<lambda>b. Inr (tips b))"
  "height_for_block_hash (sled_provider s) h = result_bind (get_block_header_by_hash s h) (\<lambda>b. Inr (height b))"
  "timestamp_for_block_hash (sled_provider s) h = result_bind (get_block_header_by_hash s h) (\<lambda>b. Inr (timestamp b))"
  by (simp_all add: sled_provider_def get_past_blocks_for_block_hash_def get_height_for_block_hash_def get_timestamp_for_block_hash_def)

lemma sled_parents: "parents (sled_provider s) h = (case get_block_header_by_hash s h of Inr b \<Rightarrow> tips b | Inl _ \<Rightarrow> [])"
  by (auto simp: parents_def result_bind_def split: sum.splits)

lemma sled_height: "block_height (sled_provider s) h = (case get_block_header_by_hash s h of Inr b \<Rightarrow> height b | Inl _ \<Rightarrow> 0)"
  by (auto simp: block_height_def result_bind_def split: sum.splits)

lemma stored_dag_iff:
  "stored_dag s \<longleftrightarrow> (\<forall>h. has_block_with_hash s h \<longrightarrow> (\<exists>b. get_block_header_by_hash s h = Inr b \<and>
     (\<forall>t \<in> set (tips b). has_block_with_hash s t \<and> (\<exists>b'. get_block_header_by_hash s t = Inr b' \<and> height b' < height b))))"
  (is "_ \<longleftrightarrow> ?stored")
proof
  assume "stored_dag s"
  note d = this [unfolded stored_dag_def]
  have hd: "\<exists>b. get_block_header_by_hash s h = Inr b" if "has_block_with_hash s h" for h
    using dag_closed_parents(2) [OF d, of h] that
    by (auto simp: result_bind_eq_Inr)
  show ?stored
  proof (intro allI impI)
    fix h assume h: "has_block_with_hash s h"
    with hd obtain b where b: "get_block_header_by_hash s h = Inr b" by blast
    have "has_block_with_hash s t \<and> (\<exists>b'. get_block_header_by_hash s t = Inr b' \<and> height b' < height b)" if "t \<in> set (tips b)" for t
    proof -
      have "t \<in> set (parents (sled_provider s) h)" using that b by (simp add: sled_parents)
      with dag_closed_parents(3,4) [OF d, of h t] h
      have "has_block_with_hash s t" "level (sled_provider s) t < level (sled_provider s) h" by auto
      with hd [of t] b show ?thesis by (auto simp: level_def sled_height word_less_nat_alt)
    qed
    with b show "\<exists>b. get_block_header_by_hash s h = Inr b \<and>
      (\<forall>t \<in> set (tips b). has_block_with_hash s t \<and> (\<exists>b'. get_block_header_by_hash s t = Inr b' \<and> height b' < height b))" by blast
  qed
next
  assume st: ?stored
  show "stored_dag s"
    unfolding stored_dag_def dag_closed_def
  proof (intro ballI)
    fix h assume "h \<in> {h. has_block_with_hash s h}"
    with st obtain b where b: "get_block_header_by_hash s h = Inr b"
      "\<forall>t \<in> set (tips b). has_block_with_hash s t \<and> (\<exists>b'. get_block_header_by_hash s t = Inr b' \<and> height b' < height b)" by blast
    then show "past_blocks_for_block_hash (sled_provider s) h = Inr (parents (sled_provider s) h) \<and>
        height_for_block_hash (sled_provider s) h = Inr (block_height (sled_provider s) h) \<and>
        (\<forall>t \<in> set (parents (sled_provider s) h). t \<in> {h. has_block_with_hash s h} \<and>
           level (sled_provider s) t < level (sled_provider s) h)"
      by (auto simp: sled_parents sled_height level_def word_less_nat_alt)
  qed
qed

lemma tips_are_lower:
  assumes "stored_dag s" "\<forall>t \<in> set ts. has_block_with_hash s t" "ts \<noteq> []"
    and n: "calculate_height_at_tips (sled_provider s) ts = Inr n" "n \<noteq> 0"
  shows "\<forall>t \<in> set ts. \<exists>b. get_block_header_by_hash s t = Inr b \<and> height b < n"
proof -
  have hd: "\<exists>b. get_block_header_by_hash s t = Inr b" if "t \<in> set ts" for t
    using that assms(1,2) by (auto simp: stored_dag_iff)
  then have "\<forall>t \<in> set ts. \<exists>n. height_for_block_hash (sled_provider s) t = Inr n"
    by fastforce
  from calculate_height_at_tips_spec [OF this] n(1) assms(3)
  have n': "n = Max (block_height (sled_provider s) ` set ts) + 1" by simp
  show ?thesis
  proof
    fix t assume t: "t \<in> set ts"
    then have "block_height (sled_provider s) t \<le> n - 1" by (simp add: n')
    also have "n - 1 < n" using n(2) by (simp add: word_less_nat_alt unat_minus_one word_neq_0_conv)
    finally show "\<exists>b. get_block_header_by_hash s t = Inr b \<and> height b < n"
      using hd [OF t] by (auto simp: sled_height)
  qed
qed

text \<open>What the checks of the header establish, over the stored headers.\<close>

definition accepted_header ::
  "('s, 'r, 'o) chain \<Rightarrow> 'l sled \<Rightarrow> block_header \<Rightarrow> hash \<Rightarrow> difficulty \<Rightarrow> bool" where
  "accepted_header C s b h d \<longleftrightarrow> \<not> has_block_with_hash s h \<and> length (tips b) \<le> TIPS_LIMIT \<and>
     version b = get_version_at_height (ch_network C) (height b) \<and> (tips b = [] \<longrightarrow> height b = 0 \<and> ch_height C = 0) \<and>
     (tips b \<noteq> [] \<longrightarrow> ch_stable_height C \<le> height b) \<and>
     (\<forall>t \<in> set (tips b). has_block_with_hash s t \<and> (\<exists>b'. get_block_header_by_hash s t = Inr b' \<and>
        height b' < height b \<and> timestamp b' \<le> timestamp b)) \<and>
     (\<exists>pow. block_pow_hash C b = Inr pow \<and> check_difficulty pow d = Inr True)"

lemma verify_pow_checked: "verify_proof_of_work p n sim pow ts = Some (Inr (d, cov)) \<Longrightarrow> check_difficulty pow d = Inr True"
  by (auto simp: verify_proof_of_work_def result_bind_eq_Inr difficulty_result_def split: if_splits sum.splits)

lemma verify_header_accepted:
  assumes s: "stored_dag s" and v: "verify_header C L s blk h = Some (Inr (d, cov))"
  shows "accepted_header C s (block_header blk) h d"
proof -
  let ?b = "block_header blk" and ?p = "sled_provider s"
  from v obtain n pow where shape: "check_shape C L s blk h = Some (Inr ())" and height: "check_height C ?p ?b = Some (Inr n)"
    and tips: "\<forall>t \<in> set (tips ?b). check_tip ?p ?b n t = Some (Inr ())" and pow: "block_pow_hash C ?b = Inr pow"
    "verify_proof_of_work ?p (ch_network C) (ch_simulator C) pow (tips ?b) = Some (Inr (d, cov))"
    by (auto simp: verify_header_def Let_def result_simps)
  from height have n: "calculate_height_at_tips ?p (tips ?b) = Inr (height ?b)" "n = height ?b"
    "tips ?b \<noteq> [] \<longrightarrow> ch_stable_height C \<le> height ?b"
    by (auto simp: check_height_def result_simps not_less)
  from shape have sh: "version ?b = get_version_at_height (ch_network C) (height ?b)" "\<not> has_block_with_hash s h"
    "length (tips ?b) \<le> TIPS_LIMIT" "tips ?b = [] \<longrightarrow> height ?b = 0 \<and> ch_height C = 0" "tips ?b \<noteq> [] \<longrightarrow> height ?b \<noteq> 0"
    "\<forall>t \<in> set (tips ?b). has_block_with_hash s t"
    by (auto simp: check_shape_def Let_def result_simps)
  have "\<exists>b'. get_block_header_by_hash s t = Inr b' \<and> height b' < height ?b \<and> timestamp b' \<le> timestamp ?b" if t: "t \<in> set (tips ?b)" for t
  proof -
    have ne: "tips ?b \<noteq> []" using t by auto
    with tips_are_lower [OF s sh(6) ne n(1)] sh(5) t obtain b' where "get_block_header_by_hash s t = Inr b'" "height b' < height ?b" by blast
    moreover from this tips t have "timestamp b' \<le> timestamp ?b"
      by (auto simp: check_tip_def result_simps not_less)
    ultimately show ?thesis by blast
  qed
  with sh n pow verify_pow_checked [OF pow(2)] show ?thesis by (auto simp: accepted_header_def)
qed

section \<open>What the checks of the transactions establish\<close>

definition v2_enabled :: "('s, 'r, 'o) chain \<Rightarrow> block_header \<Rightarrow> bool" where
  "v2_enabled C b \<longleftrightarrow> get_version_at_height (ch_network C) (height b) \<ge> BlockV2"

definition recent_txs :: "('s, 'r, 'o) chain \<Rightarrow> 'l sled \<Rightarrow> block_header \<Rightarrow> (blockchain_error + hash set) option" where
  "recent_txs C s b = get_all_txs_until_height (sled_provider s) (\<lambda>tx h. Inr (is_tx_executed_in_block s tx h))
     (ch_stable_height C) (tips b) (\<not> v2_enabled C b)"

definition parents_loaded :: "('s, 'r, 'o) chain \<Rightarrow> 'l sled \<Rightarrow> block_header \<Rightarrow> hash set option \<Rightarrow> bool" where
  "parents_loaded C s b all \<longleftrightarrow> (\<forall>txs. all = Some txs \<longrightarrow> recent_txs C s b = Some (Inr txs))"

definition tx_allowed ::
  "('s, 'r, 'o) chain \<Rightarrow> ('p, 's, 'r, 'o, 't) libs \<Rightarrow> 'l sled \<Rightarrow> block_header \<Rightarrow> ('s, 'r, 'o) transaction \<times> hash \<Rightarrow> bool" where
  "tx_allowed C L s b x \<longleftrightarrow> size_transaction L (fst x) \<le> MAX_TRANSACTION_SIZE \<and> ch_tx_hash C (fst x) = snd x \<and>
     (is_tx_executed_in_a_block s (snd x) \<longrightarrow> (\<exists>e n. get_block_executor_for_tx s (snd x) = Inr e \<and>
        get_height_for_block_hash s e = Inr n \<and> ch_stable_height C < n)) \<and>
     (v2_enabled C b \<or> is_tx_executed_in_a_block s (snd x) \<longrightarrow> (\<exists>txs. recent_txs C s b = Some (Inr txs) \<and> snd x \<notin> txs))"

lemma check_executor_eq_Inr [result_simps]:
  "check_executor C s h t = Some (Inr u) \<longleftrightarrow>
     (\<exists>e n. get_block_executor_for_tx s t = Inr e \<and> get_height_for_block_hash s e = Inr n \<and> ch_stable_height C < n)"
  by (auto simp: check_executor_def result_simps not_le)

lemma parents_txs_loaded:
  assumes "parents_loaded C s b all" "parents_txs C s b (v2_enabled C b) all = Some (Inr txs)"
  shows "recent_txs C s b = Some (Inr txs)"
  using assms by (auto simp: parents_txs_def parents_loaded_def recent_txs_def split: option.splits)

lemma check_tx_allowed:
  assumes l: "parents_loaded C s b all" and c: "check_tx C L s b h x (all, batch) = Some (Inr (all', batch'))"
  shows "tx_allowed C L s b x \<and> parents_loaded C s b all' \<and>
    batch' = batch @ (if is_tx_executed_in_a_block s (snd x) then [] else [x])"
proof -
  obtain tx t where x: "x = (tx, t)" by force
  let ?e = "is_tx_executed_in_a_block s t"
  have c': "\<not> size_transaction L tx > MAX_TRANSACTION_SIZE \<and> \<not> ch_tx_hash C tx \<noteq> t \<and>
      (if ?e then check_executor C s h t else Some (Inr ())) = Some (Inr ()) \<and>
      (if v2_enabled C b \<or> ?e \<and> \<not> v2_enabled C b
      then check_bind (parents_txs C s b (v2_enabled C b) all) (\<lambda>txs.
        if ch_tx_hash C tx \<in> txs then Some (Inl (DeadTxFromTips h (ch_tx_hash C tx)))
        else Some (Inr (Some txs, if ?e then batch else batch @ [(tx, t)])))
      else Some (Inr (all, batch @ [(tx, t)]))) = Some (Inr (all', batch'))"
    using c unfolding check_tx_def x prod.case Let_def v2_enabled_def [symmetric]
    unfolding check_bind_eq_Inr [of "refuse_if _ _"] check_bind_eq_Inr [of "if ?e then _ else _"] refuse_if_eq_Inr by simp
  then have pre: "size_transaction L tx \<le> MAX_TRANSACTION_SIZE" "ch_tx_hash C tx = t"
    "?e \<longrightarrow> (\<exists>e n. get_block_executor_for_tx s t = Inr e \<and> get_height_for_block_hash s e = Inr n \<and> ch_stable_height C < n)"
    by (auto simp: check_executor_eq_Inr split: if_splits)
  note rest = conjunct2 [OF conjunct2 [OF conjunct2 [OF c']], unfolded pre(2)]
  show ?thesis
  proof (cases "v2_enabled C b \<or> ?e")
    case True
    with rest obtain txs where "parents_txs C s b (v2_enabled C b) all = Some (Inr txs)" "t \<notin> txs" "all' = Some txs"
      "batch' = (if ?e then batch else batch @ [(tx, t)])"
      by (auto simp: result_simps split: if_splits)
    with parents_txs_loaded [OF l] pre show ?thesis by (auto simp: tx_allowed_def parents_loaded_def x)
  next
    case False
    with rest pre l show ?thesis by (auto simp: tx_allowed_def x)
  qed
qed

lemma check_txs_allowed:
  assumes "parents_loaded C s b all" "check_txs C L s b h xs (all, batch) = Some (Inr (all', batch'))"
  shows "(\<forall>x \<in> set xs. tx_allowed C L s b x) \<and> batch' = batch @ filter (\<lambda>x. \<not> is_tx_executed_in_a_block s (snd x)) xs"
  using assms
proof (induction xs arbitrary: all batch)
  case (Cons x xs)
  then obtain all1 batch1 where 1: "check_tx C L s b h x (all, batch) = Some (Inr (all1, batch1))"
    "check_txs C L s b h xs (all1, batch1) = Some (Inr (all', batch'))"
    by (auto simp: check_bind_eq_Inr)
  note t = check_tx_allowed [OF Cons.prems(1) 1(1)]
  with Cons.IH [of all1 batch1] 1(2) show ?case by auto
qed auto

section \<open>The batches\<close>

abbreviation of_source :: "compressed_public_key \<Rightarrow> (('s, 'r, 'o) transaction \<times> hash) list \<Rightarrow> (('s, 'r, 'o) transaction \<times> hash) list" where
  "of_source k \<equiv> filter (\<lambda>x. tx_source (fst x) = k)"

lemma map_of_group_tx:
  "map_of (group_tx x gs) k = (if k = tx_source (fst x) then Some (case map_of gs k of Some g \<Rightarrow> g @ [x] | None \<Rightarrow> [x]) else map_of gs k)"
  by (induction x gs rule: group_tx.induct) auto

lemma keys_group_tx: "fst ` set (group_tx x gs) = insert (tx_source (fst x)) (fst ` set gs)"
  by (induction x gs rule: group_tx.induct) auto

lemma distinct_group_tx: "distinct (map fst gs) \<Longrightarrow> distinct (map fst (group_tx x gs))"
  by (induction x gs rule: group_tx.induct) (auto simp: keys_group_tx [unfolded image_def] image_def)

lemma txs_grouped_spec:
  "distinct (map fst (txs_grouped batch)) \<and>
   map_of (txs_grouped batch) k = (if of_source k batch = [] then None else Some (of_source k batch))"
  by (induction batch rule: rev_induct) (auto simp: txs_grouped_def map_of_group_tx distinct_group_tx)

lemma length_fill_batches [simp]: "length (fill_batches n i gs bs) = length bs"
  by (induction n i gs bs rule: fill_batches.induct) auto

lemma mset_concat_update: "i < length bs \<Longrightarrow> mset (concat (bs[i := bs ! i @ g])) = mset (concat bs) + mset g"
  by (induction bs arbitrary: i) (auto split: nat.splits)

lemma mset_fill_batches:
  "n > 0 \<Longrightarrow> length bs = n \<Longrightarrow> mset (concat (fill_batches n i gs bs)) = mset (concat bs) + mset (concat gs)"
  by (induction n i gs bs rule: fill_batches.induct) (auto simp: mset_concat_update)

lemma fill_batches_other:
  assumes "n > 0" "length bs = n" "j < n" "\<forall>g \<in> set gs. filter P g = []"
  shows "filter P (fill_batches n i gs bs ! j) = filter P (bs ! j)"
  using assms by (induction n i gs bs rule: fill_batches.induct) (auto simp: nth_list_update)

lemma fill_batches_one:
  assumes "n > 0" "length bs = n" "g \<in> set gs" "\<forall>g' \<in> set gs. g' \<noteq> g \<longrightarrow> filter P g' = []" "distinct (filter (\<lambda>g. filter P g \<noteq> []) gs)"
    "filter P g \<noteq> []"
  shows "\<exists>m < n. \<forall>j < n. filter P (fill_batches n i gs bs ! j) = filter P (bs ! j) @ (if j = m then filter P g else [])"
  using assms
proof (induction n i gs bs rule: fill_batches.induct)
  case (2 n i g' queue bs)
  show ?case
  proof (cases "g' = g")
    case True
    with 2(6,7) have "g \<notin> set queue" by auto
    with 2(5,7) have q: "\<forall>g' \<in> set queue. filter P g' = []" by auto
    have "filter P (fill_batches n (i + 1) queue (bs[i mod n := bs ! (i mod n) @ g]) ! j) = filter P (bs ! j) @ (if j = i mod n then filter P g else [])"
      if "j < n" for j
      using fill_batches_other [OF 2(2) _ that q] 2(3) that by (auto simp: nth_list_update)
    then show ?thesis using True 2(2) by (intro exI [of _ "i mod n"]) auto
  next
    case False
    with 2(4,5) have "filter P g' = []" "g \<in> set queue" by auto
    moreover from this 2(5,6) have "\<forall>g' \<in> set queue. g' \<noteq> g \<longrightarrow> filter P g' = []" "distinct (filter (\<lambda>g. filter P g \<noteq> []) queue)" by auto
    ultimately obtain m where m: "m < n" "\<forall>j < n. filter P (fill_batches n (i + 1) queue (bs[i mod n := bs ! (i mod n) @ g']) ! j) =
        filter P (bs[i mod n := bs ! (i mod n) @ g'] ! j) @ (if j = m then filter P g else [])"
      using 2(1) [OF 2(2) _ \<open>g \<in> set queue\<close> _ _ 2(7)] 2(3) by (simp only: length_list_update) blast
    with \<open>filter P g' = []\<close> 2(3) show ?thesis by (intro exI [of _ m]) (auto simp: nth_list_update)
  qed
qed simp

lemma mset_group_tx: "mset (concat (map snd (group_tx x gs))) = add_mset x (mset (concat (map snd gs)))"
  by (induction x gs rule: group_tx.induct) auto

lemma mset_concat_groups: "mset (concat (map snd (txs_grouped batch))) = mset batch"
  by (induction batch rule: rev_induct) (simp_all add: txs_grouped_def mset_group_tx del: mset_concat)

lemma mset_concat_cong: "mset xs = mset ys \<Longrightarrow> mset (concat (map f xs)) = mset (concat (map f ys))"
  by (simp only: mset_concat map_map sum_mset_sum_list [symmetric] mset_map)

text \<open>The groups in any order: one per source that occurs, with its transactions.\<close>

lemma groups_any_order:
  assumes "mset gs = mset (txs_grouped batch)"
  shows "distinct (map fst gs)" "(k, g) \<in> set gs \<longleftrightarrow> g = of_source k batch \<and> g \<noteq> []"
proof -
  have s: "set gs = set (txs_grouped batch)" using assms by (metis set_mset_mset)
  show d: "distinct (map fst gs)" using assms txs_grouped_spec by (metis mset_eq_imp_distinct_iff mset_map)
  have "(k, g) \<in> set gs \<longleftrightarrow> map_of (txs_grouped batch) k = Some g"
    using conjunct1 [OF txs_grouped_spec [of batch k]] by (simp only: s map_of_eq_Some_iff)
  then show "(k, g) \<in> set gs \<longleftrightarrow> g = of_source k batch \<and> g \<noteq> []" using txs_grouped_spec [of batch k] by auto
qed

lemma distinct_keys_select: "distinct (map fst gs) \<Longrightarrow> distinct (map snd (filter (\<lambda>x. fst x = k) gs))"
  by (induction gs) (auto simp: filter_empty_conv)

lemma group_of_source:
  assumes gs: "mset gs = mset (txs_grouped batch)" and ne: "of_source k batch \<noteq> []"
  shows "of_source k batch \<in> set (map snd gs)"
    and "\<forall>g' \<in> set (map snd gs). g' \<noteq> of_source k batch \<longrightarrow> of_source k g' = []"
    and "distinct (filter (\<lambda>g. of_source k g \<noteq> []) (map snd gs))"
proof -
  note g = groups_any_order [OF gs]
  have "of_source k (snd x) \<noteq> [] \<longleftrightarrow> fst x = k" if x: "x \<in> set gs" for x
  proof -
    obtain k' g' where kg: "x = (k', g')" by force
    with x g(2) have "g' = of_source k' batch" "g' \<noteq> []" by auto
    then show ?thesis by (cases "k' = k") (auto simp: kg filter_empty_conv)
  qed
  then have sel: "filter (\<lambda>g. of_source k g \<noteq> []) (map snd gs) = map snd (filter (\<lambda>x. fst x = k) gs)"
    unfolding filter_map o_def by (intro arg_cong [of _ _ "map snd"] filter_cong) simp_all
  show "distinct (filter (\<lambda>g. of_source k g \<noteq> []) (map snd gs))" unfolding sel by (rule distinct_keys_select [OF g(1)])
  show "of_source k batch \<in> set (map snd gs)"
    using image_eqI [of "of_source k batch" snd "(k, of_source k batch)" "set gs"] g(2) [of k "of_source k batch"] ne by simp
  show "\<forall>g' \<in> set (map snd gs). g' \<noteq> of_source k batch \<longrightarrow> of_source k g' = []"
  proof (intro ballI impI)
    fix g' assume "g' \<in> set (map snd gs)" "g' \<noteq> of_source k batch"
    then obtain k' where "(k', g') \<in> set gs" "g' \<noteq> of_source k batch" by auto
    then have "g' = of_source k' batch" "k' \<noteq> k" using g(2) by auto
    then show "of_source k g' = []" by (auto simp: filter_empty_conv)
  qed
qed

section \<open>Properties\<close>

text \<open>
  a block whose header passes the checks extends the DAG. When the stored blocks form a DAG, an
  accepted header is new, has at most three tips, all stored, each lower and not younger than the block,
  the version of its height, a height at or above the stable height, and a proof of work for the
  difficulty that is then stored. Saving the block succeeds, exactly this block is added, its past is its tips,
  the past of every other block is as before, and the stored blocks form a DAG again.
\<close>

theorem accepted_block_extends_dag:
  assumes s: "stored_dag s" and v: "verify_header C L s blk h = Some (Inr (d, cov))"
    and b: "block_header_ok (block_header blk)" and h: "hash_ok h" and hs: "stored_at s (height (block_header blk)) hs"
  shows "accepted_header C s (block_header blk) h d \<and>
    (\<exists>s'. save_block L (block_header blk) (block_transactions blk) d cov h s = Inr s' \<and> stored_dag s' \<and>
      (\<forall>h'. has_block_with_hash s' h' \<longleftrightarrow> h' = h \<or> has_block_with_hash s h') \<and>
      parents (sled_provider s') h = tips (block_header blk) \<and>
      (\<forall>h'. h' \<noteq> h \<longrightarrow> parents (sled_provider s') h' = parents (sled_provider s) h'))"
proof -
  let ?b = "block_header blk"
  have a: "accepted_header C s ?b h d" by (rule verify_header_accepted [OF s v])
  obtain s' where s': "save_block L ?b (block_transactions blk) d cov h s = Inr s'"
    and v': "sled_view s' ''blocks'' = (sled_view s ''blocks'')(h \<mapsto> to_bytes write_block_header ?b)"
    by (rule save_block_view [OF h hs, of L "block_transactions blk" d cov])
  have has: "has_block_with_hash s' h' \<longleftrightarrow> h' = h \<or> has_block_with_hash s h'" for h'
    by (simp add: has_block_with_hash_def contains_data_view v')
  have hd: "get_block_header_by_hash s' h' = (if h' = h then Inr ?b else get_block_header_by_hash s h')" for h'
    using block_header_codec.from_bytes_to_bytes [OF b]
    by (simp add: get_block_header_by_hash_def load_from_disk_view v' decode_def)
  have new: "\<not> has_block_with_hash s h" using a by (simp add: accepted_header_def)
  have "stored_dag s'"
    unfolding stored_dag_iff
  proof (intro allI impI)
    fix h' assume "has_block_with_hash s' h'"
    then consider "h' = h" | "has_block_with_hash s h'" "h' \<noteq> h" using has by blast
    then show "\<exists>b. get_block_header_by_hash s' h' = Inr b \<and> (\<forall>t \<in> set (tips b). has_block_with_hash s' t \<and>
        (\<exists>b'. get_block_header_by_hash s' t = Inr b' \<and> height b' < height b))"
    proof cases
      case 1
      with a new show ?thesis by (auto simp: accepted_header_def has hd)
    next
      case 2
      with s new show ?thesis by (fastforce simp: stored_dag_iff has hd)
    qed
  qed
  with a s' has hd show ?thesis by (simp add: sled_parents)
qed

definition sample_genesis :: "(bool, hash, hash) block" where
  "sample_genesis = \<lparr>block_header = block_header_new BlockV0 0 0 [] (replicate 32 0) (replicate 32 2) [], block_transactions = []\<rparr>"

definition sample_chain_view :: "(bool, hash, hash) chain" where
  "sample_chain_view = \<lparr>ch_network = Mainnet, ch_simulator = False, ch_skip_pow = True, ch_height = 0, ch_stable_height = 0,
     ch_time = 0, ch_pow_hash = (\<lambda>_ _. Inl PowHashError), ch_tx_hash = (\<lambda>_. hash_zero)\<rparr>"

lemma genesis_size: "size_block L sample_genesis = 92"
  by (simp add: size_block_def size_block_header_def sample_genesis_def block_header_new_def EXTRA_NONCE_SIZE_def HASH_SIZE_def
      size_point_def size_u64_def RISTRETTO_COMPRESSED_SIZE_def)

lemma genesis_accepted:
  "verify_header sample_chain_view L empty_sled sample_genesis hash_max = Some (Inr (GENESIS_BLOCK_DIFFICULTY, V1_P))"
proof -
  have v: "has_hard_fork_at_height Mainnet 0 = (True, BlockV0)"
    by (simp add: has_hard_fork_at_height_def get_hard_fork_at_height_def get_hard_forks_def HARD_FORKS_def)
  have "check_shape sample_chain_view L empty_sled sample_genesis hash_max = Some (Inr ())"
    unfolding check_shape_def genesis_size
    by (simp add: Let_def sample_chain_view_def sample_genesis_def block_header_new_def get_version_at_height_def v refuse_if_def
        has_block_with_hash_def contains_data_def empty_sled_def MAX_BLOCK_SIZE_def BYTES_PER_KB_def TIMESTAMP_IN_FUTURE_LIMIT_def)
  moreover have "check_height sample_chain_view (sled_provider empty_sled) (block_header sample_genesis) = Some (Inr 0)"
    by (simp add: check_height_def calculate_height_at_tips_def sample_chain_view_def sample_genesis_def block_header_new_def refuse_if_def
        verify_non_reachability_def)
  moreover have "check_difficulty hash_zero GENESIS_BLOCK_DIFFICULTY = Inr True"
    by (simp add: check_difficulty_def compute_difficulty_target_def check_difficulty_against_target_def GENESIS_BLOCK_DIFFICULTY_def
        varuint_from_u64_def u256_max_value_def)
  ultimately show ?thesis
    by (simp add: verify_header_def sample_genesis_def block_header_new_def check_best_tip_def block_pow_hash_def sample_chain_view_def
        verify_proof_of_work_def get_difficulty_at_tips_def calculate_height_at_tips_def v get_covariance_p_def difficulty_result_def)
qed

theorem accepted_block_extends_dag_witness:
  "stored_dag empty_sled \<and> (\<exists>s'. save_block sample_libs (block_header sample_genesis) [] GENESIS_BLOCK_DIFFICULTY V1_P hash_max empty_sled = Inr s' \<and>
     stored_dag s' \<and> has_block_with_hash s' hash_max)"
proof -
  have s: "stored_dag empty_sled"
    by (simp add: stored_dag_iff has_block_with_hash_def contains_data_def empty_sled_def)
  have b: "block_header_ok (block_header sample_genesis)"
    by (simp add: sample_genesis_def block_header_new_def block_header_ok_def EXTRA_NONCE_SIZE_def point_ok_def RISTRETTO_COMPRESSED_SIZE_def)
  have h: "hash_ok hash_max" by (simp add: hash_ok_def hash_max_def)
  have hs: "stored_at empty_sled (height (block_header sample_genesis)) []"
    by (simp add: stored_at_def has_blocks_at_height_def contains_data_def empty_sled_def)
  have "block_transactions sample_genesis = []" by (simp add: sample_genesis_def)
  with accepted_block_extends_dag [OF s genesis_accepted b h hs, of sample_libs] s show ?thesis by auto
qed

text \<open>
  what is left to verify after the checks of the transactions of a block. When they pass, the header
  names the transactions in order, each by its hash, and none is too big. A transaction that was executed
  before was executed above the stable height and is not among the executed ones of the recent past of
  the block; from block version 2 on no transaction is in the recent past at all. The batch has exactly the transactions
  that no block has executed, in the order of the block.
\<close>

theorem checked_txs_are_new:
  assumes "check_block_txs C L s blk h = Some (Inr batch)"
  shows "length (block_transactions blk) = length (txs_hashes (block_header blk)) \<and> length (block_transactions blk) \<le> 65535 \<and>
    (\<forall>x \<in> set (zip (block_transactions blk) (txs_hashes (block_header blk))). tx_allowed C L s (block_header blk) x) \<and>
    batch = filter (\<lambda>x. \<not> is_tx_executed_in_a_block s (snd x)) (zip (block_transactions blk) (txs_hashes (block_header blk)))"
proof -
  let ?xs = "zip (block_transactions blk) (txs_hashes (block_header blk))"
  obtain all where "check_txs C L s (block_header blk) h ?xs (None, []) = Some (Inr (all, batch))"
    and "length (block_transactions blk) = length (txs_hashes (block_header blk))" "length (block_transactions blk) \<le> 65535"
    using assms by (auto simp: check_block_txs_def Let_def result_simps)
  moreover have "parents_loaded C s (block_header blk) None" by (simp add: parents_loaded_def)
  ultimately show ?thesis using check_txs_allowed [of C s "block_header blk" None L h ?xs "[]" all batch] by simp
qed

theorem checked_txs_are_new_witness:
  "check_block_txs sample_chain_view sample_libs empty_sled sample_genesis hash_max = Some (Inr []) \<and>
   length (block_transactions sample_genesis) = length (txs_hashes (block_header sample_genesis))"
proof -
  have "check_block_txs sample_chain_view sample_libs empty_sled sample_genesis hash_max = Some (Inr [])"
    by (simp add: check_block_txs_def sample_genesis_def block_header_new_def refuse_if_def Let_def)
  with checked_txs_are_new [OF this] show ?thesis by blast
qed

text \<open>
  the transactions of an account are verified together. In whatever order the hash map hands out
  the groups, the batches of the threads, at most as many as there are threads, have every transaction exactly once,
  and for every source one batch has all of its transactions in the order of the block, the others none.
\<close>

theorem batches_keep_sources:
  assumes gs: "mset gs = mset (txs_grouped batch)" and n: "threads > 0" "batch \<noteq> []"
    and bs: "bs = make_batches threads (map snd gs)"
  shows "length bs \<le> threads \<and> mset (concat bs) = mset batch \<and>
    (\<exists>m < length bs. \<forall>j < length bs. of_source k (bs ! j) = (if j = m then of_source k batch else []))"
proof -
  let ?n = "min (length gs) threads"
  note g = groups_any_order [OF gs]
  have ne: "gs \<noteq> []" using mset_concat_groups [of batch] mset_concat_cong [OF gs, of snd] n(2) by auto
  have bs': "bs = fill_batches ?n 0 (map snd gs) (replicate ?n [])" by (simp add: bs make_batches_def Let_def)
  have pos: "?n > 0" "length (replicate ?n ([] :: (('a, 'b, 'c) transaction \<times> hash) list)) = ?n" using ne n(1) by auto
  have "mset (concat bs) = mset batch"
    using mset_fill_batches [OF pos, of 0 "map snd gs"] mset_concat_cong [OF gs, of snd] mset_concat_groups [of batch] by (simp add: bs')
  moreover have "\<exists>m < ?n. \<forall>j < ?n. of_source k (bs ! j) = (if j = m then of_source k batch else [])"
  proof (cases "of_source k batch = []")
    case True
    then have "\<forall>g \<in> set (map snd gs). of_source k g = []" using g(2) by (auto simp: filter_empty_conv)
    with True fill_batches_other [OF pos] show ?thesis using pos(1) by (auto simp: bs')
  next
    case False
    have "of_source k (of_source k batch) \<noteq> []" using False by simp
    from fill_batches_one [OF pos group_of_source [OF gs False] this, of 0] show ?thesis by (auto simp: bs')
  qed
  ultimately show ?thesis by (simp add: bs')
qed

text \<open>Two accounts and two threads.\<close>

theorem batches_keep_sources_witness:
  "make_batches 2 [[(sample_tx, hash_zero), (sample_tx, hash_max)], [(sample_tx\<lparr>tx_source := replicate 32 9\<rparr>, sample_block 1)]] =
     [[(sample_tx, hash_zero), (sample_tx, hash_max)], [(sample_tx\<lparr>tx_source := replicate 32 9\<rparr>, sample_block 1)]] \<and>
   mset (concat (make_batches 2 (map snd (txs_grouped [(sample_tx, hash_zero), (sample_tx\<lparr>tx_source := replicate 32 9\<rparr>, sample_block 1),
     (sample_tx, hash_max)])))) = {#(sample_tx, hash_zero), (sample_tx\<lparr>tx_source := replicate 32 9\<rparr>, sample_block 1), (sample_tx, hash_max)#}"
proof
  show "mset (concat (make_batches 2 (map snd (txs_grouped [(sample_tx, hash_zero), (sample_tx\<lparr>tx_source := replicate 32 9\<rparr>, sample_block 1),
     (sample_tx, hash_max)])))) = {#(sample_tx, hash_zero), (sample_tx\<lparr>tx_source := replicate 32 9\<rparr>, sample_block 1), (sample_tx, hash_max)#}"
    using batches_keep_sources [OF refl _ _ refl, of 2 "[(sample_tx, hash_zero), (sample_tx\<lparr>tx_source := replicate 32 9\<rparr>, sample_block 1),
      (sample_tx, hash_max)]"] by simp
qed (simp add: make_batches_def)

end
