(* ===== verification/Tx_Selector.thy ===== *)
theory Tx_Selector
  imports Transaction "HOL-Library.Multiset"
begin

text \<open>
  The selection of transactions for a block template (\<open>daemon/core/tx_selector.rs\<close>): the waiting
  transactions are grouped by sender, each group ordered by nonce, and the groups wait in a binary
  heap ordered by the fee of their first transaction. The heap is the bag of its groups; \<open>pop\<close>
  takes some group with a greatest fee, so that \<open>next\<close> is a step relation: which of several
  greatest groups comes first depends on the layout of the heap.
\<close>

section \<open>Entries, groups and the heap\<close>

record ('s, 'r, 'o) tx_selector_entry =
  se_hash :: hash
  se_tx :: "('s, 'r, 'o) transaction"
  se_size :: nat

type_synonym ('s, 'r, 'o) tx_group = "('s, 'r, 'o) tx_selector_entry list"
type_synonym ('s, 'r, 'o) tx_selector = "('s, 'r, 'o) tx_group list"

definition se_source :: "('s, 'r, 'o) tx_selector_entry \<Rightarrow> compressed_public_key" where
  "se_source e = tx_source (se_tx e)"

definition se_nonce :: "('s, 'r, 'o) tx_selector_entry \<Rightarrow> nonce" where
  "se_nonce e = tx_nonce (se_tx e)"

definition se_fee :: "('s, 'r, 'o) tx_selector_entry \<Rightarrow> u64" where
  "se_fee e = tx_fee (se_tx e)"

text \<open>The order of the groups: the fee of the first transaction, \<open>None\<close> below every fee.\<close>

fun front_fee :: "('s, 'r, 'o) tx_group \<Rightarrow> u64 option" where
  "front_fee [] = None"
| "front_fee (e # _) = Some (se_fee e)"

fun fee_le :: "u64 option \<Rightarrow> u64 option \<Rightarrow> bool" where
  "fee_le None _ = True"
| "fee_le (Some a) None = False"
| "fee_le (Some a) (Some b) = (a \<le> b)"

definition selector_grouped :: "('s, 'r, 'o) tx_group list \<Rightarrow> ('s, 'r, 'o) tx_selector" where
  "selector_grouped groups = groups"

definition push_group :: "('s, 'r, 'o) tx_group \<Rightarrow> ('s, 'r, 'o) tx_selector \<Rightarrow> ('s, 'r, 'o) tx_selector" where
  "push_group g q = g # q"

fun add_to_groups ::
  "('s, 'r, 'o) tx_selector_entry \<Rightarrow> (compressed_public_key \<times> ('s, 'r, 'o) tx_group) list \<Rightarrow>
     (compressed_public_key \<times> ('s, 'r, 'o) tx_group) list" where
  "add_to_groups e [] = [(se_source e, [e])]"
| "add_to_groups e ((k, g) # groups) =
     (if k = se_source e then (k, g @ [e]) # groups else (k, g) # add_to_groups e groups)"

definition selector_new :: "('s, 'r, 'o) tx_selector_entry list \<Rightarrow> ('s, 'r, 'o) tx_selector" where
  "selector_new entries = selector_grouped
     (map (\<lambda>(_, g). sort_key se_nonce g) (foldl (\<lambda>gs e. add_to_groups e gs) [] entries))"

definition selector_is_empty :: "('s, 'r, 'o) tx_selector \<Rightarrow> bool" where
  "selector_is_empty q \<longleftrightarrow> q = []"

text \<open>\<open>BinaryHeap::pop\<close>: any group that no other exceeds may come out.\<close>

definition heap_pops ::
  "('s, 'r, 'o) tx_selector \<Rightarrow> ('s, 'r, 'o) tx_group \<Rightarrow> ('s, 'r, 'o) tx_selector \<Rightarrow> bool" where
  "heap_pops q g q' \<longleftrightarrow> (\<exists>i < length q. g = q ! i \<and> q' = take i q @ drop (Suc i) q \<and>
     (\<forall>h \<in> set q. fee_le (front_fee h) (front_fee g)))"

inductive selector_next ::
  "('s, 'r, 'o) tx_selector \<Rightarrow> ('s, 'r, 'o) tx_selector_entry option \<Rightarrow> ('s, 'r, 'o) tx_selector \<Rightarrow> bool"
where
  next_empty: "selector_next [] None []"
| next_empty_group: "heap_pops q [] q' \<Longrightarrow> selector_next q None q'"
| next_entry: "heap_pops q (e # g) q' \<Longrightarrow>
    selector_next q (Some e) (if g \<noteq> [] then push_group g q' else q')"

inductive_cases selector_next_Some: "selector_next q (Some e) q'"
inductive_cases selector_next_None: "selector_next q None q'"

text \<open>The loop \<open>while let Some(e) = tx_selector.next()\<close>, run until the selector gives nothing.\<close>

inductive selector_run ::
  "('s, 'r, 'o) tx_selector \<Rightarrow> ('s, 'r, 'o) tx_selector_entry list \<Rightarrow> bool" where
  run_done: "selector_next q None q' \<Longrightarrow> selector_run q []"
| run_step: "selector_next q (Some e) q' \<Longrightarrow> selector_run q' es \<Longrightarrow> selector_run q (e # es)"

section \<open>Steps\<close>

lemma heap_pops_mset: "heap_pops q g q' \<Longrightarrow> mset q = add_mset g (mset q')"
  by (auto simp: heap_pops_def) (metis id_take_nth_drop mset.simps(2) mset_append union_mset_add_mset_right)

lemma heap_pops_greatest: "heap_pops q g q' \<Longrightarrow> h \<in> set q \<Longrightarrow> fee_le (front_fee h) (front_fee g)"
  by (auto simp: heap_pops_def)

lemma fee_le_total: "fee_le a b \<or> fee_le b a"
  by (cases a; cases b) auto

lemma fee_le_trans: "fee_le a b \<Longrightarrow> fee_le b c \<Longrightarrow> fee_le a c"
  by (cases a; cases b; cases c) auto

lemma greatest_exists: "q \<noteq> [] \<Longrightarrow> \<exists>g \<in> set q. \<forall>h \<in> set q. fee_le (front_fee h) (front_fee g)"
proof (induction q rule: list_nonempty_induct)
  case (cons g q)
  then obtain g' where g': "g' \<in> set q" "\<forall>h \<in> set q. fee_le (front_fee h) (front_fee g')" by blast
  have "fee_le a a" for a using fee_le_total [of a a] by simp
  with g' show ?case
    using fee_le_total [of "front_fee g" "front_fee g'"] by (auto intro: fee_le_trans)
qed (use fee_le_total in auto)

lemma heap_pops_exists: "q \<noteq> [] \<Longrightarrow> \<exists>g q'. heap_pops q g q'"
  using greatest_exists [of q] by (auto simp: heap_pops_def in_set_conv_nth)

lemma selector_next_exists: "\<exists>m q'. selector_next q m q'"
proof (cases "q = []")
  case False
  then obtain g q' where "heap_pops q g q'" using heap_pops_exists by blast
  then show ?thesis by (cases g) (auto intro: selector_next.intros)
qed (auto intro: selector_next.intros)

lemma fee_le_None [simp]: "fee_le (front_fee g) None \<longleftrightarrow> g = []"
  by (cases g) auto

lemma selector_next_None_empty: "selector_next q None q' \<Longrightarrow> concat q = []"
  by (erule selector_next_None) (auto dest!: heap_pops_greatest)

lemma mset_concat_sum: "mset (concat q) = sum_mset (image_mset mset (mset q))"
  by (induction q) auto

lemma selector_next_mset:
  "selector_next q (Some e) q' \<Longrightarrow> mset (concat q) = add_mset e (mset (concat q'))"
  by (erule selector_next_Some)
     (auto dest!: heap_pops_mset simp: mset_concat_sum push_group_def)

lemma selector_run_exists: "\<exists>es. selector_run q es"
proof (induction "length (concat q)" arbitrary: q rule: less_induct)
  case less
  obtain m q' where n: "selector_next q m q'" using selector_next_exists by blast
  show ?case
  proof (cases m)
    case (Some e)
    then have "length (concat q') < length (concat q)"
      using n selector_next_mset by (metis lessI size_add_mset size_mset)
    then show ?thesis using less n Some by (blast intro: run_step)
  qed (use n in \<open>blast intro: run_done\<close>)
qed

lemma selector_run_mset: "selector_run q es \<Longrightarrow> mset es = mset (concat q)"
  by (induction rule: selector_run.induct)
     (auto dest: selector_next_None_empty selector_next_mset simp del: concat_eq_Nil_conv)

section \<open>Senders\<close>

definition same_source :: "('s, 'r, 'o) tx_group \<Rightarrow> bool" where
  "same_source g \<longleftrightarrow> (\<forall>e \<in> set g. se_source e = se_source (hd g))"

definition group_of ::
  "compressed_public_key \<Rightarrow> ('s, 'r, 'o) tx_selector_entry list \<Rightarrow> ('s, 'r, 'o) tx_group" where
  "group_of k es = filter (\<lambda>e. se_source e = k) es"

text \<open>The groups that wait for the sender \<open>k\<close>: the group \<open>g\<close> only, or none when \<open>g\<close> is empty.\<close>

definition pending ::
  "('s, 'r, 'o) tx_selector \<Rightarrow> compressed_public_key \<Rightarrow> ('s, 'r, 'o) tx_group \<Rightarrow> bool" where
  "pending q k g \<longleftrightarrow> (\<forall>h \<in> set q. same_source h) \<and>
     {#h \<in># mset q. h \<noteq> [] \<and> se_source (hd h) = k#} = (if g = [] then {#} else {#g#})"

lemma pending_next:
  assumes n: "selector_next q (Some e) q'" and p: "pending q k g"
  shows "if se_source e = k then g \<noteq> [] \<and> hd g = e \<and> pending q' k (tl g) else pending q' k g"
proof -
  from n obtain r q1 where pop: "heap_pops q (e # r) q1"
    and q': "q' = (if r \<noteq> [] then push_group r q1 else q1)" by (rule selector_next_Some)
  have q: "mset q = add_mset (e # r) (mset q1)" using pop by (rule heap_pops_mset)
  have set: "set q = insert (e # r) (set q1)" using q by (metis set_mset_add_mset_insert set_mset_mset)
  have same: "\<forall>h \<in> set q. same_source h" using p by (simp add: pending_def)
  then have r: "same_source r" "r \<noteq> [] \<Longrightarrow> se_source (hd r) = se_source e"
    using set by (cases r; auto simp: same_source_def)+
  have same': "\<forall>h \<in> set q'. same_source h" using same set r(1) q' by (auto simp: push_group_def)
  have f: "{#h \<in># mset q. h \<noteq> [] \<and> se_source (hd h) = k#} = (if g = [] then {#} else {#g#})"
    using p by (simp add: pending_def)
  show ?thesis
  proof (cases "se_source e = k")
    case True
    then have "g = e # r" "{#h \<in># mset q1. h \<noteq> [] \<and> se_source (hd h) = k#} = {#}"
      using f q by (auto simp: add_mset_eq_single split: if_splits)
    then show ?thesis using True same' q' r(2) by (auto simp: pending_def push_group_def)
  next
    case False
    then show ?thesis using f q same' q' r(2) by (auto simp: pending_def push_group_def)
  qed
qed

lemma selector_run_pending: "selector_run q es \<Longrightarrow> pending q k g \<Longrightarrow> group_of k es = g"
proof (induction arbitrary: g rule: selector_run.induct)
  case (run_done q q')
  have "concat q = []" by (rule selector_next_None_empty [OF run_done(1)])
  then have "{#h \<in># mset q. h \<noteq> [] \<and> se_source (hd h) = k#} = {#}"
    by (auto simp: filter_mset_eq_conv)
  with run_done show ?case by (auto simp: pending_def group_of_def split: if_splits)
next
  case (run_step q e q' es)
  with pending_next [OF run_step(1,4)] show ?case
    by (cases "se_source e = k") (auto simp: group_of_def)
qed

section \<open>Grouping\<close>

definition groups_by_source ::
  "('s, 'r, 'o) tx_selector_entry list \<Rightarrow> (compressed_public_key \<times> ('s, 'r, 'o) tx_group) list" where
  "groups_by_source es = foldl (\<lambda>gs e. add_to_groups e gs) [] es"

lemma map_of_add_to_groups:
  "map_of (add_to_groups e gs) k =
     (if k = se_source e then Some (case_option [] id (map_of gs k) @ [e]) else map_of gs k)"
  by (induction e gs rule: add_to_groups.induct) auto

lemma keys_add_to_groups:
  "map fst (add_to_groups e gs) =
     map fst gs @ (if se_source e \<in> fst ` set gs then [] else [se_source e])"
  by (induction e gs rule: add_to_groups.induct) (auto simp: rev_image_eqI)

lemma groups_by_source_spec:
  "distinct (map fst (groups_by_source es)) \<and>
   map_of (groups_by_source es) k = (if group_of k es = [] then None else Some (group_of k es))"
proof (induction es arbitrary: k rule: rev_induct)
  case (snoc e es)
  have g: "groups_by_source (es @ [e]) = add_to_groups e (groups_by_source es)"
    by (simp add: groups_by_source_def)
  have "distinct (map fst (groups_by_source (es @ [e])))"
    using snoc [of k] by (simp add: g keys_add_to_groups)
  then show ?case using snoc [of k] by (auto simp: g map_of_add_to_groups group_of_def)
qed (simp add: groups_by_source_def group_of_def)

lemma groups_by_source_entry:
  "(k, g) \<in> set (groups_by_source es) \<Longrightarrow> g = group_of k es \<and> g \<noteq> []"
  using groups_by_source_spec [of es k] map_of_eq_Some_iff [of "groups_by_source es" k g]
  by (auto split: if_splits)

lemma filter_fst_map_of:
  "distinct (map fst gs) \<Longrightarrow>
     filter (\<lambda>p. fst p = k) gs = (case map_of gs k of None \<Rightarrow> [] | Some g \<Rightarrow> [(k, g)])"
  by (induction gs) (auto simp: filter_empty_conv rev_image_eqI split: option.splits
      dest: map_of_SomeD)

lemma sort_key_Nil_iff: "sort_key f xs = [] \<longleftrightarrow> xs = []"
  by (metis length_0_conv length_sort)

lemma pending_new: "pending (selector_new es) k (sort_key se_nonce (group_of k es))"
proof -
  let ?gs = "groups_by_source es" and ?sort = "\<lambda>p. sort_key se_nonce (snd p)"
  have q: "selector_new es = map ?sort ?gs"
    by (simp add: selector_new_def selector_grouped_def groups_by_source_def case_prod_unfold)
  have src: "\<forall>e \<in> set (?sort p). se_source e = fst p" "?sort p \<noteq> []" if "p \<in> set ?gs" for p
    using groups_by_source_entry [of "fst p" "snd p" es] that
    by (auto simp: group_of_def sort_key_Nil_iff)
  have hd_src: "se_source (hd (?sort p)) = fst p" if "p \<in> set ?gs" for p
    using src [OF that] hd_in_set by blast
  have "\<forall>h \<in> set (selector_new es). same_source h"
    using src(1) hd_src by (auto simp: q same_source_def)
  moreover have "filter (\<lambda>h. h \<noteq> [] \<and> se_source (hd h) = k) (selector_new es) =
      map ?sort (filter (\<lambda>p. fst p = k) ?gs)"
    using src(2) hd_src by (auto simp: q filter_map intro!: filter_cong arg_cong [where f = "map _"])
  moreover have "map ?sort (filter (\<lambda>p. fst p = k) ?gs) =
      (if group_of k es = [] then [] else [sort_key se_nonce (group_of k es)])"
    using groups_by_source_spec [of es k] by (simp add: filter_fst_map_of)
  ultimately show ?thesis
    by (simp add: pending_def sort_key_Nil_iff flip: mset_filter)
qed

lemma selector_new_mset:
  fixes es :: "('s, 'r, 'o) tx_selector_entry list"
  shows "mset (concat (selector_new es)) = mset es"
proof (rule multiset_eqI)
  fix e :: "('s, 'r, 'o) tx_selector_entry"
  have run: "mset es' = mset (concat (selector_new es))" "group_of k es' = sort_key se_nonce (group_of k es)"
    if "selector_run (selector_new es) es'" for es' k
    using that selector_run_mset selector_run_pending pending_new by blast+
  obtain es' where es': "selector_run (selector_new es) es'" using selector_run_exists by blast
  have "count (mset xs) e = count (mset (group_of (se_source e) xs)) e"
    for xs :: "('s, 'r, 'o) tx_selector_entry list"
    by (simp add: group_of_def)
  with run [OF es'] show "count (mset (concat (selector_new es))) e = count (mset es) e"
    by (metis mset_sort)
qed

text \<open>
  C16: selecting transactions always comes to an end, and every run takes out exactly the
  transactions that were put in: none is lost and none comes twice, whatever the heap does among
  equal fees. The transactions of each sender come out in the order of their nonces. Each
  transaction taken has the highest fee among the first ones of the senders.
\<close>

theorem selector_fair:
  fixes entries :: "('s, 'r, 'o) tx_selector_entry list"
  shows "(\<exists>out. selector_run (selector_new entries) out) \<and>
    (\<forall>out. selector_run (selector_new entries) out \<longrightarrow>
       mset out = mset entries \<and>
       (\<forall>k. filter (\<lambda>e. se_source e = k) out =
          sort_key se_nonce (filter (\<lambda>e. se_source e = k) entries))) \<and>
    (\<forall>(q :: ('s, 'r, 'o) tx_selector) e q'. selector_next q (Some e) q' \<longrightarrow>
       (\<forall>g \<in> set q. g \<noteq> [] \<longrightarrow> se_fee (hd g) \<le> se_fee e))"
proof (intro conjI allI impI ballI)
  fix q :: "('s, 'r, 'o) tx_selector" and e q' g
  assume "selector_next q (Some e) q'" and g: "g \<in> set q" "g \<noteq> []"
  then obtain r q1 where "heap_pops q (e # r) q1" by (auto elim: selector_next_Some)
  with heap_pops_greatest [OF this g(1)] g(2) show "se_fee (hd g) \<le> se_fee e" by (cases g) auto
next
  fix out and k :: compressed_public_key
  assume "selector_run (selector_new entries) out"
  with selector_run_pending pending_new show "filter (\<lambda>e. se_source e = k) out =
      sort_key se_nonce (filter (\<lambda>e. se_source e = k) entries)"
    unfolding group_of_def by blast
qed (simp_all add: selector_run_exists selector_run_mset selector_new_mset)

theorem selector_fair_witness:
  "\<exists>out. selector_run (selector_new [\<lparr>se_hash = hash_zero, se_tx = sample_tx, se_size = 1\<rparr>]) out \<and>
     mset out = {#\<lparr>se_hash = hash_zero, se_tx = sample_tx, se_size = 1\<rparr>#}"
  using selector_fair [of "[\<lparr>se_hash = hash_zero, se_tx = sample_tx, se_size = 1\<rparr>]"] by auto

end
