(* ===== verification/Full_Order.thy ===== *)
theory Full_Order
  imports Dag_Walk
begin

text \<open>
  The full order of the DAG (\<open>generate_full_order\<close> in \<open>core/blockchain.rs\<close>): the blocks below a tip,
  down to a base that is already ordered, in the order in which the daemon executes them. The code
  is a loop on a stack with re-inserted blocks and a cache of orders that were generated before; the
  specification is the post-order traversal of the DAG, visiting the tips of a block by descending
  cumulative difficulty, with repeated blocks removed.
\<close>

section \<open>The loop\<close>

definition full_order_scores :: "dag_provider \<Rightarrow> u64 \<Rightarrow> hash list \<Rightarrow> blockchain_error + score list" where
  "full_order_scores p base_topo_height ts = fold_result (\<lambda>t scores.
     result_bind (in_scope p base_topo_height t) (\<lambda>b.
       if b then result_bind (cumulative_difficulty_for_block_hash p t) (\<lambda>diff. Inr (scores @ [(t, diff)]))
       else Inr scores)) ts []"

partial_function (option) full_order_loop ::
  "dag_provider \<Rightarrow> (work_key, hash list, 'c) lru \<Rightarrow> hash \<Rightarrow> u64 \<Rightarrow> u64 \<Rightarrow>
   hash list \<Rightarrow> hash list \<Rightarrow> hash list \<Rightarrow> 'c \<Rightarrow> (blockchain_error + hash list \<times> 'c) option" where
  "full_order_loop p l base base_height base_topo_height stack full_order processed c =
     (case stack of
        [] \<Rightarrow> Some (Inr (full_order, c))
      | h # stack' \<Rightarrow>
        if h \<in> set processed
        then full_order_loop p l base base_height base_topo_height stack'
          (snd (index_set_insert h full_order)) processed c
        else
          (case lru_get l (h, base, base_height) c of
             (Some order, c') \<Rightarrow> full_order_loop p l base base_height base_topo_height stack'
               (index_set_extend full_order order) processed c'
           | (None, c') \<Rightarrow>
             (case past_blocks_for_block_hash p h of
                Inl e \<Rightarrow> Some (Inl e)
              | Inr ts \<Rightarrow>
                if ts = [] \<or> h = base
                then full_order_loop p l base base_height base_topo_height stack'
                  (index_set_extend full_order [h]) processed (lru_put l (h, base, base_height) [h] c')
                else
                  (case full_order_scores p base_topo_height ts of
                     Inl e \<Rightarrow> Some (Inl e)
                   | Inr scores \<Rightarrow> full_order_loop p l base base_height base_topo_height
                       (rev (map fst (sort_ascending_by_cumulative_difficulty scores)) @ h # stack')
                       full_order (snd (index_set_insert h processed)) c'))))"

definition generate_full_order ::
  "dag_provider \<Rightarrow> (work_key, hash list, 'c) lru \<Rightarrow> hash \<Rightarrow> hash \<Rightarrow> u64 \<Rightarrow> u64 \<Rightarrow> 'c \<Rightarrow>
   (blockchain_error + hash list \<times> 'c) option" where
  "generate_full_order p l h base base_height base_topo_height c =
     map_option (\<lambda>r. result_bind r (\<lambda>(full_order, c').
       Inr (full_order, lru_put l (h, base, base_height) full_order c')))
     (full_order_loop p l base base_height base_topo_height [h] [] [] c)"

section \<open>The order as a traversal\<close>

text \<open>The tips of a block that are ordered before it, best one first.\<close>

definition order_tips :: "dag_provider \<Rightarrow> hash \<Rightarrow> u64 \<Rightarrow> hash \<Rightarrow> hash list" where
  "order_tips p base bt x =
     (if parents p x = [] \<or> x = base then []
      else map fst (sort_descending_by_cumulative_difficulty
        (map (block_score p) (filter (scoped p bt) (parents p x)))))"

function post_order :: "dag_provider \<Rightarrow> hash \<Rightarrow> u64 \<Rightarrow> hash \<Rightarrow> hash list" where
  "post_order p base bt x =
     concat (map (\<lambda>t. if level p t < level p x then post_order p base bt t else [])
       (order_tips p base bt x)) @ [x]"
  by auto
termination
  by (relation "measure (\<lambda>(p, base, bt, x). level p x)") auto

declare post_order.simps [simp del]

definition order_closed :: "dag_provider \<Rightarrow> hash set \<Rightarrow> bool" where
  "order_closed p S \<longleftrightarrow> dag_closed p S \<and> order_provider_ok p \<and>
     (\<forall>h \<in> S. cumulative_difficulty_for_block_hash p h = Inr (snd (block_score p h)))"

text \<open>The cache holds orders that were generated for the same base.\<close>

definition order_cache_ok ::
  "dag_provider \<Rightarrow> (work_key, hash list, 'c) lru \<Rightarrow> hash \<Rightarrow> u64 \<Rightarrow> u64 \<Rightarrow> 'c \<Rightarrow> bool" where
  "order_cache_ok p l base bh bt c \<longleftrightarrow> (\<forall>x order. lru_has l c (x, base, bh) = Some order \<longrightarrow>
     order = index_set_extend [] (post_order p base bt x))"

lemma set_order_tips:
  "set (order_tips p base bt x) =
     (if x = base then {} else {t \<in> set (parents p x). scoped p bt t})"
proof -
  have "set (sort_descending_by_cumulative_difficulty xs) = set xs" for xs
    by (simp add: sort_descending_by_cumulative_difficulty_def)
  then show ?thesis by (auto simp: order_tips_def block_score_def image_image)
qed

lemma order_tips_lower:
  "dag_closed p S \<Longrightarrow> x \<in> S \<Longrightarrow> t \<in> set (order_tips p base bt x) \<Longrightarrow> t \<in> S \<and> level p t < level p x"
  using dag_closed_parents(3,4) [of p S x t] by (simp add: set_order_tips split: if_splits)

lemma post_order_step:
  assumes "dag_closed p S" "x \<in> S"
  shows "post_order p base bt x =
    concat (map (post_order p base bt) (order_tips p base bt x)) @ [x]"
proof -
  have "map (\<lambda>t. if level p t < level p x then post_order p base bt t else []) (order_tips p base bt x) =
      map (post_order p base bt) (order_tips p base bt x)"
    using order_tips_lower [OF assms] by (intro map_cong) auto
  then show ?thesis by (subst post_order.simps) (simp only:)
qed

lemma ascending_descending: "ascending a b \<longleftrightarrow> descending b a"
  by (auto simp: ascending_def descending_def)

lemma rev_sort_ascending:
  "rev (sort_ascending_by_cumulative_difficulty xs) = sort_descending_by_cumulative_difficulty xs"
proof (rule sorted_wrt_mset_unique [OF descending_antisym])
  have "sorted_wrt ascending (sort_ascending_by_cumulative_difficulty xs)"
    unfolding sort_ascending_by_cumulative_difficulty_def
    by (rule sorted_sort_by; unfold ascending_descending)
       (rule descending_total, erule (1) descending_trans [rotated])
  then show "sorted_wrt descending (rev (sort_ascending_by_cumulative_difficulty xs))"
    by (simp add: sorted_wrt_rev ascending_descending [abs_def])
qed (simp_all add: sort_descending_sorted sort_ascending_by_cumulative_difficulty_def)

lemma full_order_scores_spec:
  assumes "order_closed p S" "set ts \<subseteq> S"
  shows "full_order_scores p bt ts = Inr (map (block_score p) (filter (scoped p bt) ts))"
proof -
  have "fold_result (\<lambda>t scores. result_bind (in_scope p bt t) (\<lambda>b.
       if b then result_bind (cumulative_difficulty_for_block_hash p t) (\<lambda>diff. Inr (scores @ [(t, diff)]))
       else Inr scores)) ts acc =
     (Inr (acc @ map (block_score p) (filter (scoped p bt) ts)) :: blockchain_error + score list)" for acc
    using assms(2)
  proof (induction ts arbitrary: acc)
    case (Cons t ts)
    have "cumulative_difficulty_for_block_hash p t = Inr (snd (block_score p t))"
      "in_scope p bt t = Inr (scoped p bt t)" "fst (block_score p t) = t"
      using assms(1) Cons.prems by (auto simp: order_closed_def in_scope_scoped block_score_def)
    moreover from this have "(t, snd (block_score p t)) = block_score p t" by (simp add: prod_eq_iff)
    ultimately show ?case using Cons by simp
  qed simp
  then show ?thesis by (simp add: full_order_scores_def)
qed

section \<open>The loop computes the traversal\<close>

lemma index_set_extend_append [simp]:
  "index_set_extend xs (ys @ zs) = index_set_extend (index_set_extend xs ys) zs"
  by (simp add: index_set_extend_def)

lemma index_set_extend_absorb: "set ys \<subseteq> set xs \<Longrightarrow> index_set_extend xs ys = xs"
  by (induction ys) (simp_all add: index_set_insert_def)

lemma index_set_extend_idem:
  "index_set_extend xs (index_set_extend zs ys) = index_set_extend (index_set_extend xs zs) ys"
proof (induction ys arbitrary: zs)
  case (Cons y ys)
  have "index_set_extend xs (snd (index_set_insert y zs)) =
      snd (index_set_insert y (index_set_extend xs zs))"
    by (auto simp: index_set_insert_def)
  with Cons show ?case by simp
qed simp

lemma extend_cached [simp]: "index_set_extend xs (index_set_extend [] ys) = index_set_extend xs ys"
  by (simp add: index_set_extend_idem)

text \<open>A set of blocks that has everything that is ordered before its blocks.\<close>

definition order_complete :: "dag_provider \<Rightarrow> hash \<Rightarrow> u64 \<Rightarrow> hash set \<Rightarrow> bool" where
  "order_complete p base bt F \<longleftrightarrow> (\<forall>y \<in> F. set (post_order p base bt y) \<subseteq> F)"

lemma self_in_post_order [simp]: "x \<in> set (post_order p base bt x)"
  by (subst post_order.simps) simp

lemma post_order_complete:
  assumes "dag_closed p S"
  shows "x \<in> S \<Longrightarrow> order_complete p base bt (set (post_order p base bt x)) \<and>
    set (post_order p base bt x) \<subseteq> S"
proof (induction "level p x" arbitrary: x rule: less_induct)
  case less
  note step = post_order_step [OF assms less.prems, of base bt]
  have tips: "order_complete p base bt (set (post_order p base bt t)) \<and> set (post_order p base bt t) \<subseteq> S"
    if "t \<in> set (order_tips p base bt x)" for t
    using less.hyps order_tips_lower [OF assms less.prems that] by blast
  have set: "set (post_order p base bt x) =
      insert x (\<Union>t \<in> set (order_tips p base bt x). set (post_order p base bt t))"
    unfolding step by auto
  show ?case
    unfolding order_complete_def
  proof (intro conjI ballI)
    fix y assume "y \<in> set (post_order p base bt x)"
    then consider "y = x" | t where "t \<in> set (order_tips p base bt x)" "y \<in> set (post_order p base bt t)"
      unfolding set by blast
    then show "set (post_order p base bt y) \<subseteq> set (post_order p base bt x)"
    proof cases
      case 2
      with tips [of t] have "set (post_order p base bt y) \<subseteq> set (post_order p base bt t)"
        by (simp add: order_complete_def)
      with 2(1) show ?thesis unfolding set by blast
    qed simp
  next
    show "set (post_order p base bt x) \<subseteq> S" unfolding set using tips less.prems by auto
  qed
qed

lemma post_order_level:
  assumes "dag_closed p S"
  shows "x \<in> S \<Longrightarrow> y \<in> set (post_order p base bt x) \<Longrightarrow> level p y \<le> level p x"
proof (induction "level p x" arbitrary: x rule: less_induct)
  case less
  then consider "y = x" | t where "t \<in> set (order_tips p base bt x)" "y \<in> set (post_order p base bt t)"
    by (auto simp: post_order_step [OF assms less.prems(1)])
  then show ?case
  proof cases
    case 2
    with order_tips_lower [OF assms less.prems(1)] less.hyps [of t] show ?thesis
      by (meson less_imp_le order.trans)
  qed simp
qed

text \<open>The blocks that the order of a block contains.\<close>

inductive ordered_below :: "dag_provider \<Rightarrow> hash \<Rightarrow> u64 \<Rightarrow> hash \<Rightarrow> hash \<Rightarrow> bool" for p base bt h where
  below_refl: "ordered_below p base bt h h"
| below_tip: "ordered_below p base bt h y \<Longrightarrow> y \<noteq> base \<Longrightarrow> t \<in> set (parents p y) \<Longrightarrow>
    scoped p bt t \<Longrightarrow> ordered_below p base bt h t"

lemma ordered_below_trans:
  "ordered_below p base bt t y \<Longrightarrow> ordered_below p base bt h t \<Longrightarrow> ordered_below p base bt h y"
  by (induction rule: ordered_below.induct) (auto intro: below_tip)

lemma set_post_order:
  assumes "dag_closed p S" "x \<in> S"
  shows "set (post_order p base bt x) = {y. ordered_below p base bt x y}"
proof (intro set_eqI iffI CollectI; (elim CollectE)?)
  fix y
  show "y \<in> set (post_order p base bt x) \<Longrightarrow> ordered_below p base bt x y" using assms(2)
  proof (induction "level p x" arbitrary: x rule: less_induct)
    case less
    then consider "y = x" | t where "t \<in> set (order_tips p base bt x)" "y \<in> set (post_order p base bt t)"
      by (auto simp: post_order_step [OF assms(1) less.prems(2)])
    then show ?case
    proof cases
      case 2
      with order_tips_lower [OF assms(1) less.prems(2)] less.hyps [of t]
      have "ordered_below p base bt t y" by blast
      moreover have "ordered_below p base bt x t"
        using 2(1) by (intro below_tip [OF below_refl]) (auto simp: set_order_tips split: if_splits)
      ultimately show ?thesis by (rule ordered_below_trans)
    qed (simp add: below_refl)
  qed
  show "ordered_below p base bt x y \<Longrightarrow> y \<in> set (post_order p base bt x)"
  proof (induction rule: ordered_below.induct)
    case (below_tip y t)
    have "y \<in> S" using below_tip.IH post_order_complete [OF assms] by blast
    moreover have "t \<in> set (order_tips p base bt y)" using below_tip.hyps by (simp add: set_order_tips)
    ultimately have "t \<in> set (post_order p base bt y)"
      by (auto simp: post_order_step [OF assms(1)] intro: bexI [of _ t])
    with below_tip.IH post_order_complete [OF assms, of base bt] show ?case
      unfolding order_complete_def by blast
  qed simp
qed

lemma order_complete_extend:
  assumes "dag_closed p S" "x \<in> S" "order_complete p base bt (set xs)"
  shows "order_complete p base bt (set (index_set_extend xs (post_order p base bt x)))"
  using post_order_complete [OF assms(1,2), of base bt] assms(3)
  unfolding order_complete_def by (auto simp del: self_in_post_order)

lemma order_cache_put:
  "lru_laws l \<Longrightarrow> order_cache_ok p l base bh bt c \<Longrightarrow>
     order_cache_ok p l base bh bt (lru_put l (x, base, bh) (index_set_extend [] (post_order p base bt x)) c)"
  unfolding order_cache_ok_def lru_laws_def by (metis prod.inject)

lemma order_cache_get:
  assumes "lru_laws l" "order_cache_ok p l base bh bt c" "lru_get l (x, base, bh) c = (v, c')"
  shows "order_cache_ok p l base bh bt c'"
    and "v = Some order \<Longrightarrow> order = index_set_extend [] (post_order p base bt x)"
proof -
  have "lru_has l c k = Some w" if "lru_has l c' k = Some w" for k w
    using assms(1) that assms(3) unfolding lru_laws_def by (metis snd_conv)
  with assms(2) show "order_cache_ok p l base bh bt c'" by (auto simp: order_cache_ok_def)
  show "v = Some order \<Longrightarrow> order = index_set_extend [] (post_order p base bt x)"
    using assms(2,3) by (auto simp: order_cache_ok_def lru_has_def)
qed

text \<open>
  What holds when the loop pops a block: everything that is in the order so far has its past there,
  and a processed block is in the order or still open, which makes it higher than the popped one.
\<close>

definition order_state ::
  "dag_provider \<Rightarrow> (work_key, hash list, 'c) lru \<Rightarrow> hash \<Rightarrow> u64 \<Rightarrow> u64 \<Rightarrow> nat \<Rightarrow> hash list \<Rightarrow> hash list \<Rightarrow> 'c \<Rightarrow> bool"
  where
  "order_state p l base bh bt n fo pr c \<longleftrightarrow> order_complete p base bt (set fo) \<and>
     (\<forall>y \<in> set pr. y \<in> set fo \<or> n < level p y) \<and> order_cache_ok p l base bh bt c"

definition order_result ::
  "dag_provider \<Rightarrow> (work_key, hash list, 'c) lru \<Rightarrow> hash \<Rightarrow> u64 \<Rightarrow> u64 \<Rightarrow> hash list \<Rightarrow>
   hash list \<Rightarrow> hash list \<Rightarrow> hash list \<Rightarrow> 'c \<Rightarrow> bool" where
  "order_result p l base bh bt xs st fo pr c \<longleftrightarrow> (\<exists>pr' c'.
     full_order_loop p l base bh bt (xs @ st) fo pr c =
       full_order_loop p l base bh bt st
         (index_set_extend fo (concat (map (post_order p base bt) xs))) pr' c' \<and>
     set pr \<subseteq> set pr' \<and> set pr' \<subseteq> set pr \<union> set (concat (map (post_order p base bt) xs)) \<and>
     order_cache_ok p l base bh bt c')"

lemma order_result_list:
  assumes "dag_closed p S"
    and one: "\<And>x st fo pr c. x \<in> set xs \<Longrightarrow> order_state p l base bh bt (level p x) fo pr c \<Longrightarrow>
      order_result p l base bh bt [x] st fo pr c"
    and "set xs \<subseteq> S" "\<forall>x \<in> set xs. level p x \<le> n" "order_state p l base bh bt n fo pr c"
  shows "order_result p l base bh bt xs st fo pr c"
  using one assms(3-)
proof (induction xs arbitrary: fo pr c)
  case Nil
  then show ?case by (auto simp: order_result_def order_state_def)
next
  case (Cons x xs)
  let ?fo = "index_set_extend fo (post_order p base bt x)"
  have "order_state p l base bh bt (level p x) fo pr c"
    using Cons.prems(3,4) by (auto simp: order_state_def intro: order.strict_trans1)
  then obtain pr1 c1 where 1: "full_order_loop p l base bh bt (x # xs @ st) fo pr c =
      full_order_loop p l base bh bt (xs @ st) ?fo pr1 c1" "set pr \<subseteq> set pr1"
      "set pr1 \<subseteq> set pr \<union> set (post_order p base bt x)" "order_cache_ok p l base bh bt c1"
    using Cons.prems(1) [of x fo pr c "xs @ st"] by (auto simp: order_result_def)
  have "order_state p l base bh bt n ?fo pr1 c1"
    unfolding order_state_def
  proof (intro conjI ballI)
    show "order_complete p base bt (set ?fo)"
      using Cons.prems(2,4) by (intro order_complete_extend [OF assms(1)]) (auto simp: order_state_def)
  qed (use 1 Cons.prems(4) in \<open>auto simp: order_state_def\<close>)
  with Cons.IH Cons.prems(1-3) have "order_result p l base bh bt xs st ?fo pr1 c1" by auto
  then obtain pr2 c2 where 2: "full_order_loop p l base bh bt (xs @ st) ?fo pr1 c1 =
      full_order_loop p l base bh bt st (index_set_extend ?fo (concat (map (post_order p base bt) xs))) pr2 c2"
      "set pr1 \<subseteq> set pr2" "set pr2 \<subseteq> set pr1 \<union> set (concat (map (post_order p base bt) xs))"
      "order_cache_ok p l base bh bt c2"
    by (auto simp: order_result_def)
  show ?case
    unfolding order_result_def by (rule exI [of _ pr2], rule exI [of _ c2]) (use 1 2 in auto)
qed

lemma order_result_single:
  assumes "full_order_loop p l base bh bt (x # st) fo pr c =
      full_order_loop p l base bh bt st (index_set_extend fo (post_order p base bt x)) pr' c'"
    and "set pr \<subseteq> set pr'" "set pr' \<subseteq> set pr \<union> set (post_order p base bt x)"
    and "order_cache_ok p l base bh bt c'"
  shows "order_result p l base bh bt [x] st fo pr c"
  unfolding order_result_def by (rule exI [of _ pr'], rule exI [of _ c']) (use assms in simp)

lemma order_result_tips:
  assumes "order_closed p S" "x \<in> S" "x \<notin> set pr" "lru_get l (x, base, bh) c = (None, c')"
    and "parents p x \<noteq> []" "x \<noteq> base"
    and tips: "order_result p l base bh bt (order_tips p base bt x) (x # st) fo (pr @ [x]) c'"
  shows "order_result p l base bh bt [x] st fo pr c"
proof -
  have dag: "dag_closed p S" using assms(1) by (simp add: order_closed_def)
  let ?tips = "order_tips p base bt x"
  let ?fo = "index_set_extend fo (concat (map (post_order p base bt) ?tips))"
  obtain pr2 c2 where 2: "full_order_loop p l base bh bt (?tips @ x # st) fo (pr @ [x]) c' =
      full_order_loop p l base bh bt (x # st) ?fo pr2 c2" "set (pr @ [x]) \<subseteq> set pr2"
      "set pr2 \<subseteq> set (pr @ [x]) \<union> set (concat (map (post_order p base bt) ?tips))"
      "order_cache_ok p l base bh bt c2"
    using tips unfolding order_result_def by blast
  have "set (parents p x) \<subseteq> S" using dag_closed_parents(3) [OF dag assms(2)] by blast
  then have scores: "full_order_scores p bt (parents p x) =
      Inr (map (block_score p) (filter (scoped p bt) (parents p x)))"
    by (rule full_order_scores_spec [OF assms(1)])
  have "rev (map fst (sort_ascending_by_cumulative_difficulty
      (map (block_score p) (filter (scoped p bt) (parents p x))))) = ?tips"
    using assms(5,6) by (simp add: rev_map rev_sort_ascending order_tips_def)
  then have step: "full_order_loop p l base bh bt (x # st) fo pr c =
      full_order_loop p l base bh bt (?tips @ x # st) fo (pr @ [x]) c'"
    using assms(3-6) dag_closed_parents(1) [OF dag assms(2)] scores
    by (subst full_order_loop.simps) (simp add: index_set_insert_def)
  have "full_order_loop p l base bh bt (x # st) ?fo pr2 c2 =
      full_order_loop p l base bh bt st (snd (index_set_insert x ?fo)) pr2 c2"
    using 2(2) by (subst full_order_loop.simps) simp
  moreover have "snd (index_set_insert x ?fo) = index_set_extend fo (post_order p base bt x)"
    by (simp add: post_order_step [OF dag assms(2)])
  moreover have "set pr \<subseteq> set pr2 \<and> set pr2 \<subseteq> set pr \<union> set (post_order p base bt x)"
    using 2(2,3) unfolding post_order_step [OF dag assms(2)] by auto
  ultimately have "full_order_loop p l base bh bt (x # st) fo pr c =
      full_order_loop p l base bh bt st (index_set_extend fo (post_order p base bt x)) pr2 c2"
    and "set pr \<subseteq> set pr2" "set pr2 \<subseteq> set pr \<union> set (post_order p base bt x)"
    using step 2(1) by simp_all
  from order_result_single [OF this 2(4)] show ?thesis .
qed

lemma order_result_one:
  assumes "order_closed p S" "lru_laws l"
  shows "x \<in> S \<Longrightarrow> order_state p l base bh bt (level p x) fo pr c \<Longrightarrow>
    order_result p l base bh bt [x] st fo pr c"
proof (induction "level p x" arbitrary: x st fo pr c rule: less_induct)
  case less
  have dag: "dag_closed p S" using assms(1) by (simp add: order_closed_def)
  note cache = less.prems(2) [unfolded order_state_def, THEN conjunct2, THEN conjunct2]
  obtain v c' where get: "lru_get l (x, base, bh) c = (v, c')" by (metis prod.exhaust)
  note cache' = order_cache_get [OF assms(2) cache get]
  consider "x \<in> set pr" | order where "x \<notin> set pr" "v = Some order"
    | "x \<notin> set pr" "v = None" "parents p x = [] \<or> x = base"
    | "x \<notin> set pr" "v = None" "parents p x \<noteq> []" "x \<noteq> base" by (cases v) auto
  then show ?case
  proof cases
    case 1
    then have "x \<in> set fo" using less.prems(2) by (auto simp: order_state_def)
    then have "index_set_extend fo (post_order p base bt x) = fo"
      using less.prems(2) by (intro index_set_extend_absorb) (simp add: order_state_def order_complete_def)
    then have "full_order_loop p l base bh bt (x # st) fo pr c =
        full_order_loop p l base bh bt st (index_set_extend fo (post_order p base bt x)) pr c"
      using 1 \<open>x \<in> set fo\<close> by (subst full_order_loop.simps) (simp add: index_set_insert_def)
    from order_result_single [OF this _ _ cache] show ?thesis by simp
  next
    case 2
    with cache'(2) have "order = index_set_extend [] (post_order p base bt x)" by blast
    then have "full_order_loop p l base bh bt (x # st) fo pr c =
        full_order_loop p l base bh bt st (index_set_extend fo (post_order p base bt x)) pr c'"
      using 2 get by (subst full_order_loop.simps) simp
    from order_result_single [OF this _ _ cache'(1)] show ?thesis by simp
  next
    case 3
    have "order_tips p base bt x = []" using 3(3) by (auto simp: order_tips_def)
    then have po: "post_order p base bt x = [x]" by (simp add: post_order_step [OF dag less.prems(1)])
    have put: "order_cache_ok p l base bh bt (lru_put l (x, base, bh) [x] c')"
      using order_cache_put [OF assms(2) cache'(1), of x] by (simp add: po index_set_insert_def)
    have "full_order_loop p l base bh bt (x # st) fo pr c =
        full_order_loop p l base bh bt st (index_set_extend fo (post_order p base bt x)) pr
          (lru_put l (x, base, bh) [x] c')"
      using 3 get po dag_closed_parents(1) [OF dag less.prems(1)]
      by (subst full_order_loop.simps) auto
    from order_result_single [OF this _ _ put] show ?thesis by simp
  next
    case 4
    have lower: "t \<in> S \<and> level p t < level p x" if "t \<in> set (order_tips p base bt x)" for t
      using order_tips_lower [OF dag less.prems(1) that] .
    have state: "order_state p l base bh bt (level p x - 1) fo (pr @ [x]) c'"
      if "order_tips p base bt x \<noteq> []"
    proof -
      from that have "hd (order_tips p base bt x) \<in> set (order_tips p base bt x)" by simp
      then have "0 < level p x" using lower by fastforce
      then show ?thesis using less.prems(2) cache'(1) by (auto simp: order_state_def)
    qed
    have "order_result p l base bh bt (order_tips p base bt x) (x # st) fo (pr @ [x]) c'"
    proof (cases "order_tips p base bt x = []")
      case True
      then show ?thesis
        unfolding order_result_def
        by (intro exI [of _ "pr @ [x]"] exI [of _ c']) (simp add: cache'(1))
    next
      case False
      show ?thesis
      proof (rule order_result_list [OF dag _ _ _ state [OF False]])
        fix t st fo pr c
        assume "t \<in> set (order_tips p base bt x)" "order_state p l base bh bt (level p t) fo pr c"
        then show "order_result p l base bh bt [t] st fo pr c" using lower less.hyps by blast
      qed (use lower in \<open>auto simp: less_eq_Suc_le le_diff_conv2\<close>, fastforce+)
    qed
    with 4 get show ?thesis by (intro order_result_tips [OF assms(1) less.prems(1)]) simp_all
  qed
qed

section \<open>Properties\<close>

text \<open>A block comes after the tips that are ordered with it.\<close>

definition precedes :: "'a list \<Rightarrow> 'a \<Rightarrow> 'a \<Rightarrow> bool" where
  "precedes xs a b \<longleftrightarrow> (\<exists>ys zs. xs = ys @ b # zs \<and> a \<in> set ys)"

lemma precedes_extend:
  assumes "precedes xs a b"
  shows "precedes (index_set_extend xs ys) a b"
  using assms
proof (induction ys arbitrary: xs)
  case (Cons y ys)
  have "precedes (snd (index_set_insert y xs)) a b"
    using Cons.prems by (auto simp: precedes_def index_set_insert_def) (metis append_Cons append_assoc)
  with Cons.IH show ?case by simp
qed simp

lemma post_order_precedes:
  assumes "dag_closed p S"
  shows "x \<in> S \<Longrightarrow> y \<in> set (post_order p base bt x) \<Longrightarrow> t \<in> set (order_tips p base bt y) \<Longrightarrow>
    y \<notin> set xs \<Longrightarrow> precedes (index_set_extend xs (post_order p base bt x)) t y"
proof (induction "level p x" arbitrary: x xs rule: less_induct)
  case less
  let ?tips = "order_tips p base bt x"
  note step = post_order_step [OF assms less.prems(1), of base bt]
  show ?case
  proof (cases "y \<in> set (concat (map (post_order p base bt) ?tips))")
    case True
    have "\<forall>t \<in> set ?tips. t \<in> S \<and> level p t < level p x"
      using order_tips_lower [OF assms less.prems(1)] by blast
    then have "precedes (index_set_extend xs (concat (map (post_order p base bt) ts))) t y"
      if "y \<in> set (concat (map (post_order p base bt) ts))" "set ts \<subseteq> set ?tips" for ts
      using that less.prems(4)
    proof (induction ts arbitrary: xs)
      case (Cons k ts)
      let ?xs = "index_set_extend xs (post_order p base bt k)"
      show ?case
      proof (cases "y \<in> set (post_order p base bt k)")
        case True
        with Cons.prems have "precedes ?xs t y"
          by (intro less.hyps less.prems(3)) auto
        then show ?thesis by (simp add: precedes_extend)
      next
        case False
        then have "y \<notin> set ?xs" using Cons.prems(4) by simp
        with Cons False show ?thesis by simp
      qed
    qed simp
    from precedes_extend [OF this [OF True order_refl], of "[x]"] show ?thesis
      by (simp add: step)
  next
    case False
    with less.prems(2) have "y = x" by (simp add: step)
    let ?pre = "index_set_extend xs (concat (map (post_order p base bt) ?tips))"
    have "x \<notin> set ?pre" using False less.prems(4) \<open>y = x\<close> by simp
    moreover have "t \<in> set ?pre"
      using less.prems(3) \<open>y = x\<close> self_in_post_order [of t p base bt] by (auto simp del: self_in_post_order)
    ultimately have "precedes (?pre @ [x]) t x" "snd (index_set_insert x ?pre) = ?pre @ [x]"
      unfolding precedes_def index_set_insert_def by (blast, simp)
    then show ?thesis by (simp add: step \<open>y = x\<close>)
  qed
qed

text \<open>
  C12: generating the full order of a tip above a base returns on every DAG, with any cache of orders
  generated before for this base. The order has every block once; the tip comes last; every tip of
  a block that is in scope comes before the block; and the blocks are exactly the tip and what it
  reaches through blocks in scope without crossing the base. The order does not depend on what is
  in the cache, and the cache stays right.
\<close>

theorem generate_full_order_spec:
  assumes "order_closed p S" "h \<in> S" "lru_laws l" "order_cache_ok p l base bh bt c"
  shows "\<exists>c'. generate_full_order p l h base bh bt c =
      Some (Inr (index_set_extend [] (post_order p base bt h), c')) \<and>
    order_cache_ok p l base bh bt c' \<and>
    (let order = index_set_extend [] (post_order p base bt h) in
       distinct order \<and> last order = h \<and> set order = {y. ordered_below p base bt h y} \<and>
       (\<forall>y \<in> set order. \<forall>t \<in> set (order_tips p base bt y). precedes order t y))"
proof -
  let ?order = "index_set_extend [] (post_order p base bt h)"
  have dag: "dag_closed p S" using assms(1) by (simp add: order_closed_def)
  have "order_state p l base bh bt (level p h) [] [] c"
    using assms(4) by (simp add: order_state_def order_complete_def)
  from order_result_one [OF assms(1,3,2) this, of "[]"] obtain pr' c' where
    loop: "full_order_loop p l base bh bt [h] [] [] c = full_order_loop p l base bh bt [] ?order pr' c'"
    and c': "order_cache_ok p l base bh bt c'" by (auto simp: order_result_def)
  have "full_order_loop p l base bh bt [] ?order pr' c' = Some (Inr (?order, c'))"
    by (subst full_order_loop.simps) simp
  with loop have gen: "generate_full_order p l h base bh bt c =
      Some (Inr (?order, lru_put l (h, base, bh) ?order c'))"
    by (simp add: generate_full_order_def)
  have "h \<notin> set (concat (map (post_order p base bt) (order_tips p base bt h)))"
  proof
    assume "h \<in> set (concat (map (post_order p base bt) (order_tips p base bt h)))"
    then obtain t where t: "t \<in> set (order_tips p base bt h)" "h \<in> set (post_order p base bt t)" by auto
    then show False
      using post_order_level [OF dag, of t h base bt] order_tips_lower [OF dag assms(2) t(1)] by auto
  qed
  then have "last ?order = h"
    unfolding post_order_step [OF dag assms(2)] by (simp add: index_set_insert_def)
  moreover have "distinct ?order" by (simp add: distinct_index_set_extend)
  moreover have "precedes ?order t y" if "y \<in> set ?order" "t \<in> set (order_tips p base bt y)" for t y
    using that by (intro post_order_precedes [OF dag assms(2)]) simp_all
  ultimately show ?thesis
    using gen order_cache_put [OF assms(3) c', of h] set_post_order [OF dag assms(2), of base bt]
    by (auto simp: Let_def)
qed

theorem generate_full_order_spec_witness:
  "\<exists>c'. generate_full_order sample_provider map_lru (sample_block 3) (sample_block 0) 0 0 Map.empty =
     Some (Inr ([sample_block 0, sample_block 2, sample_block 1, sample_block 3], c'))"
proof -
  let ?S = "{sample_block 0, sample_block 1, sample_block 2, sample_block 3}"
  let ?tips = "order_tips sample_provider (sample_block 0) 0"
  have closed: "order_closed sample_provider ?S"
    using work_closed_sample by (auto simp: order_closed_def work_closed_def block_score_def sample_provider_def)
  have sc: "scoped sample_provider 0 (sample_block n)" for n
    by (auto simp: scoped_def in_scope_def sample_provider_def)
  have "block_score sample_provider (sample_block (Suc 0)) = (sample_block 1, 7)"
    "block_score sample_provider (sample_block 2) = (sample_block 2, 9)"
    by (simp_all add: block_score_def sample_provider_def)
  then have tips: "?tips (sample_block 3) = [sample_block 2, sample_block 1]"
    "?tips (sample_block (Suc 0)) = [sample_block 0]" "?tips (sample_block 2) = [sample_block 0]"
    "?tips (sample_block 0) = []"
    by (simp_all add: order_tips_def sample_parents sc sort_descending_by_cumulative_difficulty_def
        sort_by_def descending_def block_score_def)
  have dag: "dag_closed sample_provider ?S" by (rule dag_closed_sample)
  have po: "post_order sample_provider (sample_block 0) 0 (sample_block 3) =
      [sample_block 0, sample_block 2, sample_block 0, sample_block 1, sample_block 3]"
    by (simp add: post_order_step [OF dag] tips)
  have "order_cache_ok sample_provider map_lru (sample_block 0) 0 0 Map.empty"
    by (simp add: order_cache_ok_def lru_has_def map_lru_def)
  from generate_full_order_spec [OF closed _ map_lru_laws this, of "sample_block 3"] show ?thesis
    by (auto simp: po index_set_insert_def)
qed

end
