(* ===== verification/Spec2Isabelle.thy ===== *)
theory Spec2Isabelle
  imports Chain_Writes Chain_Totals Block_Execution Block_Checks Mempool Tx_Selector Full_Order
begin

text \<open>
  A model of the XELIS daemon and of the library it shares with the wallet and the miner, translated
  from the Rust sources, with the theorems that make it correct. XELIS is a chain whose blocks form
  a DAG and whose balances are ElGamal ciphertexts. The sources are under \<open>src/xelis_common/src\<close>
  (\<open>common\<close> below) and \<open>src/xelis_daemon/src\<close> (\<open>daemon\<close>).

  \<^bold>\<open>Conventions.\<close> A Rust integer is a word of its width and its operators wrap, as in a release build;
  a \<open>usize\<close> that only counts is a natural number. A struct is a record, an enum a datatype, a
  \<open>Result\<close> a sum whose left side is the error. A panic, and a loop that does not end, is \<open>None\<close>. A
  method that changes its receiver returns the new value. A hash is the list of its 32 bytes
  (\<open>hash_ok\<close>), a string the list of its bytes. \<open>IndexSet\<close> and \<open>IndexMap\<close> are lists in insertion
  order without duplicates; a \<open>HashSet\<close> or \<open>HashMap\<close> whose order does not matter is a list or a set.
  \<open>async\<close> functions are functions: the storage lock serialises them. A trait whose methods change a
  state is a record of state transformers (\<open>action\<close> of \<open>Tx_State\<close>).

  \<^bold>\<open>Parameters.\<close> What is not in the repository is an argument: the curve and its scalars (record
  \<open>curve\<close> of \<open>ElGamal\<close>, with \<open>curve_laws\<close> and \<open>codec_laws\<close>), the hash functions (\<open>hash_fn\<close> and the
  proof-of-work functions of \<open>Block\<close>), the virtual machine (record \<open>vm\<close> of \<open>Contract_Values\<close>, with
  \<open>vm_laws\<close>; the opaque values that \<open>common/contract/opaque\<close> registers with it are among its fields), the bytes of range proofs (record \<open>libs\<close> of \<open>Transaction\<close>, with \<open>libs_laws\<close>) and their
  verification (record \<open>bulletproofs\<close> of \<open>Sigma_Proofs\<close>), the challenges of a transcript (record
  \<open>merlin\<close>), the LRU caches (record \<open>lru\<close> of \<open>Dag\<close>, with \<open>lru_laws\<close>), the semver functions of
  \<open>Versions\<close>. The 256-bit integers of the \<open>primitive_types\<close> crate panic on overflow, as documented
  (\<open>u256_add\<close> and its relatives in \<open>Difficulty\<close>). The laws are hypotheses of the theorems that need
  them and have concrete instances in their witnesses.

  \<^bold>\<open>Theories.\<close>
  \<^item> \<open>Xelis_Prelude\<close>: words, results and loops that may fail, insertion-ordered sets and maps,
    big-endian bytes.
  \<^item> \<open>Serializer\<close>, \<open>Serializer_Defaults\<close> (\<open>common/serializer\<close>, \<open>common/context.rs\<close>,
    \<open>common/crypto/hash.rs\<close>): reader, writer and the serializers of the standard types. The locale
    \<open>codec\<close> is the contract of a serializer (reading what was written gives it back, the announced size
    is right), \<open>canonical_codec\<close> adds that only written bytes are accepted; every serializer of the
    development interprets one of them.
  \<^item> \<open>Versions\<close> (\<open>common/transaction/version.rs\<close>, \<open>common/block/version.rs\<close>, \<open>common/network.rs\<close>,
    \<open>daemon/core/hard_fork.rs\<close>): versions and the hard-fork schedule.
  \<^item> \<open>Difficulty\<close> (\<open>common/varuint.rs\<close>, \<open>common/difficulty.rs\<close>, \<open>daemon/core/difficulty\<close>): the compact
    integers, targets and the two Kalman filters, against a specification on natural numbers.
  \<^item> \<open>Emission\<close> (\<open>common/utils.rs\<close>, the reward functions of \<open>daemon/core/blockchain.rs\<close>): fees, rewards and
    the cap of the supply.
  \<^item> \<open>ElGamal\<close>, \<open>Account\<close> (\<open>common/crypto/elgamal\<close>, \<open>common/account\<close>, \<open>common/versioned_type.rs\<close>):
    commitments, ciphertexts, keys, signatures, the lazily decompressed ciphertext of a balance and
    the versioned records that are stored.
  \<^item> \<open>Codec_Context\<close>, \<open>Contract_Values\<close>, \<open>Transaction\<close> (\<open>common/transaction\<close>, the serializers of
    \<open>common/crypto/proofs\<close>): transactions of every kind with their payloads, proofs, contract values and
    modules. Their readers depend on the transaction version in the reader's context, so their contract
    is the locale \<open>codec_in\<close>; what a reader accepts is derived with the rules of \<open>yields\<close>.
  \<^item> \<open>Sigma_Proofs\<close> (\<open>common/crypto/transcript.rs\<close>, \<open>common/crypto/proofs\<close>): the proofs about commitments
    and ciphertexts. Which equations over the points of a proof the batch check amounts to, what
    accepted answers bind when they are fixed before the weight (special soundness), that an honest
    prover is accepted, and that the equality proof can be forged because its weight is drawn before
    the answers.
  \<^item> \<open>Tx_State\<close>, \<open>Tx_Verify\<close> (\<open>common/transaction/verify\<close>): the traits a transaction is verified and
    applied on, and the whole of verification and application; what is charged against what is spent.
  \<^item> \<open>Tx_Accounts\<close>: the locale \<open>account_state\<close>, what verification relies on of a state (nonces and
    sender balances are loaded once, from a given source, and are what was last stored), and what a
    verified transaction or batch then does to the accounts, proved once in the locale.
  \<^item> \<open>State_Storage\<close>, \<open>Mempool_State\<close>, \<open>Mempool\<close> (\<open>daemon/core/state\<close>, \<open>daemon/core/mempool.rs\<close>): the fee and
    reference checks, the state of a transaction that enters the mempool (an interpretation of
    \<open>account_state\<close>), and the mempool with the invariant that the transactions of a sender are a run of
    consecutive nonces, kept by entry and clean-up.
  \<^item> \<open>Asset\<close>, \<open>Chain_State\<close>, \<open>Chain_Apply\<close> (\<open>common/asset.rs\<close>, \<open>daemon/core/state/chain_state\<close>): assets; the state
    that the transactions of a block are verified on (the second interpretation of \<open>account_state\<close>) and its
    extension that executes them; what is written to the storage at the end.
  \<^item> \<open>Chain_Ledger\<close>, \<open>Chain_Writes\<close>: the abstract specification of these states, one balance per account
    and asset. Executing a transfer, burn or multisig setup with \<open>apply_with_partial_verify\<close>, as blocks do,
    refines a move of the ledger, \<open>chain_inv\<close> is kept whether a transaction succeeds or fails, and the
    versions that are written are the ledger.
  \<^item> \<open>Chain_Totals\<close>: the total of the balances of an asset, in commitments; such a transaction conserves it
    but for its fee and what it burns.
  \<^item> \<open>Block_Execution\<close> (the execution loop of \<open>add_new_block_for_storage\<close> in \<open>daemon/core/blockchain.rs\<close>):
    the transactions of a block on the states above, each admitted by the nonce checker, then the
    rewards. A transaction ends up executed in one block or orphaned, never both.
  \<^item> \<open>Queue\<close>, \<open>Nonce_Checker\<close>, \<open>Tx_Selector\<close> (\<open>common/queue.rs\<close>, \<open>daemon/core/nonce_checker.rs\<close>,
    \<open>daemon/core/tx_selector.rs\<close>): the queue of pending requests against a list (locale \<open>fifo_map\<close>), the
    nonces used while blocks are executed, and the order in which a block template takes transactions, as
    a step relation.
  \<^item> \<open>Block\<close> (\<open>common/block\<close>): header, miner job and worker, and that mining in place produces the
    serialized header.
  \<^item> \<open>Snapshot\<close>, \<open>Providers\<close> (\<open>daemon/core/storage\<close>): batches, snapshots and commit points over the
    disk, with the view that reads refine; the topological order and the blocks at a height. The
    locale \<open>order_provider\<close> is what the consensus code relies on, interpreted on the storage.
  \<^item> \<open>Dag\<close>, \<open>Dag_Walk\<close> (\<open>daemon/core/blockdag.rs\<close>, the DAG part of \<open>daemon/core/blockchain.rs\<close>): tips,
    heights, sync blocks, bases; reachability, distance and work scores as loops on a stack, with
    proofs that they end on every DAG and what they compute.
  \<^item> \<open>Full_Order\<close> (\<open>generate_full_order\<close> of \<open>daemon/core/blockchain.rs\<close>): the loop that orders the DAG is
    the post-order traversal of the unordered past, whatever its caches hold.
  \<^item> \<open>Chain_Rules\<close> (\<open>daemon/core/blockchain.rs\<close>): tip validation, the difficulty and proof of work at tips,
    side blocks and their reward, the transactions of a block's recent past, pruning.
  \<^item> \<open>Block_Store\<close> (\<open>common/block/block.rs\<close>, the providers of blocks, transactions, executed transactions and
    the execution order in \<open>daemon/core/storage\<close>): a saved block is found with its transactions, a deleted
    one is gone, everything else stays.
  \<^item> \<open>Block_Checks\<close> (\<open>add_new_block_for_storage\<close>, up to the verification of the transactions): the checks of
    a header and of the transactions it names, and the batches of the verifying threads. An accepted
    block keeps the stored blocks a DAG, which is what the walks of \<open>Dag_Walk\<close> rely on.

  \<^bold>\<open>Bounds.\<close> The recursive readers of contract values take a nesting depth, one more than the bytes
  ahead; it is never used up (\<open>read_fuel_enough\<close>). The stack of the calls is not modelled: the program
  has no limit of the depth, and \<open>value_cell_reader\<close> shows how deep an input makes it. No other theorem
  uses fuel: a loop that may not end is a \<open>partial_function\<close> to an option, and the theorems state that
  it returns \<open>Some\<close>. The walks end because a block is higher than its tips (\<open>dag_closed\<close>), which the
  consensus checks when a block is added.

  \<^bold>\<open>Not modelled.\<close> The wallet, the miner and the RPC servers (input and output around the modelled
  library), the network tasks, the contract virtual machine (a package outside the repository), and of
  adding a block the reordering of the chain between its checks and its execution.
\<close>

end
